(* ===== verification/Prelude.thy ===== *)
theory Prelude
  imports
    Main
    "HOL-Library.AList"
    "HOL-Library.Char_ord"
    "HOL-Library.List_Lexorder"
    "HOL-Library.Multiset"
    "HOL-Library.Word"
begin

text \<open>
  What the components share: the parts of the Go language and of its standard library that the
  modelled packages use, as executable definitions, and the lemmas about them.

  \<^item> A Go map is an association list (\<open>gomap\<close>). Its order stands for the iteration order, which Go
    leaves open; every theorem quantifies over the list, so over the order too.
  \<^item> \<open>sort.SliceStable\<close> and \<open>sort.Slice\<close> are \<open>sortSliceStable\<close>, insertion by a comparator;
    \<open>sort.Strings\<close> is \<open>sort\<close> on the byte-wise order of strings. The locale \<open>strict_weak_order\<close>
    is the contract Go asks of a comparator, and its lemmas are what a caller of the sort relies on.
  \<^item> An instant (\<open>time.Time\<close>) is a number of nanoseconds since Go's zero time, January 1 of year 1
    UTC; the zero value is 0. A \<open>time.Duration\<close> is a number of nanoseconds.
  \<^item> \<open>fmt\<close>, \<open>strings\<close>: decimal numbers, joins, prefixes, the \<open>String\<close> method of a duration and the
    RFC3339 form of an instant. A string is its bytes.
  Counters are unbounded integers: they count sessions, slots and tokens, far below 64 bits.
\<close>

named_theorems go_simps \<open>evaluation and frame facts about the Go runtime definitions\<close>

section \<open>Maps\<close>

type_synonym ('k, 'v) gomap = "('k \<times> 'v) list"

definition mapGet :: "('k, 'v) gomap \<Rightarrow> 'k \<Rightarrow> 'v option" where
  "mapGet m k = map_of m k"

definition mapGetOr :: "'v \<Rightarrow> ('k, 'v) gomap \<Rightarrow> 'k \<Rightarrow> 'v" where
  "mapGetOr d m k = (case mapGet m k of None \<Rightarrow> d | Some v \<Rightarrow> v)"

definition mapHas :: "('k, 'v) gomap \<Rightarrow> 'k \<Rightarrow> bool" where
  "mapHas m k \<longleftrightarrow> mapGet m k \<noteq> None"

definition mapSet :: "('k, 'v) gomap \<Rightarrow> 'k \<Rightarrow> 'v \<Rightarrow> ('k, 'v) gomap" where
  "mapSet m k v = AList.update k v m"

definition mapDelete :: "('k, 'v) gomap \<Rightarrow> 'k \<Rightarrow> ('k, 'v) gomap" where
  "mapDelete m k = AList.delete k m"

definition mapKeys :: "('k, 'v) gomap \<Rightarrow> 'k list" where
  "mapKeys m = map fst m"

text \<open>A Go map has one entry per key: the well-formedness of the representation.\<close>

definition wf_map :: "('k, 'v) gomap \<Rightarrow> bool" where
  "wf_map m \<longleftrightarrow> distinct (map fst m)"

lemma wf_map_Nil [simp]: "wf_map []"
  by (simp add: wf_map_def)

lemma mapGet_Nil [simp]: "mapGet [] k = None"
  by (simp add: mapGet_def)

lemma mapGet_set [simp]:
  "mapGet (mapSet m k v) k' = (if k' = k then Some v else mapGet m k')"
  by (simp add: mapGet_def mapSet_def update_conv')

lemma mapGet_delete [simp]:
  "mapGet (mapDelete m k) k' = (if k' = k then None else mapGet m k')"
  by (simp add: mapGet_def mapDelete_def delete_conv')

lemma mapGetOr_set [simp]:
  "mapGetOr d (mapSet m k v) k' = (if k' = k then v else mapGetOr d m k')"
  by (simp add: mapGetOr_def)

lemma mapGetOr_delete [simp]:
  "mapGetOr d (mapDelete m k) k' = (if k' = k then d else mapGetOr d m k')"
  by (simp add: mapGetOr_def)

lemma mapHas_set [simp]: "mapHas (mapSet m k v) k' \<longleftrightarrow> k' = k \<or> mapHas m k'"
  by (simp add: mapHas_def)

lemma mapHas_delete [simp]: "mapHas (mapDelete m k) k' \<longleftrightarrow> k' \<noteq> k \<and> mapHas m k'"
  by (simp add: mapHas_def)

lemma wf_mapSet [simp]: "wf_map m \<Longrightarrow> wf_map (mapSet m k v)"
  by (simp add: wf_map_def mapSet_def distinct_update)

lemma wf_mapDelete [simp]: "wf_map m \<Longrightarrow> wf_map (mapDelete m k)"
  by (simp add: wf_map_def mapDelete_def distinct_delete)

lemma mapHas_keys: "mapHas m k \<longleftrightarrow> k \<in> set (mapKeys m)"
  by (auto simp: mapHas_def mapGet_def mapKeys_def map_of_eq_None_iff dom_map_of_conv_image_fst)

lemma wf_map_mem: "wf_map m \<Longrightarrow> (k, v) \<in> set m \<longleftrightarrow> mapGet m k = Some v"
  by (simp add: wf_map_def mapGet_def)

lemma mapGet_mem: "mapGet m k = Some v \<Longrightarrow> (k, v) \<in> set m"
  by (simp add: mapGet_def map_of_SomeD)

lemma mapDelete_filter: "mapDelete m k = filter (\<lambda>e. fst e \<noteq> k) m"
  by (induction m) (auto simp: mapDelete_def)

text \<open>How storing and deleting an entry changes the number of entries with a property: the counts
  the ledger takes of its leases.\<close>

lemma count_mapDelete:
  assumes "wf_map m"
  shows "length (filter P m) = length (filter P (mapDelete m k))
    + (case mapGet m k of None \<Rightarrow> 0 | Some v \<Rightarrow> if P (k, v) then 1 else 0)"
  using assms
proof (induction m)
  case Nil
  then show ?case by (simp add: mapDelete_filter)
next
  case (Cons e m)
  obtain k' v where e: "e = (k', v)" by (cases e)
  from Cons.prems e have wf: "wf_map m" and new: "k' \<notin> set (map fst m)"
    by (auto simp: wf_map_def)
  show ?case
  proof (cases "k' = k")
    case True
    with new have "mapDelete m k = m"
      by (auto simp: mapDelete_filter filter_id_conv)
    with e True show ?thesis by (simp add: mapDelete_filter mapGet_def)
  next
    case False
    then show ?thesis using Cons.IH [OF wf] e by (simp add: mapDelete_filter mapGet_def)
  qed
qed

lemma count_mapSet:
  assumes "wf_map m"
  shows "length (filter P (mapSet m k v))
    = length (filter P (mapDelete m k)) + (if P (k, v) then 1 else 0)"
proof -
  have "mapDelete (mapSet m k v) k = mapDelete m k"
    by (simp add: mapDelete_def mapSet_def AList.delete_update_same)
  with count_mapDelete [of "mapSet m k v" P k] assms show ?thesis by simp
qed

section \<open>Sorting with a comparator\<close>

fun insertStable :: "('a \<Rightarrow> 'a \<Rightarrow> bool) \<Rightarrow> 'a \<Rightarrow> 'a list \<Rightarrow> 'a list" where
  "insertStable lt x [] = [x]"
| "insertStable lt x (y # ys) = (if lt y x then y # insertStable lt x ys else x # y # ys)"

definition sortSliceStable :: "('a \<Rightarrow> 'a \<Rightarrow> bool) \<Rightarrow> 'a list \<Rightarrow> 'a list" where
  "sortSliceStable lt xs = foldr (insertStable lt) xs []"

lemma mset_insertStable [simp]: "mset (insertStable lt x ys) = add_mset x (mset ys)"
  by (induction ys) auto

lemma mset_sortSliceStable [simp]: "mset (sortSliceStable lt xs) = mset xs"
  unfolding sortSliceStable_def by (induction xs) auto

lemma set_sortSliceStable [simp]: "set (sortSliceStable lt xs) = set xs"
  by (metis mset_sortSliceStable set_mset_mset)

lemma length_sortSliceStable [simp]: "length (sortSliceStable lt xs) = length xs"
  by (metis mset_sortSliceStable size_mset)

lemma distinct_sortSliceStable [simp]: "distinct (sortSliceStable lt xs) = distinct xs"
  by (metis mset_sortSliceStable mset_eq_imp_distinct_iff)

lemma distinct_map_sortSliceStable [simp]:
  "distinct (map f (sortSliceStable lt xs)) = distinct (map f xs)"
  by (metis mset_map mset_sortSliceStable mset_eq_imp_distinct_iff)

lemma sortSliceStable_Nil [simp]: "sortSliceStable lt [] = []"
  by (simp add: sortSliceStable_def)

lemma sortSliceStable_single [simp]: "sortSliceStable lt [x] = [x]"
  by (simp add: sortSliceStable_def)

text \<open>The contract of a comparator: asymmetric, and an element is never incomparable to both ends
  of an ordered pair. It is what the documentation of Go's \<open>sort\<close> calls a strict weak ordering.\<close>

locale strict_weak_order =
  fixes lt :: "'a \<Rightarrow> 'a \<Rightarrow> bool"
  assumes asym: "lt a b \<Longrightarrow> \<not> lt b a"
    and neg_trans: "lt a c \<Longrightarrow> lt a b \<or> lt b c"
begin

lemma irrefl: "\<not> lt a a"
  using asym by blast

lemma less_trans: "lt a b \<Longrightarrow> lt b c \<Longrightarrow> lt a c"
  using asym neg_trans by blast

lemma not_less_trans: "\<not> lt b a \<Longrightarrow> \<not> lt c b \<Longrightarrow> \<not> lt c a"
  using neg_trans by blast

lemma sorted_insertStable:
  assumes "sorted_wrt (\<lambda>a b. \<not> lt b a) ys"
  shows "sorted_wrt (\<lambda>a b. \<not> lt b a) (insertStable lt x ys)"
  using assms
proof (induction ys)
  case Nil
  then show ?case by simp
next
  case (Cons y ys)
  have mem: "set (insertStable lt x ys) = insert x (set ys)"
    by (metis mset_insertStable set_mset_add_mset_insert set_mset_mset)
  show ?case
  proof (cases "lt y x")
    case True
    then show ?thesis using Cons asym mem by auto
  next
    case False
    then show ?thesis using Cons.prems not_less_trans by auto
  qed
qed

lemma sorted_sort: "sorted_wrt (\<lambda>a b. \<not> lt b a) (sortSliceStable lt xs)"
  unfolding sortSliceStable_def by (induction xs) (auto intro: sorted_insertStable)

text \<open>Stability: elements the comparator does not separate keep their order.\<close>

lemma filter_insertStable:
  "\<not> lt x e \<Longrightarrow> \<not> lt e x \<Longrightarrow>
   filter (\<lambda>z. \<not> lt z e \<and> \<not> lt e z) (insertStable lt x ys)
     = x # filter (\<lambda>z. \<not> lt z e \<and> \<not> lt e z) ys"
proof (induction ys)
  case Nil
  then show ?case by simp
next
  case (Cons y ys)
  show ?case
  proof (cases "lt y x")
    case True
    then have "lt y e" using Cons.prems neg_trans by blast
    with True Cons show ?thesis by simp
  qed (use Cons in simp)
qed

lemma filter_insertStable_other:
  "lt x e \<or> lt e x \<Longrightarrow>
   filter (\<lambda>z. \<not> lt z e \<and> \<not> lt e z) (insertStable lt x ys)
     = filter (\<lambda>z. \<not> lt z e \<and> \<not> lt e z) ys"
  by (induction ys) auto

lemma stable_sort:
  "filter (\<lambda>z. \<not> lt z e \<and> \<not> lt e z) (sortSliceStable lt xs)
     = filter (\<lambda>z. \<not> lt z e \<and> \<not> lt e z) xs"
  unfolding sortSliceStable_def
proof (induction xs)
  case Nil
  then show ?case by simp
next
  case (Cons x xs)
  show ?case
    by (cases "lt x e \<or> lt e x")
      (use Cons in \<open>auto simp: filter_insertStable filter_insertStable_other\<close>)
qed

text \<open>Sorting commutes with dropping elements, and leaves a sorted list alone: what lets a caller
  filter before or after the sort.\<close>

lemma insertStable_sorted_front:
  "\<forall>y\<in>set ys. \<not> lt y x \<Longrightarrow> insertStable lt x ys = x # ys"
  by (cases ys) auto

lemma filter_insertStable_sorted:
  assumes "sorted_wrt (\<lambda>a b. \<not> lt b a) ys"
  shows "filter P (insertStable lt x ys)
    = (if P x then insertStable lt x (filter P ys) else filter P ys)"
  using assms
proof (induction ys)
  case Nil
  then show ?case by simp
next
  case (Cons y ys)
  show ?case
  proof (cases "lt y x")
    case True
    then show ?thesis using Cons by simp
  next
    case False
    then have "\<forall>z\<in>set (filter P (y # ys)). \<not> lt z x"
      using Cons.prems not_less_trans by auto
    then show ?thesis using False insertStable_sorted_front by auto
  qed
qed

lemma filter_sort: "filter P (sortSliceStable lt xs) = sortSliceStable lt (filter P xs)"
proof (induction xs)
  case Nil
  then show ?case by simp
next
  case (Cons x xs)
  then show ?case
    using filter_insertStable_sorted [OF sorted_sort, of P x xs]
    by (simp add: sortSliceStable_def)
qed

lemma sort_sorted: "sorted_wrt (\<lambda>a b. \<not> lt b a) xs \<Longrightarrow> sortSliceStable lt xs = xs"
  unfolding sortSliceStable_def by (induction xs) (auto simp: insertStable_sorted_front)

lemma sort_idem: "sortSliceStable lt (sortSliceStable lt xs) = sortSliceStable lt xs"
  by (rule sort_sorted [OF sorted_sort])

text \<open>When the comparator separates all elements, the sorted list is the only sorted permutation:
  the result depends on neither the algorithm nor the input order.\<close>

lemma sorted_unique:
  assumes "sorted_wrt (\<lambda>a b. \<not> lt b a) xs" "sorted_wrt (\<lambda>a b. \<not> lt b a) ys"
    and "mset xs = mset ys"
    and "\<And>a b. a \<in> set xs \<Longrightarrow> b \<in> set xs \<Longrightarrow> \<not> lt a b \<Longrightarrow> \<not> lt b a \<Longrightarrow> a = b"
  shows "xs = ys"
  using assms
proof (induction xs arbitrary: ys)
  case Nil
  then show ?case by simp
next
  case (Cons x xs)
  then obtain y zs where ys: "ys = y # zs" by (cases ys) auto
  have mem: "set ys = set (x # xs)" using Cons.prems(3) by (metis set_mset_mset)
  have "\<not> lt y x" if "y \<noteq> x"
    using Cons.prems(1) mem ys that by auto
  moreover have "\<not> lt x y" if "y \<noteq> x"
    using Cons.prems(2) mem ys that by auto
  ultimately have "x = y"
    using Cons.prems(4) [of x y] mem ys by auto
  with Cons ys show ?case by auto
qed

end

definition lessByKey :: "('a \<Rightarrow> 'b::linorder) \<Rightarrow> 'a \<Rightarrow> 'a \<Rightarrow> bool" where
  "lessByKey f a b \<longleftrightarrow> f a < f b"

definition lexLess :: "('a \<Rightarrow> 'a \<Rightarrow> bool) \<Rightarrow> ('a \<Rightarrow> 'a \<Rightarrow> bool) \<Rightarrow> 'a \<Rightarrow> 'a \<Rightarrow> bool" where
  "lexLess r s a b \<longleftrightarrow> r a b \<or> (\<not> r b a \<and> s a b)"

lemma swo_lessByKey: "strict_weak_order (lessByKey f)"
  by unfold_locales (auto simp: lessByKey_def)

lemma swo_lexLess:
  assumes "strict_weak_order r" and "strict_weak_order s"
  shows "strict_weak_order (lexLess r s)"
proof unfold_locales
  fix a b
  show "lexLess r s a b \<Longrightarrow> \<not> lexLess r s b a"
    using strict_weak_order.asym [OF assms(1)] strict_weak_order.asym [OF assms(2)]
    unfolding lexLess_def by blast
next
  fix a b c
  assume "lexLess r s a c"
  then show "lexLess r s a b \<or> lexLess r s b c"
    using strict_weak_order.asym [OF assms(1)] strict_weak_order.neg_trans [OF assms(1)]
      strict_weak_order.neg_trans [OF assms(2)]
    unfolding lexLess_def by metis
qed

section \<open>Strings\<close>

definition hasPrefix :: "string \<Rightarrow> string \<Rightarrow> bool" where
  "hasPrefix s p \<longleftrightarrow> take (length p) s = p"

definition trimPrefix :: "string \<Rightarrow> string \<Rightarrow> string" where
  "trimPrefix s p = (if hasPrefix s p then drop (length p) s else s)"

definition cutPrefix :: "string \<Rightarrow> string \<Rightarrow> string option" where
  "cutPrefix s p = (if hasPrefix s p then Some (drop (length p) s) else None)"

fun joinStr :: "string \<Rightarrow> string list \<Rightarrow> string" where
  "joinStr sep [] = []"
| "joinStr sep [x] = x"
| "joinStr sep (x # y # xs) = x @ sep @ joinStr sep (y # xs)"

text \<open>\<open>strings.Cut\<close> at a one-byte separator, and \<open>strings.Split\<close> at one.\<close>

fun cutChar :: "char \<Rightarrow> string \<Rightarrow> (string \<times> string) option" where
  "cutChar c [] = None"
| "cutChar c (x # xs) = (if x = c then Some ([], xs)
     else case cutChar c xs of None \<Rightarrow> None | Some (a, b) \<Rightarrow> Some (x # a, b))"

fun splitChar :: "char \<Rightarrow> string \<Rightarrow> string list" where
  "splitChar c [] = [[]]"
| "splitChar c (x # xs) = (if x = c then [] # splitChar c xs
     else case splitChar c xs of [] \<Rightarrow> [[x]] | p # ps \<Rightarrow> (x # p) # ps)"

lemma cutChar_SomeD: "cutChar c s = Some (a, b) \<Longrightarrow> s = a @ c # b \<and> c \<notin> set a"
  by (induction s arbitrary: a b) (auto split: option.splits if_splits)

lemma cutChar_append: "c \<notin> set a \<Longrightarrow> cutChar c (a @ c # b) = Some (a, b)"
  by (induction a) auto

lemma splitChar_not_Nil [simp]: "splitChar c s \<noteq> []"
  by (induction s) (auto split: list.split)

lemma join_splitChar: "joinStr [c] (splitChar c s) = s"
proof (induction s)
  case (Cons x xs)
  then show ?case by (cases "splitChar c xs"; cases "tl (splitChar c xs)") auto
qed simp

lemma splitChar_plain: "c \<notin> set s \<Longrightarrow> splitChar c s = [s]"
  by (induction s) auto

lemma splitChar_append: "c \<notin> set a \<Longrightarrow> splitChar c (a @ c # b) = a # splitChar c b"
  by (induction a) auto

lemma split_joinStr: "xs \<noteq> [] \<Longrightarrow> \<forall>x\<in>set xs. c \<notin> set x \<Longrightarrow> splitChar c (joinStr [c] xs) = xs"
  by (induction "[c]" xs rule: joinStr.induct) (auto simp: splitChar_plain splitChar_append)

text \<open>Integer division of Go rounds toward zero.\<close>

definition truncDiv :: "int \<Rightarrow> int \<Rightarrow> int" where
  "truncDiv a b = sgn a * sgn b * (\<bar>a\<bar> div \<bar>b\<bar>)"

lemma hasPrefix_append [simp]: "hasPrefix (p @ s) p"
  by (simp add: hasPrefix_def)

lemma trimPrefix_append [simp]: "trimPrefix (p @ s) p = s"
  by (simp add: trimPrefix_def)

lemma cutPrefix_append [simp]: "cutPrefix (p @ s) p = Some s"
  by (simp add: cutPrefix_def)

lemma cutPrefix_SomeD: "cutPrefix s p = Some t \<Longrightarrow> s = p @ t"
  unfolding cutPrefix_def hasPrefix_def
  by (metis append_take_drop_id option.distinct(1) option.inject)

lemma hasPrefix_cases: "hasPrefix s p \<longleftrightarrow> (\<exists>t. s = p @ t)"
  unfolding hasPrefix_def by (metis append_eq_conv_conj append_take_drop_id)

definition digitChar :: "int \<Rightarrow> char" where
  "digitChar d = char_of (48 + d)"

text \<open>Decimal digits of a number that is not negative.\<close>

function digits :: "int \<Rightarrow> string" where
  "digits n = (if n < 10 then [digitChar n] else digits (n div 10) @ [digitChar (n mod 10)])"
  by pat_completeness auto
termination
  by (relation "measure nat") (auto simp: nat_less_iff)

declare digits.simps [simp del]

definition itoa :: "int \<Rightarrow> string" where
  "itoa i = (if i < 0 then ''-'' @ digits (- i) else digits i)"

lemma digits_not_Nil [simp]: "digits n \<noteq> []"
  by (subst digits.simps) simp

lemma itoa_not_Nil [simp]: "itoa i \<noteq> []"
  by (simp add: itoa_def)

text \<open>A decimal number is read back by its digits.\<close>

definition digitVal :: "char \<Rightarrow> int" where
  "digitVal c = of_char c - 48"

definition decimal :: "string \<Rightarrow> int" where
  "decimal s = foldl (\<lambda>a c. 10 * a + digitVal c) 0 s"

lemma digitVal_digitChar: "0 \<le> d \<Longrightarrow> d < 10 \<Longrightarrow> digitVal (digitChar d) = d"
  by (simp add: digitVal_def digitChar_def of_char_of take_bit_eq_mod)

lemma decimal_digits: "0 \<le> n \<Longrightarrow> decimal (digits n) = n"
proof (induction n rule: digits.induct)
  case (1 n)
  show ?case
  proof (cases "n < 10")
    case True
    with 1 show ?thesis by (subst digits.simps) (simp add: decimal_def digitVal_digitChar)
  next
    case False
    with 1 have "decimal (digits (n div 10)) = n div 10" by simp
    with False 1 show ?thesis by (subst digits.simps) (simp add: decimal_def digitVal_digitChar)
  qed
qed

lemma itoa_inj: "0 \<le> a \<Longrightarrow> 0 \<le> b \<Longrightarrow> itoa a = itoa b \<longleftrightarrow> a = b"
  unfolding itoa_def by (metis decimal_digits not_less)

text \<open>\<open>%0wd\<close>: at least \<open>w\<close> digits.\<close>

definition padNat :: "nat \<Rightarrow> int \<Rightarrow> string" where
  "padNat w n = replicate (w - length (digits n)) CHR ''0'' @ digits n"

section \<open>Time\<close>

type_synonym time = int
type_synonym duration = int

definition zeroTime :: time where "zeroTime = 0"
definition microsecond :: duration where "microsecond = 1000"
definition millisecond :: duration where "millisecond = 1000000"
definition second :: duration where "second = 1000000000"
definition minute :: duration where "minute = 60000000000"
definition hour :: duration where "hour = 3600000000000"

text \<open>\<open>time.Duration.String\<close>: the fraction drops its trailing zeros; below one second a smaller unit
  is used; the unit of microseconds is written with the two UTF-8 bytes of the micro sign.\<close>

fun dropTrailingZeros :: "string \<Rightarrow> string" where
  "dropTrailingZeros s = rev (dropWhile (\<lambda>c. c = CHR ''0'') (rev s))"

definition fmtFrac :: "int \<Rightarrow> nat \<Rightarrow> string" where
  "fmtFrac v prec =
     (let whole = v div 10 ^ prec; frac = dropTrailingZeros (padNat prec (v mod 10 ^ prec))
      in digits whole @ (if frac = [] then [] else ''.'' @ frac))"

definition durationString :: "duration \<Rightarrow> string" where
  "durationString d =
     (let u = \<bar>d\<bar>; sign = (if d < 0 then ''-'' else [])
      in if u = 0 then ''0s''
         else if u < 1000000000 then
           sign @ (if u < 1000 then digits u @ ''ns''
                   else if u < 1000000 then fmtFrac u 3 @ [CHR 0xC2, CHR 0xB5] @ ''s''
                   else fmtFrac u 6 @ ''ms'')
         else
           let secs = u div 1000000000; mins = secs div 60; hrs = mins div 60;
               s = fmtFrac (secs mod 60 * 1000000000 + u mod 1000000000) 9 @ ''s''
           in sign @ (if mins = 0 then s
                      else if hrs = 0 then digits mins @ ''m'' @ s
                      else digits hrs @ ''h'' @ digits (mins mod 60) @ ''m'' @ s))"

text \<open>\<open>t.UTC().Format(time.RFC3339)\<close>: the proleptic Gregorian date of the day, counted from March 1
  of year 0, and the time of day.\<close>

definition civilDate :: "int \<Rightarrow> int \<times> int \<times> int" where
  "civilDate days =
     (let z = days + 306; era = z div 146097; doe = z mod 146097;
          yoe = (doe - doe div 1460 + doe div 36524 - doe div 146096) div 365;
          doy = doe - (365 * yoe + yoe div 4 - yoe div 100);
          mp = (5 * doy + 2) div 153;
          d = doy - (153 * mp + 2) div 5 + 1;
          m = (if mp < 10 then mp + 3 else mp - 9);
          y = yoe + era * 400 + (if m \<le> 2 then 1 else 0)
      in (y, m, d))"

definition rfc3339 :: "time \<Rightarrow> string" where
  "rfc3339 t =
     (let secs = t div second; (y, m, d) = civilDate (secs div 86400); sod = secs mod 86400;
          p2 = padNat 2
      in padNat 4 y @ ''-'' @ p2 m @ ''-'' @ p2 d @ ''T'' @
         p2 (sod div 3600) @ '':'' @ p2 (sod mod 3600 div 60) @ '':'' @ p2 (sod mod 60) @ ''Z'')"

text \<open>\<open>d.Round(m)\<close> rounds to the nearest multiple, halves away from zero.\<close>

definition roundDuration :: "duration \<Rightarrow> duration \<Rightarrow> duration" where
  "roundDuration d m =
     (if m \<le> 0 then d
      else let r = \<bar>d\<bar> mod m; base = \<bar>d\<bar> - r; a = (if r + r < m then base else base + m)
           in if d < 0 then - a else a)"

text \<open>The lower-case hexadecimal digit of a number below 16.\<close>

definition hexChar :: "nat \<Rightarrow> char" where
  "hexChar d = (if d < 10 then char_of (48 + d) else char_of (87 + d))"

lemma hexChar_inj: "a < 16 \<Longrightarrow> b < 16 \<Longrightarrow> hexChar a = hexChar b \<longleftrightarrow> a = b"
  by (auto simp: hexChar_def char_of_eq_iff take_bit_eq_mod split: if_splits)

section \<open>Relations\<close>

text \<open>A relation along which a rank decreases has no cycle; the rank need not be right at a source.\<close>

lemma ranked_acyclic:
  assumes "\<And>x y. (x, y) \<in> R \<Longrightarrow> x \<in> Range R \<Longrightarrow> (f y :: nat) < f x"
  shows "acyclic R"
proof (rule acyclicI, rule allI)
  have step: "(x, y) \<in> R\<^sup>+ \<Longrightarrow> x \<in> Range R \<Longrightarrow> f y < f x" for x y
  proof (induction rule: trancl.induct)
    case (r_into_trancl a b)
    then show ?case by (rule assms)
  next
    case (trancl_into_trancl a b c)
    then have "b \<in> Range R" by (metis Range.intros trancl.cases)
    with trancl_into_trancl assms [of b c] show ?case by fastforce
  qed
  show "(x, x) \<notin> R\<^sup>+" for x
  proof
    assume "(x, x) \<in> R\<^sup>+"
    moreover from this have "x \<in> Range R" by (metis Range.intros trancl.cases)
    ultimately show False using step by blast
  qed
qed

definition hexByte :: "8 word \<Rightarrow> string" where
  "hexByte b = [hexChar (unat b div 16), hexChar (unat b mod 16)]"

definition hexEncode :: "8 word list \<Rightarrow> string" where
  "hexEncode bs = concat (map hexByte bs)"

definition padHex :: "nat \<Rightarrow> nat \<Rightarrow> string" where
  "padHex n v = map (\<lambda>i. hexChar (v div 16 ^ i mod 16)) (rev [0..<n])"

section \<open>Keyed stores\<close>

text \<open>A store whose entries are looked up and deleted by a key, and what a sweep over some keys leaves.\<close>

locale keyed_store =
  fixes inv :: "'s \<Rightarrow> bool"
    and entry :: "'s \<Rightarrow> 'k \<Rightarrow> 'v option"
    and del :: "'k \<Rightarrow> 's \<Rightarrow> 's"
  assumes del_inv: "inv s \<Longrightarrow> inv (del k s)"
    and entry_del: "inv s \<Longrightarrow> entry (del k s) k' = (if k' = k then None else entry s k')"
begin

lemma fold_inv: "inv s \<Longrightarrow> inv (fold del ks s)"
  by (induction ks arbitrary: s) (auto simp: del_inv)

lemma entry_fold: "inv s \<Longrightarrow> entry (fold del ks s) k = (if k \<in> set ks then None else entry s k)"
  by (induction ks arbitrary: s) (auto simp: del_inv entry_del)

end

section \<open>Trimming white space\<close>

text \<open>\<open>strings.TrimSpace\<close> on UTF-8 bytes: the ASCII spaces and the encodings of U+0085, U+00A0, U+1680,
  U+2000 to U+200A, U+2028, U+2029, U+202F, U+205F and U+3000. \<open>spaceLen\<close> is the length of the space a byte
  string starts with, 0 when it starts with none.\<close>

definition asciiSpace :: "char \<Rightarrow> bool" where
  "asciiSpace c \<longleftrightarrow> c \<in> {CHR 0x09, CHR 0x0A, CHR 0x0B, CHR 0x0C, CHR 0x0D, CHR 0x20}"

definition unicodeSpaces :: "string list" where
  "unicodeSpaces =
    [[CHR 0xC2, CHR 0x85], [CHR 0xC2, CHR 0xA0], [CHR 0xE1, CHR 0x9A, CHR 0x80],
     [CHR 0xE2, CHR 0x80, CHR 0x80], [CHR 0xE2, CHR 0x80, CHR 0x81], [CHR 0xE2, CHR 0x80, CHR 0x82],
     [CHR 0xE2, CHR 0x80, CHR 0x83], [CHR 0xE2, CHR 0x80, CHR 0x84], [CHR 0xE2, CHR 0x80, CHR 0x85],
     [CHR 0xE2, CHR 0x80, CHR 0x86], [CHR 0xE2, CHR 0x80, CHR 0x87], [CHR 0xE2, CHR 0x80, CHR 0x88],
     [CHR 0xE2, CHR 0x80, CHR 0x89], [CHR 0xE2, CHR 0x80, CHR 0x8A], [CHR 0xE2, CHR 0x80, CHR 0xA8],
     [CHR 0xE2, CHR 0x80, CHR 0xA9], [CHR 0xE2, CHR 0x80, CHR 0xAF], [CHR 0xE2, CHR 0x81, CHR 0x9F],
     [CHR 0xE3, CHR 0x80, CHR 0x80]]"

definition spaceLen :: "string list \<Rightarrow> string \<Rightarrow> nat" where
  "spaceLen spaces s =
    (case s of
       [] \<Rightarrow> 0
     | c # _ \<Rightarrow> if asciiSpace c then 1
                else case filter (hasPrefix s) spaces of [] \<Rightarrow> 0 | u # _ \<Rightarrow> max 1 (length u))"

function trimFront :: "string list \<Rightarrow> string \<Rightarrow> string" where
  "trimFront spaces s = (if spaceLen spaces s = 0 then s else trimFront spaces (drop (spaceLen spaces s) s))"
  by auto
termination
  by (relation "measure (\<lambda>(spaces, s). length s)") (auto simp: spaceLen_def split: list.splits)

declare trimFront.simps [simp del]

definition trimSpace :: "string \<Rightarrow> string" where
  "trimSpace s = rev (trimFront (map rev unicodeSpaces) (rev (trimFront unicodeSpaces s)))"

lemmas map_simps = mapGet_set mapGet_delete mapGetOr_set mapGetOr_delete mapHas_set mapHas_delete

declare hasPrefix_append [go_simps] trimPrefix_append [go_simps] cutPrefix_append [go_simps]
  digits_not_Nil [go_simps] itoa_not_Nil [go_simps]

end
