(* ===== verification/Capacity_Types.thy ===== *)
theory Capacity_Types
  imports Prelude
begin

text \<open>
  The data of \<open>internal/capacity\<close> (ledger.go, rate\_ceiling.go, decision.go): requests, leases,
  waiters, the ledger and its options, and the methods of \<open>Request\<close> that read nothing else.

  The callbacks of \<open>Options\<close> and \<open>Request.Refresh\<close> are code outside the package. \<open>Options\<close> is an
  argument of every operation: its functions are what the callbacks return while that operation
  holds the lock (the code requires them to be plain reads), \<open>None\<close> is a nil function, and
  \<open>o_now\<close> is what \<open>Clock.Now\<close> returns under the lock. \<open>Refresh\<close> is a function of the moment it is
  called, giving the four fields of the returned request the ledger copies.

  A waiter is a pointer in the code; \<open>w_seq\<close> is unique per waiter, so it is the identity here. Its
  \<open>grant\<close> channel is closed exactly when \<open>w_seq\<close> is in \<open>l_grants\<close>. \<open>l_changed\<close> counts how often the
  \<open>changed\<close> channel was closed and replaced.
\<close>

section \<open>Requests\<close>

datatype Role = RoleVerifier | RoleWorker | RolePlanner | RoleOther string

fun rank :: "Role \<Rightarrow> int" where
  "rank RoleVerifier = 0"
| "rank RolePlanner = 2"
| "rank _ = 1"

record NodeChoice =
  nc_name :: string
  nc_priority :: int

record Placement =
  pl_pools :: "string list"
  pl_node :: string
  pl_choices :: "NodeChoice list"
  pl_exclude :: "string list"

record Request =
  rq_holder :: string
  rq_prd :: string
  rq_priority :: int
  rq_pools :: "string list"
  rq_node :: string
  rq_consumer :: string
  rq_choices :: "NodeChoice list"
  rq_exclude :: "string list"
  rq_prefer :: string
  rq_model :: string
  rq_role :: Role
  rq_node_unknown :: bool
  rq_interactive :: bool
  rq_refresh :: "(time \<Rightarrow> Placement) option"

text \<open>The zero value \<open>Request{}\<close>; its role \<open>""\<close> ranks as a worker.\<close>

definition zeroRequest :: Request where
  "zeroRequest = \<lparr>rq_holder = [], rq_prd = [], rq_priority = 0, rq_pools = [], rq_node = [],
     rq_consumer = [], rq_choices = [], rq_exclude = [], rq_prefer = [], rq_model = [],
     rq_role = RoleOther [], rq_node_unknown = False, rq_interactive = False, rq_refresh = None\<rparr>"

definition nodePool :: "string \<Rightarrow> string" where
  "nodePool n = ''node:'' @ n"

definition VerifierPool :: "string \<Rightarrow> string" where
  "VerifierPool n = ''node-verify:'' @ n"

definition sharesPool :: "string list \<Rightarrow> string list \<Rightarrow> bool" where
  "sharesPool a b \<longleftrightarrow> list_ex (\<lambda>x. list_ex (\<lambda>y. x = y) b) a"

definition multiNode :: "Request \<Rightarrow> bool" where
  "multiNode r \<longleftrightarrow> length (rq_choices r) \<ge> 2"

text \<open>\<open>candidates\<close>: the loop that drops unnamed, excluded and repeated choices, then the stable sort
  by descending priority.\<close>

fun dropSkipped :: "string list \<Rightarrow> NodeChoice list \<Rightarrow> NodeChoice list" where
  "dropSkipped skip [] = []"
| "dropSkipped skip (c # cs) =
     (if nc_name c = [] \<or> nc_name c \<in> set skip then dropSkipped skip cs
      else c # dropSkipped (nc_name c # skip) cs)"

definition priorityLess :: "NodeChoice \<Rightarrow> NodeChoice \<Rightarrow> bool" where
  "priorityLess a b \<longleftrightarrow> nc_priority a > nc_priority b"

definition candidates :: "Request \<Rightarrow> NodeChoice list" where
  "candidates r = sortSliceStable priorityLess (dropSkipped (rq_exclude r) (rq_choices r))"

definition candidateNames :: "Request \<Rightarrow> string list" where
  "candidateNames r = map nc_name (candidates r)"

definition withNodePool :: "Request \<Rightarrow> string \<Rightarrow> string \<Rightarrow> Request" where
  "withNodePool r name pool =
     (let pools = (if pool \<noteq> nodePool name then filter (\<lambda>p. p \<noteq> nodePool name) (rq_pools r)
                   else rq_pools r);
          pools' = (if \<not> sharesPool pools [pool] then pools @ [pool] else pools)
      in r\<lparr>rq_pools := pools', rq_node := name, rq_choices := [], rq_exclude := []\<rparr>)"

definition withoutStaleNode :: "Request \<Rightarrow> Request" where
  "withoutStaleNode r =
     (if \<not> multiNode r then r
      else if rq_node r \<noteq> [] then
        (if list_ex (\<lambda>c. nc_name c = rq_node r) (rq_choices r) then r
         else r\<lparr>rq_pools := filter (\<lambda>p. p \<noteq> nodePool (rq_node r)) (rq_pools r), rq_node := []\<rparr>)
      else r)"

definition allPools :: "Request \<Rightarrow> string list" where
  "allPools r = (if \<not> multiNode r then rq_pools r
     else rq_pools r @ map (\<lambda>c. nodePool (nc_name c)) (candidates r))"

text \<open>The first half of every use of a queued request: \<open>Refresh\<close> replaces the placement.\<close>

definition applyRefresh :: "time \<Rightarrow> Request \<Rightarrow> Request" where
  "applyRefresh now r = (case rq_refresh r of None \<Rightarrow> r
     | Some f \<Rightarrow> (let cur = f now in
         r\<lparr>rq_pools := pl_pools cur, rq_node := pl_node cur,
           rq_choices := pl_choices cur, rq_exclude := pl_exclude cur\<rparr>))"

section \<open>Leases, waiters and the ledger\<close>

record Lease =
  ls_holder :: string
  ls_prd :: string
  ls_pools :: "string list"
  ls_node :: string
  ls_model :: string
  ls_acquired :: time
  ls_session :: string
  ls_node_unknown :: bool
  ls_overflow :: bool

record RateCeiling =
  rc_requests :: int
  rc_tokens :: int
  rc_window :: duration

record rateEntry =
  re_at :: time
  re_req :: int
  re_tok :: int

record waiter =
  w_req :: Request
  w_seq :: nat
  w_since :: time
  w_reason :: string

record NodeState =
  ns_drained :: bool
  ns_drain_until :: time
  ns_maintenance :: bool
  ns_denied :: "string list"

record Options =
  o_External :: "(string \<Rightarrow> int) option"
  o_Backpressure :: "(string \<Rightarrow> bool \<times> string) option"
  o_AutonomousBackpressure :: "(string \<Rightarrow> bool \<times> string) option"
  o_HeldBackpressure :: "(string \<Rightarrow> int \<Rightarrow> int \<Rightarrow> bool \<times> string) option"
  o_NodeHealthy :: "(string \<Rightarrow> bool) option"
  o_NodeGate :: "(string \<Rightarrow> string \<Rightarrow> bool \<times> string) option"
  o_NodeState :: "(string \<Rightarrow> NodeState) option"
  o_VerifierHeadroom :: "(string \<Rightarrow> bool \<times> string) option"
  o_StrictNodeLimit :: "bool option"
  o_CountPoolByNode :: "bool option"
  o_AdoptBeforeAdmit :: "bool option"
  o_AdoptionTimeout :: duration
  o_AgeOverride :: duration
  o_PollInterval :: duration
  o_now :: time

record Ledger =
  l_limits :: "(string, int) gomap"
  l_leases :: "(string, Lease) gomap"
  l_waiters :: "waiter list"
  l_seq :: nat
  l_lastGrant :: "(string, time) gomap"
  l_lastModel :: "(string, string) gomap"
  l_rates :: "(string, RateCeiling) gomap"
  l_rateUse :: "(string, rateEntry list) gomap"
  l_grants :: "nat list"
  l_changed :: nat
  l_adopting :: bool
  l_adoptSince :: time

text \<open>\<open>New\<close>: the defaults of the options and the empty ledger.\<close>

definition newOptions :: "Options \<Rightarrow> Options" where
  "newOptions opt =
     opt\<lparr>o_AgeOverride := (if o_AgeOverride opt \<le> 0 then 10 * minute else o_AgeOverride opt),
         o_PollInterval := (if o_PollInterval opt \<le> 0 then 5 * second else o_PollInterval opt),
         o_AdoptionTimeout := (if o_AdoptionTimeout opt \<le> 0 then 3 * minute
                               else o_AdoptionTimeout opt)\<rparr>"

definition New :: Ledger where
  "New = \<lparr>l_limits = [], l_leases = [], l_waiters = [], l_seq = 0, l_lastGrant = [],
     l_lastModel = [], l_rates = [], l_rateUse = [], l_grants = [], l_changed = 0,
     l_adopting = False, l_adoptSince = zeroTime\<rparr>"

definition zeroOptions :: "time \<Rightarrow> Options" where
  "zeroOptions now = \<lparr>o_External = None, o_Backpressure = None, o_AutonomousBackpressure = None,
     o_HeldBackpressure = None, o_NodeHealthy = None, o_NodeGate = None, o_NodeState = None,
     o_VerifierHeadroom = None, o_StrictNodeLimit = None, o_CountPoolByNode = None,
     o_AdoptBeforeAdmit = None, o_AdoptionTimeout = 0, o_AgeOverride = 0, o_PollInterval = 0,
     o_now = now\<rparr>"

definition optOn :: "bool option \<Rightarrow> bool" where
  "optOn f = (case f of None \<Rightarrow> True | Some b \<Rightarrow> b)"

definition limitOf :: "Ledger \<Rightarrow> string \<Rightarrow> int" where
  "limitOf l pool = mapGetOr 0 (l_limits l) pool"

definition signalChangedLocked :: "Ledger \<Rightarrow> Ledger" where
  "signalChangedLocked l = l\<lparr>l_changed := Suc (l_changed l)\<rparr>"

section \<open>Facts about requests\<close>

lemma sharesPool_single [simp]: "sharesPool ps [p] \<longleftrightarrow> p \<in> set ps"
  by (auto simp: sharesPool_def list_ex_iff)

lemma nodePool_inj [simp]: "nodePool a = nodePool b \<longleftrightarrow> a = b"
  by (simp add: nodePool_def)

lemma VerifierPool_inj [simp]: "VerifierPool a = VerifierPool b \<longleftrightarrow> a = b"
  by (simp add: VerifierPool_def)

lemma nodePool_neq_VerifierPool [simp]: "nodePool a \<noteq> VerifierPool b" "VerifierPool b \<noteq> nodePool a"
  by (simp_all add: nodePool_def VerifierPool_def)

lemma hasPrefix_nodePool [simp]: "hasPrefix (nodePool n) ''node:''"
  by (simp add: nodePool_def hasPrefix_def)

lemma cutPrefix_nodePool [simp]: "cutPrefix (nodePool n) ''node:'' = Some n"
  by (simp add: nodePool_def cutPrefix_def hasPrefix_def)

lemma trimPrefix_nodePool [simp]: "trimPrefix (nodePool n) ''node:'' = n"
  by (simp add: nodePool_def trimPrefix_def hasPrefix_def)

lemma hasPrefix_nodeD: "hasPrefix p ''node:'' \<Longrightarrow> \<exists>n. p = nodePool n"
  unfolding hasPrefix_cases nodePool_def by blast

lemma not_hasPrefix_VerifierPool [simp]: "\<not> hasPrefix (VerifierPool n) ''node:''"
  by (simp add: VerifierPool_def hasPrefix_def)

lemma not_hasPrefix_llm_nodePool [simp]: "\<not> hasPrefix (nodePool n) ''llm:''"
  by (simp add: nodePool_def hasPrefix_def)

lemma not_hasPrefix_llm_VerifierPool [simp]: "\<not> hasPrefix (VerifierPool n) ''llm:''"
  by (simp add: VerifierPool_def hasPrefix_def)

lemma set_dropSkipped:
  "c \<in> set (dropSkipped skip cs) \<Longrightarrow> c \<in> set cs \<and> nc_name c \<noteq> [] \<and> nc_name c \<notin> set skip"
  by (induction skip cs rule: dropSkipped.induct) (auto split: if_splits)

lemma distinct_dropSkipped: "distinct (map nc_name (dropSkipped skip cs))"
  by (induction skip cs rule: dropSkipped.induct) (auto dest: set_dropSkipped)

lemma dropSkipped_complete:
  "c \<in> set cs \<Longrightarrow> nc_name c \<noteq> [] \<Longrightarrow> nc_name c \<notin> set skip \<Longrightarrow>
   nc_name c \<in> set (map nc_name (dropSkipped skip cs))"
  by (induction skip cs rule: dropSkipped.induct) auto

interpretation priority_order: strict_weak_order priorityLess
  by unfold_locales (auto simp: priorityLess_def)

text \<open>What the candidates of a request are: exactly its named, not excluded choices, one per name,
  by descending priority.\<close>

lemma candidates_mem: "c \<in> set (candidates r) \<Longrightarrow>
    c \<in> set (rq_choices r) \<and> nc_name c \<noteq> [] \<and> nc_name c \<notin> set (rq_exclude r)"
  unfolding candidates_def by (auto dest: set_dropSkipped)

lemma candidates_complete:
  "c \<in> set (rq_choices r) \<Longrightarrow> nc_name c \<noteq> [] \<Longrightarrow> nc_name c \<notin> set (rq_exclude r) \<Longrightarrow>
   nc_name c \<in> set (candidateNames r)"
  unfolding candidateNames_def candidates_def using dropSkipped_complete by fastforce

lemma distinct_candidateNames: "distinct (candidateNames r)"
  unfolding candidateNames_def candidates_def by (simp add: distinct_dropSkipped)

lemma candidates_sorted: "sorted_wrt (\<lambda>a b. nc_priority a \<ge> nc_priority b) (candidates r)"
proof -
  have "(\<lambda>a b. \<not> priorityLess b a) = (\<lambda>a b. nc_priority a \<ge> nc_priority b)"
    by (auto simp: priorityLess_def fun_eq_iff)
  then show ?thesis
    using priority_order.sorted_sort [of "dropSkipped (rq_exclude r) (rq_choices r)"]
    by (simp add: candidates_def)
qed

lemma withNodePool_fields [simp]:
  "rq_node (withNodePool r n p) = n" "rq_choices (withNodePool r n p) = []"
  "rq_exclude (withNodePool r n p) = []" "rq_holder (withNodePool r n p) = rq_holder r"
  "rq_prd (withNodePool r n p) = rq_prd r" "rq_model (withNodePool r n p) = rq_model r"
  "rq_role (withNodePool r n p) = rq_role r" "rq_interactive (withNodePool r n p) = rq_interactive r"
  by (simp_all add: withNodePool_def Let_def)

lemma withNodePool_pools: "set (rq_pools (withNodePool r n p)) =
    insert p (if p \<noteq> nodePool n then set (rq_pools r) - {nodePool n} else set (rq_pools r))"
  by (auto simp: withNodePool_def Let_def)

lemma withoutStaleNode_fields [simp]:
  "rq_holder (withoutStaleNode r) = rq_holder r" "rq_prd (withoutStaleNode r) = rq_prd r"
  "rq_choices (withoutStaleNode r) = rq_choices r" "rq_exclude (withoutStaleNode r) = rq_exclude r"
  "rq_refresh (withoutStaleNode r) = rq_refresh r" "rq_role (withoutStaleNode r) = rq_role r"
  by (simp_all add: withoutStaleNode_def)

lemma withoutStaleNode_idem [simp]: "withoutStaleNode (withoutStaleNode r) = withoutStaleNode r"
  by (simp add: withoutStaleNode_def multiNode_def)

lemma applyRefresh_fields [simp]:
  "rq_holder (applyRefresh t r) = rq_holder r" "rq_prd (applyRefresh t r) = rq_prd r"
  "rq_role (applyRefresh t r) = rq_role r" "rq_refresh (applyRefresh t r) = rq_refresh r"
  by (simp_all add: applyRefresh_def Let_def split: option.splits)

lemma limitOf_cong [simp]: "limitOf (l\<lparr>l_leases := x\<rparr>) = limitOf l"
  "limitOf (l\<lparr>l_waiters := y\<rparr>) = limitOf l" "limitOf (l\<lparr>l_rateUse := z\<rparr>) = limitOf l"
  "limitOf (l\<lparr>l_adopting := b\<rparr>) = limitOf l" "limitOf (l\<lparr>l_changed := n\<rparr>) = limitOf l"
  "limitOf (l\<lparr>l_grants := g\<rparr>) = limitOf l" "limitOf (l\<lparr>l_lastGrant := lg\<rparr>) = limitOf l"
  "limitOf (l\<lparr>l_lastModel := lm\<rparr>) = limitOf l" "limitOf (l\<lparr>l_seq := sq\<rparr>) = limitOf l"
  by (simp_all add: limitOf_def fun_eq_iff)

end
