(* ===== verification/Capacity_Rate.thy ===== *)
theory Capacity_Rate
  imports Capacity_Types
begin

text \<open>
  \<open>internal/capacity/rate_ceiling.go\<close>: a pool's usage inside a rolling window. The window read
  \<open>rateWindowLocked\<close> drops what has left the window and stores the rest back, so every function that
  reads a window returns the ledger too. \<open>window\<close> is the view the lemmas are about: the entries the
  read returns. Dropping entries never changes a later view (\<open>same_windows\<close>), so the reads can be
  reasoned about as if they changed nothing.
\<close>

named_theorems rate_frame \<open>what a window read leaves alone\<close>

section \<open>Operations\<close>

definition active :: "RateCeiling \<Rightarrow> bool" where
  "active c \<longleftrightarrow> rc_window c > 0 \<and> (rc_requests c > 0 \<or> rc_tokens c > 0)"

definition zeroCeiling :: RateCeiling where
  "zeroCeiling = \<lparr>rc_requests = 0, rc_tokens = 0, rc_window = 0\<rparr>"

definition RateOf :: "Ledger \<Rightarrow> string \<Rightarrow> RateCeiling" where
  "RateOf l pool = mapGetOr zeroCeiling (l_rates l) pool"

fun recordRequestsLocked :: "Ledger \<Rightarrow> string list \<Rightarrow> time \<Rightarrow> Ledger" where
  "recordRequestsLocked l [] now = l"
| "recordRequestsLocked l (p # ps) now =
     recordRequestsLocked
       (case mapGet (l_rates l) p of
          Some c \<Rightarrow> if rc_requests c > 0
            then l\<lparr>l_rateUse := mapSet (l_rateUse l) p
                     (mapGetOr [] (l_rateUse l) p @ [\<lparr>re_at = now, re_req = 1, re_tok = 0\<rparr>])\<rparr>
            else l
        | None \<Rightarrow> l) ps now"

definition entryBefore :: "rateEntry \<Rightarrow> rateEntry \<Rightarrow> bool" where
  "entryBefore a b \<longleftrightarrow> re_at a < re_at b"

definition rateWindowLocked ::
    "Ledger \<Rightarrow> string \<Rightarrow> time \<Rightarrow> Ledger \<times> rateEntry list \<times> int \<times> int" where
  "rateWindowLocked l pool now =
     (case mapGet (l_rates l) pool of
        None \<Rightarrow> (l, [], 0, 0)
      | Some c \<Rightarrow>
          (let cut = now - rc_window c;
               kept = filter (\<lambda>e. re_at e > cut) (mapGetOr [] (l_rateUse l) pool);
               es = sortSliceStable entryBefore kept
           in (l\<lparr>l_rateUse := mapSet (l_rateUse l) pool es\<rparr>, es,
               sum_list (map re_req kept), sum_list (map re_tok kept))))"

fun rateFreeAt ::
    "rateEntry list \<Rightarrow> int \<Rightarrow> int \<Rightarrow> duration \<Rightarrow> (rateEntry \<Rightarrow> int) \<Rightarrow> time option" where
  "rateFreeAt [] remaining ceiling window val = None"
| "rateFreeAt (e # es) remaining ceiling window val =
     (if val e \<le> 0 then rateFreeAt es remaining ceiling window val
      else if remaining - val e < ceiling then Some (re_at e + window)
      else rateFreeAt es (remaining - val e) ceiling window val)"

text \<open>One dimension of \<open>rateBlockLocked\<close>'s loop: the message when its ceiling is reached.\<close>

definition dimBlock :: "string \<Rightarrow> string \<Rightarrow> rateEntry list \<Rightarrow> int \<Rightarrow> int \<Rightarrow> duration
    \<Rightarrow> (rateEntry \<Rightarrow> int) \<Rightarrow> string option" where
  "dimBlock pool name es used ceil window val =
     (if ceil \<le> 0 \<or> used < ceil then None
      else Some (''pool '' @ pool @ '' rate ceiling: '' @ name @ '' '' @ itoa used @ ''/'' @ itoa ceil
             @ '' in '' @ durationString window
             @ (case rateFreeAt es used ceil window val of None \<Rightarrow> []
                | Some at \<Rightarrow> '', resets at '' @ rfc3339 at)))"

definition rateBlockLocked :: "Ledger \<Rightarrow> string \<Rightarrow> time \<Rightarrow> Ledger \<times> string" where
  "rateBlockLocked l pool now =
     (case mapGet (l_rates l) pool of
        None \<Rightarrow> (l, [])
      | Some c \<Rightarrow>
          (let (l', es, reqs, toks) = rateWindowLocked l pool now
           in (l', case dimBlock pool ''requests'' es reqs (rc_requests c) (rc_window c) re_req of
                     Some msg \<Rightarrow> msg
                   | None \<Rightarrow> (case dimBlock pool ''tokens'' es toks (rc_tokens c) (rc_window c) re_tok of
                       Some msg \<Rightarrow> msg | None \<Rightarrow> []))))"

text \<open>\<open>pick\<close> of \<open>rateResetLocked\<close>: keep the later of the times found.\<close>

definition pickLater :: "time option \<Rightarrow> time option \<Rightarrow> time option" where
  "pickLater found t = (case t of None \<Rightarrow> found | Some b \<Rightarrow>
     (case found of None \<Rightarrow> Some b | Some a \<Rightarrow> if b > a then Some b else Some a))"

definition rateResetLocked :: "Ledger \<Rightarrow> string \<Rightarrow> time \<Rightarrow> Ledger \<times> time option" where
  "rateResetLocked l pool now =
     (case mapGet (l_rates l) pool of
        None \<Rightarrow> (l, None)
      | Some c \<Rightarrow>
          (let (l', es, reqs, toks) = rateWindowLocked l pool now;
               f1 = pickLater None (if rc_requests c > 0 \<and> reqs \<ge> rc_requests c
                      then rateFreeAt es reqs (rc_requests c) (rc_window c) re_req else None);
               f2 = pickLater f1 (if rc_tokens c > 0 \<and> toks \<ge> rc_tokens c
                      then rateFreeAt es toks (rc_tokens c) (rc_window c) re_tok else None)
           in (l', case f2 of Some at \<Rightarrow> Some at
                   | None \<Rightarrow> (case es of [] \<Rightarrow> None | e # _ \<Rightarrow> Some (re_at e + rc_window c)))))"

definition RateResetAt :: "Options \<Rightarrow> Ledger \<Rightarrow> string \<Rightarrow> Ledger \<times> time option" where
  "RateResetAt opt l pool = rateResetLocked l pool (o_now opt)"

fun rateWakeLocked :: "Ledger \<Rightarrow> string list \<Rightarrow> time \<Rightarrow> duration option \<Rightarrow> Ledger \<times> duration option" where
  "rateWakeLocked l [] now best = (l, best)"
| "rateWakeLocked l (p # ps) now best =
     (let (l1, why) = rateBlockLocked l p now
      in if why = [] then rateWakeLocked l1 ps now best
         else let (l2, reset) = rateResetLocked l1 p now
              in case reset of
                   None \<Rightarrow> rateWakeLocked l2 ps now best
                 | Some at \<Rightarrow>
                     (let d = at - now
                      in rateWakeLocked l2 ps now
                           (case best of None \<Rightarrow> Some d | Some b \<Rightarrow> if d < b then Some d else Some b)))"

section \<open>The view of a window\<close>

definition window :: "Ledger \<Rightarrow> string \<Rightarrow> time \<Rightarrow> rateEntry list" where
  "window l pool now = fst (snd (rateWindowLocked l pool now))"

definition same_windows :: "time \<Rightarrow> Ledger \<Rightarrow> Ledger \<Rightarrow> bool" where
  "same_windows now l l' \<longleftrightarrow> l_rates l' = l_rates l \<and> (\<forall>q t. now \<le> t \<longrightarrow> window l' q t = window l q t)"

definition usedIn :: "Ledger \<Rightarrow> string \<Rightarrow> (rateEntry \<Rightarrow> int) \<Rightarrow> time \<Rightarrow> int" where
  "usedIn l pool val t = sum_list (map val (window l pool t))"

definition rateFull :: "Ledger \<Rightarrow> string \<Rightarrow> time \<Rightarrow> bool" where
  "rateFull l pool t = (case mapGet (l_rates l) pool of None \<Rightarrow> False
     | Some c \<Rightarrow> (rc_requests c > 0 \<and> usedIn l pool re_req t \<ge> rc_requests c)
               \<or> (rc_tokens c > 0 \<and> usedIn l pool re_tok t \<ge> rc_tokens c))"

interpretation entry_order: strict_weak_order entryBefore
  by unfold_locales (auto simp: entryBefore_def)

lemma sum_list_sort [simp]:
  "sum_list (map f (sortSliceStable lt xs)) = (sum_list (map f xs) :: int)"
  by (metis mset_map mset_sortSliceStable sum_mset_sum_list)

lemma window_none [simp]: "mapGet (l_rates l) pool = None \<Longrightarrow> window l pool t = []"
  by (simp add: window_def rateWindowLocked_def)

lemma window_some: "mapGet (l_rates l) pool = Some c \<Longrightarrow> window l pool t =
    sortSliceStable entryBefore
      (filter (\<lambda>e. re_at e > t - rc_window c) (mapGetOr [] (l_rateUse l) pool))"
  by (simp add: window_def rateWindowLocked_def Let_def)

lemma rateWindow_view:
  "rateWindowLocked l pool t = (fst (rateWindowLocked l pool t), window l pool t,
     usedIn l pool re_req t, usedIn l pool re_tok t)"
  by (auto simp: window_def usedIn_def rateWindowLocked_def Let_def split: option.splits)

lemma rateWindow_frame [simp, rate_frame]:
  "\<exists>u. fst (rateWindowLocked l pool t) = l\<lparr>l_rateUse := u\<rparr>"
proof (cases "mapGet (l_rates l) pool")
  case None
  then have "fst (rateWindowLocked l pool t) = l\<lparr>l_rateUse := l_rateUse l\<rparr>"
    by (simp add: rateWindowLocked_def)
  then show ?thesis ..
next
  case (Some c)
  then show ?thesis by (auto simp: rateWindowLocked_def Let_def)
qed

lemma same_windows_refl [simp]: "same_windows now l l"
  by (simp add: same_windows_def)

lemma same_windows_trans:
  "same_windows now l l1 \<Longrightarrow> same_windows now l1 l2 \<Longrightarrow> same_windows now l l2"
  by (simp add: same_windows_def)

lemma window_sorted: "sorted_wrt (\<lambda>a b. re_at a \<le> re_at b) (window l pool t)"
proof (cases "mapGet (l_rates l) pool")
  case (Some c)
  have "(\<lambda>a b. \<not> entryBefore b a) = (\<lambda>a b. re_at a \<le> re_at b)"
    by (auto simp: entryBefore_def fun_eq_iff)
  with Some show ?thesis
    using entry_order.sorted_sort by (metis window_some)
qed simp

text \<open>Dropping what has left the window changes no later view.\<close>

lemma rateWindow_same: "same_windows now l (fst (rateWindowLocked l pool now))"
proof (cases "mapGet (l_rates l) pool")
  case None
  then show ?thesis by (simp add: rateWindowLocked_def)
next
  case (Some c)
  let ?u = "mapGetOr [] (l_rateUse l) pool"
  let ?es = "sortSliceStable entryBefore (filter (\<lambda>e. re_at e > now - rc_window c) ?u)"
  have l': "fst (rateWindowLocked l pool now) = l\<lparr>l_rateUse := mapSet (l_rateUse l) pool ?es\<rparr>"
    using Some by (simp add: rateWindowLocked_def Let_def)
  have "window (l\<lparr>l_rateUse := mapSet (l_rateUse l) pool ?es\<rparr>) q t = window l q t"
    if t: "now \<le> t" for q t
  proof (cases "mapGet (l_rates l) q")
    case None
    then show ?thesis by simp
  next
    case (Some d)
    show ?thesis
    proof (cases "q = pool")
      case True
      with \<open>mapGet (l_rates l) pool = Some c\<close> Some have d: "d = c" by simp
      have "filter (\<lambda>e. re_at e > t - rc_window c) (filter (\<lambda>e. re_at e > now - rc_window c) ?u)
          = filter (\<lambda>e. re_at e > t - rc_window c) ?u"
        using t by (auto simp: filter_filter intro!: filter_cong)
      then have "filter (\<lambda>e. re_at e > t - rc_window c) ?es =
          sortSliceStable entryBefore (filter (\<lambda>e. re_at e > t - rc_window c) ?u)"
        by (simp add: entry_order.filter_sort)
      then show ?thesis using True Some d
        by (simp add: window_some entry_order.sort_idem)
    next
      case False
      with Some show ?thesis by (simp add: window_some)
    qed
  qed
  then show ?thesis using l' by (simp add: same_windows_def)
qed

text \<open>A read forgets entries and never invents one.\<close>

definition uses_sub :: "Ledger \<Rightarrow> Ledger \<Rightarrow> bool" where
  "uses_sub l l' \<longleftrightarrow> (\<forall>p. set (mapGetOr [] (l_rateUse l') p) \<subseteq> set (mapGetOr [] (l_rateUse l) p))"

lemma uses_sub_refl [simp]: "uses_sub l l"
  by (simp add: uses_sub_def)

lemma uses_sub_trans: "uses_sub l l1 \<Longrightarrow> uses_sub l1 l2 \<Longrightarrow> uses_sub l l2"
  by (meson uses_sub_def subset_trans)

lemma rateWindow_sub: "uses_sub l (fst (rateWindowLocked l pool now))"
  by (auto simp: uses_sub_def rateWindowLocked_def Let_def split: option.splits)

lemma same_windows_usedIn: "same_windows now l l' \<Longrightarrow> now \<le> t \<Longrightarrow> usedIn l' p v t = usedIn l p v t"
  by (simp add: same_windows_def usedIn_def)

lemma same_windows_rateFull: "same_windows now l l' \<Longrightarrow> now \<le> t \<Longrightarrow> rateFull l' p t = rateFull l p t"
  by (simp add: rateFull_def usedIn_def same_windows_def split: option.split)

section \<open>Blocking\<close>

lemma rateBlock_text: "snd (rateBlockLocked l pool t) \<noteq> [] \<longleftrightarrow> rateFull l pool t"
proof (cases "mapGet (l_rates l) pool")
  case None
  then show ?thesis by (simp add: rateBlockLocked_def rateFull_def)
next
  case (Some c)
  then show ?thesis
    unfolding rateBlockLocked_def rateFull_def
    by (subst rateWindow_view) (auto simp: dimBlock_def Let_def split: option.splits)
qed

lemma rateBlock_state: "fst (rateBlockLocked l pool t) = fst (rateWindowLocked l pool t)"
  by (simp add: rateBlockLocked_def rateWindowLocked_def Let_def split: option.splits)

lemma rateReset_state: "fst (rateResetLocked l pool t) = fst (rateWindowLocked l pool t)"
  by (simp add: rateResetLocked_def rateWindowLocked_def Let_def split: option.splits)

lemma rateBlock_same: "same_windows now l (fst (rateBlockLocked l pool now))"
  by (simp add: rateBlock_state rateWindow_same)

lemma rateBlock_frame [rate_frame]: "\<exists>u. fst (rateBlockLocked l pool t) = l\<lparr>l_rateUse := u\<rparr>"
  by (simp add: rateBlock_state)

section \<open>When a full window frees\<close>

definition rate_wf :: "Ledger \<Rightarrow> bool" where
  "rate_wf l \<longleftrightarrow> (\<forall>p. \<forall>e\<in>set (mapGetOr [] (l_rateUse l) p). 0 \<le> re_req e \<and> 0 \<le> re_tok e)"

lemma usedIn_later:
  assumes "mapGet (l_rates l) pool = Some c" and "now \<le> t"
  shows "usedIn l pool val t
    = sum_list (map val (filter (\<lambda>e. re_at e > t - rc_window c) (window l pool now)))"
proof -
  have "filter (\<lambda>e. re_at e > t - rc_window c)
      (filter (\<lambda>e. re_at e > now - rc_window c) (mapGetOr [] (l_rateUse l) pool))
    = filter (\<lambda>e. re_at e > t - rc_window c) (mapGetOr [] (l_rateUse l) pool)"
    using assms(2) by (auto simp: filter_filter intro!: filter_cong)
  with assms(1) show ?thesis
    by (simp add: usedIn_def window_some entry_order.filter_sort)
qed

lemma sum_list_filter_le:
  "\<forall>e\<in>set es. (0::int) \<le> val e \<Longrightarrow> sum_list (map val (filter P es)) \<le> sum_list (map val es)"
  by (induction es) auto

lemma rateFreeAt_exact:
  assumes "sorted_wrt (\<lambda>a b. re_at a \<le> re_at b) es" and "\<forall>e\<in>set es. 0 \<le> val e"
    and "ceiling \<le> sum_list (map val es)" and "0 < ceiling"
  shows "\<exists>e\<in>set es. rateFreeAt es (sum_list (map val es)) ceiling w val = Some (re_at e + w)
    \<and> sum_list (map val (filter (\<lambda>x. re_at x > re_at e) es)) < ceiling
    \<and> (\<forall>s < re_at e. ceiling \<le> sum_list (map val (filter (\<lambda>x. re_at x > s) es)))"
  using assms
proof (induction es)
  case Nil
  then show ?case by simp
next
  case (Cons e es)
  have ge: "\<forall>x\<in>set es. re_at e \<le> re_at x" and nn: "\<forall>x\<in>set es. 0 \<le> val x"
    using Cons.prems by auto
  show ?case
  proof (cases "0 < val e \<and> sum_list (map val es) < ceiling")
    case True
    have "sum_list (map val (filter (\<lambda>x. re_at x > re_at e) es)) < ceiling"
      using sum_list_filter_le [OF nn, of "\<lambda>x. re_at x > re_at e"] True by linarith
    moreover have "filter (\<lambda>x. re_at x > s) (e # es) = e # es" if "s < re_at e" for s
      using that ge by (auto simp: filter_id_conv)
    ultimately show ?thesis using True Cons.prems by (intro bexI [of _ e]) auto
  next
    case False
    with Cons.prems have "ceiling \<le> sum_list (map val es)" by force
    then obtain f where f: "f \<in> set es"
      "rateFreeAt es (sum_list (map val es)) ceiling w val = Some (re_at f + w)"
      "sum_list (map val (filter (\<lambda>x. re_at x > re_at f) es)) < ceiling"
      "\<forall>s < re_at f. ceiling \<le> sum_list (map val (filter (\<lambda>x. re_at x > s) es))"
      using Cons by force
    have "rateFreeAt (e # es) (sum_list (map val (e # es))) ceiling w val = Some (re_at f + w)"
      using False f(2) Cons.prems(2) by auto
    moreover have "\<not> re_at e > re_at f" using ge f(1) by (simp add: not_less)
    ultimately show ?thesis using f Cons.prems(2)
      by (intro bexI [of _ f]) (auto intro: add_increasing)
  qed
qed

text \<open>The two dimensions of a ceiling at once: when \<open>val\<close> is at its ceiling the time found is the
  first at which it is below, as long as nothing else is recorded.\<close>

lemma rateFreeAt_window:
  assumes "mapGet (l_rates l) pool = Some c" and "rate_wf l" and "val = re_req \<or> val = re_tok"
    and "0 < ceiling" and "ceiling \<le> usedIn l pool val now"
  obtains t where
    "rateFreeAt (window l pool now) (usedIn l pool val now) ceiling (rc_window c) val = Some t"
    and "now < t" and "\<And>s. t \<le> s \<Longrightarrow> usedIn l pool val s < ceiling"
    and "\<And>s. now \<le> s \<Longrightarrow> s < t \<Longrightarrow> ceiling \<le> usedIn l pool val s"
proof -
  let ?w = "window l pool now"
  have mem: "e \<in> set (mapGetOr [] (l_rateUse l) pool) \<and> now - rc_window c < re_at e"
    if "e \<in> set ?w" for e
    using that assms(1) by (auto simp: window_some)
  have nn: "\<forall>e\<in>set ?w. 0 \<le> val e"
    using mem assms(2,3) by (auto simp: rate_wf_def)
  from rateFreeAt_exact [OF window_sorted nn assms(5) [unfolded usedIn_def] assms(4)]
  obtain e where e: "e \<in> set ?w"
    "rateFreeAt ?w (sum_list (map val ?w)) ceiling (rc_window c) val = Some (re_at e + rc_window c)"
    "sum_list (map val (filter (\<lambda>x. re_at x > re_at e) ?w)) < ceiling"
    "\<And>s. s < re_at e \<Longrightarrow> ceiling \<le> sum_list (map val (filter (\<lambda>x. re_at x > s) ?w))"
    by blast
  let ?t = "re_at e + rc_window c"
  have below: "usedIn l pool val s < ceiling" if s: "?t \<le> s" for s
  proof -
    have now: "now \<le> s" using mem [OF e(1)] s by simp
    let ?f = "filter (\<lambda>x. re_at x > re_at e) ?w"
    have "filter (\<lambda>x. re_at x > s - rc_window c) ?w
        = filter (\<lambda>x. re_at x > s - rc_window c) ?f"
      using s by (auto simp: filter_filter intro!: filter_cong)
    then show ?thesis
      using e(3) sum_list_filter_le [of ?f val "\<lambda>x. re_at x > s - rc_window c"] nn
      by (simp add: usedIn_later [OF assms(1) now])
  qed
  moreover have "ceiling \<le> usedIn l pool val s" if "now \<le> s" "s < ?t" for s
    using e(4) [of "s - rc_window c"] that by (simp add: usedIn_later [OF assms(1)])
  ultimately show ?thesis
    using that [of ?t] e(2) mem [OF e(1)] by (simp add: usedIn_def)
qed

text \<open>One dimension of a ceiling: it is full exactly up to some moment, and that moment is the one
  \<open>rateResetLocked\<close> takes from it (none when the dimension is not full now).\<close>

definition dimFull :: "Ledger \<Rightarrow> string \<Rightarrow> (rateEntry \<Rightarrow> int) \<Rightarrow> int \<Rightarrow> time \<Rightarrow> bool" where
  "dimFull l pool val ceiling s \<longleftrightarrow> ceiling > 0 \<and> ceiling \<le> usedIn l pool val s"

definition dimFree :: "Ledger \<Rightarrow> string \<Rightarrow> RateCeiling \<Rightarrow> (rateEntry \<Rightarrow> int) \<Rightarrow> int \<Rightarrow> time \<Rightarrow> time option" where
  "dimFree l pool c val ceiling now = (if dimFull l pool val ceiling now
     then rateFreeAt (window l pool now) (usedIn l pool val now) ceiling (rc_window c) val else None)"

lemma dimFull_until:
  assumes c: "mapGet (l_rates l) pool = Some c" and wf: "rate_wf l"
    and val: "val = re_req \<or> val = re_tok"
  obtains T where "now \<le> T" and "\<And>s. now \<le> s \<Longrightarrow> dimFull l pool val ceiling s \<longleftrightarrow> s < T"
    and "dimFree l pool c val ceiling now = (if now < T then Some T else None)"
proof (cases "dimFull l pool val ceiling now")
  case True
  then have "0 < ceiling" "ceiling \<le> usedIn l pool val now" by (auto simp: dimFull_def)
  from rateFreeAt_window [OF c wf val this] obtain t where t:
    "rateFreeAt (window l pool now) (usedIn l pool val now) ceiling (rc_window c) val = Some t"
    "now < t" "\<And>s. t \<le> s \<Longrightarrow> usedIn l pool val s < ceiling"
    "\<And>s. now \<le> s \<Longrightarrow> s < t \<Longrightarrow> ceiling \<le> usedIn l pool val s" by blast
  have "dimFull l pool val ceiling s \<longleftrightarrow> s < t" if "now \<le> s" for s
    using t(3) [of s] t(4) [of s] that \<open>0 < ceiling\<close> by (cases "s < t") (auto simp: dimFull_def)
  with True t(1,2) show ?thesis by (intro that [of t]) (auto simp: dimFree_def)
next
  case False
  have "usedIn l pool val s \<le> usedIn l pool val now" if "now \<le> s" for s
    unfolding usedIn_later [OF c that]
    by (subst usedIn_def, rule sum_list_filter_le)
      (use val wf c in \<open>auto simp: window_some rate_wf_def\<close>)
  with False show ?thesis
    by (intro that [of now]) (force simp: dimFull_def dimFree_def)+
qed

lemma rateFull_dims: "mapGet (l_rates l) pool = Some c \<Longrightarrow> rateFull l pool s \<longleftrightarrow>
    dimFull l pool re_req (rc_requests c) s \<or> dimFull l pool re_tok (rc_tokens c) s"
  by (simp add: rateFull_def dimFull_def)

lemma rateReset_dims:
  assumes "mapGet (l_rates l) pool = Some c"
  shows "snd (rateResetLocked l pool now) =
    (case pickLater (pickLater None (dimFree l pool c re_req (rc_requests c) now))
            (dimFree l pool c re_tok (rc_tokens c) now) of
       Some at \<Rightarrow> Some at
     | None \<Rightarrow> (case window l pool now of [] \<Rightarrow> None | e # _ \<Rightarrow> Some (re_at e + rc_window c)))"
  using assms unfolding rateResetLocked_def
  by (subst rateWindow_view) (simp add: Let_def dimFree_def dimFull_def conj_commute)

lemma rateReset_exact:
  assumes c: "mapGet (l_rates l) pool = Some c" and wf: "rate_wf l" and full: "rateFull l pool now"
  obtains t where "snd (rateResetLocked l pool now) = Some t" and "now < t"
    and "\<And>s. now \<le> s \<Longrightarrow> rateFull l pool s \<longleftrightarrow> s < t"
proof -
  obtain R where R: "now \<le> R" "\<And>s. now \<le> s \<Longrightarrow> dimFull l pool re_req (rc_requests c) s \<longleftrightarrow> s < R"
    "dimFree l pool c re_req (rc_requests c) now = (if now < R then Some R else None)"
    using dimFull_until [OF c wf, of re_req] by blast
  obtain T where T: "now \<le> T" "\<And>s. now \<le> s \<Longrightarrow> dimFull l pool re_tok (rc_tokens c) s \<longleftrightarrow> s < T"
    "dimFree l pool c re_tok (rc_tokens c) now = (if now < T then Some T else None)"
    using dimFull_until [OF c wf, of re_tok] by blast
  have "now < max R T"
    using full R(2) T(2) by (auto simp: rateFull_dims [OF c])
  moreover from this have "snd (rateResetLocked l pool now) = Some (max R T)"
    using R(1,3) T(1,3) by (auto simp: rateReset_dims [OF c] pickLater_def max_def)
  moreover have "rateFull l pool s \<longleftrightarrow> s < max R T" if "now \<le> s" for s
    using R(2) T(2) that by (simp add: rateFull_dims [OF c] less_max_iff_disj)
  ultimately show ?thesis using that by blast
qed

end
