(* ===== verification/Capacity_Admission.thy ===== *)
theory Capacity_Admission
  imports Capacity_Rate
begin

text \<open>
  The admission check of \<open>internal/capacity/ledger.go\<close>: how full a pool is (\<open>usedLocked\<close>), what
  blocks a request (\<open>blockReasonLocked\<close>), which node a request with several candidates takes
  (\<open>rankedLocked\<close>, \<open>resolveLocked\<close>). A check may drop expired rate entries and clear an expired
  adoption hold, so it returns the ledger; \<open>quiet\<close> says that this is all it may do.
\<close>

named_theorems ledger_frame \<open>fields an operation leaves alone\<close>

section \<open>How full a pool is\<close>

definition heldLocked :: "Ledger \<Rightarrow> string \<Rightarrow> int" where
  "heldLocked l pool = int (length (filter (\<lambda>e. list_ex (\<lambda>p. p = pool) (ls_pools (snd e))) (l_leases l)))"

definition overflowLocked :: "Ledger \<Rightarrow> string \<Rightarrow> string list" where
  "overflowLocked l node =
     sort (map fst (filter (\<lambda>e. ls_overflow (snd e) \<and> ls_node (snd e) = node) (l_leases l)))"

fun tallyByNode :: "Ledger \<Rightarrow> string \<Rightarrow> (string \<times> Lease) list \<Rightarrow> (string, int) gomap \<Rightarrow> int
    \<Rightarrow> (string, int) gomap \<times> int" where
  "tallyByNode l pool [] perNode n = (perNode, n)"
| "tallyByNode l pool (e # es) perNode n =
     (if \<not> sharesPool (ls_pools (snd e)) [pool] then tallyByNode l pool es perNode n
      else if ls_node (snd e) = [] \<or> limitOf l (nodePool (ls_node (snd e))) \<le> 0
        then tallyByNode l pool es perNode (n + 1)
      else tallyByNode l pool es
             (mapSet perNode (ls_node (snd e)) (mapGetOr 0 perNode (ls_node (snd e)) + 1)) n)"

definition heldByNodeLocked :: "Ledger \<Rightarrow> string \<Rightarrow> int" where
  "heldByNodeLocked l pool =
     (let (perNode, n) = tallyByNode l pool (l_leases l) [] 0
      in n + sum_list (map (\<lambda>e. min (snd e) (limitOf l (nodePool (fst e)))) perNode))"

definition externalOf :: "Options \<Rightarrow> string \<Rightarrow> int" where
  "externalOf opt pool = (case o_External opt of None \<Rightarrow> 0 | Some f \<Rightarrow> f pool)"

definition usedLocked :: "Options \<Rightarrow> Ledger \<Rightarrow> string \<Rightarrow> int" where
  "usedLocked opt l pool =
     (if hasPrefix pool ''node:''
        then heldLocked l pool + int (length (overflowLocked l (trimPrefix pool ''node:'')))
      else if hasPrefix pool ''llm:'' \<and> optOn (o_CountPoolByNode opt) then heldByNodeLocked l pool
      else heldLocked l pool) + externalOf opt pool"

definition holdersLocked :: "Ledger \<Rightarrow> string \<Rightarrow> string" where
  "holdersLocked l pool =
     (let hs = map fst (filter (\<lambda>e. list_ex (\<lambda>p. p = pool) (ls_pools (snd e))) (l_leases l));
          hs' = (case cutPrefix pool ''node:'' of Some node \<Rightarrow> hs @ overflowLocked l node | None \<Rightarrow> hs)
      in if hs' = [] then ''other sessions'' else joinStr '','' (sort hs'))"

section \<open>What blocks a request\<close>

definition adoptionPendingLocked :: "Options \<Rightarrow> Ledger \<Rightarrow> Ledger \<times> string" where
  "adoptionPendingLocked opt l =
     (if \<not> l_adopting l then (l, [])
      else if \<not> optOn (o_AdoptBeforeAdmit opt) then (l\<lparr>l_adopting := False\<rparr>, [])
      else if o_now opt - l_adoptSince l \<ge> o_AdoptionTimeout opt then (l\<lparr>l_adopting := False\<rparr>, [])
      else (l, ''waiting for work resumed after the restart to be adopted''))"

definition fullReason :: "Options \<Rightarrow> Ledger \<Rightarrow> string \<Rightarrow> string" where
  "fullReason opt l p =
     (let used = itoa (usedLocked opt l p); lim = itoa (limitOf l p)
      in case cutPrefix p ''node:'' of
           Some name \<Rightarrow> ''waiting for node '' @ name @ '': '' @ used @ ''/'' @ lim
                          @ '' engines in use, held by '' @ holdersLocked l p
         | None \<Rightarrow> (case cutPrefix p ''node-verify:'' of
             Some name \<Rightarrow> ''waiting for node '' @ name @ '': '' @ used @ ''/'' @ lim
                          @ '' verifier slots in use, held by '' @ holdersLocked l p
           | None \<Rightarrow> ''pool '' @ p @ '' full ('' @ used @ ''/'' @ lim @ '', held by ''
                          @ holdersLocked l p @ '')''))"

definition backpressureReason :: "string \<Rightarrow> string \<Rightarrow> string" where
  "backpressureReason p why = ''pool '' @ p @ '' backpressure: '' @ why"

text \<open>The three soft blocks of a pool, in the order of the code; the last two skip interactive requests.\<close>

definition softBlock :: "Options \<Rightarrow> Ledger \<Rightarrow> Request \<Rightarrow> string \<Rightarrow> string option" where
  "softBlock opt l req p =
     (case o_Backpressure opt of
        Some f \<Rightarrow> if fst (f p) then Some (snd (f p)) else None
      | None \<Rightarrow> None)"

definition autonomousBlock :: "Options \<Rightarrow> Request \<Rightarrow> string \<Rightarrow> string option" where
  "autonomousBlock opt req p =
     (case o_AutonomousBackpressure opt of
        Some f \<Rightarrow> if \<not> rq_interactive req \<and> fst (f p) then Some (snd (f p)) else None
      | None \<Rightarrow> None)"

definition heldBlock :: "Options \<Rightarrow> Ledger \<Rightarrow> Request \<Rightarrow> string \<Rightarrow> string option" where
  "heldBlock opt l req p =
     (case o_HeldBackpressure opt of
        Some f \<Rightarrow> if \<not> rq_interactive req \<and> fst (f p (heldLocked l p) (limitOf l p))
                   then Some (snd (f p (heldLocked l p) (limitOf l p))) else None
      | None \<Rightarrow> None)"

fun blockPools :: "Options \<Rightarrow> Ledger \<Rightarrow> Request \<Rightarrow> string list \<Rightarrow> Ledger \<times> string" where
  "blockPools opt l req [] = (l, [])"
| "blockPools opt l req (p # ps) =
     (if limitOf l p > 0 \<and> usedLocked opt l p \<ge> limitOf l p then (l, fullReason opt l p)
      else let (l1, why) = rateBlockLocked l p (o_now opt)
           in if why \<noteq> [] then (l1, why)
              else case softBlock opt l1 req p of
                Some w \<Rightarrow> (l1, backpressureReason p w)
              | None \<Rightarrow> (case autonomousBlock opt req p of
                  Some w \<Rightarrow> (l1, backpressureReason p w)
                | None \<Rightarrow> (case heldBlock opt l1 req p of
                    Some w \<Rightarrow> (l1, backpressureReason p w)
                  | None \<Rightarrow> blockPools opt l1 req ps)))"

definition blockReasonLocked :: "Options \<Rightarrow> Ledger \<Rightarrow> Request \<Rightarrow> Ledger \<times> string" where
  "blockReasonLocked opt l req = blockPools opt l req (rq_pools req)"

section \<open>Which node a request takes\<close>

text \<open>A node's load is the pair (used, limit) of its pool, (0, 1) for a pool with no limit.\<close>

definition loadOf :: "Options \<Rightarrow> Ledger \<Rightarrow> string \<Rightarrow> int \<times> int" where
  "loadOf opt l name =
     (let pool = nodePool name; lim = limitOf l pool
      in if lim > 0 then (usedLocked opt l pool, lim) else (0, 1))"

definition rankLess :: "Options \<Rightarrow> Ledger \<Rightarrow> Request \<Rightarrow> NodeChoice \<Rightarrow> NodeChoice \<Rightarrow> bool" where
  "rankLess opt l req ca cb =
     (let a = nc_name ca; b = nc_name cb;
          x = fst (loadOf opt l a) * snd (loadOf opt l b);
          y = fst (loadOf opt l b) * snd (loadOf opt l a)
      in if x \<noteq> y then x < y
         else if rq_prefer req \<noteq> [] \<and> a \<noteq> b \<and> (a = rq_prefer req) \<noteq> (b = rq_prefer req)
           then a = rq_prefer req
         else nc_priority ca > nc_priority cb)"

definition rankedLocked :: "Options \<Rightarrow> Ledger \<Rightarrow> Request \<Rightarrow> NodeChoice list" where
  "rankedLocked opt l req = sortSliceStable (rankLess opt l req) (candidates req)"

definition AllCandidatesGatePrefix :: string where
  "AllCandidatesGatePrefix = ''all candidate nodes drained or denied: ''"

definition ledgerNodePoolLocked :: "Ledger \<Rightarrow> Role \<Rightarrow> string \<Rightarrow> string" where
  "ledgerNodePoolLocked l role node =
     (if role = RoleVerifier \<and> limitOf l (VerifierPool node) > 0 then VerifierPool node
      else nodePool node)"

fun swapPools :: "string \<Rightarrow> string \<Rightarrow> bool \<Rightarrow> string list \<Rightarrow> string list" where
  "swapPools np vp swapped [] = []"
| "swapPools np vp swapped (p # ps) =
     (if p = np then (if \<not> swapped then vp # swapPools np vp True ps else swapPools np vp swapped ps)
      else p # swapPools np vp swapped ps)"

definition swapVerifierNodePoolLocked :: "Ledger \<Rightarrow> Request \<Rightarrow> string \<Rightarrow> Request" where
  "swapVerifierNodePoolLocked l req node =
     (if rq_role req \<noteq> RoleVerifier \<or> node = [] then req
      else let np = nodePool node; vp = VerifierPool node
           in if limitOf l vp \<le> 0 \<or> \<not> sharesPool (rq_pools req) [np] then req
              else req\<lparr>rq_pools := swapPools np vp False (rq_pools req)\<rparr>)"

definition nodeGateLocked :: "Options \<Rightarrow> string \<Rightarrow> string \<Rightarrow> bool \<times> string" where
  "nodeGateLocked opt node consumer =
     (case o_NodeGate opt of
        Some f \<Rightarrow> f node consumer
      | None \<Rightarrow> (case o_NodeHealthy opt of
          Some h \<Rightarrow> if \<not> h node then (False, ''unhealthy'') else (True, [])
        | None \<Rightarrow> (True, [])))"

definition headroomBlock :: "Options \<Rightarrow> Request \<Rightarrow> string \<Rightarrow> string option" where
  "headroomBlock opt req name =
     (case o_VerifierHeadroom opt of
        Some f \<Rightarrow> if rq_role req = RoleVerifier \<and> fst (f name) then Some (snd (f name)) else None
      | None \<Rightarrow> None)"

text \<open>The candidate loop: the bound request of the first candidate that passes, or the per-candidate
  reasons and how many of them came from the gate.\<close>

fun resolveLoop :: "Options \<Rightarrow> Ledger \<Rightarrow> Request \<Rightarrow> NodeChoice list
    \<Rightarrow> Ledger \<times> Request option \<times> string list \<times> nat" where
  "resolveLoop opt l req [] = (l, None, [], 0)"
| "resolveLoop opt l req (c # cs) =
     (let name = nc_name c; gate = nodeGateLocked opt name (rq_consumer req)
      in if \<not> fst gate then
           (let (l1, b, parts, g) = resolveLoop opt l req cs
            in (l1, b, (name @ '': '' @ snd gate) # parts, Suc g))
         else case headroomBlock opt req name of
           Some why \<Rightarrow>
             (let (l1, b, parts, g) = resolveLoop opt l req cs
              in (l1, b, (name @ '': verifier headroom: '' @ why) # parts, g))
         | None \<Rightarrow>
             (let bound = withNodePool req name (ledgerNodePoolLocked l (rq_role req) name);
                  (l1, why) = blockReasonLocked opt l bound
              in if why = [] then (l1, Some bound, [], 0)
                 else let (l2, b, parts, g) = resolveLoop opt l1 req cs;
                          why' = trimPrefix why (''waiting for node '' @ name @ '': '')
                      in (l2, b, (name @ '': '' @ why') # parts, g)))"

definition resolveLocked :: "Options \<Rightarrow> Ledger \<Rightarrow> Request \<Rightarrow> Ledger \<times> Request \<times> string" where
  "resolveLocked opt l req =
     (let (l0, hold) = adoptionPendingLocked opt l
      in if hold \<noteq> [] then (l0, req, hold)
         else if \<not> multiNode req then
           (let gate = (case o_NodeGate opt of Some f \<Rightarrow> f (rq_node req) (rq_consumer req)
                        | None \<Rightarrow> (True, []))
            in if rq_node req \<noteq> [] \<and> \<not> fst gate
                 then (l0, req, ''waiting for node '' @ rq_node req @ '': '' @ snd gate)
               else let req' = swapVerifierNodePoolLocked l0 req (rq_node req);
                        (l1, why) = blockReasonLocked opt l0 req'
                    in (l1, req', why))
         else
           (let ranked = rankedLocked opt l0 req
            in if ranked = [] then
                 (l0, req, ''no eligible node among '' @ joinStr '', '' (map nc_name (rq_choices req))
                             @ '': all excluded'')
               else
                 (let (l1, b, parts, g) = resolveLoop opt l0 req ranked
                  in case b of
                       Some bound \<Rightarrow> (l1, bound, [])
                     | None \<Rightarrow>
                         (let inner = joinStr ''; '' parts;
                              inner' = (if g = length ranked \<and> g \<ge> 2
                                        then AllCandidatesGatePrefix @ inner else inner)
                          in (l1, req, ''waiting for nodes '' @ joinStr '', '' (map nc_name ranked)
                                         @ '': '' @ inner')))))"

text \<open>\<open>WouldGrant\<close>: the dry run.\<close>

definition WouldGrant :: "Options \<Rightarrow> Ledger \<Rightarrow> Request \<Rightarrow> Ledger \<times> bool" where
  "WouldGrant opt l req =
     (let (l1, _, why) = resolveLocked opt l (withoutStaleNode (applyRefresh (o_now opt) req))
      in (l1, why = []))"

definition Limit :: "Ledger \<Rightarrow> string \<Rightarrow> int" where
  "Limit l pool = limitOf l pool"

definition VerifierSlotsOn :: "Ledger \<Rightarrow> string \<Rightarrow> int" where
  "VerifierSlotsOn l node = limitOf l (VerifierPool node)"

section \<open>The checks change nothing that admission reads\<close>

definition adoptionHold :: "Options \<Rightarrow> Ledger \<Rightarrow> bool" where
  "adoptionHold opt l \<longleftrightarrow> l_adopting l \<and> optOn (o_AdoptBeforeAdmit opt)
     \<and> o_now opt - l_adoptSince l < o_AdoptionTimeout opt"

definition quiet :: "Options \<Rightarrow> Ledger \<Rightarrow> Ledger \<Rightarrow> bool" where
  "quiet opt l l' \<longleftrightarrow> l' = l\<lparr>l_rateUse := l_rateUse l', l_adopting := l_adopting l'\<rparr>
     \<and> same_windows (o_now opt) l l' \<and> uses_sub l l' \<and> adoptionHold opt l' = adoptionHold opt l"

lemma quiet_refl [simp]: "quiet opt l l"
  by (simp add: quiet_def)

lemma quiet_trans: "quiet opt l l1 \<Longrightarrow> quiet opt l1 l2 \<Longrightarrow> quiet opt l l2"
  by (cases l; cases l1; cases l2) (auto simp: quiet_def intro: same_windows_trans uses_sub_trans)

lemma quiet_fields:
  assumes "quiet opt l l'"
  shows "l_limits l' = l_limits l" "l_leases l' = l_leases l" "l_waiters l' = l_waiters l"
    "l_seq l' = l_seq l" "l_lastGrant l' = l_lastGrant l" "l_lastModel l' = l_lastModel l"
    "l_rates l' = l_rates l" "l_grants l' = l_grants l" "l_changed l' = l_changed l"
    "l_adoptSince l' = l_adoptSince l"
  using assms by (cases l; cases l'; simp add: quiet_def)+

lemma usage_cong:
  assumes "l_leases l' = l_leases l" and "l_limits l' = l_limits l"
  shows "limitOf l' = limitOf l" "heldLocked l' = heldLocked l" "overflowLocked l' = overflowLocked l"
    "heldByNodeLocked l' = heldByNodeLocked l" "usedLocked opt l' = usedLocked opt l"
    "holdersLocked l' = holdersLocked l" "fullReason opt l' p = fullReason opt l p"
proof -
  show lim: "limitOf l' = limitOf l" and held: "heldLocked l' = heldLocked l"
    and over: "overflowLocked l' = overflowLocked l"
    using assms by (auto simp: limitOf_def heldLocked_def overflowLocked_def)
  have "tallyByNode l' pool es m n = tallyByNode l pool es m n" for pool es m n
    by (induction es arbitrary: m n) (auto simp: lim)
  then show byn: "heldByNodeLocked l' = heldByNodeLocked l"
    using assms lim by (simp add: heldByNodeLocked_def fun_eq_iff)
  show used: "usedLocked opt l' = usedLocked opt l"
    using held over byn by (simp add: usedLocked_def fun_eq_iff)
  show hold: "holdersLocked l' = holdersLocked l"
    by (intro ext) (simp only: holdersLocked_def over assms)
  show "fullReason opt l' p = fullReason opt l p"
    by (simp only: fullReason_def used hold lim)
qed

lemma quiet_usage:
  assumes "quiet opt l l'"
  shows "limitOf l' = limitOf l" "heldLocked l' = heldLocked l" "overflowLocked l' = overflowLocked l"
    "heldByNodeLocked l' = heldByNodeLocked l" "usedLocked o' l' = usedLocked o' l"
    "holdersLocked l' = holdersLocked l" "fullReason o' l' p = fullReason o' l p"
  using usage_cong [OF quiet_fields(2) [OF assms] quiet_fields(1) [OF assms]] by simp_all

lemma quiet_rateFull: "quiet opt l l' \<Longrightarrow> o_now opt \<le> t \<Longrightarrow> rateFull l' p t = rateFull l p t"
  by (rule same_windows_rateFull) (auto simp: quiet_def)

lemma rateBlock_quiet: "quiet opt l (fst (rateBlockLocked l p (o_now opt)))"
proof -
  obtain u where u: "fst (rateBlockLocked l p (o_now opt)) = l\<lparr>l_rateUse := u\<rparr>"
    using rateBlock_frame by blast
  then show ?thesis
    using rateBlock_same [of "o_now opt" l p] rateWindow_sub [of l p "o_now opt"]
    unfolding quiet_def rateBlock_state [symmetric] by (simp add: adoptionHold_def)
qed

lemma adoptionPending_quiet: "quiet opt l (fst (adoptionPendingLocked opt l))"
proof -
  have "same_windows (o_now opt) l (l\<lparr>l_adopting := False\<rparr>)"
    by (simp add: same_windows_def window_def rateWindowLocked_def Let_def split: option.splits)
  then show ?thesis by (simp add: quiet_def uses_sub_def adoptionHold_def adoptionPendingLocked_def)
qed

lemma blockPools_quiet: "quiet opt l (fst (blockPools opt l req ps))"
proof (induction opt l req ps rule: blockPools.induct)
  case (2 opt l req p ps)
  obtain l1 why where r: "rateBlockLocked l p (o_now opt) = (l1, why)" by fastforce
  then have q: "quiet opt l l1" using rateBlock_quiet [of opt l p] by simp
  show ?case
    using 2 r q by (auto split: option.splits intro: quiet_trans)
qed simp

lemma blockReason_quiet: "quiet opt l (fst (blockReasonLocked opt l req))"
  by (simp add: blockReasonLocked_def blockPools_quiet)

lemma resolveLoop_quiet: "quiet opt l (fst (resolveLoop opt l req cs))"
proof (induction cs arbitrary: l)
  case (Cons c cs)
  let ?bound = "withNodePool req (nc_name c) (ledgerNodePoolLocked l (rq_role req) (nc_name c))"
  obtain l1 why where r: "blockReasonLocked opt l ?bound = (l1, why)" by fastforce
  then have q: "quiet opt l l1" using blockReason_quiet [of opt l ?bound] by simp
  show ?case
    using Cons.IH [of l] quiet_trans [OF q Cons.IH [of l1]] r q
    by (auto simp: Let_def split: option.split prod.split)
qed simp

lemma resolve_quiet: "quiet opt l (fst (resolveLocked opt l req))"
proof -
  obtain l0 hold where a: "adoptionPendingLocked opt l = (l0, hold)" by fastforce
  then have q0: "quiet opt l l0" using adoptionPending_quiet [of opt l] by simp
  have b: "quiet opt l (fst (blockReasonLocked opt l0 r))" for r
    using blockReason_quiet quiet_trans [OF q0] by blast
  have c: "quiet opt l (fst (resolveLoop opt l0 req cs))" for cs
    using resolveLoop_quiet quiet_trans [OF q0] by blast
  show ?thesis
    using a q0 b [of "swapVerifierNodePoolLocked l0 req (rq_node req)"]
      c [of "rankedLocked opt l0 req"]
    by (auto simp: resolveLocked_def Let_def split: option.splits prod.splits)
qed

section \<open>What a check decides\<close>

text \<open>The check of one pool, of a request and of a candidate node, without the messages and the
  bookkeeping: \<open>resolved\<close> is the request \<open>resolveLocked\<close> would grant now, if any.\<close>

definition poolOpen :: "Options \<Rightarrow> Ledger \<Rightarrow> Request \<Rightarrow> string \<Rightarrow> bool" where
  "poolOpen opt l req p \<longleftrightarrow> (limitOf l p > 0 \<longrightarrow> usedLocked opt l p < limitOf l p)
     \<and> \<not> rateFull l p (o_now opt) \<and> softBlock opt l req p = None
     \<and> autonomousBlock opt req p = None \<and> heldBlock opt l req p = None"

definition fits :: "Options \<Rightarrow> Ledger \<Rightarrow> Request \<Rightarrow> bool" where
  "fits opt l req \<longleftrightarrow> (\<forall>p\<in>set (rq_pools req). poolOpen opt l req p)"

definition bindTo :: "Ledger \<Rightarrow> Request \<Rightarrow> NodeChoice \<Rightarrow> Request" where
  "bindTo l req c = withNodePool req (nc_name c) (ledgerNodePoolLocked l (rq_role req) (nc_name c))"

definition nodePasses :: "Options \<Rightarrow> Ledger \<Rightarrow> Request \<Rightarrow> NodeChoice \<Rightarrow> bool" where
  "nodePasses opt l req c \<longleftrightarrow> fst (nodeGateLocked opt (nc_name c) (rq_consumer req))
     \<and> headroomBlock opt req (nc_name c) = None \<and> fits opt l (bindTo l req c)"

definition singleGate :: "Options \<Rightarrow> Request \<Rightarrow> bool" where
  "singleGate opt req \<longleftrightarrow> rq_node req = [] \<or>
     (case o_NodeGate opt of Some f \<Rightarrow> fst (f (rq_node req) (rq_consumer req)) | None \<Rightarrow> True)"

definition resolved :: "Options \<Rightarrow> Ledger \<Rightarrow> Request \<Rightarrow> Request option" where
  "resolved opt l req =
     (if adoptionHold opt l then None
      else if \<not> multiNode req then
        (let req' = swapVerifierNodePoolLocked l req (rq_node req)
         in if singleGate opt req \<and> fits opt l req' then Some req' else None)
      else map_option (bindTo l req) (find (nodePasses opt l req) (rankedLocked opt l req)))"

lemma reasons_not_Nil [simp]: "fullReason opt l p \<noteq> []" "backpressureReason p w \<noteq> []"
  by (simp_all add: fullReason_def backpressureReason_def Let_def split: option.split)

lemma heldBlock_cong: "heldLocked l' = heldLocked l \<Longrightarrow> limitOf l' = limitOf l \<Longrightarrow>
    heldBlock opt l' req p = heldBlock opt l req p"
  by (simp only: heldBlock_def)

lemma softBlock_cong: "softBlock opt l' req p = softBlock opt l req p"
  by (simp only: softBlock_def)

lemma poolOpen_quiet:
  assumes q: "quiet opt l l'"
  shows "poolOpen opt l' req p = poolOpen opt l req p"
  using quiet_usage [OF q] quiet_rateFull [OF q order_refl, of p]
    heldBlock_cong [of l' l opt req p] softBlock_cong [of opt l' req p l]
  by (simp add: poolOpen_def)

lemma fits_quiet: "quiet opt l l' \<Longrightarrow> fits opt l' req = fits opt l req"
  unfolding fits_def using poolOpen_quiet by blast

lemma bindTo_quiet:
  assumes q: "quiet opt l l'"
  shows "bindTo l' = bindTo l"
  by (simp add: bindTo_def ledgerNodePoolLocked_def quiet_usage(1) [OF q] fun_eq_iff)

lemma nodePasses_quiet:
  assumes q: "quiet opt l l'"
  shows "nodePasses opt l' req = nodePasses opt l req"
  by (simp add: nodePasses_def fits_quiet [OF q] bindTo_quiet [OF q] fun_eq_iff)

lemma ranked_quiet:
  assumes q: "quiet opt l l'"
  shows "rankedLocked opt l' req = rankedLocked opt l req"
proof -
  have "rankLess opt l' req = rankLess opt l req"
    by (intro ext) (simp only: rankLess_def loadOf_def quiet_usage [OF q])
  then show ?thesis by (simp add: rankedLocked_def)
qed

lemma swap_quiet:
  assumes q: "quiet opt l l'"
  shows "swapVerifierNodePoolLocked l' req n = swapVerifierNodePoolLocked l req n"
  by (simp only: swapVerifierNodePoolLocked_def quiet_usage [OF q])

lemmas decision_quiet = poolOpen_quiet fits_quiet bindTo_quiet nodePasses_quiet ranked_quiet swap_quiet

lemma resolved_quiet:
  assumes q: "quiet opt l l'"
  shows "resolved opt l' req = resolved opt l req"
proof -
  have "adoptionHold opt l' = adoptionHold opt l" using q by (simp add: quiet_def)
  then show ?thesis by (simp add: resolved_def decision_quiet [OF q] Let_def)
qed

lemma blockPools_empty:
  "snd (blockPools opt l req ps) = [] \<longleftrightarrow> (\<forall>p\<in>set ps. poolOpen opt l req p)"
proof (induction ps arbitrary: l)
  case (Cons p ps)
  obtain l1 why where r: "rateBlockLocked l p (o_now opt) = (l1, why)" by fastforce
  then have q: "quiet opt l l1" using rateBlock_quiet [of opt l p] by simp
  have full: "why \<noteq> [] \<longleftrightarrow> rateFull l p (o_now opt)"
    using rateBlock_text [of l p "o_now opt"] r by simp
  have same: "heldBlock opt l1 req p = heldBlock opt l req p" "softBlock opt l1 req p = softBlock opt l req p"
    using quiet_usage [OF q] by (auto intro: heldBlock_cong softBlock_cong)
  show ?case
  proof (cases "limitOf l p > 0 \<and> usedLocked opt l p \<ge> limitOf l p")
    case True
    then show ?thesis by (auto simp: poolOpen_def)
  next
    case False
    then show ?thesis
      using r full Cons.IH [of l1]
      by (auto simp: same poolOpen_def [of opt l req p] poolOpen_quiet [OF q] split: option.splits)
  qed
qed simp

lemma blockReason_empty: "snd (blockReasonLocked opt l req) = [] \<longleftrightarrow> fits opt l req"
  by (simp add: blockReasonLocked_def blockPools_empty fits_def)

lemma resolveLoop_find:
  "fst (snd (resolveLoop opt l req cs)) = map_option (bindTo l req) (find (nodePasses opt l req) cs)"
proof (induction cs arbitrary: l)
  case (Cons c cs)
  obtain l1 why where r: "blockReasonLocked opt l (bindTo l req c) = (l1, why)" by fastforce
  have q: "quiet opt l l1" using blockReason_quiet [of opt l "bindTo l req c"] r by simp
  have "why = [] \<longleftrightarrow> fits opt l (bindTo l req c)"
    using blockReason_empty [of opt l "bindTo l req c"] r by simp
  then have step: "nodePasses opt l req c \<longleftrightarrow> fst (nodeGateLocked opt (nc_name c) (rq_consumer req))
      \<and> headroomBlock opt req (nc_name c) = None \<and> why = []"
    by (simp add: nodePasses_def)
  have "fst (snd (resolveLoop opt l1 req cs)) = fst (snd (resolveLoop opt l req cs))"
    using Cons.IH [of l] Cons.IH [of l1] by (simp add: decision_quiet [OF q])
  then show ?case
    using r Cons.IH [of l] step
    by (auto simp: bindTo_def Let_def split: option.split prod.split)
qed simp

text \<open>The code's check and the view agree: the reason is empty exactly when \<open>resolved\<close> gives a
  request, and then it is the request returned.\<close>

lemma resolve_view:
  "case resolveLocked opt l req of (l', r', why) \<Rightarrow>
     (case resolved opt l req of None \<Rightarrow> why \<noteq> [] | Some b \<Rightarrow> why = [] \<and> r' = b)"
proof -
  obtain l0 hold where a: "adoptionPendingLocked opt l = (l0, hold)" by fastforce
  have q: "quiet opt l l0" using adoptionPending_quiet [of opt l] a by simp
  have h: "hold \<noteq> [] \<longleftrightarrow> adoptionHold opt l"
    using a by (auto simp: adoptionPendingLocked_def adoptionHold_def split: if_splits)
  let ?sw = "swapVerifierNodePoolLocked l0 req (rq_node req)"
  obtain l1 why where b: "blockReasonLocked opt l0 ?sw = (l1, why)" by fastforce
  obtain l2 bo parts g where c: "resolveLoop opt l0 req (rankedLocked opt l0 req) = (l2, bo, parts, g)"
    by (metis prod_cases4)
  have why: "why = [] \<longleftrightarrow> fits opt l ?sw"
    using blockReason_empty [of opt l0 ?sw] b fits_quiet [OF q] by simp
  have bo: "bo = map_option (bindTo l req) (find (nodePasses opt l req) (rankedLocked opt l req))"
    using resolveLoop_find [of opt l0 req "rankedLocked opt l0 req"] c by (simp add: decision_quiet [OF q])
  show ?thesis
  proof (cases "multiNode req")
    case True
    have same: "rankedLocked opt l0 req = rankedLocked opt l req" by (rule ranked_quiet [OF q])
    show ?thesis using True a h c bo same
      by (cases "rankedLocked opt l req")
        (auto simp: resolveLocked_def resolved_def Let_def split: option.split)
  next
    case False
    then show ?thesis using a h b why
      by (auto simp: resolveLocked_def resolved_def singleGate_def swap_quiet [OF q] Let_def
          split: option.split)
  qed
qed

lemma resolve_reason: "snd (snd (resolveLocked opt l req)) = [] \<longleftrightarrow> resolved opt l req \<noteq> None"
  using resolve_view [of opt l req] by (auto split: option.splits prod.splits)

lemma resolve_bound: "resolved opt l req = Some b \<Longrightarrow> fst (snd (resolveLocked opt l req)) = b"
  using resolve_view [of opt l req] by (auto split: prod.splits)

end
