(* ===== verification/Capacity_Usage.thy ===== *)
theory Capacity_Usage
  imports Capacity_Admission
begin

text \<open>
  How the counts of a pool react to the lease map, and how candidate nodes are ranked. The counts are
  sums over the leases, so storing, moving or deleting one lease changes them by at most one;
  \<open>heldByNodeLocked\<close>, which the code computes with a running map per node, is shown equal to such a
  sum first. \<open>rankLess\<close> is a strict weak order, so the contract of the sort applies to it.
\<close>

section \<open>Counts as sums over leases\<close>

definition namesPool :: "string \<Rightarrow> Lease \<Rightarrow> bool" where
  "namesPool pool ls \<longleftrightarrow> pool \<in> set (ls_pools ls)"

definition freeHold :: "Ledger \<Rightarrow> string \<Rightarrow> Lease \<Rightarrow> bool" where
  "freeHold l pool ls \<longleftrightarrow> namesPool pool ls \<and> (ls_node ls = [] \<or> limitOf l (nodePool (ls_node ls)) \<le> 0)"

definition nodeHold :: "Ledger \<Rightarrow> string \<Rightarrow> string \<Rightarrow> Lease \<Rightarrow> bool" where
  "nodeHold l pool node ls \<longleftrightarrow> namesPool pool ls \<and> ls_node ls = node \<and> node \<noteq> []
     \<and> limitOf l (nodePool node) > 0"

definition countLeases :: "Ledger \<Rightarrow> (Lease \<Rightarrow> bool) \<Rightarrow> int" where
  "countLeases l P = int (length (filter (\<lambda>e. P (snd e)) (l_leases l)))"

lemma heldLocked_count: "heldLocked l pool = countLeases l (namesPool pool)"
  by (simp add: heldLocked_def countLeases_def namesPool_def list_ex_iff)

lemma overflow_count:
  "int (length (overflowLocked l node)) = countLeases l (\<lambda>ls. ls_overflow ls \<and> ls_node ls = node)"
  by (simp add: overflowLocked_def countLeases_def)

lemma tallyByNode_spec:
  assumes "wf_map m"
  shows "case tallyByNode l pool es m n of (m', n') \<Rightarrow>
    n' = n + int (length (filter (\<lambda>e. freeHold l pool (snd e)) es))
    \<and> (\<forall>k. mapGetOr 0 m' k = mapGetOr 0 m k + int (length (filter (\<lambda>e. nodeHold l pool k (snd e)) es)))
    \<and> wf_map m'
    \<and> (\<forall>k. mapHas m' k \<longrightarrow> mapHas m k \<or> (\<exists>e\<in>set es. nodeHold l pool k (snd e)))"
  using assms
proof (induction es arbitrary: m n)
  case (Cons e es)
  let ?node = "ls_node (snd e)"
  consider (skip) "\<not> namesPool pool (snd e)" | (free) "freeHold l pool (snd e)"
    | (node) "nodeHold l pool ?node (snd e)"
    by (metis freeHold_def nodeHold_def not_le)
  then show ?case
  proof cases
    case skip
    then show ?thesis using Cons.IH [OF Cons.prems, of n]
      by (auto simp: freeHold_def nodeHold_def namesPool_def split: prod.splits)
  next
    case free
    then show ?thesis using Cons.IH [OF Cons.prems, of "n + 1"]
      by (auto simp: freeHold_def nodeHold_def namesPool_def split: prod.splits)
  next
    case node
    have "wf_map (mapSet m ?node (mapGetOr 0 m ?node + 1))" using Cons.prems by simp
    from Cons.IH [OF this, of n] node show ?thesis
      by (auto simp: freeHold_def nodeHold_def namesPool_def split: prod.splits)
  qed
qed simp

lemma sum_list_map_keys:
  assumes "wf_map m"
  shows "sum_list (map (\<lambda>e. f (fst e) (snd e)) m) = (\<Sum>k\<in>set (mapKeys m). f k (mapGetOr d m k))"
proof -
  have "mapGetOr d m (fst e) = snd e" if "e \<in> set m" for e
    using wf_map_mem [OF assms, of "fst e" "snd e"] that by (simp add: mapGetOr_def)
  then have "map (\<lambda>e. f (fst e) (snd e)) m = map (\<lambda>k. f k (mapGetOr d m k)) (mapKeys m)"
    by (simp add: mapKeys_def)
  then have "sum_list (map (\<lambda>e. f (fst e) (snd e)) m)
      = sum_list (map (\<lambda>k. f k (mapGetOr d m k)) (mapKeys m))"
    by (rule arg_cong)
  also have "\<dots> = (\<Sum>k\<in>set (mapKeys m). f k (mapGetOr d m k))"
    using assms unfolding wf_map_def mapKeys_def by (rule sum_list_distinct_conv_sum_set)
  finally show ?thesis .
qed

text \<open>The per-node count of an llm pool: leases on no limited node count once each, and every limited
  node contributes at most its limit.\<close>

definition nodeShare :: "Ledger \<Rightarrow> string \<Rightarrow> string \<Rightarrow> int" where
  "nodeShare l pool node = (if node \<noteq> [] \<and> limitOf l (nodePool node) > 0
     then min (countLeases l (nodeHold l pool node)) (limitOf l (nodePool node)) else 0)"

lemma heldByNode_sum:
  assumes "finite N" and "\<forall>e\<in>set (l_leases l). ls_node (snd e) \<in> N"
  shows "heldByNodeLocked l pool = countLeases l (freeHold l pool) + (\<Sum>k\<in>N. nodeShare l pool k)"
proof -
  obtain m n where t: "tallyByNode l pool (l_leases l) [] 0 = (m, n)" by fastforce
  have n: "n = countLeases l (freeHold l pool)"
    and cnt: "\<And>k. mapGetOr 0 m k = countLeases l (nodeHold l pool k)" and wf: "wf_map m"
    and keys: "\<And>k. mapHas m k \<Longrightarrow> \<exists>e\<in>set (l_leases l). nodeHold l pool k (snd e)"
    using tallyByNode_spec [of "[]", where l = l and pool = pool and es = "l_leases l" and n = 0] t
    by (auto simp: countLeases_def mapGetOr_def mapHas_def)
  have in_N: "set (mapKeys m) \<subseteq> N" and limited: "\<And>k. k \<in> set (mapKeys m) \<Longrightarrow> k \<noteq> [] \<and> limitOf l (nodePool k) > 0"
    using keys assms(2) by (fastforce simp: mapHas_keys [symmetric] nodeHold_def)+
  have "nodeShare l pool k = 0" if "k \<notin> set (mapKeys m)" for k
  proof -
    have "countLeases l (nodeHold l pool k) = 0"
      using cnt [of k] that by (simp add: mapGetOr_def mapHas_keys [symmetric] mapHas_def split: option.splits)
    then show ?thesis by (simp add: nodeShare_def)
  qed
  then have "(\<Sum>k\<in>N. nodeShare l pool k) = (\<Sum>k\<in>set (mapKeys m). nodeShare l pool k)"
    using assms(1) in_N by (intro sum.mono_neutral_right) auto
  also have "\<dots> = (\<Sum>k\<in>set (mapKeys m). min (mapGetOr 0 m k) (limitOf l (nodePool k)))"
    using limited cnt by (intro sum.cong) (auto simp: nodeShare_def)
  also have "\<dots> = sum_list (map (\<lambda>e. min (snd e) (limitOf l (nodePool (fst e)))) m)"
    by (rule sum_list_map_keys [OF wf, symmetric])
  finally show ?thesis
    by (simp add: heldByNodeLocked_def t n)
qed

section \<open>Storing, replacing and deleting a lease\<close>

text \<open>\<open>adds_at_most X l l'\<close>: the leases of \<open>l'\<close> are some of those of \<open>l\<close> and at most one more, \<open>X\<close>.\<close>

definition extra :: "Lease option \<Rightarrow> (Lease \<Rightarrow> bool) \<Rightarrow> int" where
  "extra X P = (case X of None \<Rightarrow> 0 | Some ls \<Rightarrow> if P ls then 1 else 0)"

definition adds_at_most :: "Lease option \<Rightarrow> Ledger \<Rightarrow> Ledger \<Rightarrow> bool" where
  "adds_at_most X l l' \<longleftrightarrow> l_limits l' = l_limits l
     \<and> (\<forall>P. countLeases l' P \<le> countLeases l P + extra X P)"

lemma extra_bounds: "0 \<le> extra X P" "extra X P \<le> 1"
  by (auto simp: extra_def split: option.split)

lemma count_store:
  assumes "wf_map (l_leases l)"
  shows "countLeases (l\<lparr>l_leases := mapSet (l_leases l) h ls\<rparr>) P
    = countLeases l P - extra (mapGet (l_leases l) h) P + extra (Some ls) P"
  using count_mapSet [OF assms, of "\<lambda>e. P (snd e)" h ls]
    count_mapDelete [OF assms, of "\<lambda>e. P (snd e)" h]
  by (simp add: countLeases_def extra_def split: option.splits if_splits)

lemma count_remove:
  assumes "wf_map (l_leases l)"
  shows "countLeases (l\<lparr>l_leases := mapDelete (l_leases l) h\<rparr>) P
    = countLeases l P - extra (mapGet (l_leases l) h) P"
  using count_mapDelete [OF assms, of "\<lambda>e. P (snd e)" h]
  by (simp add: countLeases_def extra_def split: option.splits if_splits)

lemma adds_store: "wf_map (l_leases l) \<Longrightarrow> adds_at_most (Some ls) l (l\<lparr>l_leases := mapSet (l_leases l) h ls\<rparr>)"
  using extra_bounds by (simp add: adds_at_most_def count_store)

lemma adds_remove: "wf_map (l_leases l) \<Longrightarrow> adds_at_most None l (l\<lparr>l_leases := mapDelete (l_leases l) h\<rparr>)"
  using extra_bounds by (simp add: adds_at_most_def count_remove extra_def [of None])

lemma holds_cong:
  assumes "l_limits l' = l_limits l"
  shows "limitOf l' = limitOf l" "freeHold l' = freeHold l" "nodeHold l' = nodeHold l"
  using assms by (simp_all add: limitOf_def freeHold_def nodeHold_def fun_eq_iff)

lemma nodeShare_add:
  assumes "adds_at_most X l l'"
  shows "nodeShare l' pool k \<le> nodeShare l pool k + extra X (nodeHold l pool k)"
proof -
  have cong: "limitOf l' = limitOf l" "nodeHold l' = nodeHold l"
    using assms by (auto simp: adds_at_most_def intro: holds_cong)
  have "countLeases l' (nodeHold l pool k)
      \<le> countLeases l (nodeHold l pool k) + extra X (nodeHold l pool k)"
    using assms by (simp add: adds_at_most_def)
  then show ?thesis
    using extra_bounds [of X "nodeHold l pool k"] by (auto simp: nodeShare_def cong min_def)
qed

lemma sum_extra_le:
  assumes "finite N"
  shows "extra X (freeHold l pool) + (\<Sum>k\<in>N. extra X (nodeHold l pool k)) \<le> extra X (namesPool pool)"
proof (cases X)
  case None
  then show ?thesis by (simp add: extra_def)
next
  case (Some ls)
  have "(\<Sum>k\<in>N. extra X (nodeHold l pool k)) =
      (\<Sum>k\<in>N. if k = ls_node ls then extra X (nodeHold l pool (ls_node ls)) else 0)"
    using Some by (intro sum.cong) (auto simp: extra_def nodeHold_def)
  also have "\<dots> \<le> extra X (nodeHold l pool (ls_node ls))"
    using assms by (simp add: extra_def split: option.split)
  finally show ?thesis
    using Some by (auto simp: extra_def freeHold_def nodeHold_def split: if_splits)
qed

lemma heldByNode_add:
  assumes "adds_at_most X l l'"
  shows "heldByNodeLocked l' pool \<le> heldByNodeLocked l pool + extra X (namesPool pool)"
proof -
  let ?N = "(\<lambda>e. ls_node (snd e)) ` (set (l_leases l) \<union> set (l_leases l'))"
  have cong: "freeHold l' = freeHold l"
    using assms by (auto simp: adds_at_most_def intro: holds_cong)
  have "(\<Sum>k\<in>?N. nodeShare l' pool k)
      \<le> (\<Sum>k\<in>?N. nodeShare l pool k) + (\<Sum>k\<in>?N. extra X (nodeHold l pool k))"
    unfolding sum.distrib [symmetric] by (rule sum_mono) (rule nodeShare_add [OF assms])
  moreover have "countLeases l' (freeHold l pool)
      \<le> countLeases l (freeHold l pool) + extra X (freeHold l pool)"
    using assms by (simp add: adds_at_most_def)
  ultimately show ?thesis
    using sum_extra_le [of ?N X l pool] heldByNode_sum [of ?N l pool] heldByNode_sum [of ?N l' pool]
    by (simp add: cong)
qed

text \<open>The figure the limit is compared with grows by at most one, and only for the pools the new
  lease names (and for the node it overflows, if it does).\<close>

lemma used_add:
  assumes "adds_at_most X l l'"
  shows "usedLocked opt l' pool \<le> usedLocked opt l pool + extra X (namesPool pool)
    + (if hasPrefix pool ''node:'' then extra X (\<lambda>ls. ls_overflow ls \<and> nodePool (ls_node ls) = pool) else 0)"
proof (cases "hasPrefix pool ''node:''")
  case True
  then obtain n where n: "pool = nodePool n" using hasPrefix_nodeD by blast
  have "countLeases l' P \<le> countLeases l P + extra X P" for P
    using assms by (simp add: adds_at_most_def)
  from this [of "namesPool pool"] this [of "\<lambda>ls. ls_overflow ls \<and> ls_node ls = n"]
  show ?thesis by (simp add: n usedLocked_def heldLocked_count overflow_count)
next
  case False
  have "heldLocked l' pool \<le> heldLocked l pool + extra X (namesPool pool)"
    using assms by (simp add: adds_at_most_def heldLocked_count)
  with False heldByNode_add [OF assms, of pool] show ?thesis
    by (simp add: usedLocked_def)
qed

lemma used_add_plain:
  assumes "adds_at_most X l l'" and "\<And>ls. X = Some ls \<Longrightarrow> \<not> ls_overflow ls"
  shows "usedLocked opt l' pool \<le> usedLocked opt l pool + extra X (namesPool pool)"
proof -
  have "extra X (\<lambda>ls. ls_overflow ls \<and> nodePool (ls_node ls) = pool) = 0"
    using assms(2) by (auto simp: extra_def split: option.split)
  with used_add [OF assms(1), of opt pool] show ?thesis by (simp split: if_splits)
qed

section \<open>The rank of candidate nodes\<close>

definition loadLess :: "Options \<Rightarrow> Ledger \<Rightarrow> NodeChoice \<Rightarrow> NodeChoice \<Rightarrow> bool" where
  "loadLess opt l ca cb \<longleftrightarrow> fst (loadOf opt l (nc_name ca)) * snd (loadOf opt l (nc_name cb))
     < fst (loadOf opt l (nc_name cb)) * snd (loadOf opt l (nc_name ca))"

definition preferKey :: "Request \<Rightarrow> NodeChoice \<Rightarrow> nat" where
  "preferKey req c = (if rq_prefer req \<noteq> [] \<and> nc_name c = rq_prefer req then 0 else 1)"

lemma load_limit_pos: "snd (loadOf opt l n) > 0"
  by (simp add: loadOf_def Let_def)

lemma swo_loadLess: "strict_weak_order (loadLess opt l)"
proof unfold_locales
  fix a b c
  let ?u = "\<lambda>x. fst (loadOf opt l (nc_name x))" and ?m = "\<lambda>x. snd (loadOf opt l (nc_name x))"
  assume ac: "loadLess opt l a c"
  show "loadLess opt l a b \<or> loadLess opt l b c"
  proof (rule ccontr)
    assume "\<not> ?thesis"
    then have ba: "?u b * ?m a \<le> ?u a * ?m b" and cb: "?u c * ?m b \<le> ?u b * ?m c"
      by (auto simp: loadLess_def not_less)
    have "?m b * (?u c * ?m a) = (?u c * ?m b) * ?m a" by (simp add: algebra_simps)
    also have "\<dots> \<le> (?u b * ?m c) * ?m a"
      using cb load_limit_pos [of opt l "nc_name a"] by (simp add: mult_right_mono)
    also have "\<dots> = (?u b * ?m a) * ?m c" by (simp add: algebra_simps)
    also have "\<dots> \<le> (?u a * ?m b) * ?m c"
      using ba load_limit_pos [of opt l "nc_name c"] by (simp add: mult_right_mono)
    also have "\<dots> = ?m b * (?u a * ?m c)" by (simp add: algebra_simps)
    finally have "?u c * ?m a \<le> ?u a * ?m c"
      using load_limit_pos [of opt l "nc_name b"] by simp
    with ac show False by (simp add: loadLess_def)
  qed
qed (simp add: loadLess_def)

lemma rankLess_lex: "rankLess opt l req =
    lexLess (loadLess opt l) (lexLess (lessByKey (preferKey req)) priorityLess)"
  by (intro ext) (auto simp: rankLess_def lexLess_def loadLess_def lessByKey_def preferKey_def
      priorityLess_def Let_def)

interpretation rank_order: strict_weak_order "rankLess opt l req" for opt l req
  unfolding rankLess_lex
  by (intro swo_lexLess swo_loadLess swo_lessByKey priority_order.strict_weak_order_axioms)

lemma ranked_mem [simp]: "set (rankedLocked opt l req) = set (candidates req)"
  by (simp add: rankedLocked_def)

lemma ranked_order:
  assumes "rankedLocked opt l req = xs @ c # ys" and "d \<in> set ys"
  shows "\<not> rankLess opt l req d c"
  using rank_order.sorted_sort [of opt l req "candidates req"] assms
  by (simp add: rankedLocked_def sorted_wrt_append)

lemma find_Some_split:
  "find P xs = Some x \<Longrightarrow> \<exists>us vs. xs = us @ x # vs \<and> P x \<and> (\<forall>u\<in>set us. \<not> P u)"
proof (induction xs)
  case (Cons y xs)
  show ?case
  proof (cases "P y")
    case True
    with Cons.prems show ?thesis by (intro exI [of _ "[]"] exI [of _ xs]) simp
  next
    case False
    with Cons obtain us vs where "xs = us @ x # vs" "P x" "\<forall>u\<in>set us. \<not> P u" by auto
    with False show ?thesis by (intro exI [of _ "y # us"] exI [of _ vs]) simp
  qed
qed simp

text \<open>The node a multi-node request is bound to: an eligible candidate that passes every check, with
  every candidate ranked before it refused.\<close>

lemma resolved_multi:
  assumes "resolved opt l req = Some b" and "multiNode req"
  obtains c where "c \<in> set (candidates req)" and "b = bindTo l req c" and "nodePasses opt l req c"
    and "\<And>d. d \<in> set (candidates req) \<Longrightarrow> rankLess opt l req d c \<Longrightarrow> \<not> nodePasses opt l req d"
proof -
  from assms obtain c where f: "find (nodePasses opt l req) (rankedLocked opt l req) = Some c"
    and b: "b = bindTo l req c"
    by (auto simp: resolved_def split: if_splits)
  from find_Some_split [OF f] obtain us vs where
    split: "rankedLocked opt l req = us @ c # vs" and "nodePasses opt l req c"
    and us: "\<forall>u\<in>set us. \<not> nodePasses opt l req u" by blast
  have "\<not> nodePasses opt l req d" if "d \<in> set (candidates req)" "rankLess opt l req d c" for d
  proof -
    have "d \<in> set us \<union> {c} \<union> set vs" using that(1) split ranked_mem [of opt l req] by auto
    then show ?thesis
      using us ranked_order [OF split] rank_order.irrefl that(2) by auto
  qed
  moreover have "c \<in> set (candidates req)"
    using split ranked_mem [of opt l req] by auto
  ultimately show ?thesis using that b \<open>nodePasses opt l req c\<close> by blast
qed

end
