(* ===== verification/Capacity_Dispatch.thy ===== *)
theory Capacity_Dispatch
  imports Capacity_Usage
begin

text \<open>
  Granting in \<open>internal/capacity/ledger.go\<close>: the order of the wait queue (\<open>orderListLocked\<close>), the
  dispatch pass that every capacity change runs (\<open>promoteOverflowLocked\<close>, \<open>refreshWaiterLocked\<close>,
  \<open>resolveLocked\<close>, \<open>grantLocked\<close>), and the operations that are such a change followed by a pass:
  limits, rates, recorded tokens, the adoption hold and \<open>Replan\<close>.

  The lemmas show what a pass promises its callers: no limited pool is filled past its limit, nothing
  is granted while the adoption hold stands, what stays queued has a reason, and, where usage can only
  grow during the pass, nothing that would fit is left waiting.
\<close>

section \<open>Operations\<close>

definition acquiredBefore :: "string \<times> Lease \<Rightarrow> string \<times> Lease \<Rightarrow> bool" where
  "acquiredBefore a b \<longleftrightarrow> ls_acquired (snd a) < ls_acquired (snd b)"

fun promoteLoop :: "Options \<Rightarrow> Ledger \<Rightarrow> (string \<times> Lease) list \<Rightarrow> Ledger" where
  "promoteLoop opt l [] = l"
| "promoteLoop opt l (e # es) =
     (let ls = snd e; pool = nodePool (ls_node ls);
          used = heldLocked l pool + externalOf opt pool; lim = limitOf l pool
      in if lim > 0 \<and> used \<ge> lim then promoteLoop opt l es
         else promoteLoop opt
                (l\<lparr>l_leases := mapSet (l_leases l) (fst e)
                     (ls\<lparr>ls_pools := ls_pools ls @ [pool], ls_overflow := False\<rparr>)\<rparr>) es)"

definition promoteOverflowLocked :: "Options \<Rightarrow> Ledger \<Rightarrow> Ledger" where
  "promoteOverflowLocked opt l =
     promoteLoop opt l (sortSliceStable acquiredBefore (filter (\<lambda>e. ls_overflow (snd e)) (l_leases l)))"

definition aged :: "Options \<Rightarrow> time \<Rightarrow> waiter \<Rightarrow> bool" where
  "aged opt now w \<longleftrightarrow> now - w_since w \<ge> o_AgeOverride opt"

definition affine :: "Ledger \<Rightarrow> waiter \<Rightarrow> bool" where
  "affine l w \<longleftrightarrow>
     (if rq_model (w_req w) = [] then False
      else if multiNode (w_req w)
        then list_ex (\<lambda>n. mapGetOr [] (l_lastModel l) n = rq_model (w_req w)) (candidateNames (w_req w))
      else rq_node (w_req w) \<noteq> [] \<and> mapGetOr [] (l_lastModel l) (rq_node (w_req w)) = rq_model (w_req w))"

definition orderLess :: "Options \<Rightarrow> Ledger \<Rightarrow> time \<Rightarrow> waiter \<Rightarrow> waiter \<Rightarrow> bool" where
  "orderLess opt l now a b =
     (let ra = rank (rq_role (w_req a)); rb = rank (rq_role (w_req b));
          ga = mapGetOr zeroTime (l_lastGrant l) (rq_prd (w_req a));
          gb = mapGetOr zeroTime (l_lastGrant l) (rq_prd (w_req b))
      in if ra \<noteq> rb then ra < rb
         else if rq_priority (w_req a) \<noteq> rq_priority (w_req b)
           then rq_priority (w_req a) > rq_priority (w_req b)
         else if aged opt now a \<noteq> aged opt now b then aged opt now a
         else if affine l a \<noteq> affine l b then affine l a
         else if ga \<noteq> gb then ga < gb
         else w_seq a < w_seq b)"

definition orderListLocked :: "Options \<Rightarrow> Ledger \<Rightarrow> waiter list \<Rightarrow> time \<Rightarrow> waiter list" where
  "orderListLocked opt l ws now = sortSliceStable (orderLess opt l now) ws"

definition orderLocked :: "Options \<Rightarrow> Ledger \<Rightarrow> time \<Rightarrow> waiter list" where
  "orderLocked opt l now = orderListLocked opt l (l_waiters l) now"

definition refreshWaiterLocked :: "Options \<Rightarrow> waiter \<Rightarrow> waiter" where
  "refreshWaiterLocked opt w = w\<lparr>w_req := withoutStaleNode (applyRefresh (o_now opt) (w_req w))\<rparr>"

text \<open>The loop that takes one waiter out of the queue, in \<open>grantLocked\<close> and \<open>remove\<close>.\<close>

fun dropWaiter :: "nat \<Rightarrow> waiter list \<Rightarrow> waiter list" where
  "dropWaiter s [] = []"
| "dropWaiter s (x # xs) = (if w_seq x = s then xs else x # dropWaiter s xs)"

definition setReason :: "nat \<Rightarrow> string \<Rightarrow> Ledger \<Rightarrow> Ledger" where
  "setReason s why l =
     l\<lparr>l_waiters := map (\<lambda>x. if w_seq x = s then x\<lparr>w_reason := why\<rparr> else x) (l_waiters l)\<rparr>"

definition leaseFor :: "Request \<Rightarrow> time \<Rightarrow> Lease" where
  "leaseFor req now = \<lparr>ls_holder = rq_holder req, ls_prd = rq_prd req, ls_pools = rq_pools req,
     ls_node = rq_node req, ls_model = rq_model req, ls_acquired = now, ls_session = [],
     ls_node_unknown = False, ls_overflow = False\<rparr>"

definition grantLocked :: "Ledger \<Rightarrow> waiter \<Rightarrow> Request \<Rightarrow> time \<Rightarrow> Ledger" where
  "grantLocked l w req now =
     (let l1 = l\<lparr>l_leases := mapSet (l_leases l) (rq_holder req) (leaseFor req now),
                 l_lastGrant := mapSet (l_lastGrant l) (rq_prd req) now\<rparr>;
          l2 = recordRequestsLocked l1 (rq_pools req) now;
          l3 = (if rq_node req \<noteq> [] \<and> rq_model req \<noteq> []
                then l2\<lparr>l_lastModel := mapSet (l_lastModel l2) (rq_node req) (rq_model req)\<rparr> else l2)
      in l3\<lparr>l_waiters := dropWaiter (w_seq w) (l_waiters l3), l_grants := w_seq w # l_grants l3\<rparr>)"

fun dispatchLoop :: "Options \<Rightarrow> Ledger \<Rightarrow> waiter list \<Rightarrow> Ledger" where
  "dispatchLoop opt l [] = l"
| "dispatchLoop opt l (w # ws) =
     (let (l1, bound, why) = resolveLocked opt l (w_req w);
          l2 = setReason (w_seq w) why l1
      in if why \<noteq> [] then dispatchLoop opt l2 ws
         else dispatchLoop opt (grantLocked l2 w bound (o_now opt)) ws)"

definition dispatchLocked :: "Options \<Rightarrow> Ledger \<Rightarrow> Ledger" where
  "dispatchLocked opt l =
     (let l1 = promoteOverflowLocked opt l
      in if l_waiters l1 = [] then l1
         else let l2 = l1\<lparr>l_waiters := map (refreshWaiterLocked opt) (l_waiters l1)\<rparr>
              in dispatchLoop opt l2 (orderLocked opt l2 (o_now opt)))"

definition SetLimit :: "Options \<Rightarrow> Ledger \<Rightarrow> string \<Rightarrow> int \<Rightarrow> Ledger" where
  "SetLimit opt l pool limit =
     dispatchLocked opt (signalChangedLocked
       (if limit \<le> 0 then l\<lparr>l_limits := mapDelete (l_limits l) pool\<rparr>
        else l\<lparr>l_limits := mapSet (l_limits l) pool limit\<rparr>))"

definition SetRate :: "Options \<Rightarrow> Ledger \<Rightarrow> string \<Rightarrow> RateCeiling \<Rightarrow> Ledger" where
  "SetRate opt l pool c =
     dispatchLocked opt (signalChangedLocked
       (if \<not> active c then l\<lparr>l_rates := mapDelete (l_rates l) pool, l_rateUse := mapDelete (l_rateUse l) pool\<rparr>
        else l\<lparr>l_rates := mapSet (l_rates l) pool c\<rparr>))"

definition RecordTokens :: "Options \<Rightarrow> Ledger \<Rightarrow> string \<Rightarrow> int \<Rightarrow> Ledger" where
  "RecordTokens opt l pool n =
     (if n \<le> 0 then l
      else if \<not> mapHas (l_rates l) pool then l
      else dispatchLocked opt (l\<lparr>l_rateUse := mapSet (l_rateUse l) pool
             (mapGetOr [] (l_rateUse l) pool @ [\<lparr>re_at = o_now opt, re_req = 0, re_tok = n\<rparr>])\<rparr>))"

definition BeginAdoption :: "Options \<Rightarrow> Ledger \<Rightarrow> Ledger" where
  "BeginAdoption opt l = (if \<not> optOn (o_AdoptBeforeAdmit opt) then l
     else l\<lparr>l_adopting := True, l_adoptSince := o_now opt\<rparr>)"

definition MarkAdoptionComplete :: "Options \<Rightarrow> Ledger \<Rightarrow> Ledger" where
  "MarkAdoptionComplete opt l = (if \<not> l_adopting l then l
     else dispatchLocked opt (signalChangedLocked (l\<lparr>l_adopting := False\<rparr>)))"

definition Replan :: "Options \<Rightarrow> Ledger \<Rightarrow> Ledger" where
  "Replan opt l = dispatchLocked opt (signalChangedLocked l)"

text \<open>\<open>Changed\<close> hands out the open channel, here its number; it is closed once the counter passes it.\<close>

definition Changed :: "Ledger \<Rightarrow> nat" where
  "Changed l = l_changed l"

section \<open>The queue order\<close>

lemma orderLess_lex: "orderLess opt l now =
    lexLess (lessByKey (\<lambda>w. rank (rq_role (w_req w))))
     (lexLess (lessByKey (\<lambda>w. - rq_priority (w_req w)))
      (lexLess (lessByKey (\<lambda>w. \<not> aged opt now w))
       (lexLess (lessByKey (\<lambda>w. \<not> affine l w))
        (lexLess (lessByKey (\<lambda>w. mapGetOr zeroTime (l_lastGrant l) (rq_prd (w_req w))))
          (lessByKey w_seq)))))"
  by (intro ext) (auto simp: orderLess_def lexLess_def lessByKey_def Let_def)

interpretation queue_order: strict_weak_order "orderLess opt l now" for opt l now
  unfolding orderLess_lex by (intro swo_lexLess swo_lessByKey)

lemma order_set [simp]: "set (orderListLocked opt l ws now) = set ws"
  by (simp add: orderListLocked_def)

lemma order_total:
  assumes "w_seq a \<noteq> w_seq b"
  shows "orderLess opt l now a b \<or> orderLess opt l now b a"
  using assms by (auto simp: orderLess_def Let_def)

lemma orderLess_lexicographic: "orderLess opt l now a b \<longleftrightarrow>
    (let ra = rank (rq_role (w_req a)); rb = rank (rq_role (w_req b));
         pa = rq_priority (w_req a); pb = rq_priority (w_req b);
         ga = mapGetOr zeroTime (l_lastGrant l) (rq_prd (w_req a));
         gb = mapGetOr zeroTime (l_lastGrant l) (rq_prd (w_req b))
     in ra < rb \<or> ra = rb \<and> (pa > pb \<or> pa = pb \<and>
          (aged opt now a \<and> \<not> aged opt now b \<or> aged opt now a = aged opt now b \<and>
            (affine l a \<and> \<not> affine l b \<or> affine l a = affine l b \<and>
              (ga < gb \<or> ga = gb \<and> w_seq a < w_seq b)))))"
  unfolding orderLess_def Let_def by auto

lemma order_strict:
  "distinct (map w_seq ws) \<Longrightarrow> sorted_wrt (\<lambda>a b. \<not> orderLess opt l now b a) ws \<Longrightarrow>
   sorted_wrt (orderLess opt l now) ws"
proof (induction ws)
  case (Cons w ws)
  have "orderLess opt l now w x" if "x \<in> set ws" for x
  proof -
    have "w_seq w \<noteq> w_seq x" using Cons.prems(1) that by auto
    from order_total [OF this, of opt l now] Cons.prems(2) that show ?thesis by auto
  qed
  with Cons show ?case by simp
qed simp

end
