(* ===== verification/Capacity_Pass.thy ===== *)
theory Capacity_Pass
  imports Capacity_Dispatch
begin

text \<open>
  What a dispatch pass of the capacity ledger keeps and promises. \<open>dispatchLoop_rule\<close> is the
  induction rule of the pass: an invariant over the waiters already visited and the ledger, one case
  for a refused waiter and one for a granted one, stated over the view \<open>resolved\<close> instead of the
  code's loops. \<open>ledger_ok\<close> is the representation invariant, \<open>within\<close> the limit guarantee.
\<close>

section \<open>The frame of a grant\<close>

lemma recordRequests_frame: "\<exists>u. recordRequestsLocked l ps now = l\<lparr>l_rateUse := u\<rparr>"
proof (induction ps arbitrary: l)
  case Nil
  show ?case by (rule exI [of _ "l_rateUse l"]) simp
next
  case (Cons p ps)
  have "\<exists>u. recordRequestsLocked (l\<lparr>l_rateUse := v\<rparr>) ps now = l\<lparr>l_rateUse := u\<rparr>" for v
    using Cons.IH [of "l\<lparr>l_rateUse := v\<rparr>"] by simp
  then show ?case using Cons.IH [of l] by (auto split: option.split)
qed

lemma recordRequests_fields [simp]:
  "l_limits (recordRequestsLocked l ps now) = l_limits l"
  "l_leases (recordRequestsLocked l ps now) = l_leases l"
  "l_waiters (recordRequestsLocked l ps now) = l_waiters l"
  "l_seq (recordRequestsLocked l ps now) = l_seq l"
  "l_lastGrant (recordRequestsLocked l ps now) = l_lastGrant l"
  "l_lastModel (recordRequestsLocked l ps now) = l_lastModel l"
  "l_rates (recordRequestsLocked l ps now) = l_rates l"
  "l_grants (recordRequestsLocked l ps now) = l_grants l"
  "l_changed (recordRequestsLocked l ps now) = l_changed l"
  "l_adopting (recordRequestsLocked l ps now) = l_adopting l"
  "l_adoptSince (recordRequestsLocked l ps now) = l_adoptSince l"
  using recordRequests_frame [of l ps now] by auto

lemma grant_fields [simp]:
  "l_limits (grantLocked l w req now) = l_limits l"
  "l_leases (grantLocked l w req now) = mapSet (l_leases l) (rq_holder req) (leaseFor req now)"
  "l_waiters (grantLocked l w req now) = dropWaiter (w_seq w) (l_waiters l)"
  "l_seq (grantLocked l w req now) = l_seq l"
  "l_lastGrant (grantLocked l w req now) = mapSet (l_lastGrant l) (rq_prd req) now"
  "l_rates (grantLocked l w req now) = l_rates l"
  "l_grants (grantLocked l w req now) = w_seq w # l_grants l"
  "l_changed (grantLocked l w req now) = l_changed l"
  "l_adopting (grantLocked l w req now) = l_adopting l"
  "l_adoptSince (grantLocked l w req now) = l_adoptSince l"
  by (simp_all add: grantLocked_def Let_def)

lemma setReason_fields [simp]:
  "l_limits (setReason s why l) = l_limits l" "l_leases (setReason s why l) = l_leases l"
  "l_seq (setReason s why l) = l_seq l" "l_lastGrant (setReason s why l) = l_lastGrant l"
  "l_lastModel (setReason s why l) = l_lastModel l" "l_rates (setReason s why l) = l_rates l"
  "l_rateUse (setReason s why l) = l_rateUse l" "l_grants (setReason s why l) = l_grants l"
  "l_changed (setReason s why l) = l_changed l" "l_adopting (setReason s why l) = l_adopting l"
  "l_adoptSince (setReason s why l) = l_adoptSince l"
  by (simp_all add: setReason_def)

lemma setReason_seqs [simp]: "map w_seq (l_waiters (setReason s why l)) = map w_seq (l_waiters l)"
  by (simp add: setReason_def comp_def)

lemma dropWaiter_seqs: "map w_seq (dropWaiter s ws) = remove1 s (map w_seq ws)"
  by (induction ws) auto

lemma dropWaiter_sub: "set (dropWaiter s ws) \<subseteq> set ws"
  by (induction ws) auto

lemma dropWaiter_other: "w \<in> set ws \<Longrightarrow> w_seq w \<noteq> s \<Longrightarrow> w \<in> set (dropWaiter s ws)"
  by (induction ws) auto

lemma leaseFor_fields [simp]: "ls_holder (leaseFor r t) = rq_holder r"
  "ls_pools (leaseFor r t) = rq_pools r" "ls_node (leaseFor r t) = rq_node r"
  "\<not> ls_overflow (leaseFor r t)" "ls_prd (leaseFor r t) = rq_prd r" "ls_acquired (leaseFor r t) = t"
  "ls_session (leaseFor r t) = []" "ls_model (leaseFor r t) = rq_model r"
  by (simp_all add: leaseFor_def)

lemma signalChanged_fields [simp]:
  "l_limits (signalChangedLocked l) = l_limits l" "l_leases (signalChangedLocked l) = l_leases l"
  "l_waiters (signalChangedLocked l) = l_waiters l" "l_seq (signalChangedLocked l) = l_seq l"
  "l_lastGrant (signalChangedLocked l) = l_lastGrant l" "l_lastModel (signalChangedLocked l) = l_lastModel l"
  "l_rates (signalChangedLocked l) = l_rates l" "l_rateUse (signalChangedLocked l) = l_rateUse l"
  "l_grants (signalChangedLocked l) = l_grants l" "l_adopting (signalChangedLocked l) = l_adopting l"
  "l_changed (signalChangedLocked l) = Suc (l_changed l)"
  "l_adoptSince (signalChangedLocked l) = l_adoptSince l"
  by (simp_all add: signalChangedLocked_def)

section \<open>Induction over a pass\<close>

lemma dispatchLoop_rule:
  assumes "I seen l"
    and "\<And>us w vs l l1 why. ws = us @ w # vs \<Longrightarrow> I (seen @ us) l \<Longrightarrow> resolved opt l (w_req w) = None \<Longrightarrow>
       why \<noteq> [] \<Longrightarrow> quiet opt l l1 \<Longrightarrow> I (seen @ us @ [w]) (setReason (w_seq w) why l1)"
    and "\<And>us w vs l l1 b. ws = us @ w # vs \<Longrightarrow> I (seen @ us) l \<Longrightarrow> resolved opt l (w_req w) = Some b \<Longrightarrow>
       quiet opt l l1 \<Longrightarrow>
       I (seen @ us @ [w]) (grantLocked (setReason (w_seq w) [] l1) w b (o_now opt))"
  shows "I (seen @ ws) (dispatchLoop opt l ws)"
  using assms
proof (induction ws arbitrary: l seen)
  case Nil
  then show ?case by simp
next
  case (Cons w ws)
  obtain l1 b why where r: "resolveLocked opt l (w_req w) = (l1, b, why)" by (metis prod_cases3)
  have q: "quiet opt l l1" using resolve_quiet [of opt l "w_req w"] r by simp
  have v: "case resolved opt l (w_req w) of None \<Rightarrow> why \<noteq> [] | Some b' \<Rightarrow> why = [] \<and> b = b'"
    using resolve_view [of opt l "w_req w"] r by simp
  let ?next = "if why \<noteq> [] then setReason (w_seq w) why l1
    else grantLocked (setReason (w_seq w) why l1) w b (o_now opt)"
  have "I (seen @ [w]) ?next"
    using Cons.prems(1) Cons.prems(2) [of "[]" w ws l why l1] Cons.prems(3) [of "[]" w ws l b l1] q v
    by (auto split: option.splits)
  moreover have "dispatchLoop opt l (w # ws) = dispatchLoop opt ?next ws"
    using r by simp
  ultimately show ?case
    using Cons.IH [of "seen @ [w]" ?next] Cons.prems(2) [of "w # _"] Cons.prems(3) [of "w # _"]
    by simp
qed

text \<open>The same without the waiters visited.\<close>

lemma dispatchLoop_keeps:
  assumes "I l"
    and "\<And>w l l1 why. w \<in> set ws \<Longrightarrow> I l \<Longrightarrow> resolved opt l (w_req w) = None \<Longrightarrow> why \<noteq> [] \<Longrightarrow>
       quiet opt l l1 \<Longrightarrow> I (setReason (w_seq w) why l1)"
    and "\<And>w l l1 b. w \<in> set ws \<Longrightarrow> I l \<Longrightarrow> resolved opt l (w_req w) = Some b \<Longrightarrow> quiet opt l l1 \<Longrightarrow>
       I (grantLocked (setReason (w_seq w) [] l1) w b (o_now opt))"
  shows "I (dispatchLoop opt l ws)"
  by (rule dispatchLoop_rule [where I = "\<lambda>_. I" and seen = "[]"]) (use assms in auto)

section \<open>Promotion of adopted leases\<close>

lemma heldByNode_mono:
  assumes "l_limits l' = l_limits l"
    and "countLeases l' (freeHold l pool) \<le> countLeases l (freeHold l pool)"
    and "\<And>k. countLeases l' (nodeHold l pool k) \<le> countLeases l (nodeHold l pool k)"
  shows "heldByNodeLocked l' pool \<le> heldByNodeLocked l pool"
proof -
  let ?N = "(\<lambda>e. ls_node (snd e)) ` (set (l_leases l) \<union> set (l_leases l'))"
  note cong = holds_cong [OF assms(1)]
  have "(\<Sum>k\<in>?N. nodeShare l' pool k) \<le> (\<Sum>k\<in>?N. nodeShare l pool k)"
  proof (rule sum_mono)
    fix k
    show "nodeShare l' pool k \<le> nodeShare l pool k"
      using assms(3) [of k] by (auto simp: nodeShare_def cong min_def)
  qed
  then show ?thesis
    using assms(2) heldByNode_sum [of ?N l pool] heldByNode_sum [of ?N l' pool] by (simp add: cong)
qed

definition promoted :: "Lease \<Rightarrow> Lease" where
  "promoted ls = ls\<lparr>ls_pools := ls_pools ls @ [nodePool (ls_node ls)], ls_overflow := False\<rparr>"

lemma promoted_fields [simp]: "ls_holder (promoted ls) = ls_holder ls" "ls_node (promoted ls) = ls_node ls"
  "\<not> ls_overflow (promoted ls)" "ls_pools (promoted ls) = ls_pools ls @ [nodePool (ls_node ls)]"
  "ls_acquired (promoted ls) = ls_acquired ls" "ls_session (promoted ls) = ls_session ls"
  by (simp_all add: promoted_def)

lemma used_promoted:
  assumes wf: "wf_map (l_leases l)" and g: "mapGet (l_leases l) h = Some ls" and "ls_overflow ls"
  shows "usedLocked opt (l\<lparr>l_leases := mapSet (l_leases l) h (promoted ls)\<rparr>) p \<le> usedLocked opt l p"
proof -
  let ?l = "l\<lparr>l_leases := mapSet (l_leases l) h (promoted ls)\<rparr>"
  note cnt = count_store [OF wf, of h "promoted ls"]
  show ?thesis
  proof (cases "hasPrefix p ''node:''")
    case True
    then obtain n where "p = nodePool n" using hasPrefix_nodeD by blast
    then show ?thesis using cnt g assms(3)
      by (auto simp: usedLocked_def heldLocked_count overflow_count extra_def namesPool_def)
  next
    case False
    then have names: "namesPool p (promoted ls) = namesPool p ls"
      by (auto simp: namesPool_def)
    have "heldByNodeLocked ?l p \<le> heldByNodeLocked l p"
      by (rule heldByNode_mono)
        (simp_all add: cnt g extra_def freeHold_def nodeHold_def names)
    then show ?thesis using False cnt g names
      by (simp add: usedLocked_def heldLocked_count extra_def)
  qed
qed

text \<open>Promotion only flips overflow leases into their node's pool: every other field of the ledger
  and every other lease is as before, and no pool reads fuller.\<close>

definition promotes :: "Options \<Rightarrow> Ledger \<Rightarrow> Ledger \<Rightarrow> bool" where
  "promotes opt l l' \<longleftrightarrow> l' = l\<lparr>l_leases := l_leases l'\<rparr> \<and> wf_map (l_leases l')
     \<and> (\<forall>h. mapGet (l_leases l') h = mapGet (l_leases l) h
          \<or> (\<exists>ls. mapGet (l_leases l) h = Some ls \<and> ls_overflow ls \<and> mapGet (l_leases l') h = Some (promoted ls)))
     \<and> (\<forall>p. usedLocked opt l' p \<le> usedLocked opt l p)"

lemma promoteLoop_promotes:
  assumes "promotes opt l0 l" and "wf_map (l_leases l0)" and "distinct (map fst es)"
    and "\<And>e. e \<in> set es \<Longrightarrow> ls_overflow (snd e) \<and> mapGet (l_leases l0) (fst e) = Some (snd e)
           \<and> mapGet (l_leases l) (fst e) = Some (snd e)"
  shows "promotes opt l0 (promoteLoop opt l es)"
  using assms
proof (induction es arbitrary: l)
  case (Cons e es)
  let ?l = "l\<lparr>l_leases := mapSet (l_leases l) (fst e) (promoted (snd e))\<rparr>"
  have e: "ls_overflow (snd e)" "mapGet (l_leases l0) (fst e) = Some (snd e)"
    "mapGet (l_leases l) (fst e) = Some (snd e)"
    using Cons.prems(4) [of e] by auto
  have wf: "wf_map (l_leases l)" using Cons.prems(1) by (simp add: promotes_def)
  have "?l = l0\<lparr>l_leases := l_leases ?l\<rparr>"
    using Cons.prems(1) by (cases l; cases l0) (simp add: promotes_def)
  then have step: "promotes opt l0 ?l"
    using Cons.prems(1) e wf order_trans [OF used_promoted [OF wf e(3) e(1)]]
    unfolding promotes_def by auto
  have "fst f \<noteq> fst e" if "f \<in> set es" for f using Cons.prems(3) that by (auto simp: image_iff)
  then have rest: "promotes opt l0 (promoteLoop opt l es)" "promotes opt l0 (promoteLoop opt ?l es)"
    using Cons.prems step by (simp_all add: Cons.IH)
  then show ?case by (simp add: promoted_def [symmetric] Let_def)
qed simp

lemma promote_promotes: "wf_map (l_leases l) \<Longrightarrow> promotes opt l (promoteOverflowLocked opt l)"
  unfolding promoteOverflowLocked_def
  by (rule promoteLoop_promotes)
    (auto simp: promotes_def wf_map_mem, simp add: wf_map_def distinct_map_filter)

lemma promotes_fields:
  assumes "promotes opt l l'"
  shows "l_limits l' = l_limits l" "l_waiters l' = l_waiters l" "l_seq l' = l_seq l"
    "l_lastGrant l' = l_lastGrant l" "l_lastModel l' = l_lastModel l" "l_rates l' = l_rates l"
    "l_rateUse l' = l_rateUse l" "l_grants l' = l_grants l" "l_changed l' = l_changed l"
    "l_adopting l' = l_adopting l" "l_adoptSince l' = l_adoptSince l" "limitOf l' = limitOf l"
  using assms by (cases l; cases l'; simp add: promotes_def limitOf_def fun_eq_iff)+

lemma promotes_get:
  assumes "promotes opt l l'" and "mapGet (l_leases l') h = Some ls'"
  obtains ls where "mapGet (l_leases l) h = Some ls" and "ls' = ls \<or> ls_overflow ls \<and> ls' = promoted ls"
proof -
  have "mapGet (l_leases l') h = mapGet (l_leases l) h
      \<or> (\<exists>ls. mapGet (l_leases l) h = Some ls \<and> ls_overflow ls \<and> mapGet (l_leases l') h = Some (promoted ls))"
    using assms(1) by (simp add: promotes_def)
  then show ?thesis using assms(2) by (auto intro: that [OF sym] that)
qed

lemma promotes_has: "promotes opt l l' \<Longrightarrow> mapHas (l_leases l') h = mapHas (l_leases l) h"
  unfolding promotes_def mapHas_def by (metis option.distinct(1))

end
