(* ===== verification/Capacity_Guarantees.thy ===== *)
theory Capacity_Guarantees
  imports Capacity_Pass
begin

text \<open>
  The guarantees of a dispatch pass: the representation invariant \<open>ledger_ok\<close>, the limit guarantee
  \<open>within\<close>, the fate of every waiter (\<open>served\<close>), and that a pass leaves nobody waiting that would fit.
\<close>

section \<open>The representation invariant\<close>

definition leases_ok :: "Ledger \<Rightarrow> bool" where
  "leases_ok l \<longleftrightarrow> wf_map (l_leases l) \<and> (\<forall>h ls. mapGet (l_leases l) h = Some ls \<longrightarrow> ls_holder ls = h)"

text \<open>Every waiter has its own number, no number is queued and granted at once, and no grant channel
  is closed twice (which would panic).\<close>

definition queue_ok :: "Ledger \<Rightarrow> bool" where
  "queue_ok l \<longleftrightarrow> distinct (map w_seq (l_waiters l) @ l_grants l)
     \<and> (\<forall>s\<in>set (map w_seq (l_waiters l) @ l_grants l). 0 < s \<and> s \<le> l_seq l)"

definition limits_ok :: "Ledger \<Rightarrow> bool" where
  "limits_ok l \<longleftrightarrow> (\<forall>p v. mapGet (l_limits l) p = Some v \<longrightarrow> 0 < v)
     \<and> (\<forall>p c. mapGet (l_rates l) p = Some c \<longrightarrow> active c)"

definition ledger_ok :: "Ledger \<Rightarrow> bool" where
  "ledger_ok l \<longleftrightarrow> leases_ok l \<and> queue_ok l \<and> limits_ok l \<and> rate_wf l"

lemma rate_wf_sub: "uses_sub l l' \<Longrightarrow> rate_wf l \<Longrightarrow> rate_wf l'"
  unfolding rate_wf_def uses_sub_def by blast

lemma ok_quiet:
  assumes q: "quiet opt l l'" and "ledger_ok l"
  shows "ledger_ok l'"
proof -
  have "rate_wf l'" using assms by (auto simp: quiet_def ledger_ok_def intro: rate_wf_sub)
  then show ?thesis
    using assms(2) by (simp add: ledger_ok_def leases_ok_def queue_ok_def limits_ok_def quiet_fields [OF q])
qed

lemma rate_wf_cong: "l_rateUse l' = l_rateUse l \<Longrightarrow> rate_wf l' = rate_wf l"
  by (simp add: rate_wf_def)

lemma rate_wf_record: "rate_wf l \<Longrightarrow> rate_wf (recordRequestsLocked l ps now)"
proof (induction ps arbitrary: l)
  case (Cons p ps)
  have "rate_wf (l\<lparr>l_rateUse := mapSet (l_rateUse l) p
      (mapGetOr [] (l_rateUse l) p @ [\<lparr>re_at = now, re_req = 1, re_tok = 0\<rparr>])\<rparr>)"
    using Cons.prems by (auto simp: rate_wf_def)
  with Cons show ?case by (auto split: option.split)
qed simp

lemma rate_wf_grant: "rate_wf l \<Longrightarrow> rate_wf (grantLocked l w req now)"
  using rate_wf_record [of "l\<lparr>l_leases := x, l_lastGrant := y\<rparr>" for x y] rate_wf_cong [of _ l]
  by (auto simp: grantLocked_def Let_def rate_wf_def)

lemma ok_setReason: "ledger_ok l \<Longrightarrow> ledger_ok (setReason s why l)"
  using setReason_seqs [of s why l]
  by (simp add: ledger_ok_def leases_ok_def queue_ok_def limits_ok_def rate_wf_def)

lemma ok_grant:
  assumes ok: "ledger_ok l" and mem: "w_seq w \<in> set (map w_seq (l_waiters l))"
  shows "ledger_ok (grantLocked l w req now)"
proof -
  have "distinct (remove1 (w_seq w) (map w_seq (l_waiters l)) @ w_seq w # l_grants l)"
    using ok mem by (auto simp: ledger_ok_def queue_ok_def set_remove1_eq)
  then have "queue_ok (grantLocked l w req now)"
    using ok mem unfolding queue_ok_def ledger_ok_def grant_fields dropWaiter_seqs
    by (auto dest: notin_set_remove1)
  then show ?thesis
    using ok rate_wf_grant [of l w req now] by (simp add: ledger_ok_def leases_ok_def limits_ok_def)
qed

lemma ok_promotes:
  assumes p: "promotes opt l l'" and ok: "ledger_ok l"
  shows "ledger_ok l'"
proof -
  have "ls_holder ls' = h" if "mapGet (l_leases l') h = Some ls'" for h ls'
    by (rule promotes_get [OF p that]) (use ok in \<open>auto simp: ledger_ok_def leases_ok_def\<close>)
  then have "leases_ok l'" using p by (auto simp: leases_ok_def promotes_def)
  then show ?thesis
    using ok by (simp add: ledger_ok_def queue_ok_def limits_ok_def rate_wf_def promotes_fields [OF p])
qed

section \<open>The fate of the waiters\<close>

text \<open>\<open>served l l'\<close>: between \<open>l\<close> and \<open>l'\<close> waiters were granted, and nothing else happened to the
  queue: the numbers that left the queue are exactly the numbers granted.\<close>

definition served :: "Ledger \<Rightarrow> Ledger \<Rightarrow> bool" where
  "served l l' \<longleftrightarrow> (\<exists>gs. l_grants l' = gs @ l_grants l
     \<and> mset (map w_seq (l_waiters l)) = mset (map w_seq (l_waiters l')) + mset gs)
     \<and> l_limits l' = l_limits l \<and> l_rates l' = l_rates l \<and> l_seq l' = l_seq l \<and> l_changed l' = l_changed l
     \<and> l_adoptSince l' = l_adoptSince l"

lemma served_same:
  assumes "l_grants l' = l_grants l" and "map w_seq (l_waiters l') = map w_seq (l_waiters l)"
    and "l_limits l' = l_limits l" "l_rates l' = l_rates l" "l_seq l' = l_seq l" "l_changed l' = l_changed l"
    "l_adoptSince l' = l_adoptSince l"
  shows "served l l'"
  using assms unfolding served_def by simp

lemma served_refl [simp]: "served l l"
  by (rule served_same) simp_all

lemma served_trans:
  assumes "served l l1" and "served l1 l2"
  shows "served l l2"
proof -
  from assms obtain gs hs where
    "l_grants l1 = gs @ l_grants l" "mset (map w_seq (l_waiters l)) = mset (map w_seq (l_waiters l1)) + mset gs"
    "l_grants l2 = hs @ l_grants l1" "mset (map w_seq (l_waiters l1)) = mset (map w_seq (l_waiters l2)) + mset hs"
    by (auto simp: served_def)
  then show ?thesis using assms
    by (auto simp: served_def intro!: exI [of _ "hs @ gs"])
qed

lemma served_quiet: "quiet opt l l' \<Longrightarrow> served l l'"
  by (rule served_same) (simp_all add: quiet_fields [of opt l l'])

lemma served_setReason: "served l (setReason s why l)"
  by (rule served_same) (simp_all only: setReason_fields setReason_seqs)

lemma served_promotes: "promotes opt l l' \<Longrightarrow> served l l'"
  by (rule served_same) (simp_all add: promotes_fields [of opt l l'])

lemma served_grant: "w_seq w \<in> set (map w_seq (l_waiters l)) \<Longrightarrow> served l (grantLocked l w b now)"
  unfolding served_def grant_fields
  by (intro conjI exI [of _ "[w_seq w]"]) (simp_all add: dropWaiter_seqs)

lemma served_queued: "served l l' \<Longrightarrow> s \<in> set (map w_seq (l_waiters l)) \<Longrightarrow>
    s \<in> set (map w_seq (l_waiters l')) \<or> s \<in> set (l_grants l')"
  unfolding served_def
  by (metis (no_types, lifting) Un_iff set_append set_mset_mset set_mset_union)

lemma served_back: "served l l' \<Longrightarrow> s \<in> set (map w_seq (l_waiters l')) \<Longrightarrow> s \<in> set (map w_seq (l_waiters l))"
  unfolding served_def by (metis UnI1 set_mset_mset set_mset_union)

text \<open>Visiting a waiter of a pass that has not been visited yet finds it queued.\<close>

lemma ok_pass:
  assumes "ledger_ok l" and "set (map w_seq ws) \<subseteq> set (map w_seq (l_waiters l))" and "distinct (map w_seq ws)"
  shows "ledger_ok (dispatchLoop opt l ws) \<and> served l (dispatchLoop opt l ws)"
proof -
  let ?I = "\<lambda>(seen :: waiter list) l'. ledger_ok l' \<and> served l l'
    \<and> (\<forall>w\<in>set ws. w_seq w \<notin> w_seq ` set seen \<longrightarrow> w_seq w \<in> set (map w_seq (l_waiters l')))"
  have "?I ([] @ ws) (dispatchLoop opt l ws)"
  proof (rule dispatchLoop_rule)
    show "?I [] l" using assms by auto
  next
    fix us vs :: "waiter list" and w :: waiter and l' l1 why
    assume I: "?I ([] @ us) l'" and q: "quiet opt l' l1"
    have "set (map w_seq (l_waiters (setReason (w_seq w) why l1))) = set (map w_seq (l_waiters l'))"
      unfolding setReason_seqs quiet_fields [OF q] ..
    then show "?I ([] @ us @ [w]) (setReason (w_seq w) why l1)"
      using I ok_setReason [OF ok_quiet [OF q]]
        served_trans [OF served_trans [OF _ served_quiet [OF q]] served_setReason] by auto
  next
    fix us vs :: "waiter list" and w :: waiter and l' l1 b
    assume ws: "ws = us @ w # vs" and I: "?I ([] @ us) l'" and q: "quiet opt l' l1"
    let ?l2 = "setReason (w_seq w) [] l1"
    have seqs: "set (map w_seq (l_waiters ?l2)) = set (map w_seq (l_waiters l'))"
      unfolding setReason_seqs quiet_fields [OF q] ..
    have mem: "w_seq w \<in> set (map w_seq (l_waiters ?l2))"
      unfolding seqs using I assms(3) by (auto simp: ws)
    have "ledger_ok ?l2" "served l ?l2"
      using I ok_setReason [OF ok_quiet [OF q]]
        served_trans [OF served_trans [OF _ served_quiet [OF q]] served_setReason] by auto
    then have "ledger_ok (grantLocked ?l2 w b (o_now opt))" "served l (grantLocked ?l2 w b (o_now opt))"
      using ok_grant [OF _ mem] served_trans [OF _ served_grant [OF mem]] by auto
    moreover have "x \<in> set (map w_seq (dropWaiter (w_seq w) (l_waiters ?l2)))"
      if "x \<noteq> w_seq w" "x \<in> set (map w_seq (l_waiters l'))" for x
      using that unfolding dropWaiter_seqs seqs [symmetric] by (simp add: in_set_remove1)
    ultimately show "?I ([] @ us @ [w]) (grantLocked ?l2 w b (o_now opt))"
      using I by auto
  qed
  then show ?thesis by blast
qed

section \<open>Limits\<close>

text \<open>The fields admission reads.\<close>

definition same_admission :: "Ledger \<Rightarrow> Ledger \<Rightarrow> bool" where
  "same_admission l l' \<longleftrightarrow> l_leases l' = l_leases l \<and> l_limits l' = l_limits l \<and> l_rates l' = l_rates l
     \<and> l_rateUse l' = l_rateUse l \<and> l_adopting l' = l_adopting l \<and> l_adoptSince l' = l_adoptSince l"

lemma same_admission_rate: "same_admission l l' \<Longrightarrow> rateFull l' = rateFull l"
  by (simp add: fun_eq_iff rateFull_def usedIn_def window_def rateWindowLocked_def same_admission_def
      Let_def split: option.split)

lemma fits_same:
  assumes "same_admission l l'"
  shows "fits opt l' req = fits opt l req"
  using usage_cong(1,2,5) [of l' l] same_admission_rate [OF assms] heldBlock_cong [of l' l opt req]
    softBlock_cong [of opt l' req _ l] assms
  by (simp add: fits_def poolOpen_def same_admission_def)

definition within :: "Options \<Rightarrow> Ledger \<Rightarrow> Ledger \<Rightarrow> bool" where
  "within opt l l' \<longleftrightarrow> limitOf l' = limitOf l
     \<and> (\<forall>p. 0 < limitOf l p \<longrightarrow> usedLocked opt l' p \<le> max (usedLocked opt l p) (limitOf l p))"

lemma resolved_same:
  assumes s: "same_admission l l'"
  shows "resolved opt l' req = resolved opt l req"
proof -
  have u: "limitOf l' = limitOf l" "usedLocked opt l' = usedLocked opt l"
    using usage_cong(1) [of l' l] usage_cong(5) [of l' l opt] s by (simp_all add: same_admission_def)
  have "rankLess opt l' req = rankLess opt l req"
    by (intro ext) (simp only: rankLess_def loadOf_def u)
  then have r: "rankedLocked opt l' req = rankedLocked opt l req" by (simp add: rankedLocked_def)
  have b: "bindTo l' = bindTo l" "swapVerifierNodePoolLocked l' req n = swapVerifierNodePoolLocked l req n" for n
    by (simp_all add: fun_eq_iff bindTo_def ledgerNodePoolLocked_def swapVerifierNodePoolLocked_def u(1))
  have "nodePasses opt l' req = nodePasses opt l req"
    by (simp add: fun_eq_iff nodePasses_def b fits_same [OF s])
  then show ?thesis
    using s by (simp add: resolved_def r b fits_same [OF s] same_admission_def adoptionHold_def Let_def)
qed

lemma within_refl [simp]: "within opt l l"
  by (simp add: within_def)

lemma within_trans: "within opt l l1 \<Longrightarrow> within opt l1 l2 \<Longrightarrow> within opt l l2"
  unfolding within_def by (metis max.coboundedI2 max.bounded_iff order_trans max_def)

lemma within_leases: "l_leases l' = l_leases l \<Longrightarrow> l_limits l' = l_limits l \<Longrightarrow> within opt l l'"
  unfolding within_def using usage_cong(1) [of l' l] usage_cong(5) [of l' l opt] by simp

lemma within_promotes: "promotes opt l l' \<Longrightarrow> within opt l l'"
  using promotes_fields(12) [of opt l l'] by (auto simp: within_def promotes_def intro: max.coboundedI1)

text \<open>What a request is granted on is what the check passed.\<close>

lemma resolved_fits: "resolved opt l req = Some b \<Longrightarrow> fits opt l b"
  by (auto simp: resolved_def Let_def nodePasses_def find_Some_iff split: if_splits)

lemma within_grant:
  assumes wf: "wf_map (l_leases l)" and f: "fits opt l b"
  shows "within opt l (grantLocked l w b now)"
proof -
  let ?new = "leaseFor b now"
  let ?m = "l\<lparr>l_leases := mapSet (l_leases l) (rq_holder b) ?new\<rparr>"
  have same: "usedLocked opt (grantLocked l w b now) = usedLocked opt ?m"
    "limitOf (grantLocked l w b now) = limitOf l"
    by (rule usage_cong(5)) (simp_all add: limitOf_def fun_eq_iff)
  have add: "usedLocked opt ?m p \<le> usedLocked opt l p + extra (Some ?new) (namesPool p)" for p
    by (rule used_add_plain [OF adds_store [OF wf]]) simp
  have "usedLocked opt ?m p \<le> max (usedLocked opt l p) (limitOf l p)" if "0 < limitOf l p" for p
  proof (cases "p \<in> set (rq_pools b)")
    case True
    then have "usedLocked opt l p < limitOf l p" using f that by (simp add: fits_def poolOpen_def)
    then show ?thesis using add [of p] extra_bounds(2) [of "Some ?new" "namesPool p"] by linarith
  next
    case False
    then show ?thesis using add [of p] by (simp add: extra_def namesPool_def le_max_iff_disj)
  qed
  then show ?thesis by (simp add: within_def same)
qed

lemma within_pass:
  assumes "wf_map (l_leases l)"
  shows "within opt l (dispatchLoop opt l ws) \<and> wf_map (l_leases (dispatchLoop opt l ws))"
proof (rule dispatchLoop_keeps)
  show "within opt l l \<and> wf_map (l_leases l)" using assms by simp
next
  fix w :: waiter and l' l1 why
  assume I: "within opt l l' \<and> wf_map (l_leases l')" and q: "quiet opt l' l1"
  show "within opt l (setReason (w_seq w) why l1) \<and> wf_map (l_leases (setReason (w_seq w) why l1))"
    using I within_trans [OF _ within_leases, of opt l l'] by (simp add: quiet_fields [OF q])
next
  fix w :: waiter and l' l1 b
  assume I: "within opt l l' \<and> wf_map (l_leases l')" and q: "quiet opt l' l1"
    and r: "resolved opt l' (w_req w) = Some b"
  let ?l2 = "setReason (w_seq w) [] l1"
  have l2: "l_leases ?l2 = l_leases l'" "l_limits ?l2 = l_limits l'" by (simp_all add: quiet_fields [OF q])
  have "fits opt ?l2 b"
    using resolved_fits [OF r] fits_quiet [OF q] fits_same [of l1 ?l2 opt b]
    by (simp add: same_admission_def)
  then show "within opt l (grantLocked ?l2 w b (o_now opt)) \<and> wf_map (l_leases (grantLocked ?l2 w b (o_now opt)))"
    using I l2 within_trans [OF within_trans [OF _ within_leases [OF l2]] within_grant] by simp
qed

section \<open>A pass leaves nobody waiting that would fit\<close>

text \<open>\<open>grows\<close>: admission has become no easier.\<close>

definition grows :: "Options \<Rightarrow> Ledger \<Rightarrow> Ledger \<Rightarrow> bool" where
  "grows opt l l' \<longleftrightarrow> limitOf l' = limitOf l \<and> (\<forall>p. usedLocked opt l p \<le> usedLocked opt l' p)
     \<and> (\<forall>p. rateFull l p (o_now opt) \<longrightarrow> rateFull l' p (o_now opt))
     \<and> adoptionHold opt l' = adoptionHold opt l"

lemma grows_refl [simp]: "grows opt l l"
  by (simp add: grows_def)

lemma grows_trans: "grows opt l l1 \<Longrightarrow> grows opt l1 l2 \<Longrightarrow> grows opt l l2"
  unfolding grows_def by (metis order_trans)

lemma grows_same: "same_admission l l' \<Longrightarrow> grows opt l l'"
  using usage_cong(1) [of l' l] usage_cong(5) [of l' l opt] same_admission_rate [of l l']
  by (simp add: grows_def same_admission_def adoptionHold_def)

lemma grows_quiet:
  assumes q: "quiet opt l l'"
  shows "grows opt l l'"
  using quiet_usage(1,5) [OF q] quiet_rateFull [OF q order_refl] q by (simp add: grows_def quiet_def)

lemma fits_grows:
  assumes "grows opt l l'" and "o_HeldBackpressure opt = None" and "fits opt l' req"
  shows "fits opt l req"
proof -
  have "poolOpen opt l req p" if "poolOpen opt l' req p" for p
    using that assms(1,2) softBlock_cong [of opt l' req p l]
    by (auto simp: poolOpen_def grows_def heldBlock_def intro: order_le_less_trans)
  with assms(3) show ?thesis by (simp add: fits_def)
qed

lemma resolved_none_grows:
  assumes g: "grows opt l l'" and h: "o_HeldBackpressure opt = None" and n: "resolved opt l req = None"
  shows "resolved opt l' req = None"
proof -
  have lim: "limitOf l' = limitOf l" and hold: "adoptionHold opt l' = adoptionHold opt l"
    using g by (auto simp: grows_def)
  have same: "bindTo l' = bindTo l" "swapVerifierNodePoolLocked l' req x = swapVerifierNodePoolLocked l req x" for x
    by (simp_all add: fun_eq_iff bindTo_def ledgerNodePoolLocked_def swapVerifierNodePoolLocked_def lim)
  have passes: "nodePasses opt l req c" if "nodePasses opt l' req c" for c
    using that fits_grows [OF g h] by (auto simp: nodePasses_def same)
  show ?thesis
    using n fits_grows [OF g h] passes
    by (auto simp: resolved_def hold same Let_def find_None_iff split: if_splits)
qed

lemma usedIn_sum: "usedIn l pool val t = (case mapGet (l_rates l) pool of None \<Rightarrow> 0
    | Some c \<Rightarrow> sum_list (map val (filter (\<lambda>e. re_at e > t - rc_window c) (mapGetOr [] (l_rateUse l) pool))))"
  by (simp add: usedIn_def window_some split: option.split)

lemma record_usedIn:
  assumes "val = re_req \<or> val = re_tok"
  shows "usedIn l pool val t \<le> usedIn (recordRequestsLocked l ps now) pool val t"
proof (induction ps arbitrary: l)
  case (Cons p ps)
  let ?l = "l\<lparr>l_rateUse := mapSet (l_rateUse l) p
    (mapGetOr [] (l_rateUse l) p @ [\<lparr>re_at = now, re_req = 1, re_tok = 0\<rparr>])\<rparr>"
  have "usedIn l pool val t \<le> usedIn ?l pool val t"
    using assms by (auto simp: usedIn_sum split: option.split)
  then show ?case using Cons.IH [of l] Cons.IH [of ?l] by (auto split: option.split)
qed simp

lemma grant_rateUse: "l_rateUse (grantLocked l w b now) = l_rateUse (recordRequestsLocked
    (l\<lparr>l_leases := mapSet (l_leases l) (rq_holder b) (leaseFor b now),
       l_lastGrant := mapSet (l_lastGrant l) (rq_prd b) now\<rparr>) (rq_pools b) now)"
  by (cases "rq_node b \<noteq> [] \<and> rq_model b \<noteq> []") (auto simp: grantLocked_def Let_def)

lemma grows_grant:
  assumes wf: "wf_map (l_leases l)" and new: "\<not> mapHas (l_leases l) (rq_holder b)"
  shows "grows opt l (grantLocked l w b now)"
proof -
  let ?m = "l\<lparr>l_leases := mapSet (l_leases l) (rq_holder b) (leaseFor b now)\<rparr>"
  have lim: "limitOf (grantLocked l w b now) = limitOf l" by (simp add: limitOf_def fun_eq_iff)
  have used: "usedLocked opt (grantLocked l w b now) = usedLocked opt ?m"
    by (rule usage_cong(5)) simp_all
  have cnt: "countLeases l P \<le> countLeases ?m P" for P
    using count_store [OF wf, of "rq_holder b" "leaseFor b now" P] new
    by (simp add: mapHas_def extra_def)
  have "heldByNodeLocked l p \<le> heldByNodeLocked ?m p" for p
    by (rule heldByNode_mono) (simp_all add: cnt)
  then have mono: "usedLocked opt l p \<le> usedLocked opt ?m p" for p
    using cnt by (simp add: usedLocked_def heldLocked_count overflow_count add_mono)
  let ?l1 = "l\<lparr>l_leases := mapSet (l_leases l) (rq_holder b) (leaseFor b now),
    l_lastGrant := mapSet (l_lastGrant l) (rq_prd b) now\<rparr>"
  have "usedIn (grantLocked l w b now) p v t = usedIn (recordRequestsLocked ?l1 (rq_pools b) now) p v t" for p v t
    by (simp add: usedIn_sum grant_rateUse split: option.split)
  moreover have "usedIn ?l1 p v t = usedIn l p v t" for p v t
    by (simp add: usedIn_sum split: option.split)
  ultimately have "usedIn l p v t \<le> usedIn (grantLocked l w b now) p v t" if "v = re_req \<or> v = re_tok" for p v t
    using record_usedIn [OF that, of ?l1 p t "rq_pools b" now] by simp
  then have "rateFull l p t \<Longrightarrow> rateFull (grantLocked l w b now) p t" for p t
    by (auto simp: rateFull_def intro: order_trans split: option.splits)
  then show ?thesis
    using mono by (simp add: grows_def lim used adoptionHold_def)
qed

text \<open>A request keeps its holder and PRD through resolution.\<close>

lemma resolved_holder: "resolved opt l req = Some b \<Longrightarrow> rq_holder b = rq_holder req \<and> rq_prd b = rq_prd req
    \<and> rq_role b = rq_role req \<and> rq_model b = rq_model req"
  by (auto simp: resolved_def bindTo_def swapVerifierNodePoolLocked_def Let_def split: if_splits)

lemma setReason_same: "same_admission l (setReason s why l)"
  by (simp add: same_admission_def)

text \<open>Waiters are the pass's waiters, up to the reason text.\<close>

definition requests_from :: "waiter list \<Rightarrow> Ledger \<Rightarrow> bool" where
  "requests_from ws l \<longleftrightarrow> (\<forall>x\<in>set (l_waiters l). \<exists>w\<in>set ws. w_seq w = w_seq x \<and> w_req w = w_req x)"

lemma requests_from_quiet: "quiet opt l l' \<Longrightarrow> requests_from ws l \<Longrightarrow> requests_from ws l'"
  by (simp add: requests_from_def quiet_fields)

lemma requests_from_setReason: "requests_from ws l \<Longrightarrow> requests_from ws (setReason s why l)"
  by (auto simp: requests_from_def setReason_def)

lemma requests_from_grant: "requests_from ws l \<Longrightarrow> requests_from ws (grantLocked l w b now)"
  using dropWaiter_sub [of "w_seq w" "l_waiters l"] by (auto simp: requests_from_def)

lemma dropWaiter_distinct: "distinct (map w_seq ws) \<Longrightarrow> x \<in> set (dropWaiter s ws) \<Longrightarrow> w_seq x \<noteq> s"
  by (induction ws) (auto simp: image_iff split: if_splits)

lemma pass_maximal:
  assumes wf: "wf_map (l_leases l)" and h: "o_HeldBackpressure opt = None"
    and seqs: "distinct (map w_seq (l_waiters l))" and src: "requests_from ws l"
    and dw: "distinct (map w_seq ws)" and dh: "distinct (map (rq_holder \<circ> w_req) ws)"
    and new: "\<And>w. w \<in> set ws \<Longrightarrow> \<not> mapHas (l_leases l) (rq_holder (w_req w))"
  shows "\<forall>x\<in>set (l_waiters (dispatchLoop opt l ws)). resolved opt (dispatchLoop opt l ws) (w_req x) = None"
proof -
  let ?queued = "\<lambda>l (w :: waiter). w_seq w \<in> w_seq ` set (l_waiters l)"
  let ?I = "\<lambda>(seen :: waiter list) l'. wf_map (l_leases l') \<and> requests_from ws l'
    \<and> distinct (map w_seq (l_waiters l'))
    \<and> (\<forall>w\<in>set seen. ?queued l' w \<longrightarrow> resolved opt l' (w_req w) = None)
    \<and> (\<forall>w\<in>set ws - set seen. \<not> mapHas (l_leases l') (rq_holder (w_req w)))"
  have "?I ([] @ ws) (dispatchLoop opt l ws)"
  proof (rule dispatchLoop_rule)
    show "?I [] l" using wf src seqs new by auto
  next
    fix us vs :: "waiter list" and w :: waiter and l' l1 why
    assume I: "?I ([] @ us) l'" and q: "quiet opt l' l1" and none: "resolved opt l' (w_req w) = None"
    let ?l2 = "setReason (w_seq w) why l1"
    have g: "grows opt l' ?l2" using grows_trans [OF grows_quiet [OF q] grows_same [OF setReason_same]] .
    have q2: "?queued ?l2 x = ?queued l' x" for x
      using setReason_seqs [of "w_seq w" why l1] quiet_fields(3) [OF q] by (metis list.set_map)
    show "?I ([] @ us @ [w]) ?l2"
      using I resolved_none_grows [OF g h] none requests_from_setReason [OF requests_from_quiet [OF q]]
      unfolding q2 setReason_seqs setReason_fields quiet_fields [OF q] by auto
  next
    fix us vs :: "waiter list" and w :: waiter and l' l1 b
    assume ws: "ws = us @ w # vs" and I: "?I ([] @ us) l'" and q: "quiet opt l' l1"
      and some: "resolved opt l' (w_req w) = Some b"
    let ?l2 = "setReason (w_seq w) [] l1" and ?l3 = "grantLocked (setReason (w_seq w) [] l1) w b (o_now opt)"
    have holder: "rq_holder b = rq_holder (w_req w)" using resolved_holder [OF some] by simp
    have notus: "w \<notin> set us" using dw by (auto simp: ws)
    have unheld: "\<not> mapHas (l_leases ?l2) (rq_holder b)" and wf2: "wf_map (l_leases ?l2)"
      using I notus by (auto simp: holder quiet_fields [OF q] ws)
    have g: "grows opt l' ?l3"
      using grows_trans [OF grows_trans [OF grows_quiet [OF q] grows_same [OF setReason_same]]
          grows_grant [OF wf2 unheld]] .
    have l2: "map w_seq (l_waiters ?l2) = map w_seq (l_waiters l')"
      unfolding setReason_seqs quiet_fields [OF q] ..
    have q3: "?queued l' x \<and> w_seq x \<noteq> w_seq w" if "?queued ?l3 x" for x
    proof -
      have "w_seq x \<in> set (remove1 (w_seq w) (map w_seq (l_waiters l')))"
        using that unfolding grant_fields by (metis dropWaiter_seqs l2 list.set_map)
      with I show ?thesis by (simp add: set_remove1_eq)
    qed
    have d: "distinct (map w_seq (l_waiters ?l3))"
      using I unfolding grant_fields dropWaiter_seqs l2 by (simp add: distinct_remove1)
    have un: "\<not> mapHas (l_leases ?l3) (rq_holder (w_req x))" if "x \<in> set ws - set (us @ [w])" for x
      using that I dh notus by (auto simp: ws holder quiet_fields [OF q] image_iff)
    have none: "resolved opt ?l3 (w_req x) = None" if "x \<in> set (us @ [w])" "?queued ?l3 x" for x
      using I that q3 [of x] resolved_none_grows [OF g h, of "w_req x"] by auto
    have "requests_from ws l'" using I by blast
    then have "requests_from ws ?l3"
      by (intro requests_from_grant requests_from_setReason requests_from_quiet [OF q])
    moreover have "wf_map (l_leases ?l3)" using wf2 by simp
    ultimately show "?I ([] @ us @ [w]) ?l3"
      using d un none by (intro conjI ballI impI) (simp_all only: append_Nil not_False_eq_True)
  qed
  then show ?thesis unfolding requests_from_def by (metis append_Nil image_eqI)
qed

section \<open>The whole pass\<close>

text \<open>The ledger at the start of the loop of a pass: overflow promoted, waiters refreshed.\<close>

definition passStart :: "Options \<Rightarrow> Ledger \<Rightarrow> Ledger" where
  "passStart opt l = (promoteOverflowLocked opt l)\<lparr>l_waiters := map (refreshWaiterLocked opt) (l_waiters l)\<rparr>"

lemma dispatch_loop:
  assumes "wf_map (l_leases l)"
  shows "dispatchLocked opt l = dispatchLoop opt (passStart opt l) (orderLocked opt (passStart opt l) (o_now opt))"
proof (cases "l_waiters l = []")
  case True
  have "l_waiters (promoteOverflowLocked opt l) = []"
    using True promotes_fields(2) [OF promote_promotes [OF assms]] by simp
  then show ?thesis
    using True by (simp add: dispatchLocked_def passStart_def orderLocked_def orderListLocked_def Let_def)
next
  case False
  then show ?thesis
    using promotes_fields(2) [OF promote_promotes [OF assms]]
    by (simp add: dispatchLocked_def passStart_def Let_def)
qed

lemma refresh_fields [simp]: "w_seq (refreshWaiterLocked opt w) = w_seq w"
  "rq_holder (w_req (refreshWaiterLocked opt w)) = rq_holder (w_req w)"
  "w_since (refreshWaiterLocked opt w) = w_since w"
  by (simp_all add: refreshWaiterLocked_def)

lemma passStart_seqs: "map w_seq (l_waiters (passStart opt l)) = map w_seq (l_waiters l)"
  by (simp add: passStart_def comp_def)

lemma passStart_ok:
  assumes ok: "ledger_ok l"
  shows "ledger_ok (passStart opt l)" "served l (passStart opt l)" "within opt l (passStart opt l)"
proof -
  let ?p = "promoteOverflowLocked opt l"
  have p: "promotes opt l ?p" using ok by (simp add: promote_promotes ledger_ok_def leases_ok_def)
  have "ledger_ok ?p" by (rule ok_promotes [OF p ok])
  then show "ledger_ok (passStart opt l)"
    using promotes_fields(2) [OF p]
    by (simp add: passStart_def ledger_ok_def leases_ok_def queue_ok_def limits_ok_def rate_wf_def comp_def)
  show "served l (passStart opt l)"
    by (rule served_same) (simp_all add: passStart_def promotes_fields [OF p] comp_def)
  show "within opt l (passStart opt l)"
    by (rule within_trans [OF within_promotes [OF p] within_leases]) (simp_all add: passStart_def)
qed

lemma pass_order:
  assumes "ledger_ok l"
  shows "set (orderLocked opt (passStart opt l) now) = set (l_waiters (passStart opt l))"
    and "distinct (map w_seq (orderLocked opt (passStart opt l) now))"
proof -
  show "set (orderLocked opt (passStart opt l) now) = set (l_waiters (passStart opt l))"
    by (simp add: orderLocked_def)
  have "distinct (map w_seq (l_waiters (passStart opt l)))"
    using assms unfolding passStart_seqs by (simp add: ledger_ok_def queue_ok_def)
  then show "distinct (map w_seq (orderLocked opt (passStart opt l) now))"
    by (simp add: orderLocked_def orderListLocked_def)
qed

lemma dispatch_ok_served:
  assumes ok: "ledger_ok l"
  shows "ledger_ok (dispatchLocked opt l)" "served l (dispatchLocked opt l)"
proof -
  let ?s = "passStart opt l" and ?ws = "orderLocked opt (passStart opt l) (o_now opt)"
  have d: "dispatchLocked opt l = dispatchLoop opt ?s ?ws"
    using ok by (simp add: dispatch_loop ledger_ok_def leases_ok_def)
  have "set (map w_seq ?ws) \<subseteq> set (map w_seq (l_waiters ?s))"
    unfolding set_map pass_order(1) [OF ok] ..
  from ok_pass [OF passStart_ok(1) [OF ok] this pass_order(2) [OF ok]]
  show "ledger_ok (dispatchLocked opt l)" "served l (dispatchLocked opt l)"
    using served_trans [OF passStart_ok(2) [OF ok]] by (auto simp: d)
qed

lemma dispatch_within:
  assumes "wf_map (l_leases l)"
  shows "within opt l (dispatchLocked opt l)"
proof -
  have p: "promotes opt l (promoteOverflowLocked opt l)" by (rule promote_promotes [OF assms])
  have "within opt l (passStart opt l)"
    by (rule within_trans [OF within_promotes [OF p] within_leases]) (simp_all add: passStart_def)
  moreover have "wf_map (l_leases (passStart opt l))"
    using p by (simp add: passStart_def promotes_def)
  ultimately show ?thesis
    using within_trans within_pass unfolding dispatch_loop [OF assms] by blast
qed

lemma dispatch_reasons:
  assumes ok: "ledger_ok l" and x: "x \<in> set (l_waiters (dispatchLocked opt l))"
  shows "w_reason x \<noteq> []"
proof -
  let ?s = "passStart opt l" and ?ws = "orderLocked opt (passStart opt l) (o_now opt)"
  let ?I = "\<lambda>(seen :: waiter list) l'. distinct (map w_seq (l_waiters l'))
    \<and> set (map w_seq (l_waiters l')) \<subseteq> set (map w_seq ?ws) \<and> (\<forall>x\<in>set (l_waiters l'). w_seq x \<in> w_seq ` set seen \<longrightarrow> w_reason x \<noteq> [])"
  have d: "dispatchLocked opt l = dispatchLoop opt ?s ?ws"
    using ok by (simp add: dispatch_loop ledger_ok_def leases_ok_def)
  have "?I ([] @ ?ws) (dispatchLoop opt ?s ?ws)"
  proof (rule dispatchLoop_rule)
    show "?I [] ?s" using pass_order(1) [OF ok] passStart_ok(1) [OF ok]
      by (simp add: ledger_ok_def queue_ok_def)
  next
    fix us vs :: "waiter list" and w :: waiter and l' l1 and why :: string
    assume I: "?I ([] @ us) l'" and q: "quiet opt l' l1" and "why \<noteq> []"
    then show "?I ([] @ us @ [w]) (setReason (w_seq w) why l1)"
      unfolding setReason_seqs quiet_fields [OF q]
      by (auto simp: setReason_def quiet_fields [OF q] split: if_splits)
  next
    fix us vs :: "waiter list" and w :: waiter and l' l1 b
    assume I: "?I ([] @ us) l'" and q: "quiet opt l' l1"
    let ?l2 = "setReason (w_seq w) [] l1"
    have l2: "map w_seq (l_waiters ?l2) = map w_seq (l_waiters l')"
      unfolding setReason_seqs quiet_fields [OF q] ..
    have kept: "x \<in> set (l_waiters l') \<and> w_seq x \<noteq> w_seq w"
      if "x \<in> set (dropWaiter (w_seq w) (l_waiters ?l2))" for x
    proof -
      have "distinct (map w_seq (l_waiters ?l2))" using I unfolding l2 by blast
      with that have "w_seq x \<noteq> w_seq w" by (rule dropWaiter_distinct [rotated])
      moreover have "x \<in> set (l_waiters ?l2)" using that dropWaiter_sub by blast
      ultimately show ?thesis by (auto simp: setReason_def quiet_fields [OF q] split: if_splits)
    qed
    then show "?I ([] @ us @ [w]) (grantLocked ?l2 w b (o_now opt))"
      using I unfolding grant_fields dropWaiter_seqs l2 by (auto simp: distinct_remove1)
  qed
  then show ?thesis using x d by auto
qed

text \<open>Whoever left the queue holds a lease, unless a later grant of the same pass to the same holder
  replaced it; either way the holder is in the ledger.\<close>

lemma pass_leased:
  assumes "\<And>w. w \<in> set ws \<Longrightarrow> w_seq w \<in> set (l_grants l) \<Longrightarrow> mapHas (l_leases l) (rq_holder (w_req w))"
    and "distinct (map w_seq ws)"
  shows "\<forall>w\<in>set ws. w_seq w \<in> set (l_grants (dispatchLoop opt l ws)) \<longrightarrow>
    mapHas (l_leases (dispatchLoop opt l ws)) (rq_holder (w_req w))"
proof (rule dispatchLoop_keeps)
  show "\<forall>w\<in>set ws. w_seq w \<in> set (l_grants l) \<longrightarrow> mapHas (l_leases l) (rq_holder (w_req w))"
    using assms(1) by blast
next
  fix w :: waiter and l' l1 why
  assume I: "\<forall>w\<in>set ws. w_seq w \<in> set (l_grants l') \<longrightarrow> mapHas (l_leases l') (rq_holder (w_req w))"
    and q: "quiet opt l' l1"
  then show "\<forall>x\<in>set ws. w_seq x \<in> set (l_grants (setReason (w_seq w) why l1)) \<longrightarrow>
      mapHas (l_leases (setReason (w_seq w) why l1)) (rq_holder (w_req x))"
    by (simp add: quiet_fields [OF q])
next
  fix w :: waiter and l' l1 b
  assume I: "\<forall>w\<in>set ws. w_seq w \<in> set (l_grants l') \<longrightarrow> mapHas (l_leases l') (rq_holder (w_req w))"
    and q: "quiet opt l' l1" and w: "w \<in> set ws" and r: "resolved opt l' (w_req w) = Some b"
  have "x = w" if "x \<in> set ws" "w_seq x = w_seq w" for x
    using assms(2) that w by (auto simp: distinct_map inj_on_def)
  then show "\<forall>x\<in>set ws. w_seq x \<in> set (l_grants (grantLocked (setReason (w_seq w) [] l1) w b (o_now opt))) \<longrightarrow>
      mapHas (l_leases (grantLocked (setReason (w_seq w) [] l1) w b (o_now opt))) (rq_holder (w_req x))"
    using I resolved_holder [OF r] by (auto simp: quiet_fields [OF q])
qed

lemma dispatch_leased:
  assumes ok: "ledger_ok l" and w: "w \<in> set (l_waiters l)"
    and g: "w_seq w \<in> set (l_grants (dispatchLocked opt l))"
  shows "mapHas (l_leases (dispatchLocked opt l)) (rq_holder (w_req w))"
proof -
  let ?s = "passStart opt l" and ?ws = "orderLocked opt (passStart opt l) (o_now opt)"
  have d: "dispatchLocked opt l = dispatchLoop opt ?s ?ws"
    using ok by (simp add: dispatch_loop ledger_ok_def leases_ok_def)
  have none: "w_seq x \<notin> set (l_grants ?s)" if "x \<in> set ?ws" for x
    using passStart_ok(1) [OF ok] that pass_order(1) [OF ok] by (auto simp: ledger_ok_def queue_ok_def)
  have mem: "refreshWaiterLocked opt w \<in> set ?ws"
    using w pass_order(1) [OF ok] by (simp add: passStart_def)
  have "\<forall>w\<in>set ?ws. w_seq w \<in> set (l_grants (dispatchLoop opt ?s ?ws)) \<longrightarrow>
      mapHas (l_leases (dispatchLoop opt ?s ?ws)) (rq_holder (w_req w))"
    by (rule pass_leased [OF _ pass_order(2) [OF ok]]) (use none in blast)
  then show ?thesis using g mem unfolding d by (metis refresh_fields(1,2))
qed

text \<open>The refreshed request is what a dry run would look at.\<close>

lemma refresh_fixed: "withoutStaleNode (applyRefresh (o_now opt) (w_req (refreshWaiterLocked opt w)))
    = w_req (refreshWaiterLocked opt w)"
proof (cases "rq_refresh (w_req w)")
  case None
  then show ?thesis by (simp add: refreshWaiterLocked_def applyRefresh_def)
next
  case (Some f)
  let ?r = "applyRefresh (o_now opt) (w_req w)"
  have "applyRefresh (o_now opt) (withoutStaleNode ?r) = ?r"
    using Some by (simp add: applyRefresh_def withoutStaleNode_def Let_def)
  then show ?thesis by (simp add: refreshWaiterLocked_def)
qed

lemma dispatch_requests:
  assumes ok: "ledger_ok l" and x: "x \<in> set (l_waiters (dispatchLocked opt l))"
  obtains w where "w \<in> set (l_waiters l)" "w_seq x = w_seq w" "w_req x = w_req (refreshWaiterLocked opt w)"
proof -
  let ?s = "passStart opt l" and ?ws = "orderLocked opt (passStart opt l) (o_now opt)"
  have "requests_from ?ws (dispatchLoop opt ?s ?ws)"
  proof (rule dispatchLoop_keeps)
    show "requests_from ?ws ?s" using pass_order(1) [OF ok] by (auto simp: requests_from_def)
  qed (blast intro: requests_from_setReason requests_from_quiet requests_from_grant)+
  moreover have "dispatchLocked opt l = dispatchLoop opt ?s ?ws"
    using ok by (simp add: dispatch_loop ledger_ok_def leases_ok_def)
  ultimately obtain y where "y \<in> set ?ws" "w_seq y = w_seq x" "w_req y = w_req x"
    using x by (auto simp: requests_from_def)
  with pass_order(1) [OF ok] that show ?thesis by (fastforce simp: passStart_def)
qed

lemma dispatch_maximal:
  assumes ok: "ledger_ok l" and h: "o_HeldBackpressure opt = None"
    and dh: "distinct (map (rq_holder \<circ> w_req) (l_waiters l))"
    and new: "\<And>w. w \<in> set (l_waiters l) \<Longrightarrow> \<not> mapHas (l_leases l) (rq_holder (w_req w))"
    and x: "x \<in> set (l_waiters (dispatchLocked opt l))"
  shows "\<not> snd (WouldGrant opt (dispatchLocked opt l) (w_req x))"
proof -
  let ?s = "passStart opt l" and ?ws = "orderLocked opt (passStart opt l) (o_now opt)"
  have d: "dispatchLocked opt l = dispatchLoop opt ?s ?ws"
    using ok by (simp add: dispatch_loop ledger_ok_def leases_ok_def)
  have p: "promotes opt l (promoteOverflowLocked opt l)"
    using ok by (simp add: promote_promotes ledger_ok_def leases_ok_def)
  have keys: "mapHas (l_leases ?s) k \<Longrightarrow> mapHas (l_leases l) k" for k
    using p by (auto simp: passStart_def mapHas_def promotes_def) metis+
  have "resolved opt (dispatchLocked opt l) (w_req x) = None"
  proof -
    have "distinct (map (rq_holder \<circ> w_req) (l_waiters ?s))"
      using dh by (simp add: passStart_def comp_def)
    then have "distinct (map (rq_holder \<circ> w_req) ?ws)"
      by (simp add: orderLocked_def orderListLocked_def)
    moreover have "\<not> mapHas (l_leases ?s) (rq_holder (w_req w))" if "w \<in> set ?ws" for w
      using that new keys pass_order(1) [OF ok] by (force simp: passStart_def)
    moreover have "requests_from ?ws ?s" using pass_order(1) [OF ok] by (auto simp: requests_from_def)
    ultimately show ?thesis
      using pass_maximal [of ?s opt ?ws] passStart_ok(1) [OF ok] pass_order(2) [OF ok] h x unfolding d
      by (simp add: ledger_ok_def leases_ok_def queue_ok_def)
  qed
  moreover obtain w where "w_req x = w_req (refreshWaiterLocked opt w)"
    using dispatch_requests [OF ok x] by blast
  ultimately show ?thesis
    using resolve_reason [of opt "dispatchLocked opt l" "w_req x"] refresh_fixed [of opt w]
    by (auto simp: WouldGrant_def split: prod.splits)
qed

end
