(* ===== verification/Capacity_Ops.thy ===== *)
theory Capacity_Ops
  imports Capacity_Guarantees
begin

text \<open>
  The lease operations of \<open>internal/capacity/ledger.go\<close>: \<open>Acquire\<close> and its wait loop, \<open>remove\<close>,
  \<open>Retarget\<close>, \<open>Adopt\<close>, \<open>Rehome\<close>, \<open>Bind\<close>, \<open>Release\<close>, \<open>Handoff\<close>, \<open>Reap\<close> and the readers.

  \<open>Acquire\<close> holds the lock in several separate pieces; each piece is one definition here
  (\<open>acquireStart\<close>, one \<open>acquireWake\<close> per turn of the select loop), so other operations may run between
  them. A turn is given the event the select took. A waiter argument is the struct the code's
  pointer points to at that moment. \<open>Adopt\<close> reads the wall clock for the lease and the ledger's clock
  for the rate window, so it has a second time argument. \<open>Reap\<close> is two pieces around the callback.
\<close>

section \<open>Acquire\<close>

datatype AcquireError = ErrCtx string | ErrWaitTimeout string | ErrCanceled

text \<open>What a piece of \<open>Acquire\<close> ends with: a return, or a wait with the reason to report through
  \<open>onWait\<close>, if it changed, and the delay of the next tick.\<close>

datatype AcquireStep = Returned "AcquireError option" | Waits "string option" duration

datatype WakeEvent = EvGrant | EvCtxDone string | EvDeadline | EvTick bool

definition reasonOf :: "Ledger \<Rightarrow> nat \<Rightarrow> string" where
  "reasonOf l s = (case find (\<lambda>x. w_seq x = s) (l_waiters l) of None \<Rightarrow> [] | Some x \<Rightarrow> w_reason x)"

definition granted :: "Ledger \<Rightarrow> nat \<Rightarrow> bool" where
  "granted l s \<longleftrightarrow> s \<in> set (l_grants l)"

text \<open>The struct of the waiter with the given number: the queued one, or the caller's copy once it
  has left the queue.\<close>

definition currentOf :: "Ledger \<Rightarrow> waiter \<Rightarrow> waiter" where
  "currentOf l w = (case find (\<lambda>x. w_seq x = w_seq w) (l_waiters l) of None \<Rightarrow> w | Some x \<Rightarrow> x)"

definition pollWaitLocked :: "Options \<Rightarrow> Ledger \<Rightarrow> waiter \<Rightarrow> Ledger \<times> duration" where
  "pollWaitLocked opt l w =
     (let pools = (if multiNode (w_req w) then allPools (w_req w) else rq_pools (w_req w));
          (l1, rd) = rateWakeLocked l pools (o_now opt) None
      in (l1, case rd of Some d \<Rightarrow> if d < o_PollInterval opt then d else o_PollInterval opt
              | None \<Rightarrow> o_PollInterval opt))"

definition acquireStart :: "Options \<Rightarrow> Ledger \<Rightarrow> Request \<Rightarrow> Ledger \<times> waiter option" where
  "acquireStart opt l req =
     (if mapHas (l_leases l) (rq_holder req) then (l, None)
      else let s = Suc (l_seq l);
               w = \<lparr>w_req = req, w_seq = s, w_since = o_now opt, w_reason = []\<rparr>;
               l1 = dispatchLocked opt (l\<lparr>l_seq := s, l_waiters := l_waiters l @ [w]\<rparr>)
           in if granted l1 s then (l1, None) else (l1, Some (currentOf l1 w)))"

text \<open>The bound of the wait: the delay handed to \<open>Clock.After\<close> at the moment \<open>now\<close>.\<close>

definition acquireDeadline :: "duration \<Rightarrow> time \<Rightarrow> time \<Rightarrow> duration option" where
  "acquireDeadline timeout since now =
     (if timeout > 0 then Some (let remaining = timeout - (now - since) in if remaining < 0 then 0 else remaining)
      else None)"

definition remove :: "Options \<Rightarrow> Ledger \<Rightarrow> waiter \<Rightarrow> Ledger" where
  "remove opt l w =
     (let l1 = l\<lparr>l_waiters := dropWaiter (w_seq w) (l_waiters l)\<rparr>;
          l2 = (if granted l1 (w_seq w)
                then signalChangedLocked (l1\<lparr>l_leases := mapDelete (l_leases l1) (rq_holder (w_req w))\<rparr>)
                else l1)
      in dispatchLocked opt l2)"

text \<open>One turn of the select loop of the call that queued \<open>w\<close> and last reported \<open>reported\<close>.\<close>

fun acquireWake :: "Options \<Rightarrow> Ledger \<Rightarrow> waiter \<Rightarrow> string \<Rightarrow> WakeEvent \<Rightarrow> Ledger \<times> AcquireStep" where
  "acquireWake opt l w reported EvGrant = (l, Returned None)"
| "acquireWake opt l w reported (EvCtxDone err) = (remove opt l w, Returned (Some (ErrCtx err)))"
| "acquireWake opt l w reported EvDeadline =
     (remove opt l w, Returned (Some (ErrWaitTimeout (w_reason w))))"
| "acquireWake opt l w reported (EvTick cancelled) =
     (if cancelled then (remove opt l w, Returned (Some ErrCanceled))
      else let l1 = dispatchLocked opt l;
               cur = reasonOf l1 (w_seq w);
               (l2, d) = pollWaitLocked opt l1 (currentOf l1 w)
           in if granted l2 (w_seq w) then (l2, Returned None)
              else (l2, Waits (if cur \<noteq> reported then Some cur else None) d))"

section \<open>Moving a queued request\<close>

definition slicesEqualStrings :: "string list \<Rightarrow> string list \<Rightarrow> bool" where
  "slicesEqualStrings a b \<longleftrightarrow> length a = length b \<and> list_all2 (=) a b"

definition samePlacement :: "Request \<Rightarrow> Request \<Rightarrow> bool" where
  "samePlacement a b \<longleftrightarrow> sort (rq_pools a) = sort (rq_pools b) \<and> rq_node a = rq_node b
     \<and> slicesEqualStrings (rq_exclude a) (rq_exclude b)
     \<and> length (rq_choices a) = length (rq_choices b) \<and> list_all2 (=) (rq_choices a) (rq_choices b)"

definition setRequest :: "nat \<Rightarrow> Request \<Rightarrow> Ledger \<Rightarrow> Ledger" where
  "setRequest s req l =
     l\<lparr>l_waiters := map (\<lambda>x. if w_seq x = s then x\<lparr>w_req := req\<rparr> else x) (l_waiters l)\<rparr>"

definition Retarget :: "Options \<Rightarrow> Ledger \<Rightarrow> string \<Rightarrow> Request \<Rightarrow> Ledger \<times> bool" where
  "Retarget opt l holder req =
     (if mapHas (l_leases l) holder then (l, False)
      else case find (\<lambda>x. rq_holder (w_req x) = holder) (l_waiters l) of
        None \<Rightarrow> (l, False)
      | Some w \<Rightarrow>
          (let req' = withoutStaleNode (applyRefresh (o_now opt) req)
           in if samePlacement req' (w_req w) then (l, False)
              else (dispatchLocked opt (signalChangedLocked (setRequest (w_seq w) req' l)), True)))"

section \<open>Adoption\<close>

definition nonNodePools :: "string list \<Rightarrow> string list" where
  "nonNodePools pools = filter (\<lambda>p. \<not> hasPrefix p ''node:'') pools"

fun tallySeen :: "string list \<Rightarrow> (string, nat) gomap \<Rightarrow> (string, nat) gomap" where
  "tallySeen [] seen = seen"
| "tallySeen (p # ps) seen = tallySeen ps (mapSet seen p (mapGetOr 0 seen p + 1))"

fun drainSeen :: "string list \<Rightarrow> (string, nat) gomap \<Rightarrow> bool" where
  "drainSeen [] seen = True"
| "drainSeen (p # ps) seen = (if mapGetOr 0 seen p = 0 then False
     else drainSeen ps (mapSet seen p (mapGetOr 0 seen p - 1)))"

definition samePoolSet :: "string list \<Rightarrow> string list \<Rightarrow> bool" where
  "samePoolSet a b \<longleftrightarrow> (if length a \<noteq> length b then False else drainSeen b (tallySeen a []))"

definition poolsWithNode :: "string list \<Rightarrow> string \<Rightarrow> string list" where
  "poolsWithNode pools node =
     (if node \<noteq> [] \<and> \<not> sharesPool pools [nodePool node] then pools @ [nodePool node] else pools)"

text \<open>A lease is reached through a pointer in the code; here the operations take its key.\<close>

definition updateLease :: "string \<Rightarrow> Lease \<Rightarrow> Ledger \<Rightarrow> Ledger" where
  "updateLease h ls l = l\<lparr>l_leases := mapSet (l_leases l) h ls\<rparr>"

definition placeAdoptedLocked :: "Options \<Rightarrow> Ledger \<Rightarrow> Lease \<Rightarrow> string \<Rightarrow> Lease" where
  "placeAdoptedLocked opt l ls node =
     (let ls1 = ls\<lparr>ls_node := node\<rparr>; pool = nodePool node
      in if sharesPool (ls_pools ls1) [pool] then ls1
         else if limitOf l pool > 0 \<and> optOn (o_StrictNodeLimit opt) \<and> usedLocked opt l pool \<ge> limitOf l pool
           then ls1\<lparr>ls_overflow := True\<rparr>
         else ls1\<lparr>ls_pools := ls_pools ls1 @ [pool]\<rparr>)"

definition rehomed :: "Lease \<Rightarrow> string list \<Rightarrow> string \<Rightarrow> Lease" where
  "rehomed ls pools node =
     (let ls1 = ls\<lparr>ls_pools := poolsWithNode pools node, ls_node := node\<rparr>
      in if node = [] then ls1\<lparr>ls_overflow := False, ls_node_unknown := False\<rparr> else ls1)"

definition rehomeLocked :: "Options \<Rightarrow> Ledger \<Rightarrow> string \<Rightarrow> Lease \<Rightarrow> string list \<Rightarrow> string \<Rightarrow> Ledger" where
  "rehomeLocked opt l h ls pools node =
     dispatchLocked opt (signalChangedLocked (updateLease h (rehomed ls pools node) l))"

definition Rehome :: "Options \<Rightarrow> Ledger \<Rightarrow> string \<Rightarrow> string list \<Rightarrow> string \<Rightarrow> Ledger \<times> bool" where
  "Rehome opt l holder pools node =
     (case mapGet (l_leases l) holder of None \<Rightarrow> (l, False)
      | Some ls \<Rightarrow> (rehomeLocked opt l holder ls pools node, True))"

text \<open>When the lease is placed while it is already in the map, the count of the node pool is taken
  with the node name already written, as in the code.\<close>

definition refreshAdoptedLocked :: "Options \<Rightarrow> Ledger \<Rightarrow> string \<Rightarrow> Lease \<Rightarrow> Request \<Rightarrow> string \<Rightarrow> Ledger" where
  "refreshAdoptedLocked opt l h ls req sessionID =
     (let ls1 = (if sessionID \<noteq> [] then ls\<lparr>ls_session := sessionID\<rparr> else ls);
          l1 = updateLease h ls1 l
      in if rq_node req = [] \<and> rq_choices req = [] \<and> \<not> rq_node_unknown req
            \<and> \<not> samePoolSet (nonNodePools (ls_pools ls1)) (nonNodePools (rq_pools req))
           then rehomeLocked opt l1 h ls1 (rq_pools req) []
         else if ls_node ls1 = [] \<and> rq_node req \<noteq> []
           then (let ls2 = ls1\<lparr>ls_node_unknown := False, ls_node := rq_node req\<rparr>;
                     l2 = updateLease h ls2 l1
                 in updateLease h (placeAdoptedLocked opt l2 ls2 (rq_node req)) l2)
         else if ls_node ls1 = [] \<and> rq_node_unknown req
           then updateLease h (ls1\<lparr>ls_node_unknown := True\<rparr>) l1
         else l1)"

definition adoptedLease :: "Options \<Rightarrow> Ledger \<Rightarrow> Request \<Rightarrow> string \<Rightarrow> time \<Rightarrow> Lease" where
  "adoptedLease opt l req sessionID wall =
     (let ls = \<lparr>ls_holder = rq_holder req, ls_prd = rq_prd req, ls_pools = rq_pools req, ls_node = [],
                ls_model = rq_model req, ls_acquired = wall, ls_session = sessionID,
                ls_node_unknown = rq_node_unknown req \<and> rq_node req = [], ls_overflow = False\<rparr>
      in if rq_node req \<noteq> [] then placeAdoptedLocked opt l ls (rq_node req) else ls)"

definition recordAdopted :: "Options \<Rightarrow> Ledger \<Rightarrow> Request \<Rightarrow> string \<Rightarrow> time \<Rightarrow> Ledger" where
  "recordAdopted opt l req sessionID wall =
     (let ls = adoptedLease opt l req sessionID wall;
          l1 = recordRequestsLocked
                 (l\<lparr>l_leases := mapSet (l_leases l) (rq_holder req) ls,
                    l_lastGrant := mapSet (l_lastGrant l) (rq_prd req) wall\<rparr>)
                 (ls_pools ls) (o_now opt)
      in if rq_node req \<noteq> [] \<and> rq_model req \<noteq> []
         then l1\<lparr>l_lastModel := mapSet (l_lastModel l1) (rq_node req) (rq_model req)\<rparr> else l1)"

definition Adopt :: "Options \<Rightarrow> Ledger \<Rightarrow> Request \<Rightarrow> string \<Rightarrow> string list \<Rightarrow> time \<Rightarrow> Ledger" where
  "Adopt opt l req sessionID successors wall =
     (case mapGet (l_leases l) (rq_holder req) of
        Some ls \<Rightarrow> refreshAdoptedLocked opt l (rq_holder req) ls req sessionID
      | None \<Rightarrow>
          if list_ex (mapHas (l_leases l)) successors then l
          else case (if sessionID \<noteq> [] then find (\<lambda>e. ls_session (snd e) = sessionID) (l_leases l) else None) of
            Some (h, ls) \<Rightarrow> refreshAdoptedLocked opt l h ls req sessionID
          | None \<Rightarrow> recordAdopted opt l req sessionID wall)"

section \<open>Binding, releasing, handing off, reaping\<close>

definition Bind :: "Ledger \<Rightarrow> string \<Rightarrow> string \<Rightarrow> Ledger" where
  "Bind l holder sessionID =
     (case mapGet (l_leases l) holder of None \<Rightarrow> l
      | Some ls \<Rightarrow> updateLease holder (ls\<lparr>ls_session := sessionID\<rparr>) l)"

definition Release :: "Options \<Rightarrow> Ledger \<Rightarrow> string \<Rightarrow> Ledger" where
  "Release opt l holder =
     (if mapHas (l_leases l) holder
      then dispatchLocked opt (signalChangedLocked (l\<lparr>l_leases := mapDelete (l_leases l) holder\<rparr>)) else l)"

definition Held :: "Ledger \<Rightarrow> string \<Rightarrow> bool" where
  "Held l holder = mapHas (l_leases l) holder"

definition LeaseOf :: "Ledger \<Rightarrow> string \<Rightarrow> Lease option" where
  "LeaseOf l holder = mapGet (l_leases l) holder"

definition Handoff :: "Ledger \<Rightarrow> string \<Rightarrow> string \<Rightarrow> Ledger \<times> bool" where
  "Handoff l src dst =
     (if src = [] \<or> dst = [] \<or> src = dst then (l, False)
      else case mapGet (l_leases l) src of
        None \<Rightarrow> (l, False)
      | Some ls \<Rightarrow> if mapHas (l_leases l) dst then (l, False)
          else (l\<lparr>l_leases := mapSet (mapDelete (l_leases l) src) dst (ls\<lparr>ls_holder := dst\<rparr>)\<rparr>, True))"

definition reapCandidates :: "Ledger \<Rightarrow> Lease list" where
  "reapCandidates l = map snd (l_leases l)"

fun reapLoop :: "(string, Lease) gomap \<Rightarrow> Lease list \<Rightarrow> (string, Lease) gomap \<times> string list" where
  "reapLoop m [] = (m, [])"
| "reapLoop m (d # ds) =
     (case mapGet m (ls_holder d) of
        Some cur \<Rightarrow> if ls_acquired cur = ls_acquired d
          then (let (m', out) = reapLoop (mapDelete m (ls_holder d)) ds in (m', ls_holder d # out))
          else reapLoop m ds
      | None \<Rightarrow> reapLoop m ds)"

definition reapFinish :: "Options \<Rightarrow> Ledger \<Rightarrow> Lease list \<Rightarrow> Ledger \<times> string list" where
  "reapFinish opt l dead =
     (if dead = [] then (l, [])
      else let (m, out) = reapLoop (l_leases l) dead; l1 = l\<lparr>l_leases := m\<rparr>
           in (if out \<noteq> [] then dispatchLocked opt (signalChangedLocked l1) else l1, sort out))"

text \<open>\<open>Reap\<close> when nothing runs between its two pieces.\<close>

definition Reap :: "Options \<Rightarrow> Ledger \<Rightarrow> (Lease \<Rightarrow> bool) \<Rightarrow> Ledger \<times> string list" where
  "Reap opt l live = reapFinish opt l (filter (\<lambda>ls. \<not> live ls) (reapCandidates l))"

definition Leases :: "Ledger \<Rightarrow> Lease list" where
  "Leases l = List.map_filter (mapGet (l_leases l)) (sort (mapKeys (l_leases l)))"

end
