(* ===== verification/Capacity_System.thy ===== *)
theory Capacity_System
  imports Capacity_Ops
begin

text \<open>
  The ledger as a state machine: every operation of the package as one step, the states reachable
  from \<open>New\<close>, and the representation invariant over all of them. The locale \<open>capacity_change\<close> is the
  contract of the operations that announce a change and then run a pass; each of them is an
  interpretation, so what a pass promises after a change is proved once.
\<close>

section \<open>Announced changes\<close>

locale capacity_change =
  fixes change :: "Options \<Rightarrow> Ledger \<Rightarrow> Ledger"
  assumes change_ok: "ledger_ok l \<Longrightarrow> ledger_ok (change opt l)"
    and change_queue: "map w_seq (l_waiters (change opt l)) = map w_seq (l_waiters l)"
    and change_grants: "l_grants (change opt l) = l_grants l"
    and change_seq: "l_seq (change opt l) = l_seq l"
    and change_signal: "l_changed (change opt l) = Suc (l_changed l)"
begin

lemma after_ok: "ledger_ok l \<Longrightarrow> ledger_ok (dispatchLocked opt (change opt l))"
  by (intro dispatch_ok_served change_ok)

lemma after_signal: "ledger_ok l \<Longrightarrow> Changed (dispatchLocked opt (change opt l)) = Suc (Changed l)"
  using dispatch_ok_served(2) [OF change_ok] change_signal by (simp add: served_def Changed_def)

text \<open>Everybody who was queued is granted now, or still queued with a fresh reason.\<close>

lemma after_settled:
  assumes ok: "ledger_ok l" and w: "w \<in> set (l_waiters l)"
  shows "granted (dispatchLocked opt (change opt l)) (w_seq w)
    \<or> (\<exists>x\<in>set (l_waiters (dispatchLocked opt (change opt l))). w_seq x = w_seq w \<and> w_reason x \<noteq> [])"
proof -
  let ?d = "dispatchLocked opt (change opt l)"
  have "w_seq w \<in> set (map w_seq (l_waiters (change opt l)))" unfolding change_queue using w by simp
  then have "w_seq w \<in> set (map w_seq (l_waiters ?d)) \<or> w_seq w \<in> set (l_grants ?d)"
    by (rule served_queued [OF dispatch_ok_served(2) [OF change_ok [OF ok]]])
  then show ?thesis
    using dispatch_reasons [OF change_ok [OF ok]] by (auto simp: granted_def)
qed

end

lemma ok_signal: "ledger_ok l \<Longrightarrow> ledger_ok (signalChangedLocked l)"
  by (simp add: ledger_ok_def leases_ok_def queue_ok_def limits_ok_def rate_wf_def)

lemma ok_leases:
  assumes "ledger_ok l" and "leases_ok (l\<lparr>l_leases := m\<rparr>)"
  shows "ledger_ok (l\<lparr>l_leases := m\<rparr>)"
  using assms by (simp add: ledger_ok_def leases_ok_def queue_ok_def limits_ok_def rate_wf_def)

lemma ok_delete: "ledger_ok l \<Longrightarrow> ledger_ok (l\<lparr>l_leases := mapDelete (l_leases l) h\<rparr>)"
  by (rule ok_leases) (auto simp: ledger_ok_def leases_ok_def)

lemma ok_updateLease: "ledger_ok l \<Longrightarrow> ls_holder ls = h \<Longrightarrow> ledger_ok (updateLease h ls l)"
  unfolding updateLease_def by (rule ok_leases) (auto simp: ledger_ok_def leases_ok_def)

lemma ok_rates:
  "ledger_ok l \<Longrightarrow> limits_ok (l\<lparr>l_rates := m\<rparr>) \<Longrightarrow> rate_wf (l\<lparr>l_rateUse := u\<rparr>) \<Longrightarrow>
   ledger_ok (l\<lparr>l_rates := m, l_rateUse := u\<rparr>)"
  by (simp add: ledger_ok_def leases_ok_def queue_ok_def limits_ok_def rate_wf_def)

lemma rate_wf_delete: "rate_wf l \<Longrightarrow> rate_wf (l\<lparr>l_rateUse := mapDelete (l_rateUse l) p\<rparr>)"
  by (simp add: rate_wf_def)

definition limitChange :: "string \<Rightarrow> int \<Rightarrow> Ledger \<Rightarrow> Ledger" where
  "limitChange pool limit l = signalChangedLocked
     (if limit \<le> 0 then l\<lparr>l_limits := mapDelete (l_limits l) pool\<rparr>
      else l\<lparr>l_limits := mapSet (l_limits l) pool limit\<rparr>)"

definition rateChange :: "string \<Rightarrow> RateCeiling \<Rightarrow> Ledger \<Rightarrow> Ledger" where
  "rateChange pool c l = signalChangedLocked
     (if \<not> active c then l\<lparr>l_rates := mapDelete (l_rates l) pool, l_rateUse := mapDelete (l_rateUse l) pool\<rparr>
      else l\<lparr>l_rates := mapSet (l_rates l) pool c\<rparr>)"

lemma ok_limitChange: "ledger_ok l \<Longrightarrow> ledger_ok (limitChange p n l)"
  unfolding limitChange_def
  by (rule ok_signal) (auto simp: ledger_ok_def leases_ok_def queue_ok_def limits_ok_def rate_wf_def)

lemma ok_rateChange:
  assumes ok: "ledger_ok l"
  shows "ledger_ok (rateChange p c l)"
proof (cases "active c")
  case True
  have "ledger_ok (l\<lparr>l_rates := mapSet (l_rates l) p c, l_rateUse := l_rateUse l\<rparr>)"
    using ok True by (intro ok_rates) (auto simp: ledger_ok_def limits_ok_def)
  with True show ?thesis by (simp add: rateChange_def ok_signal)
next
  case False
  have "ledger_ok (l\<lparr>l_rates := mapDelete (l_rates l) p, l_rateUse := mapDelete (l_rateUse l) p\<rparr>)"
    using ok rate_wf_delete by (intro ok_rates) (auto simp: ledger_ok_def limits_ok_def)
  with False show ?thesis by (simp add: rateChange_def ok_signal)
qed

interpretation set_limit: capacity_change "\<lambda>opt. limitChange pool limit" for pool limit
  by unfold_locales (simp_all add: ok_limitChange, simp_all add: limitChange_def)

interpretation set_rate: capacity_change "\<lambda>opt. rateChange pool c" for pool c
  by unfold_locales (simp_all add: ok_rateChange, simp_all add: rateChange_def)

interpretation replan: capacity_change "\<lambda>opt. signalChangedLocked"
  by unfold_locales (simp_all add: ok_signal)

interpretation adoption_done: capacity_change "\<lambda>opt l. signalChangedLocked (l\<lparr>l_adopting := False\<rparr>)"
  by unfold_locales
    (auto intro!: ok_signal simp: ledger_ok_def leases_ok_def queue_ok_def limits_ok_def rate_wf_def)

interpretation release: capacity_change "\<lambda>opt l. signalChangedLocked (l\<lparr>l_leases := mapDelete (l_leases l) h\<rparr>)" for h
  by unfold_locales (simp_all add: ok_signal ok_delete)

lemma setRequest_seqs: "map w_seq (l_waiters (setRequest s req l)) = map w_seq (l_waiters l)"
  by (simp add: setRequest_def comp_def)

lemma setRequest_fields [simp]:
  "l_limits (setRequest s r l) = l_limits l" "l_leases (setRequest s r l) = l_leases l"
  "l_seq (setRequest s r l) = l_seq l" "l_rates (setRequest s r l) = l_rates l"
  "l_rateUse (setRequest s r l) = l_rateUse l" "l_grants (setRequest s r l) = l_grants l"
  "l_changed (setRequest s r l) = l_changed l" "l_adopting (setRequest s r l) = l_adopting l"
  by (simp_all add: setRequest_def)

lemma ok_setRequest: "ledger_ok l \<Longrightarrow> ledger_ok (setRequest s req l)"
  unfolding ledger_ok_def queue_ok_def setRequest_seqs
  by (simp add: leases_ok_def limits_ok_def rate_wf_def)

interpretation retarget: capacity_change "\<lambda>opt l. signalChangedLocked (setRequest s req l)" for s req
  by unfold_locales (simp_all only: ok_signal ok_setRequest setRequest_seqs signalChanged_fields setRequest_fields)

lemma lease_holder: "ledger_ok l \<Longrightarrow> mapGet (l_leases l) h = Some ls \<Longrightarrow> ls_holder ls = h"
  by (simp add: ledger_ok_def leases_ok_def)

text \<open>A reap deletes some leases and changes none of the others.\<close>

definition reapable :: "(string, Lease) gomap \<Rightarrow> Lease list \<Rightarrow> string \<Rightarrow> bool" where
  "reapable m ds h \<longleftrightarrow> (\<exists>cur. mapGet m h = Some cur
     \<and> (\<exists>d\<in>set ds. ls_holder d = h \<and> ls_acquired d = ls_acquired cur))"

lemma reapLoop_spec:
  assumes "wf_map m" and "reapLoop m ds = (m', out)"
  shows "wf_map m' \<and> distinct out \<and> (\<forall>h. h \<in> set out \<longleftrightarrow> reapable m ds h)
    \<and> (\<forall>h. mapGet m' h = (if h \<in> set out then None else mapGet m h))"
  using assms
proof (induction ds arbitrary: m out)
  case Nil
  then show ?case by (simp add: reapable_def)
next
  case (Cons d ds)
  let ?h = "ls_holder d"
  show ?case
  proof (cases "reapable m [d] ?h")
    case True
    then obtain out1 where o: "reapLoop (mapDelete m ?h) ds = (m', out1)" "out = ?h # out1"
      using Cons.prems(2) by (auto simp: reapable_def split: prod.splits)
    note IH = Cons.IH [OF wf_mapDelete [OF Cons.prems(1)] o(1)]
    have "reapable m (d # ds) h \<longleftrightarrow> h = ?h \<or> reapable (mapDelete m ?h) ds h" for h
      using True by (auto simp: reapable_def)
    moreover have "\<not> reapable (mapDelete m ?h) ds ?h" by (simp add: reapable_def)
    ultimately show ?thesis using IH by (simp add: o(2))
  next
    case False
    then have "reapLoop m ds = (m', out)"
      using Cons.prems(2) by (auto simp: reapable_def split: option.splits if_splits)
    note IH = Cons.IH [OF Cons.prems(1) this]
    have "reapable m (d # ds) h \<longleftrightarrow> reapable m ds h" for h
      using False by (auto simp: reapable_def)
    then show ?thesis using IH by simp
  qed
qed

lemma ok_reapLoop: "ledger_ok l \<Longrightarrow> ledger_ok (l\<lparr>l_leases := fst (reapLoop (l_leases l) ds)\<rparr>)"
proof (rule ok_leases)
  assume "ledger_ok l"
  then show "leases_ok (l\<lparr>l_leases := fst (reapLoop (l_leases l) ds)\<rparr>)"
    using reapLoop_spec [of "l_leases l" ds]
    by (cases "reapLoop (l_leases l) ds") (auto simp: ledger_ok_def leases_ok_def split: if_splits)
qed

interpretation reap: capacity_change
  "\<lambda>opt l. signalChangedLocked (l\<lparr>l_leases := fst (reapLoop (l_leases l) ds)\<rparr>)" for ds
  by unfold_locales (simp_all add: ok_signal ok_reapLoop)

section \<open>Every operation keeps the invariant\<close>

lemma rateReset_quiet: "quiet opt l (fst (rateResetLocked l p (o_now opt)))"
  using rateBlock_quiet [of opt l p] by (simp add: rateReset_state rateBlock_state)

lemma rateWake_quiet: "quiet opt l (fst (rateWakeLocked l ps (o_now opt) best))"
proof (induction ps arbitrary: l best)
  case (Cons p ps)
  obtain l1 why where b: "rateBlockLocked l p (o_now opt) = (l1, why)" by fastforce
  obtain l2 r where r: "rateResetLocked l1 p (o_now opt) = (l2, r)" by fastforce
  have q: "quiet opt l l1" "quiet opt l1 l2"
    using rateBlock_quiet [of opt l p] rateReset_quiet [of opt l1 p] b r by simp_all
  have "quiet opt l (fst (rateWakeLocked l1 ps (o_now opt) x))"
    "quiet opt l (fst (rateWakeLocked l2 ps (o_now opt) x))" for x
    using quiet_trans [OF q(1) Cons.IH] quiet_trans [OF quiet_trans [OF q] Cons.IH] .
  then show ?case using b r by (simp add: Let_def split: option.split)
qed simp

lemma pollWait_quiet: "quiet opt l (fst (pollWaitLocked opt l w))"
  using rateWake_quiet [of opt l] by (simp add: pollWaitLocked_def Let_def split: prod.split) (metis fst_conv)

lemma SetLimit_change: "SetLimit opt l p n = dispatchLocked opt (limitChange p n l)"
  by (simp add: SetLimit_def limitChange_def)

lemma SetRate_change: "SetRate opt l p c = dispatchLocked opt (rateChange p c l)"
  by (simp add: SetRate_def rateChange_def)

lemma ok_RecordTokens: "ledger_ok l \<Longrightarrow> ledger_ok (RecordTokens opt l p n)"
proof -
  assume ok: "ledger_ok l"
  have "ledger_ok (l\<lparr>l_rates := l_rates l, l_rateUse := mapSet (l_rateUse l) p
      (mapGetOr [] (l_rateUse l) p @ [\<lparr>re_at = o_now opt, re_req = 0, re_tok = n\<rparr>])\<rparr>)" if "0 < n"
    using ok that by (intro ok_rates) (auto simp: ledger_ok_def limits_ok_def rate_wf_def)
  then show ?thesis using ok by (auto simp: RecordTokens_def intro: dispatch_ok_served(1))
qed

lemma ok_enqueue:
  assumes "ledger_ok l" and "w_seq w = Suc (l_seq l)"
  shows "ledger_ok (l\<lparr>l_seq := Suc (l_seq l), l_waiters := l_waiters l @ [w]\<rparr>)"
proof -
  have "s \<le> l_seq l" if "s \<in> set (map w_seq (l_waiters l) @ l_grants l)" for s
    using assms(1) that by (simp add: ledger_ok_def queue_ok_def)
  then have "Suc (l_seq l) \<notin> set (map w_seq (l_waiters l) @ l_grants l)" by force
  with assms have "queue_ok (l\<lparr>l_seq := Suc (l_seq l), l_waiters := l_waiters l @ [w]\<rparr>)"
    by (auto simp: ledger_ok_def queue_ok_def le_Suc_eq)
  with assms(1) show ?thesis by (simp add: ledger_ok_def leases_ok_def limits_ok_def rate_wf_def)
qed

lemma ok_dropWaiter: "ledger_ok l \<Longrightarrow> ledger_ok (l\<lparr>l_waiters := dropWaiter s (l_waiters l)\<rparr>)"
proof -
  assume ok: "ledger_ok l"
  let ?l = "l\<lparr>l_waiters := dropWaiter s (l_waiters l)\<rparr>"
  have "queue_ok ?l"
    using ok dropWaiter_seqs [of s "l_waiters l"] set_remove1_subset [of s "map w_seq (l_waiters l)"]
    unfolding queue_ok_def ledger_ok_def by (auto simp: distinct_remove1 simp del: set_map)
  with ok show ?thesis by (simp add: ledger_ok_def leases_ok_def limits_ok_def rate_wf_def)
qed

lemma ok_remove: "ledger_ok l \<Longrightarrow> ledger_ok (remove opt l w)"
  unfolding remove_def Let_def
  using ok_dropWaiter [of l "w_seq w"] ok_signal [OF ok_delete [OF ok_dropWaiter [of l "w_seq w"]]]
  by (auto intro!: dispatch_ok_served(1))

lemma ok_acquireStart: "ledger_ok l \<Longrightarrow> ledger_ok (fst (acquireStart opt l req))"
  using dispatch_ok_served(1) [OF ok_enqueue] by (simp add: acquireStart_def Let_def)

lemma ok_acquireWake: "ledger_ok l \<Longrightarrow> ledger_ok (fst (acquireWake opt l w rep ev))"
proof (cases ev)
  case (EvTick c)
  assume "ledger_ok l"
  then have "ledger_ok (dispatchLocked opt l)" by (rule dispatch_ok_served)
  from ok_quiet [OF pollWait_quiet this, of opt "currentOf (dispatchLocked opt l) w"] show ?thesis
    using EvTick ok_remove [OF \<open>ledger_ok l\<close>]
    by (cases "pollWaitLocked opt (dispatchLocked opt l) (currentOf (dispatchLocked opt l) w)") (auto simp: Let_def)
qed (auto intro: ok_remove)

lemma ok_Retarget: "ledger_ok l \<Longrightarrow> ledger_ok (fst (Retarget opt l h req))"
  using retarget.after_ok by (simp add: Retarget_def Let_def split: option.split)

lemma rehomed_holder [simp]: "ls_holder (rehomed ls ps n) = ls_holder ls"
  by (simp add: rehomed_def Let_def)

lemma placeAdopted_fields [simp]: "ls_holder (placeAdoptedLocked opt l ls n) = ls_holder ls"
  "ls_session (placeAdoptedLocked opt l ls n) = ls_session ls" "ls_node (placeAdoptedLocked opt l ls n) = n"
  "ls_acquired (placeAdoptedLocked opt l ls n) = ls_acquired ls"
  by (simp_all add: placeAdoptedLocked_def Let_def)

lemma ok_rehome: "ledger_ok l \<Longrightarrow> ls_holder ls = h \<Longrightarrow> ledger_ok (rehomeLocked opt l h ls ps n)"
  unfolding rehomeLocked_def by (intro dispatch_ok_served ok_signal ok_updateLease) simp_all

lemma ok_Rehome: "ledger_ok l \<Longrightarrow> ledger_ok (fst (Rehome opt l h ps n))"
  using ok_rehome lease_holder by (simp add: Rehome_def split: option.split)

lemma ok_refreshAdopted: "ledger_ok l \<Longrightarrow> ls_holder ls = h \<Longrightarrow> ledger_ok (refreshAdoptedLocked opt l h ls req sid)"
  unfolding refreshAdoptedLocked_def Let_def
  by (auto intro!: ok_rehome ok_updateLease)

lemma ok_history [simp]: "ledger_ok (l\<lparr>l_lastGrant := g\<rparr>) = ledger_ok l" "ledger_ok (l\<lparr>l_lastModel := m\<rparr>) = ledger_ok l"
  by (simp_all add: ledger_ok_def leases_ok_def queue_ok_def limits_ok_def rate_wf_def)

lemma ok_recordAdopted: "ledger_ok l \<Longrightarrow> ledger_ok (recordAdopted opt l req sid wall)"
proof -
  assume ok: "ledger_ok l"
  let ?ls = "adoptedLease opt l req sid wall"
  let ?l1 = "l\<lparr>l_leases := mapSet (l_leases l) (rq_holder req) ?ls, l_lastGrant := mapSet (l_lastGrant l) (rq_prd req) wall\<rparr>"
  have "ls_holder ?ls = rq_holder req" by (simp add: adoptedLease_def Let_def)
  then have "ledger_ok (updateLease (rq_holder req) ?ls l)" using ok by (intro ok_updateLease)
  then have "ledger_ok ?l1" by (simp add: updateLease_def)
  then have "ledger_ok (recordRequestsLocked ?l1 (ls_pools ?ls) (o_now opt))"
    by (simp add: ledger_ok_def leases_ok_def queue_ok_def limits_ok_def rate_wf_record)
  then show ?thesis by (simp add: recordAdopted_def Let_def)
qed

lemma ok_Adopt: "ledger_ok l \<Longrightarrow> ledger_ok (Adopt opt l req sid succ wall)"
proof -
  assume ok: "ledger_ok l"
  have "ls_holder ls = h" if "find P (l_leases l) = Some (h, ls)" for P h ls
  proof -
    from that have "(h, ls) \<in> set (l_leases l)" by (metis find_Some_split in_set_conv_decomp)
    with ok show ?thesis by (auto simp: ledger_ok_def leases_ok_def wf_map_mem)
  qed
  with ok show ?thesis
    unfolding Adopt_def using lease_holder [OF ok]
    by (auto split: option.split intro!: ok_refreshAdopted ok_recordAdopted)
qed

lemma ok_Bind: "ledger_ok l \<Longrightarrow> ledger_ok (Bind l h sid)"
  by (auto simp: Bind_def lease_holder intro!: ok_updateLease split: option.split)

lemma ok_Handoff: "ledger_ok l \<Longrightarrow> ledger_ok (fst (Handoff l a b))"
  by (auto simp: Handoff_def ledger_ok_def leases_ok_def queue_ok_def limits_ok_def rate_wf_def
      split: option.split)

lemma ok_reapFinish: "ledger_ok l \<Longrightarrow> ledger_ok (fst (reapFinish opt l ds))"
  using reap.after_ok [of l opt ds] ok_reapLoop [of l ds]
  by (cases "reapLoop (l_leases l) ds") (auto simp: reapFinish_def Let_def)

lemma ok_BeginAdoption: "ledger_ok l \<Longrightarrow> ledger_ok (BeginAdoption opt l)"
  by (simp add: BeginAdoption_def ledger_ok_def leases_ok_def queue_ok_def limits_ok_def rate_wf_def)

lemma ok_New: "ledger_ok New"
  by (simp add: New_def ledger_ok_def leases_ok_def queue_ok_def limits_ok_def rate_wf_def mapGetOr_def)

section \<open>The state machine\<close>

text \<open>One step is one lock hold: an operation, or a piece of one.\<close>

datatype LedgerOp =
    OpSetLimit string int | OpSetRate string RateCeiling | OpRecordTokens string int
  | OpBeginAdoption | OpMarkAdoptionComplete | OpReplan | OpAcquire Request
  | OpWake waiter string WakeEvent | OpRetarget string Request
  | OpAdopt Request string "string list" time | OpRehome string "string list" string
  | OpBind string string | OpRelease string | OpHandoff string string | OpReap "Lease list"
  | OpWouldGrant Request

fun runOp :: "Options \<Rightarrow> LedgerOp \<Rightarrow> Ledger \<Rightarrow> Ledger" where
  "runOp opt (OpSetLimit p n) l = SetLimit opt l p n"
| "runOp opt (OpSetRate p c) l = SetRate opt l p c"
| "runOp opt (OpRecordTokens p n) l = RecordTokens opt l p n"
| "runOp opt OpBeginAdoption l = BeginAdoption opt l"
| "runOp opt OpMarkAdoptionComplete l = MarkAdoptionComplete opt l"
| "runOp opt OpReplan l = Replan opt l"
| "runOp opt (OpAcquire req) l = fst (acquireStart opt l req)"
| "runOp opt (OpWake w rep ev) l = fst (acquireWake opt l w rep ev)"
| "runOp opt (OpRetarget h req) l = fst (Retarget opt l h req)"
| "runOp opt (OpAdopt req sid succ wall) l = Adopt opt l req sid succ wall"
| "runOp opt (OpRehome h ps n) l = fst (Rehome opt l h ps n)"
| "runOp opt (OpBind h sid) l = Bind l h sid"
| "runOp opt (OpRelease h) l = Release opt l h"
| "runOp opt (OpHandoff a b) l = fst (Handoff l a b)"
| "runOp opt (OpReap dead) l = fst (reapFinish opt l dead)"
| "runOp opt (OpWouldGrant req) l = fst (WouldGrant opt l req)"

text \<open>The callbacks may answer differently at every step, so every step has its own options.\<close>

inductive reachable :: "Ledger \<Rightarrow> bool" where
  reach_New: "reachable New"
| reach_step: "reachable l \<Longrightarrow> reachable (runOp opt op l)"

lemma WouldGrant_quiet: "quiet opt l (fst (WouldGrant opt l req))"
  using resolve_quiet [of opt l "withoutStaleNode (applyRefresh (o_now opt) req)"]
  by (auto simp: WouldGrant_def split: prod.split)

lemma ok_runOp:
  assumes ok: "ledger_ok l"
  shows "ledger_ok (runOp opt op l)"
proof (cases op)
  case (OpRelease h)
  then show ?thesis using ok release.after_ok by (simp add: Release_def)
next
  case OpMarkAdoptionComplete
  then show ?thesis using ok adoption_done.after_ok by (simp add: MarkAdoptionComplete_def)
next
  case (OpWouldGrant req)
  then show ?thesis using ok ok_quiet [OF WouldGrant_quiet] by simp
qed (use ok in \<open>simp_all add: SetLimit_change set_limit.after_ok SetRate_change set_rate.after_ok ok_RecordTokens
    ok_BeginAdoption Replan_def replan.after_ok ok_acquireStart ok_acquireWake ok_Retarget ok_Adopt ok_Rehome
    ok_Bind ok_Handoff ok_reapFinish\<close>)

lemma reachable_ok: "reachable l \<Longrightarrow> ledger_ok l"
  by (induction rule: reachable.induct) (simp_all add: ok_New ok_runOp)

end
