(* ===== verification/Capacity_Contracts.thy ===== *)
theory Capacity_Contracts
  imports Capacity_System
begin

text \<open>
  The lemmas behind the properties of single ledger operations: what a pass does to the queue in
  order, what handing off, reaping, retargeting, adopting and releasing do to the counts.
\<close>

section \<open>The queue keeps its order\<close>

definition core :: "waiter \<Rightarrow> nat \<times> Request \<times> time" where
  "core w = (w_seq w, w_req w, w_since w)"

lemma core_setReason [simp]: "map core (l_waiters (setReason s why l)) = map core (l_waiters l)"
  by (simp add: setReason_def core_def comp_def)

lemma dropWaiter_core: "distinct (map w_seq ws) \<Longrightarrow>
    map core (dropWaiter s ws) = filter (\<lambda>c. fst c \<noteq> s) (map core ws)"
proof (induction ws)
  case (Cons w ws)
  then show ?case by (auto simp: core_def image_iff intro!: sym [OF filter_True])
qed simp

lemma pass_core:
  assumes "distinct (map w_seq (l_waiters l) @ l_grants l)"
    and "set (map w_seq ws) \<subseteq> set (map w_seq (l_waiters l))" and "distinct (map w_seq ws)"
  shows "map core (l_waiters (dispatchLoop opt l ws))
    = filter (\<lambda>c. fst c \<notin> set (l_grants (dispatchLoop opt l ws))) (map core (l_waiters l))"
proof -
  let ?I = "\<lambda>l'. distinct (map w_seq (l_waiters l'))
    \<and> map core (l_waiters l') = filter (\<lambda>c. fst c \<notin> set (l_grants l')) (map core (l_waiters l))"
  have "?I (dispatchLoop opt l ws)"
  proof (rule dispatchLoop_keeps)
    have "fst c \<notin> set (l_grants l)" if "c \<in> set (map core (l_waiters l))" for c
      using assms(1) that by (auto simp: core_def disjoint_iff)
    then show "?I l" using assms(1) by (simp add: filter_True)
  next
    fix w :: waiter and l' l1 and why :: string
    assume "?I l'" and q: "quiet opt l' l1"
    then show "?I (setReason (w_seq w) why l1)"
      unfolding core_setReason setReason_seqs setReason_fields quiet_fields [OF q] by blast
  next
    fix w :: waiter and l' l1 b
    assume I: "?I l'" and q: "quiet opt l' l1"
    let ?l2 = "setReason (w_seq w) [] l1"
    have l2: "map w_seq (l_waiters ?l2) = map w_seq (l_waiters l')" "map core (l_waiters ?l2) = map core (l_waiters l')"
      "l_grants ?l2 = l_grants l'"
      unfolding core_setReason setReason_seqs setReason_fields quiet_fields [OF q] by (rule refl)+
    then have "distinct (map w_seq (l_waiters ?l2))" using I by simp
    from dropWaiter_core [OF this, of "w_seq w"] show "?I (grantLocked ?l2 w b (o_now opt))"
      using I unfolding grant_fields dropWaiter_seqs l2
      by (auto simp: distinct_remove1 conj_commute intro!: filter_cong)
  qed
  then show ?thesis by blast
qed

lemma dispatch_core:
  assumes ok: "ledger_ok l"
  shows "map core (l_waiters (dispatchLocked opt l)) = filter (\<lambda>c. fst c \<notin> set (l_grants (dispatchLocked opt l)))
    (map (core \<circ> refreshWaiterLocked opt) (l_waiters l))"
proof -
  let ?s = "passStart opt l" and ?ws = "orderLocked opt (passStart opt l) (o_now opt)"
  have "set (map w_seq ?ws) \<subseteq> set (map w_seq (l_waiters ?s))" unfolding set_map pass_order(1) [OF ok] ..
  moreover have "distinct (map w_seq (l_waiters ?s) @ l_grants ?s)"
    using passStart_ok(1) [OF ok] by (simp add: ledger_ok_def queue_ok_def)
  ultimately have "map core (l_waiters (dispatchLoop opt ?s ?ws))
      = filter (\<lambda>c. fst c \<notin> set (l_grants (dispatchLoop opt ?s ?ws))) (map core (l_waiters ?s))"
    by (intro pass_core pass_order(2) [OF ok])
  moreover have "dispatchLocked opt l = dispatchLoop opt ?s ?ws"
    using ok by (simp add: dispatch_loop ledger_ok_def leases_ok_def)
  ultimately show ?thesis by (simp add: passStart_def)
qed

text \<open>New holders come from the queue.\<close>

lemma dispatch_new_holder:
  assumes ok: "ledger_ok l" and h: "mapHas (l_leases (dispatchLocked opt l)) h"
  shows "mapHas (l_leases l) h \<or> (\<exists>w\<in>set (l_waiters l). rq_holder (w_req w) = h)"
proof -
  let ?s = "passStart opt l" and ?ws = "orderLocked opt (passStart opt l) (o_now opt)"
  let ?I = "\<lambda>l'. \<forall>k. mapHas (l_leases l') k \<longrightarrow> mapHas (l_leases ?s) k \<or> (\<exists>w\<in>set ?ws. rq_holder (w_req w) = k)"
  have "?I (dispatchLoop opt ?s ?ws)"
  proof (rule dispatchLoop_keeps)
    fix w :: waiter and l' l1 b
    assume "w \<in> set ?ws" "?I l'" and q: "quiet opt l' l1" and "resolved opt l' (w_req w) = Some b"
    then show "?I (grantLocked (setReason (w_seq w) [] l1) w b (o_now opt))"
      using resolved_holder by (auto simp: quiet_fields [OF q])
  qed (auto simp: quiet_fields)
  moreover have "dispatchLocked opt l = dispatchLoop opt ?s ?ws"
    using ok by (simp add: dispatch_loop ledger_ok_def leases_ok_def)
  ultimately have "mapHas (l_leases ?s) h \<or> (\<exists>w\<in>set ?ws. rq_holder (w_req w) = h)" using h by simp
  moreover have "mapHas (l_leases ?s) h \<Longrightarrow> mapHas (l_leases l) h"
    using promotes_has [OF promote_promotes [of l opt]] ok
    by (simp add: passStart_def ledger_ok_def leases_ok_def)
  moreover have "rq_holder (w_req w) = h \<Longrightarrow> w \<in> set ?ws \<Longrightarrow> \<exists>w\<in>set (l_waiters l). rq_holder (w_req w) = h" for w
    using pass_order(1) [OF ok] by (auto simp: passStart_def)
  ultimately show ?thesis by blast
qed

text \<open>And nobody loses a lease to a pass.\<close>

lemma dispatch_keeps_holder:
  assumes ok: "ledger_ok l" and h: "mapHas (l_leases l) h"
  shows "mapHas (l_leases (dispatchLocked opt l)) h"
proof -
  let ?s = "passStart opt l" and ?ws = "orderLocked opt (passStart opt l) (o_now opt)"
  have "mapHas (l_leases (dispatchLoop opt ?s ?ws)) h"
  proof (rule dispatchLoop_keeps)
    show "mapHas (l_leases ?s) h"
      using promotes_has [OF promote_promotes [of l opt]] ok h
      by (simp add: passStart_def ledger_ok_def leases_ok_def)
  qed (simp_all add: quiet_fields)
  then show ?thesis using ok by (simp add: dispatch_loop ledger_ok_def leases_ok_def)
qed

section \<open>Nothing is granted while the adoption hold stands\<close>

lemma hold_pass:
  assumes "adoptionHold opt l"
  shows "adoptionHold opt (dispatchLoop opt l ws) \<and> l_leases (dispatchLoop opt l ws) = l_leases l
    \<and> l_grants (dispatchLoop opt l ws) = l_grants l"
proof (rule dispatchLoop_keeps)
  fix w :: waiter and l' l1 b
  assume "adoptionHold opt l' \<and> l_leases l' = l_leases l \<and> l_grants l' = l_grants l"
    and "resolved opt l' (w_req w) = Some b"
  then have False by (simp add: resolved_def)
  then show "adoptionHold opt (grantLocked (setReason (w_seq w) [] l1) w b (o_now opt))
    \<and> l_leases (grantLocked (setReason (w_seq w) [] l1) w b (o_now opt)) = l_leases l
    \<and> l_grants (grantLocked (setReason (w_seq w) [] l1) w b (o_now opt)) = l_grants l" ..
next
  fix w :: waiter and l' l1 why
  assume "adoptionHold opt l' \<and> l_leases l' = l_leases l \<and> l_grants l' = l_grants l" and q: "quiet opt l' l1"
  moreover from q have "adoptionHold opt l1 = adoptionHold opt l'" by (simp add: quiet_def)
  ultimately show "adoptionHold opt (setReason (w_seq w) why l1) \<and> l_leases (setReason (w_seq w) why l1) = l_leases l
    \<and> l_grants (setReason (w_seq w) why l1) = l_grants l"
    by (simp add: quiet_fields [OF q] adoptionHold_def)
qed (use assms in simp)

lemma dispatch_hold:
  assumes "wf_map (l_leases l)" and "adoptionHold opt l"
  shows "l_grants (dispatchLocked opt l) = l_grants l"
    and "promotes opt l (l\<lparr>l_leases := l_leases (dispatchLocked opt l)\<rparr>)"
proof -
  let ?p = "promoteOverflowLocked opt l"
  have p: "promotes opt l ?p" by (rule promote_promotes [OF assms(1)])
  have "adoptionHold opt (passStart opt l)"
    using assms(2) by (simp add: passStart_def adoptionHold_def promotes_fields [OF p])
  note hp = hold_pass [OF this, of "orderLocked opt (passStart opt l) (o_now opt)"]
  then show "l_grants (dispatchLocked opt l) = l_grants l"
    by (simp add: dispatch_loop [OF assms(1)] passStart_def promotes_fields [OF p])
  have "l\<lparr>l_leases := l_leases (dispatchLocked opt l)\<rparr> = ?p"
    using hp p unfolding promotes_def by (simp add: dispatch_loop [OF assms(1)] passStart_def)
  with p show "promotes opt l (l\<lparr>l_leases := l_leases (dispatchLocked opt l)\<rparr>)" by simp
qed

section \<open>Counts\<close>

lemma used_by_counts:
  assumes "l_limits l' = l_limits l"
    and "\<And>P. (\<And>ls a. P (ls\<lparr>ls_holder := a\<rparr>) = P ls) \<Longrightarrow> (\<And>ls a. P (ls\<lparr>ls_session := a\<rparr>) = P ls) \<Longrightarrow>
           countLeases l' P = countLeases l P"
  shows "usedLocked opt l' p = usedLocked opt l p"
proof -
  have cnt: "countLeases l' (namesPool p) = countLeases l (namesPool p)"
    "countLeases l' (\<lambda>ls. ls_overflow ls \<and> ls_node ls = n) = countLeases l (\<lambda>ls. ls_overflow ls \<and> ls_node ls = n)"
    "countLeases l' (freeHold l p) = countLeases l (freeHold l p)"
    "countLeases l' (nodeHold l p n) = countLeases l (nodeHold l p n)" for n
    by (rule assms(2), simp_all add: namesPool_def freeHold_def nodeHold_def)+
  note cong = holds_cong [OF assms(1)]
  have "heldByNodeLocked l' p \<le> heldByNodeLocked l p" "heldByNodeLocked l p \<le> heldByNodeLocked l' p"
    using assms(1) by (intro heldByNode_mono; simp add: cnt cong)+
  then show ?thesis by (simp add: usedLocked_def heldLocked_count overflow_count cnt)
qed

lemma used_Handoff:
  assumes wf: "wf_map (l_leases l)"
  shows "usedLocked opt (fst (Handoff l a b)) p = usedLocked opt l p"
proof (rule used_by_counts)
  fix P :: "Lease \<Rightarrow> bool"
  assume P: "\<And>ls x. P (ls\<lparr>ls_holder := x\<rparr>) = P ls"
  have "countLeases (l\<lparr>l_leases := mapSet (mapDelete (l_leases l) a) b (ls\<lparr>ls_holder := b\<rparr>)\<rparr>) P = countLeases l P"
    if "mapGet (l_leases l) a = Some ls" "\<not> mapHas (l_leases l) b" for ls
    using count_store [of "l\<lparr>l_leases := mapDelete (l_leases l) a\<rparr>" b "ls\<lparr>ls_holder := b\<rparr>" P]
      count_remove [OF wf, of a P] wf that by (simp add: mapHas_def extra_def P)
  then show "countLeases (fst (Handoff l a b)) P = countLeases l P"
    by (simp add: Handoff_def split: option.split)
qed (simp add: Handoff_def split: option.split)

lemma used_Bind:
  assumes wf: "wf_map (l_leases l)"
  shows "usedLocked opt (Bind l h sid) p = usedLocked opt l p"
proof (rule used_by_counts)
  fix P :: "Lease \<Rightarrow> bool"
  assume P: "\<And>ls x. P (ls\<lparr>ls_session := x\<rparr>) = P ls"
  show "countLeases (Bind l h sid) P = countLeases l P"
    using count_store [OF wf] by (auto simp: Bind_def updateLease_def extra_def P split: option.split)
qed (simp add: Bind_def updateLease_def split: option.split)

lemma used_delete:
  assumes "wf_map (l_leases l)"
  shows "usedLocked opt (l\<lparr>l_leases := mapDelete (l_leases l) h\<rparr>) p \<le> usedLocked opt l p"
  using used_add_plain [OF adds_remove [OF assms], where opt = opt and pool = p] by (simp add: extra_def)

section \<open>Runs that only admit, release and move work\<close>

text \<open>The operations other than a limit change, an adoption and a re-homing, the three that record
  work which already runs or redefine the limits themselves.\<close>

fun admissionOp :: "LedgerOp \<Rightarrow> bool" where
  "admissionOp (OpSetLimit p n) = False"
| "admissionOp (OpAdopt req sid succ wall) = False"
| "admissionOp (OpRehome h ps n) = False"
| "admissionOp _ = True"

fun runSteps :: "(Options \<times> LedgerOp) list \<Rightarrow> Ledger \<Rightarrow> Ledger" where
  "runSteps [] l = l"
| "runSteps ((opt, op) # steps) l = runSteps steps (runOp opt op l)"

lemma within_le: "limitOf l' = limitOf l \<Longrightarrow> (\<And>p. usedLocked opt l' p \<le> usedLocked opt l p) \<Longrightarrow> within opt l l'"
  by (simp add: within_def le_max_iff_disj)

lemma within_then_dispatch:
  "within opt l l' \<Longrightarrow> wf_map (l_leases l') \<Longrightarrow> within opt l (dispatchLocked opt l')"
  by (rule within_trans [OF _ dispatch_within])

lemma within_quiet: "quiet opt l l' \<Longrightarrow> within o' l l'"
  by (rule within_leases) (simp_all add: quiet_fields)

lemma within_remove:
  assumes ok: "ledger_ok l"
  shows "within opt l (remove opt l w)"
proof -
  let ?l1 = "l\<lparr>l_waiters := dropWaiter (w_seq w) (l_waiters l)\<rparr>"
  let ?l2 = "signalChangedLocked (?l1\<lparr>l_leases := mapDelete (l_leases ?l1) (rq_holder (w_req w))\<rparr>)"
  have wf: "wf_map (l_leases ?l1)" using ok by (simp add: ledger_ok_def leases_ok_def)
  have "within opt l ?l1" by (rule within_leases) simp_all
  moreover have "usedLocked opt ?l2 p \<le> usedLocked opt ?l1 p" for p
    using used_delete [OF wf, of opt "rq_holder (w_req w)" p]
      usage_cong(5) [of ?l2 "?l1\<lparr>l_leases := mapDelete (l_leases ?l1) (rq_holder (w_req w))\<rparr>" opt] by simp
  then have "within opt ?l1 ?l2" by (rule within_le [rotated]) (simp add: limitOf_def fun_eq_iff)
  ultimately show ?thesis
    using wf within_trans unfolding remove_def Let_def
    by (auto intro!: within_then_dispatch)
qed

lemma within_Release:
  assumes ok: "ledger_ok l"
  shows "within opt l (Release opt l h)"
proof -
  let ?l2 = "signalChangedLocked (l\<lparr>l_leases := mapDelete (l_leases l) h\<rparr>)"
  have wf: "wf_map (l_leases l)" using ok by (simp add: ledger_ok_def leases_ok_def)
  have "usedLocked opt ?l2 p \<le> usedLocked opt l p" for p
    using used_delete [OF wf, of opt h p] usage_cong(5) [of ?l2 "l\<lparr>l_leases := mapDelete (l_leases l) h\<rparr>" opt] by simp
  then have "within opt l ?l2" by (rule within_le [rotated]) (simp add: limitOf_def fun_eq_iff)
  with wf show ?thesis by (simp add: Release_def within_then_dispatch)
qed

lemma used_reapLoop: "wf_map m \<Longrightarrow> usedLocked opt (l\<lparr>l_leases := fst (reapLoop m ds)\<rparr>) p \<le> usedLocked opt (l\<lparr>l_leases := m\<rparr>) p"
proof (induction ds arbitrary: m)
  case (Cons d ds)
  have "usedLocked opt (l\<lparr>l_leases := mapDelete m (ls_holder d)\<rparr>) p \<le> usedLocked opt (l\<lparr>l_leases := m\<rparr>) p"
    using used_delete [of "l\<lparr>l_leases := m\<rparr>" opt "ls_holder d" p] Cons.prems by simp
  then show ?case
    using Cons.IH [of m] Cons.IH [of "mapDelete m (ls_holder d)"] Cons.prems
    by (auto split: option.split prod.split)
qed simp

lemma within_reapFinish:
  assumes ok: "ledger_ok l"
  shows "within opt l (fst (reapFinish opt l ds))"
proof -
  let ?l1 = "l\<lparr>l_leases := fst (reapLoop (l_leases l) ds)\<rparr>"
  have wf: "wf_map (l_leases l)" using ok by (simp add: ledger_ok_def leases_ok_def)
  have wf1: "wf_map (l_leases ?l1)" using ok_reapLoop [OF ok, of ds] by (simp add: ledger_ok_def leases_ok_def)
  have w1: "within opt l ?l1"
    using used_reapLoop [OF wf, where opt = opt and l = l and ds = ds] by (intro within_le) simp_all
  have "within opt l (signalChangedLocked ?l1)"
    by (rule within_trans [OF w1 within_leases]) simp_all
  then have "within opt l (dispatchLocked opt (signalChangedLocked ?l1))"
    using wf1 by (intro within_then_dispatch) simp_all
  with w1 show ?thesis
    by (cases "reapLoop (l_leases l) ds") (simp add: reapFinish_def Let_def)
qed

lemma within_same_then_dispatch:
  assumes "ledger_ok l" and "l_leases l' = l_leases l" and "l_limits l' = l_limits l"
  shows "within opt l (dispatchLocked opt l')"
  using assms by (intro within_then_dispatch within_leases) (simp_all add: ledger_ok_def leases_ok_def)

lemma within_acquireWake:
  assumes ok: "ledger_ok l"
  shows "within opt l (fst (acquireWake opt l w rep ev))"
proof (cases ev)
  case (EvTick c)
  let ?l1 = "dispatchLocked opt l"
  have "within opt l ?l1" using ok by (rule within_same_then_dispatch) simp_all
  then have "within opt l (fst (pollWaitLocked opt ?l1 (currentOf ?l1 w)))"
    by (rule within_trans) (rule within_quiet [OF pollWait_quiet])
  then show ?thesis using EvTick within_remove [OF ok]
    by (cases "pollWaitLocked opt ?l1 (currentOf ?l1 w)") (auto simp: Let_def)
qed (simp_all add: within_remove [OF ok])

lemma within_simple:
  assumes ok: "ledger_ok l"
  shows "within opt l (SetRate opt l p c)" "within opt l (RecordTokens opt l p n)"
    "within opt l (MarkAdoptionComplete opt l)" "within opt l (Replan opt l)"
    "within opt l (fst (acquireStart opt l req))" "within opt l (fst (Retarget opt l h req))"
    "within opt l (BeginAdoption opt l)" "within opt l (Bind l h sid)" "within opt l (fst (Handoff l a b))"
    "within opt l (fst (WouldGrant opt l req))"
proof -
  note d = within_same_then_dispatch [OF ok, of _ opt]
  show "within opt l (SetRate opt l p c)" "within opt l (RecordTokens opt l p n)"
    "within opt l (MarkAdoptionComplete opt l)" "within opt l (Replan opt l)"
    "within opt l (fst (acquireStart opt l req))" "within opt l (fst (Retarget opt l h req))"
    by (simp_all add: SetRate_def RecordTokens_def MarkAdoptionComplete_def Replan_def acquireStart_def
        Retarget_def Let_def d split: option.split)
  show "within opt l (BeginAdoption opt l)" by (rule within_leases) (simp_all add: BeginAdoption_def)
  have wf: "wf_map (l_leases l)" using ok by (simp add: ledger_ok_def leases_ok_def)
  show "within opt l (Bind l h sid)"
    by (rule within_le) (simp_all add: used_Bind [OF wf], simp add: Bind_def updateLease_def split: option.split)
  show "within opt l (fst (Handoff l a b))"
    by (rule within_le) (simp_all add: used_Handoff [OF wf], simp add: Handoff_def split: option.split)
  show "within opt l (fst (WouldGrant opt l req))" by (rule within_quiet [OF WouldGrant_quiet])
qed

lemma within_runOp: "ledger_ok l \<Longrightarrow> admissionOp op \<Longrightarrow> within opt l (runOp opt op l)"
  by (cases op) (simp_all add: within_simple within_acquireWake within_Release within_reapFinish)

text \<open>The usage figure depends on two of the options only.\<close>

lemma used_options: "o_External opt = o_External opt' \<Longrightarrow> o_CountPoolByNode opt = o_CountPoolByNode opt' \<Longrightarrow>
    usedLocked opt = usedLocked opt'"
  by (simp add: fun_eq_iff usedLocked_def externalOf_def)

section \<open>Lookups that survive a pass\<close>

lemma find_map_core: "find (\<lambda>c. P (fst (snd c))) (map core ws) = map_option core (find (\<lambda>x. P (w_req x)) ws)"
  by (induction ws) (auto simp: core_def)

lemma find_filter_kept: "(\<And>x. x \<in> set xs \<Longrightarrow> P x \<Longrightarrow> Q x) \<Longrightarrow> find P (filter Q xs) = find P xs"
  by (induction xs) auto

lemma find_updated:
  assumes "find P ws = Some w" and "distinct (map w_seq ws)" and "P (g w)"
  shows "find P (map (\<lambda>x. if w_seq x = w_seq w then g x else x) ws) = Some (g w)"
  using assms
proof (induction ws)
  case (Cons x xs)
  show ?case
  proof (cases "P x")
    case True
    with Cons.prems show ?thesis by simp
  next
    case False
    then have f: "find P xs = Some w" using Cons.prems by simp
    then have "w \<in> set xs" by (metis find_Some_split in_set_conv_decomp)
    then have "w_seq x \<noteq> w_seq w" using Cons.prems(2) by auto
    with False Cons.IH [OF f] Cons.prems show ?thesis by simp
  qed
qed simp

lemma refresh_same_holder_find:
  "find (\<lambda>x. rq_holder (w_req x) = h) (map (refreshWaiterLocked opt) ws)
     = map_option (refreshWaiterLocked opt) (find (\<lambda>x. rq_holder (w_req x) = h) ws)"
  by (induction ws) auto

text \<open>After a pass that did not admit the holder, the first queued request of the holder is the one
  that was first before, refreshed.\<close>

lemma dispatch_find:
  assumes ok: "ledger_ok l" and f: "find (\<lambda>x. rq_holder (w_req x) = h) (l_waiters l) = Some w"
    and n: "\<not> mapHas (l_leases (dispatchLocked opt l)) h"
  obtains x where "find (\<lambda>x. rq_holder (w_req x) = h) (l_waiters (dispatchLocked opt l)) = Some x"
    and "w_req x = w_req (refreshWaiterLocked opt w)" and "w_seq x = w_seq w"
proof -
  let ?d = "dispatchLocked opt l" and ?P = "\<lambda>c. rq_holder (fst (snd c)) = h"
  let ?cs = "map (core \<circ> refreshWaiterLocked opt) (l_waiters l)"
  have "fst c \<notin> set (l_grants ?d)" if c: "c \<in> set ?cs" "?P c" for c
  proof
    assume g: "fst c \<in> set (l_grants ?d)"
    from c obtain v where "v \<in> set (l_waiters l)" "c = core (refreshWaiterLocked opt v)" by auto
    with g c(2) dispatch_leased [OF ok] n show False by (auto simp: core_def)
  qed
  then have "find ?P (map core (l_waiters ?d)) = find ?P ?cs"
    unfolding dispatch_core [OF ok] by (intro find_filter_kept) auto
  also have "\<dots> = map_option core (find (\<lambda>x. rq_holder (w_req x) = h) (map (refreshWaiterLocked opt) (l_waiters l)))"
    using find_map_core [of "\<lambda>r. rq_holder r = h" "map (refreshWaiterLocked opt) (l_waiters l)"] by (simp only: map_map)
  also have "\<dots> = Some (core (refreshWaiterLocked opt w))"
    by (simp add: refresh_same_holder_find f)
  finally have "map_option core (find (\<lambda>x. rq_holder (w_req x) = h) (l_waiters ?d))
      = Some (core (refreshWaiterLocked opt w))"
    using find_map_core [of "\<lambda>r. rq_holder r = h" "l_waiters ?d"] by simp
  then show ?thesis using that by (auto simp: core_def)
qed

lemma samePlacement_refl: "samePlacement r r"
  by (simp add: samePlacement_def slicesEqualStrings_def list_all2_refl)

section \<open>Adoption onto a node\<close>

lemma placeAdopted_held:
  assumes wf: "wf_map (l_leases l)" and strict: "optOn (o_StrictNodeLimit opt)"
    and ext: "0 \<le> externalOf opt (nodePool m)" and lim: "0 < limitOf l (nodePool m)"
    and names: "namesPool (nodePool m) ls \<Longrightarrow> extra (mapGet (l_leases l) h) (namesPool (nodePool m)) = 1"
  shows "heldLocked (updateLease h (placeAdoptedLocked opt l ls n) l) (nodePool m)
    \<le> max (heldLocked l (nodePool m)) (limitOf l (nodePool m))"
proof -
  let ?p = "nodePool m" and ?ls = "placeAdoptedLocked opt l ls n"
  have cnt: "heldLocked (updateLease h ?ls l) ?p
      = heldLocked l ?p - extra (mapGet (l_leases l) h) (namesPool ?p) + extra (Some ?ls) (namesPool ?p)"
    using count_store [OF wf] by (simp add: updateLease_def heldLocked_count)
  have "namesPool ?p ?ls \<Longrightarrow> namesPool ?p ls \<or> m = n \<and> usedLocked opt l ?p < limitOf l ?p"
    using strict lim by (auto simp: placeAdoptedLocked_def Let_def namesPool_def split: if_splits)
  then consider "namesPool ?p ls" | "\<not> namesPool ?p ?ls" | "m = n" "usedLocked opt l ?p < limitOf l ?p"
    by blast
  then show ?thesis
  proof cases
    case 1
    then show ?thesis using cnt names extra_bounds(2) [of "Some ?ls" "namesPool ?p"] by simp
  next
    case 2
    then show ?thesis using cnt extra_bounds(1) [of "mapGet (l_leases l) h" "namesPool ?p"]
      by (simp add: extra_def)
  next
    case 3
    have "heldLocked l ?p \<le> usedLocked opt l ?p" using ext by (simp add: usedLocked_def)
    then show ?thesis using 3 cnt extra_bounds(2) [of "Some ?ls" "namesPool ?p"]
        extra_bounds(1) [of "mapGet (l_leases l) h" "namesPool ?p"] by linarith
  qed
qed

text \<open>Writing a field other than the pools changes no pool's holders.\<close>

lemma held_updateLease:
  assumes wf: "wf_map (l_leases l)" and g: "mapGet (l_leases l) h = Some ls" and "ls_pools ls' = ls_pools ls"
  shows "heldLocked (updateLease h ls' l) p = heldLocked l p"
  using count_store [OF wf, of h ls' "namesPool p"] g assms(3)
  by (simp add: updateLease_def heldLocked_count extra_def namesPool_def)

lemma updateLease_fields [simp]: "limitOf (updateLease h ls l) = limitOf l"
  "wf_map (l_leases l) \<Longrightarrow> wf_map (l_leases (updateLease h ls l))"
  "mapGet (l_leases (updateLease h ls l)) k = (if k = h then Some ls else mapGet (l_leases l) k)"
  by (simp_all add: updateLease_def)

lemma refreshAdopted_held:
  assumes wf: "wf_map (l_leases l)" and strict: "optOn (o_StrictNodeLimit opt)" and node: "rq_node req \<noteq> []"
    and ext: "0 \<le> externalOf opt (nodePool m)" and lim: "0 < limitOf l (nodePool m)"
    and g: "mapGet (l_leases l) h = Some ls"
  shows "heldLocked (refreshAdoptedLocked opt l h ls req sid) (nodePool m)
    \<le> max (heldLocked l (nodePool m)) (limitOf l (nodePool m))"
proof -
  let ?ls1 = "if sid \<noteq> [] then ls\<lparr>ls_session := sid\<rparr> else ls"
  let ?l1 = "updateLease h ?ls1 l"
  let ?ls2 = "?ls1\<lparr>ls_node_unknown := False, ls_node := rq_node req\<rparr>"
  let ?l2 = "updateLease h ?ls2 ?l1"
  have h1: "heldLocked ?l1 p = heldLocked l p" for p by (rule held_updateLease [OF wf g]) simp
  have h2: "heldLocked ?l2 p = heldLocked ?l1 p" for p
    by (rule held_updateLease [where ls = ?ls1]) (use wf in simp_all)
  have "heldLocked (updateLease h (placeAdoptedLocked opt ?l2 ?ls2 (rq_node req)) ?l2) (nodePool m)
      \<le> max (heldLocked ?l2 (nodePool m)) (limitOf ?l2 (nodePool m))"
    by (rule placeAdopted_held) (use wf strict ext lim in \<open>simp_all add: extra_def\<close>)
  moreover have "heldLocked (updateLease h (?ls1\<lparr>ls_node_unknown := True\<rparr>) ?l1) (nodePool m) = heldLocked ?l1 (nodePool m)"
    by (rule held_updateLease [where ls = ?ls1]) (use wf in simp_all)
  ultimately show ?thesis
    using node h1 h2 by (simp add: refreshAdoptedLocked_def Let_def)
qed

section \<open>A pass with one request\<close>

lemma WouldGrant_resolved: "snd (WouldGrant opt l req)
    \<longleftrightarrow> resolved opt l (withoutStaleNode (applyRefresh (o_now opt) req)) \<noteq> None"
  using resolve_reason [of opt l "withoutStaleNode (applyRefresh (o_now opt) req)"]
  by (cases "resolveLocked opt l (withoutStaleNode (applyRefresh (o_now opt) req))")
    (auto simp: WouldGrant_def)

lemma next_seq_fresh: "ledger_ok l \<Longrightarrow> Suc (l_seq l) \<notin> set (l_grants l)"
proof
  assume "ledger_ok l" "Suc (l_seq l) \<in> set (l_grants l)"
  then have "Suc (l_seq l) \<le> l_seq l" by (simp add: ledger_ok_def queue_ok_def)
  then show False by simp
qed

lemma promote_none: "\<forall>e\<in>set (l_leases l). \<not> ls_overflow (snd e) \<Longrightarrow> promoteOverflowLocked opt l = l"
  by (simp add: promoteOverflowLocked_def filter_False)

lemma dispatch_single:
  assumes wf: "wf_map (l_leases l)" and w: "l_waiters l = [w]" and no: "\<forall>e\<in>set (l_leases l). \<not> ls_overflow (snd e)"
  shows "case resolved opt l (w_req (refreshWaiterLocked opt w)) of
      None \<Rightarrow> l_grants (dispatchLocked opt l) = l_grants l \<and> l_leases (dispatchLocked opt l) = l_leases l
    | Some b \<Rightarrow> w_seq w \<in> set (l_grants (dispatchLocked opt l)) \<and> mapHas (l_leases (dispatchLocked opt l)) (rq_holder (w_req w))"
proof -
  let ?w = "refreshWaiterLocked opt w" and ?s = "l\<lparr>l_waiters := [refreshWaiterLocked opt w]\<rparr>"
  have d: "dispatchLocked opt l = dispatchLoop opt ?s [?w]"
    unfolding dispatch_loop [OF wf] by (simp add: passStart_def promote_none [OF no] w orderLocked_def orderListLocked_def)
  have same: "resolved opt ?s (w_req ?w) = resolved opt l (w_req ?w)"
    by (rule resolved_same) (simp add: same_admission_def)
  obtain l1 b why where r: "resolveLocked opt ?s (w_req ?w) = (l1, b, why)" by (metis prod_cases3)
  have q: "quiet opt ?s l1" using resolve_quiet [of opt ?s "w_req ?w"] r by simp
  have v: "case resolved opt l (w_req ?w) of None \<Rightarrow> why \<noteq> [] | Some b' \<Rightarrow> why = [] \<and> b = b'"
    using resolve_view [of opt ?s "w_req ?w"] r same by simp
  show ?thesis
  proof (cases "resolved opt l (w_req ?w)")
    case None
    with v r show ?thesis unfolding d by (simp add: quiet_fields [OF q])
  next
    case (Some b')
    with v have "why = []" "b = b'" by simp_all
    with r resolved_holder [OF Some] Some show ?thesis unfolding d by simp
  qed
qed

end
