(* ===== verification/Capacity_Decision.thy ===== *)
theory Capacity_Decision
  imports Capacity_Contracts
begin

text \<open>
  The read side of \<open>internal/capacity\<close>: the admission query \<open>Check\<close> with its alternates (decision.go),
  \<open>Snapshot\<close> and the text renderings (ledger.go). A Go set that is only iterated or tested is a list
  of its elements; the order the code iterates it in is any order of the list, and both results that
  come from such a loop are sorted before they are returned.
\<close>

section \<open>Check\<close>

datatype DecisionKind = DecisionAdmit | DecisionQueued | DecisionAlternateAvailable

record Alternate =
  al_pool :: string
  al_node :: string
  al_model :: string

record Decision =
  d_kind :: DecisionKind
  d_position :: nat
  d_reason :: string
  d_resets :: "time option"
  d_alternates :: "Alternate list"
  d_node :: string

definition poolsOnly :: "string list \<Rightarrow> bool \<Rightarrow> Request" where
  "poolsOnly pools interactive = zeroRequest\<lparr>rq_pools := pools, rq_interactive := interactive\<rparr>"

definition knownPools :: "Ledger \<Rightarrow> Request \<Rightarrow> string list" where
  "knownPools l req = remdups
     (mapKeys (l_limits l) @ mapKeys (l_rates l)
      @ concat (map (\<lambda>e. ls_pools (snd e) @ (if ls_node (snd e) \<noteq> [] then [nodePool (ls_node (snd e))] else [])) (l_leases l))
      @ concat (map (\<lambda>w. allPools (w_req w)) (l_waiters l))
      @ map nodePool (mapKeys (l_lastModel l))
      @ (if rq_node req \<noteq> [] then [nodePool (rq_node req)] else [])
      @ map nodePool (candidateNames req))"

definition ownPools :: "Request \<Rightarrow> string list" where
  "ownPools req = allPools req @ map nodePool (rq_exclude req)"

definition alternateFor :: "Ledger \<Rightarrow> Request \<Rightarrow> string \<Rightarrow> Alternate" where
  "alternateFor l req c =
     (case cutPrefix c ''node:'' of
        Some n \<Rightarrow> \<lparr>al_pool = c, al_node = n,
                   al_model = (let m = mapGetOr [] (l_lastModel l) n in if m \<noteq> [] then m else rq_model req)\<rparr>
      | None \<Rightarrow> \<lparr>al_pool = c, al_node = [], al_model = rq_model req\<rparr>)"

text \<open>The inner loop over the known pools for one blocked pool of the given kind; \<open>seen\<close> are the pools
  taken so far.\<close>

fun alternatesOfKind :: "Options \<Rightarrow> Ledger \<Rightarrow> Request \<Rightarrow> string \<Rightarrow> string list \<Rightarrow> string list
    \<Rightarrow> Ledger \<times> string list" where
  "alternatesOfKind opt l req kind [] seen = (l, seen)"
| "alternatesOfKind opt l req kind (c # cs) seen =
     (if c \<in> set (ownPools req) \<or> c \<in> set seen \<or> \<not> hasPrefix c (kind @ '':'')
        then alternatesOfKind opt l req kind cs seen
      else let (l1, why) = blockReasonLocked opt l (poolsOnly [c] (rq_interactive req))
           in if why \<noteq> [] then alternatesOfKind opt l1 req kind cs seen
              else alternatesOfKind opt l1 req kind cs (c # seen))"

fun alternatesLoop :: "Options \<Rightarrow> Ledger \<Rightarrow> Request \<Rightarrow> string list \<Rightarrow> string list \<Rightarrow> string list
    \<Rightarrow> Ledger \<times> string list" where
  "alternatesLoop opt l req known [] seen = (l, seen)"
| "alternatesLoop opt l req known (b # bs) seen =
     (case cutChar (CHR '':'') b of
        None \<Rightarrow> alternatesLoop opt l req known bs seen
      | Some (kind, _) \<Rightarrow>
          (let (l1, seen1) = alternatesOfKind opt l req kind known seen
           in alternatesLoop opt l1 req known bs seen1))"

definition alternatesLocked :: "Options \<Rightarrow> Ledger \<Rightarrow> Request \<Rightarrow> string list \<Rightarrow> Ledger \<times> Alternate list" where
  "alternatesLocked opt l req blocked =
     (let (l1, seen) = alternatesLoop opt l req (knownPools l req) blocked []
      in (l1, sortSliceStable (\<lambda>a b. al_pool a < al_pool b) (map (alternateFor l1 req) (rev seen))))"

fun countCompeting :: "Options \<Rightarrow> Ledger \<Rightarrow> Request \<Rightarrow> waiter list \<Rightarrow> Ledger \<times> nat" where
  "countCompeting opt l req [] = (l, 0)"
| "countCompeting opt l req (w # ws) =
     (if \<not> sharesPool (allPools (w_req w)) (allPools req) then countCompeting opt l req ws
      else let (l1, _, why) = resolveLocked opt l (w_req w);
               (l2, n) = countCompeting opt l1 req ws
           in (l2, if why = [] then Suc n else n))"

fun blockedPools :: "Options \<Rightarrow> Ledger \<Rightarrow> bool \<Rightarrow> string list \<Rightarrow> time option
    \<Rightarrow> Ledger \<times> string list \<times> time option" where
  "blockedPools opt l ia [] resets = (l, [], resets)"
| "blockedPools opt l ia (p # ps) resets =
     (let (l1, why) = blockReasonLocked opt l (poolsOnly [p] ia);
          (l2, rate) = rateBlockLocked l1 p (o_now opt);
          (l3, resets') = (if rate \<noteq> [] then
             (let (l3, at) = rateResetLocked l2 p (o_now opt)
              in (l3, case at of None \<Rightarrow> resets
                      | Some t \<Rightarrow> (case resets of None \<Rightarrow> Some t | Some r \<Rightarrow> if t > r then Some t else Some r)))
             else (l2, resets));
          (l4, bs, r) = blockedPools opt l3 ia ps resets'
      in (l4, if why \<noteq> [] then p # bs else bs, r))"

text \<open>The position of the hypothetical waiter and who is ahead of it.\<close>

fun aheadOf :: "nat \<Rightarrow> waiter list \<Rightarrow> waiter list" where
  "aheadOf s [] = []"
| "aheadOf s (w # ws) = (if w_seq w = s then [] else w # aheadOf s ws)"

definition hypotheticalWaiter :: "Options \<Rightarrow> Ledger \<Rightarrow> Request \<Rightarrow> waiter" where
  "hypotheticalWaiter opt l req = \<lparr>w_req = req, w_seq = Suc (l_seq l), w_since = o_now opt, w_reason = []\<rparr>"

definition Check :: "Options \<Rightarrow> Ledger \<Rightarrow> Request \<Rightarrow> Ledger \<times> Decision" where
  "Check opt l req =
     (let now = o_now opt;
          (l0, bound, reason) = resolveLocked opt l req;
          hyp = hypotheticalWaiter opt l0 req;
          ahead = aheadOf (w_seq hyp) (orderListLocked opt l0 (l_waiters l0 @ [hyp]) now);
          pos = Suc (length ahead);
          (l1, competing) = countCompeting opt l0 req ahead
      in if reason = [] \<and> competing = 0 then
           (l1, \<lparr>d_kind = DecisionAdmit, d_position = 0, d_reason = [], d_resets = None, d_alternates = [],
                 d_node = (if multiNode req then rq_node bound else [])\<rparr>)
         else
           (let why = (if reason = [] then ''behind '' @ itoa (int competing) @ '' earlier request(s) for the same pools''
                       else reason);
                (l2, blocked, resets) = blockedPools opt l1 (rq_interactive req) (allPools req) None;
                (l3, alts) = (if reason \<noteq> [] then alternatesLocked opt l2 req blocked else (l2, []))
            in (l3, \<lparr>d_kind = (if alts \<noteq> [] then DecisionAlternateAvailable else DecisionQueued), d_position = pos,
                     d_reason = why, d_resets = resets, d_alternates = alts, d_node = []\<rparr>)))"

definition FormatDecision :: "Decision \<Rightarrow> string" where
  "FormatDecision d =
     (if d_kind d = DecisionAdmit then ''would be admitted now''
      else ''would be queued at position '' @ itoa (int (d_position d))
        @ (if d_reason d \<noteq> [] then '': '' @ d_reason d else [])
        @ (case d_resets d of None \<Rightarrow> [] | Some t \<Rightarrow> ''; resets at '' @ rfc3339 t)
        @ (if d_alternates d \<noteq> [] then CHR 0x0A # ''alternate available: '' @ joinStr '', ''
             (map (\<lambda>a. al_pool a @ (if al_model a \<noteq> [] then '' ('' @ al_model a @ '')'' else [])) (d_alternates d))
           else []))"

section \<open>Snapshot\<close>

record WaiterView =
  wv_holder :: string
  wv_prd :: string
  wv_pools :: "string list"
  wv_priority :: int
  wv_since :: time
  wv_reason :: string
  wv_nodes :: "string list"
  wv_hold_name :: string
  wv_read_reason :: string

record PoolStatus =
  ps_name :: string
  ps_limit :: int
  ps_external :: int
  ps_held :: int
  ps_drained :: bool
  ps_drain_until :: time
  ps_overflow :: nat
  ps_holders :: "string list"
  ps_hold_names :: "string list"
  ps_hold_nodes :: "string list"
  ps_rate_requests :: int
  ps_rate_tokens :: int
  ps_rate_window_seconds :: int
  ps_requests_in_window :: int
  ps_tokens_in_window :: int
  ps_rate_resets_at :: time

record Status =
  st_pools :: "PoolStatus list"
  st_leases :: "Lease list"
  st_waiting :: "WaiterView list"

definition nodeOfHolder :: "Ledger \<Rightarrow> string \<Rightarrow> string" where
  "nodeOfHolder l h = (case mapGet (l_leases l) h of None \<Rightarrow> [] | Some ls \<Rightarrow> ls_node ls)"

definition holderNodesLocked :: "Ledger \<Rightarrow> string list \<Rightarrow> string list" where
  "holderNodesLocked l holders =
     (let nodes = map (nodeOfHolder l) holders in if list_all (\<lambda>n. n = []) nodes then [] else nodes)"

definition shownHoldNodes :: "PoolStatus \<Rightarrow> string list" where
  "shownHoldNodes p =
     (if length (ps_hold_nodes p) \<noteq> length (ps_holders p) then []
      else if length (remdups (filter (\<lambda>n. n \<noteq> []) (ps_hold_nodes p))) < 2 then []
      else ps_hold_nodes p)"

definition poolHolders :: "Ledger \<Rightarrow> string \<Rightarrow> string list" where
  "poolHolders l p =
     (let hs = splitChar (CHR '','') (trimPrefix (holdersLocked l p) ''other sessions'')
      in if hd hs = [] then [] else hs)"

definition poolStatus :: "Options \<Rightarrow> Ledger \<Rightarrow> string \<Rightarrow> Ledger \<times> PoolStatus" where
  "poolStatus opt l p =
     (let node = cutPrefix p ''node:'';
          ns = (case (node, o_NodeState opt) of (Some n, Some f) \<Rightarrow> if ns_drained (f n) then Some (f n) else None | _ \<Rightarrow> None);
          ps = \<lparr>ps_name = p, ps_limit = limitOf l p, ps_external = externalOf opt p, ps_held = heldLocked l p,
                ps_drained = (ns \<noteq> None), ps_drain_until = (case ns of None \<Rightarrow> zeroTime | Some s \<Rightarrow> ns_drain_until s),
                ps_overflow = (case node of None \<Rightarrow> 0 | Some n \<Rightarrow> length (overflowLocked l n)),
                ps_holders = poolHolders l p, ps_hold_names = [],
                ps_hold_nodes = holderNodesLocked l (poolHolders l p),
                ps_rate_requests = 0, ps_rate_tokens = 0, ps_rate_window_seconds = 0,
                ps_requests_in_window = 0, ps_tokens_in_window = 0, ps_rate_resets_at = zeroTime\<rparr>
      in case mapGet (l_rates l) p of
           None \<Rightarrow> (l, ps)
         | Some c \<Rightarrow>
             (let (l1, _, reqs, toks) = rateWindowLocked l p (o_now opt);
                  (l2, at) = rateResetLocked l1 p (o_now opt)
              in (l2, ps\<lparr>ps_rate_requests := rc_requests c, ps_rate_tokens := rc_tokens c,
                         ps_rate_window_seconds := truncDiv (rc_window c) second,
                         ps_requests_in_window := reqs, ps_tokens_in_window := toks,
                         ps_rate_resets_at := (case at of None \<Rightarrow> zeroTime | Some t \<Rightarrow> t)\<rparr>)))"

fun poolStatuses :: "Options \<Rightarrow> Ledger \<Rightarrow> string list \<Rightarrow> Ledger \<times> PoolStatus list" where
  "poolStatuses opt l [] = (l, [])"
| "poolStatuses opt l (p # ps) =
     (let (l1, s) = poolStatus opt l p; (l2, ss) = poolStatuses opt l1 ps in (l2, s # ss))"

text \<open>The loop over the waiters: each is refreshed and its reason computed again.\<close>

definition waiterPools :: "Ledger \<Rightarrow> Request \<Rightarrow> string list" where
  "waiterPools l r = allPools r @
     (if rq_role r = RoleVerifier then
        map VerifierPool (filter (\<lambda>n. n \<noteq> [] \<and> limitOf l (VerifierPool n) > 0)
          (candidateNames r @ (if rq_node r \<noteq> [] then [rq_node r] else [])))
      else [])"

fun snapshotWaiters :: "Options \<Rightarrow> Ledger \<Rightarrow> waiter list \<Rightarrow> Ledger \<times> waiter list" where
  "snapshotWaiters opt l [] = (l, [])"
| "snapshotWaiters opt l (w # ws) =
     (let w1 = refreshWaiterLocked opt w;
          (l1, _, why) = resolveLocked opt l (w_req w1);
          (l2, ws') = snapshotWaiters opt l1 ws
      in (l2, w1\<lparr>w_reason := why\<rparr> # ws'))"

definition viewOf :: "waiter \<Rightarrow> WaiterView" where
  "viewOf w = \<lparr>wv_holder = rq_holder (w_req w), wv_prd = rq_prd (w_req w), wv_pools = rq_pools (w_req w),
     wv_priority = rq_priority (w_req w), wv_since = w_since w, wv_reason = w_reason w,
     wv_nodes = candidateNames (w_req w), wv_hold_name = [], wv_read_reason = []\<rparr>"

definition Snapshot :: "Options \<Rightarrow> Ledger \<Rightarrow> Ledger \<times> Status" where
  "Snapshot opt l =
     (let (l0, ws) = snapshotWaiters opt l (l_waiters l);
          l1 = l0\<lparr>l_waiters := ws\<rparr>;
          names = remdups (mapKeys (l_limits l1) @ mapKeys (l_rates l1)
                    @ concat (map (\<lambda>e. ls_pools (snd e)) (l_leases l1))
                    @ concat (map (\<lambda>w. waiterPools l1 (w_req w)) ws));
          (l2, pools) = poolStatuses opt l1 names
      in (l2, \<lparr>st_pools = sortSliceStable (\<lambda>a b. ps_name a < ps_name b) pools,
               st_leases = sortSliceStable (\<lambda>a b. ls_holder a < ls_holder b) (map snd (l_leases l1)),
               st_waiting = sortSliceStable (\<lambda>a b. wv_since a < wv_since b) (map viewOf ws)\<rparr>))"

section \<open>Text\<close>

definition formatHolders :: "PoolStatus \<Rightarrow> string" where
  "formatHolders p =
     (let holders = (if length (ps_hold_names p) = length (ps_holders p) then ps_hold_names p else ps_holders p);
          nodes = shownHoldNodes p;
          parts = (if nodes = [] then holders
                   else map (\<lambda>(h, n). if n \<noteq> [] then h @ '' on '' @ n else h) (zip holders nodes))
      in joinStr '','' parts)"

definition formatPool :: "PoolStatus \<Rightarrow> string" where
  "formatPool p =
     ps_name p @ '': '' @ itoa (ps_held p + ps_external p) @ ''/'' @ (if ps_limit p > 0 then itoa (ps_limit p) else ''unlimited'')
     @ (if ps_drained p then (if ps_drain_until p = zeroTime then '' drained'' else '' drained until '' @ rfc3339 (ps_drain_until p)) else [])
     @ (if ps_drained p \<and> ps_held p > 0 then '' ('' @ itoa (ps_held p) @ '' task'' @ (if ps_held p = 1 then [] else ''s'') @ '' still finishing)'' else [])
     @ (if ps_external p > 0 then '' ('' @ itoa (ps_external p) @ '' external)'' else [])
     @ (if ps_overflow p > 0 then '' (+'' @ itoa (int (ps_overflow p)) @ '' adopted over the limit)'' else [])
     @ (if ps_holders p \<noteq> [] then '' held by '' @ formatHolders p else [])
     @ (if ps_rate_requests p > 0 \<or> ps_rate_tokens p > 0 then
          '' rate''
          @ (if ps_rate_requests p > 0 then '' req '' @ itoa (ps_requests_in_window p) @ ''/'' @ itoa (ps_rate_requests p) else [])
          @ (if ps_rate_tokens p > 0 then '' tok '' @ itoa (ps_tokens_in_window p) @ ''/'' @ itoa (ps_rate_tokens p) else [])
          @ '' per '' @ durationString (ps_rate_window_seconds p * second)
        else [])
     @ [CHR 0x0A]"

definition FormatPools :: "PoolStatus list \<Rightarrow> string" where
  "FormatPools pools = (if pools = [] then ''Pools: none configured'' @ [CHR 0x0A] else concat (map formatPool pools))"

definition formatWaiter :: "time \<Rightarrow> WaiterView \<Rightarrow> string" where
  "formatWaiter wall w =
     ''  '' @ (if wv_hold_name w \<noteq> [] then wv_hold_name w else wv_holder w) @ '' (PRD '' @ wv_prd w @ '') ''
     @ durationString (roundDuration (wall - wv_since w) second) @ '': ''
     @ (if wv_read_reason w \<noteq> [] then wv_read_reason w else wv_reason w) @ [CHR 0x0A]"

definition FormatText :: "time \<Rightarrow> Status \<Rightarrow> string" where
  "FormatText wall st =
     FormatPools (st_pools st)
     @ (let unknown = length (filter ls_node_unknown (st_leases st))
        in if unknown > 0 then ''Leases with unknown node: '' @ itoa (int unknown)
             @ '' (counted in host and llm pools, held on no node pool)'' @ [CHR 0x0A] else [])
     @ (if st_waiting st = [] then ''Waiting: none'' @ [CHR 0x0A]
        else ''Waiting ('' @ itoa (int (length (st_waiting st))) @ ''):'' @ [CHR 0x0A]
             @ concat (map (formatWaiter wall) (st_waiting st)))"

section \<open>The queries change nothing admission reads\<close>

text \<open>Every loop of the queries is a sequence of checks, so each is quiet; a check made later in the
  same query decides as it would have at its start.\<close>

lemma resolve_quiet_pair: "resolveLocked opt l req = (l1, b, why) \<Longrightarrow> quiet opt l l1"
  using resolve_quiet [of opt l req] by simp

lemma blockReason_quiet_pair: "blockReasonLocked opt l req = (l1, why) \<Longrightarrow> quiet opt l l1"
  using blockReason_quiet [of opt l req] by simp

lemma countCompeting_spec: "countCompeting opt l req ws = (l', n) \<Longrightarrow> quiet opt l l'
    \<and> n = length (filter (\<lambda>w. sharesPool (allPools (w_req w)) (allPools req) \<and> resolved opt l (w_req w) \<noteq> None) ws)"
proof (induction ws arbitrary: l l' n)
  case (Cons w ws)
  obtain l1 b why where r: "resolveLocked opt l (w_req w) = (l1, b, why)" by (metis prod_cases3)
  obtain l2 m where c: "countCompeting opt l1 req ws = (l2, m)" by fastforce
  have q: "quiet opt l l1" by (rule resolve_quiet_pair [OF r])
  have why: "why = [] \<longleftrightarrow> resolved opt l (w_req w) \<noteq> None" using resolve_reason [of opt l "w_req w"] r by simp
  show ?case
  proof (cases "sharesPool (allPools (w_req w)) (allPools req)")
    case True
    with Cons.prems r c why have "l' = l2" "n = (if resolved opt l (w_req w) \<noteq> None then Suc m else m)"
      by (auto split: if_splits)
    with True Cons.IH [OF c] quiet_trans [OF q] show ?thesis by (simp add: resolved_quiet [OF q])
  next
    case False
    with Cons show ?thesis by simp
  qed
qed simp

lemma blockedPools_quiet: "quiet opt l (fst (blockedPools opt l ia ps r))"
proof (induction ps arbitrary: l r)
  case (Cons p ps)
  obtain l1 why where b: "blockReasonLocked opt l (poolsOnly [p] ia) = (l1, why)" by fastforce
  obtain l2 rate where r2: "rateBlockLocked l1 p (o_now opt) = (l2, rate)" by fastforce
  obtain l3 at where r3: "rateResetLocked l2 p (o_now opt) = (l3, at)" by fastforce
  have q: "quiet opt l l2" "quiet opt l2 l3"
    using quiet_trans [OF blockReason_quiet_pair [OF b]] rateBlock_quiet [of opt l1 p] rateReset_quiet [of opt l2 p] r2 r3
    by simp_all
  have "quiet opt l (fst (blockedPools opt l2 ia ps x))" "quiet opt l (fst (blockedPools opt l3 ia ps x))" for x
    using quiet_trans [OF q(1) Cons.IH] quiet_trans [OF quiet_trans [OF q] Cons.IH] .
  then show ?case using b r2 r3 by (simp add: Let_def case_prod_beta)
qed simp

lemma alternatesOfKind_spec:
  "alternatesOfKind opt l req kind cs seen = (l', seen') \<Longrightarrow> quiet opt l l' \<and> set seen \<subseteq> set seen'
    \<and> (\<forall>c\<in>set seen' - set seen. c \<in> set cs \<and> c \<notin> set (ownPools req) \<and> hasPrefix c (kind @ '':'')
         \<and> fits opt l (poolsOnly [c] (rq_interactive req)))"
proof (induction cs arbitrary: l seen)
  case (Cons c cs)
  obtain l1 why where b: "blockReasonLocked opt l (poolsOnly [c] (rq_interactive req)) = (l1, why)" by fastforce
  have q: "quiet opt l l1" by (rule blockReason_quiet_pair [OF b])
  have why: "why = [] \<longleftrightarrow> fits opt l (poolsOnly [c] (rq_interactive req))"
    using blockReason_empty [of opt l "poolsOnly [c] (rq_interactive req)"] b by simp
  show ?case
  proof (cases "c \<in> set (ownPools req) \<or> c \<in> set seen \<or> \<not> hasPrefix c (kind @ '':'')")
    case True
    with Cons.prems have "alternatesOfKind opt l req kind cs seen = (l', seen')" by (auto split: if_splits)
    from Cons.IH [OF this] show ?thesis by auto
  next
    case False
    let ?seen1 = "if why = [] then c # seen else seen"
    let ?Q = "\<lambda>x. x \<notin> set (ownPools req) \<and> hasPrefix x (kind @ '':'') \<and> fits opt l (poolsOnly [x] (rq_interactive req))"
    have "alternatesOfKind opt l1 req kind cs ?seen1 = (l', seen')"
      using False Cons.prems b by (auto split: if_splits)
    note IH = Cons.IH [OF this, unfolded fits_quiet [OF q]]
    have "x \<in> set (c # cs) \<and> ?Q x" if x: "x \<in> set seen' - set seen" for x
    proof (cases "x \<in> set ?seen1")
      case True
      with x have "x = c" "why = []" by (auto split: if_splits)
      with False why show ?thesis by simp
    next
      case out: False
      with IH x have "x \<in> set cs \<and> ?Q x" by blast
      then show ?thesis by simp
    qed
    moreover have "quiet opt l l'" "set seen \<subseteq> set seen'"
      using IH quiet_trans [OF q] by (auto split: if_splits)
    ultimately show ?thesis by blast
  qed
qed simp

lemma alternatesLoop_spec:
  "alternatesLoop opt l req known bs seen = (l', seen') \<Longrightarrow> quiet opt l l' \<and> set seen \<subseteq> set seen'
    \<and> (\<forall>c\<in>set seen' - set seen. c \<in> set known \<and> c \<notin> set (ownPools req) \<and> fits opt l (poolsOnly [c] (rq_interactive req))
         \<and> (\<exists>b\<in>set bs. \<exists>kind rest. cutChar (CHR '':'') b = Some (kind, rest) \<and> hasPrefix c (kind @ '':'')))"
proof (induction bs arbitrary: l seen)
  case (Cons b bs)
  show ?case
  proof (cases "cutChar (CHR '':'') b")
    case None
    then show ?thesis using Cons by auto
  next
    case (Some kr)
    obtain kind rest where kr: "kr = (kind, rest)" by (cases kr)
    obtain l1 seen1 where a: "alternatesOfKind opt l req kind known seen = (l1, seen1)" by fastforce
    note K = alternatesOfKind_spec [OF a]
    have "alternatesLoop opt l1 req known bs seen1 = (l', seen')" using Cons.prems Some kr a by simp
    note L = Cons.IH [OF this]
    have "fits opt l1 r = fits opt l r" for r using K fits_quiet by blast
    with K L quiet_trans Some kr show ?thesis by (simp, blast)
  qed
qed simp

lemma alternates_quiet: "quiet opt l (fst (alternatesLocked opt l req bs))"
  using alternatesLoop_spec [of opt l req "knownPools l req" bs "[]"]
  by (cases "alternatesLoop opt l req (knownPools l req) bs []") (simp add: alternatesLocked_def)

section \<open>The position in the queue\<close>

lemma aheadOf_append: "s \<notin> w_seq ` set us \<Longrightarrow> w_seq w = s \<Longrightarrow> aheadOf s (us @ w # vs) = us"
  by (induction us) auto

lemma ahead_before:
  assumes d: "distinct (map w_seq (ws @ [hyp]))"
  shows "set (aheadOf (w_seq hyp) (orderListLocked opt l (ws @ [hyp]) now)) = {w\<in>set ws. orderLess opt l now w hyp}"
    and "length (aheadOf (w_seq hyp) (orderListLocked opt l (ws @ [hyp]) now))
      = length (filter (\<lambda>w. orderLess opt l now w hyp) ws)"
proof -
  let ?o = "orderListLocked opt l (ws @ [hyp]) now"
  have "hyp \<in> set ?o" by simp
  then obtain us vs where o: "?o = us @ hyp # vs" by (meson split_list)
  have "sorted_wrt (\<lambda>a b. \<not> orderLess opt l now b a) ?o"
    unfolding orderListLocked_def by (rule queue_order.sorted_sort)
  moreover have dist: "distinct (map w_seq ?o)" using d by (simp add: orderListLocked_def)
  ultimately have strict: "sorted_wrt (orderLess opt l now) (us @ hyp # vs)"
    using order_strict unfolding o by blast
  have perm: "mset (us @ vs) = mset ws"
  proof -
    have "mset ?o = mset (ws @ [hyp])" by (simp add: orderListLocked_def)
    then show ?thesis by (simp add: o)
  qed
  have ahead: "aheadOf (w_seq hyp) ?o = us" using dist unfolding o by (intro aheadOf_append) auto
  have us: "\<forall>w\<in>set us. orderLess opt l now w hyp" and vs: "\<forall>w\<in>set vs. \<not> orderLess opt l now w hyp"
    using strict queue_order.asym by (auto simp: sorted_wrt_append)
  have "filter_mset (\<lambda>w. orderLess opt l now w hyp) (mset (us @ vs)) = mset us"
    using us vs by (simp add: filter_mset_eq_conv mset_filter [symmetric] filter_id_conv del: mset_filter)
  then have m: "mset (filter (\<lambda>w. orderLess opt l now w hyp) ws) = mset us" unfolding perm by simp
  show "set (aheadOf (w_seq hyp) ?o) = {w\<in>set ws. orderLess opt l now w hyp}"
    using mset_eq_setD [OF m] by (auto simp: ahead)
  show "length (aheadOf (w_seq hyp) ?o) = length (filter (\<lambda>w. orderLess opt l now w hyp) ws)"
    using mset_eq_length [OF m] by (simp add: ahead)
qed

end
