(* ===== verification/Capacity_Properties.thy ===== *)
theory Capacity_Properties
  imports Capacity_Contracts
begin

text \<open>
  The properties of the capacity ledger's admission and leases, each with a run on a small ledger
  where its hypotheses hold.
\<close>

section \<open>A small ledger\<close>

text \<open>The default options at time 100, a request of one holder for one pool, and a ledger whose pool
  \<open>host\<close> has one slot, held by \<open>a\<close>, with \<open>b\<close> queued.\<close>

definition demoOpt :: Options where
  "demoOpt = newOptions (zeroOptions 100)"

definition demoReq :: "string \<Rightarrow> Request" where
  "demoReq h = zeroRequest\<lparr>rq_holder := h, rq_prd := h, rq_pools := [''host'']\<rparr>"

definition demoFull :: Ledger where
  "demoFull = runOp demoOpt (OpAcquire (demoReq ''b'')) (runOp demoOpt (OpAcquire (demoReq ''a''))
     (runOp demoOpt (OpSetLimit ''host'' 1) New))"

lemma demoFull_reachable: "reachable demoFull"
  unfolding demoFull_def by (intro reachable.intros)

lemma demoFull_eval: "l_limits demoFull = [(''host'', 1)]" "mapKeys (l_leases demoFull) = [''a'']"
  "map w_seq (l_waiters demoFull) = [2]" "l_grants demoFull = [1]" "Limit demoFull ''host'' = 1"
  "usedLocked demoOpt demoFull ''host'' = 1"
  by code_simp+

section \<open>Limits over whole runs\<close>



text \<open>C2. In every reachable ledger leases are filed under their holder, every queued request has its
  own number, no number is both queued and granted, no grant channel is closed twice, every stored
  limit is positive and every stored ceiling is active.\<close>

theorem reachable_wellformed:
  assumes "reachable l"
  shows "distinct (mapKeys (l_leases l)) \<and> (\<forall>h ls. LeaseOf l h = Some ls \<longrightarrow> ls_holder ls = h)
    \<and> distinct (map w_seq (l_waiters l) @ l_grants l)
    \<and> (\<forall>p v. mapGet (l_limits l) p = Some v \<longrightarrow> 0 < v) \<and> (\<forall>p c. mapGet (l_rates l) p = Some c \<longrightarrow> active c)"
  using reachable_ok [OF assms]
  by (simp add: ledger_ok_def leases_ok_def queue_ok_def limits_ok_def wf_map_def mapKeys_def LeaseOf_def)

lemma reachable_wellformed_witness:
  "distinct (mapKeys (l_leases demoFull)) \<and> distinct (map w_seq (l_waiters demoFull) @ l_grants demoFull)"
  using reachable_wellformed [OF demoFull_reachable] by blast

section \<open>A dispatch pass\<close>

text \<open>A dispatch pass fills no limited pool past its limit: a pool that was over keeps at most
  what it had.\<close>

theorem dispatch_never_overfills:
  assumes "reachable l" and "0 < Limit l p"
  shows "usedLocked opt (dispatchLocked opt l) p \<le> max (usedLocked opt l p) (Limit l p)"
  using dispatch_within [of l opt] reachable_ok [OF assms(1)] assms(2)
  by (simp add: within_def Limit_def ledger_ok_def leases_ok_def)

lemma dispatch_never_overfills_witness:
  "usedLocked demoOpt (dispatchLocked demoOpt demoFull) ''host'' \<le> 1"
  using dispatch_never_overfills [OF demoFull_reachable, of "''host''" demoOpt] demoFull_eval(5,6) by simp

text \<open>C3. No queued request is lost by a pass: each is granted, and then its holder holds a lease, or
  is still queued under the same number with a reason to wait.\<close>

theorem dispatch_settles_every_waiter:
  assumes "reachable l" and "w \<in> set (l_waiters l)"
  shows "(granted (dispatchLocked opt l) (w_seq w) \<and> Held (dispatchLocked opt l) (rq_holder (w_req w)))
    \<or> (\<exists>x\<in>set (l_waiters (dispatchLocked opt l)).
         w_seq x = w_seq w \<and> rq_holder (w_req x) = rq_holder (w_req w) \<and> w_reason x \<noteq> [])"
proof -
  have ok: "ledger_ok l" by (rule reachable_ok [OF assms(1)])
  consider "granted (dispatchLocked opt l) (w_seq w)"
    | x where "x \<in> set (l_waiters (dispatchLocked opt l))" "w_seq x = w_seq w"
    using served_queued [OF dispatch_ok_served(2) [OF ok], of "w_seq w" opt] assms(2) by (auto simp: granted_def)
  then show ?thesis
  proof cases
    case 1
    then show ?thesis using dispatch_leased [OF ok assms(2)] by (simp add: granted_def Held_def)
  next
    case 2
    obtain v where v: "v \<in> set (l_waiters l)" "w_seq x = w_seq v" "w_req x = w_req (refreshWaiterLocked opt v)"
      using dispatch_requests [OF ok 2(1)] by blast
    have "v = w" using ok v(1,2) 2(2) assms(2)
      by (auto simp: ledger_ok_def queue_ok_def distinct_map inj_on_def)
    with v 2 dispatch_reasons [OF ok 2(1)] show ?thesis by auto
  qed
qed

lemma dispatch_settles_every_waiter_witness:
  "granted (dispatchLocked demoOpt demoFull) (w_seq (hd (l_waiters demoFull)))
     \<or> (\<exists>x\<in>set (l_waiters (dispatchLocked demoOpt demoFull)). w_seq x = w_seq (hd (l_waiters demoFull)) \<and> w_reason x \<noteq> [])"
proof -
  have "l_waiters demoFull \<noteq> []" using demoFull_eval(3) by force
  then have "hd (l_waiters demoFull) \<in> set (l_waiters demoFull)" by simp
  from dispatch_settles_every_waiter [OF demoFull_reachable this, of demoOpt] show ?thesis by blast
qed



text \<open>C5. The queue is tried in one order only: by role (verifier, worker, planner), then descending
  priority, then aged before not aged, then model affinity, then the PRD served longest ago, then
  arrival. The order is total, so it depends neither on the sort nor on the order of the input.\<close>

theorem queue_order_lexicographic:
  assumes "distinct (map w_seq ws)"
  shows "mset (orderListLocked opt l ws now) = mset ws \<and>
    sorted_wrt (\<lambda>a b. let ra = rank (rq_role (w_req a)); rb = rank (rq_role (w_req b));
        pa = rq_priority (w_req a); pb = rq_priority (w_req b);
        ga = mapGetOr zeroTime (l_lastGrant l) (rq_prd (w_req a));
        gb = mapGetOr zeroTime (l_lastGrant l) (rq_prd (w_req b))
      in ra < rb \<or> ra = rb \<and> (pa > pb \<or> pa = pb \<and>
          (aged opt now a \<and> \<not> aged opt now b \<or> aged opt now a = aged opt now b \<and>
            (affine l a \<and> \<not> affine l b \<or> affine l a = affine l b \<and>
              (ga < gb \<or> ga = gb \<and> w_seq a < w_seq b)))))
      (orderListLocked opt l ws now) \<and>
    (\<forall>ys. mset ys = mset ws \<longrightarrow> sorted_wrt (orderLess opt l now) ys \<longrightarrow> ys = orderListLocked opt l ws now)"
proof -
  let ?o = "orderListLocked opt l ws now"
  have perm: "mset ?o = mset ws" by (simp add: orderListLocked_def)
  have weak: "sorted_wrt (\<lambda>a b. \<not> orderLess opt l now b a) ?o"
    unfolding orderListLocked_def by (rule queue_order.sorted_sort)
  have dist: "distinct (map w_seq ?o)" using assms by (simp add: orderListLocked_def)
  have strict: "sorted_wrt (orderLess opt l now) ?o"
    by (rule order_strict [OF dist weak])
  have uniq: "ys = ?o" if "mset ys = mset ws" "sorted_wrt (orderLess opt l now) ys" for ys
  proof (rule queue_order.sorted_unique)
    show "sorted_wrt (\<lambda>a b. \<not> orderLess opt l now b a) ys"
      using that(2) queue_order.asym by (rule sorted_wrt_mono_rel [rotated])
    show "mset ys = mset ?o" using that(1) perm by simp
    fix a b
    assume "a \<in> set ys" "b \<in> set ys" "\<not> orderLess opt l now a b" "\<not> orderLess opt l now b a"
    then show "a = b" using assms order_total mset_eq_setD [OF that(1)]
      by (metis distinct_map inj_onD)
  qed (rule weak)
  from strict perm uniq show ?thesis unfolding orderLess_lexicographic [symmetric] by blast
qed

lemma queue_order_lexicographic_witness:
  "mset (orderListLocked demoOpt demoFull (l_waiters demoFull) 100) = mset (l_waiters demoFull)"
proof -
  have "distinct (map w_seq (l_waiters demoFull))" using demoFull_eval(3) by simp
  from queue_order_lexicographic [OF this, of demoOpt demoFull 100] show ?thesis by blast
qed

section \<open>Admission checks\<close>

text \<open>The check of a request passes exactly when every one of its pools has a free slot, a rate
  ceiling that is not reached, and no soft block (the autonomous ones only for a request that is not
  interactive).\<close>

theorem blockReason_exact:
  "snd (blockReasonLocked opt l req) = [] \<longleftrightarrow> (\<forall>p\<in>set (rq_pools req).
     (0 < Limit l p \<longrightarrow> usedLocked opt l p < Limit l p) \<and> snd (rateBlockLocked l p (o_now opt)) = []
     \<and> (\<forall>f. o_Backpressure opt = Some f \<longrightarrow> \<not> fst (f p))
     \<and> (\<forall>f. o_AutonomousBackpressure opt = Some f \<longrightarrow> rq_interactive req \<or> \<not> fst (f p))
     \<and> (\<forall>f. o_HeldBackpressure opt = Some f \<longrightarrow> rq_interactive req \<or> \<not> fst (f p (heldLocked l p) (Limit l p))))"
proof -
  have "poolOpen opt l req p \<longleftrightarrow>
     (0 < Limit l p \<longrightarrow> usedLocked opt l p < Limit l p) \<and> snd (rateBlockLocked l p (o_now opt)) = []
     \<and> (\<forall>f. o_Backpressure opt = Some f \<longrightarrow> \<not> fst (f p))
     \<and> (\<forall>f. o_AutonomousBackpressure opt = Some f \<longrightarrow> rq_interactive req \<or> \<not> fst (f p))
     \<and> (\<forall>f. o_HeldBackpressure opt = Some f \<longrightarrow> rq_interactive req \<or> \<not> fst (f p (heldLocked l p) (Limit l p)))" for p
    using rateBlock_text [of l p "o_now opt"]
    by (auto simp: poolOpen_def Limit_def softBlock_def autonomousBlock_def heldBlock_def split: option.split)
  then show ?thesis by (simp add: blockReason_empty fits_def)
qed

lemma blockReason_exact_witness: "snd (blockReasonLocked demoOpt demoFull (demoReq ''c'')) \<noteq> []"
proof -
  have "''host'' \<in> set (rq_pools (demoReq ''c''))" by code_simp
  moreover have "\<not> usedLocked demoOpt demoFull ''host'' < Limit demoFull ''host''" "0 < Limit demoFull ''host''"
    using demoFull_eval(5,6) by simp_all
  ultimately show ?thesis using blockReason_exact [of demoOpt demoFull "demoReq ''c''"] by blast
qed

text \<open>A request with several candidate nodes is bound to the least loaded one that passes: the
  node is a candidate, its gate is open, all pools of the bound request pass the check, and every
  candidate with a strictly smaller load fails its gate, its verifier headroom or a pool check.\<close>

theorem resolve_least_loaded:
  assumes "resolveLocked opt l req = (l', b, [])" and "multiNode req"
  shows "\<exists>c\<in>set (candidates req). rq_node b = nc_name c
     \<and> ledgerNodePoolLocked l (rq_role req) (nc_name c) \<in> set (rq_pools b)
     \<and> fst (nodeGateLocked opt (nc_name c) (rq_consumer req)) \<and> snd (blockReasonLocked opt l b) = []
     \<and> (\<forall>d\<in>set (candidates req).
          fst (loadOf opt l (nc_name d)) * snd (loadOf opt l (nc_name c))
            < fst (loadOf opt l (nc_name c)) * snd (loadOf opt l (nc_name d)) \<longrightarrow>
          \<not> fst (nodeGateLocked opt (nc_name d) (rq_consumer req)) \<or> headroomBlock opt req (nc_name d) \<noteq> None
          \<or> snd (blockReasonLocked opt l
               (withNodePool req (nc_name d) (ledgerNodePoolLocked l (rq_role req) (nc_name d)))) \<noteq> [])"
proof -
  have "resolved opt l req = Some b"
    using resolve_view [of opt l req] assms(1) by (auto split: option.splits)
  from resolved_multi [OF this assms(2)] obtain c where c: "c \<in> set (candidates req)"
    "b = bindTo l req c" "nodePasses opt l req c"
    and least: "\<And>d. d \<in> set (candidates req) \<Longrightarrow> rankLess opt l req d c \<Longrightarrow> \<not> nodePasses opt l req d"
    by blast
  have "rankLess opt l req d c" if "fst (loadOf opt l (nc_name d)) * snd (loadOf opt l (nc_name c))
      < fst (loadOf opt l (nc_name c)) * snd (loadOf opt l (nc_name d))" for d
    using that by (simp add: rankLess_def Let_def)
  with least have "\<not> nodePasses opt l req d" if "d \<in> set (candidates req)"
    "fst (loadOf opt l (nc_name d)) * snd (loadOf opt l (nc_name c))
      < fst (loadOf opt l (nc_name c)) * snd (loadOf opt l (nc_name d))" for d
    using that by blast
  with c show ?thesis
    by (intro bexI [of _ c]) (auto simp: nodePasses_def blockReason_empty bindTo_def withNodePool_pools)
qed

definition demoMulti :: Request where
  "demoMulti = (demoReq ''m'')\<lparr>rq_choices := [\<lparr>nc_name = ''n1'', nc_priority = 0\<rparr>, \<lparr>nc_name = ''n2'', nc_priority = 0\<rparr>],
     rq_pools := []\<rparr>"

definition demoNodes :: Ledger where
  "demoNodes = runOp demoOpt (OpAcquire (demoMulti\<lparr>rq_holder := ''k''\<rparr>))
     (runOp demoOpt (OpSetLimit ''node:n2'' 2) (runOp demoOpt (OpSetLimit ''node:n1'' 2) New))"

lemma resolve_least_loaded_witness:
  "\<exists>c\<in>set (candidates demoMulti). rq_node (fst (snd (resolveLocked demoOpt demoNodes demoMulti))) = nc_name c
     \<and> nc_name c = ''n2''"
proof -
  have e: "snd (snd (resolveLocked demoOpt demoNodes demoMulti)) = []"
    "rq_node (fst (snd (resolveLocked demoOpt demoNodes demoMulti))) = ''n2''" "multiNode demoMulti"
    by code_simp+
  then obtain l' b where r: "resolveLocked demoOpt demoNodes demoMulti = (l', b, [])" by (metis prod.collapse)
  with resolve_least_loaded [OF r e(3)] e(2) show ?thesis by auto
qed

text \<open>C6. The reset time of a full rate ceiling is exact: the pool is blocked by its ceiling from now
  up to that instant and not from it on, as long as nothing more is recorded.\<close>

theorem rate_reset_exact:
  assumes "reachable l" and "snd (rateBlockLocked l p (o_now opt)) \<noteq> []"
  shows "\<exists>t. snd (RateResetAt opt l p) = Some t \<and> o_now opt < t
    \<and> (\<forall>s. o_now opt \<le> s \<longrightarrow> (snd (rateBlockLocked l p s) \<noteq> [] \<longleftrightarrow> s < t))"
proof -
  have wf: "rate_wf l" using reachable_ok [OF assms(1)] by (simp add: ledger_ok_def)
  have full: "rateFull l p (o_now opt)" using assms(2) by (simp add: rateBlock_text)
  then obtain c where c: "mapGet (l_rates l) p = Some c" by (auto simp: rateFull_def split: option.splits)
  from rateReset_exact [OF c wf full] show ?thesis
    by (metis RateResetAt_def rateBlock_text)
qed

definition demoRate :: Ledger where
  "demoRate = runOp demoOpt (OpAcquire (demoReq ''a''))
     (runOp demoOpt (OpSetRate ''host'' \<lparr>rc_requests = 1, rc_tokens = 0, rc_window = 10\<rparr>) New)"

lemma rate_reset_exact_witness:
  "\<exists>t. snd (RateResetAt demoOpt demoRate ''host'') = Some t \<and> o_now demoOpt < t
     \<and> (\<forall>s. o_now demoOpt \<le> s \<longrightarrow> (snd (rateBlockLocked demoRate ''host'' s) \<noteq> [] \<longleftrightarrow> s < t))"
proof (rule rate_reset_exact)
  show "reachable demoRate" unfolding demoRate_def by (intro reachable.intros)
  have "take 4 (snd (rateBlockLocked demoRate ''host'' (o_now demoOpt))) = ''pool''" by code_simp
  then show "snd (rateBlockLocked demoRate ''host'' (o_now demoOpt)) \<noteq> []" by force
qed

section \<open>Adoption\<close>

text \<open>While the adoption hold stands no request is granted: a pass leaves every lease where it is,
  except that an adopted lease may join the pool of the node it already runs on, and from the timeout
  on the hold does not stand.\<close>

theorem adoption_hold_blocks_grants:
  assumes "reachable l" and "l_adopting l" and "optOn (o_AdoptBeforeAdmit opt)"
  shows "if o_now opt - l_adoptSince l < o_AdoptionTimeout opt
    then l_grants (dispatchLocked opt l) = l_grants l
      \<and> (\<forall>h. LeaseOf (dispatchLocked opt l) h = LeaseOf l h
           \<or> (\<exists>ls. LeaseOf l h = Some ls \<and> ls_overflow ls \<and> LeaseOf (dispatchLocked opt l) h
                = Some (ls\<lparr>ls_pools := ls_pools ls @ [nodePool (ls_node ls)], ls_overflow := False\<rparr>)))
    else snd (adoptionPendingLocked opt l) = []"
proof -
  have wf: "wf_map (l_leases l)" using reachable_ok [OF assms(1)] by (simp add: ledger_ok_def leases_ok_def)
  show ?thesis
  proof (cases "o_now opt - l_adoptSince l < o_AdoptionTimeout opt")
    case True
    then have h: "adoptionHold opt l" using assms(2,3) by (simp add: adoptionHold_def)
    from dispatch_hold [OF wf h] show ?thesis
      using True by (auto simp: promotes_def promoted_def LeaseOf_def)
  next
    case False
    then show ?thesis using assms by (simp add: adoptionPendingLocked_def)
  qed
qed

lemma adoption_hold_blocks_grants_witness:
  "l_grants (dispatchLocked demoOpt (runOp demoOpt OpBeginAdoption demoFull)) = l_grants (runOp demoOpt OpBeginAdoption demoFull)"
proof -
  have "reachable (runOp demoOpt OpBeginAdoption demoFull)" by (rule reach_step [OF demoFull_reachable])
  moreover have "l_adopting (runOp demoOpt OpBeginAdoption demoFull)" "optOn (o_AdoptBeforeAdmit demoOpt)"
    "o_now demoOpt - l_adoptSince (runOp demoOpt OpBeginAdoption demoFull) < o_AdoptionTimeout demoOpt"
    by code_simp+
  ultimately show ?thesis using adoption_hold_blocks_grants [of "runOp demoOpt OpBeginAdoption demoFull" demoOpt] by simp
qed

text \<open>With the strict node limit on, adopting a session onto a node never makes a node pool hold
  more leases than its limit: the pool holds at most what it held or its limit, for every node. The
  request names its node in \<open>Node\<close> and no node pool in \<open>Pools\<close>, as the callers build it.\<close>

theorem adopt_keeps_node_limits:
  assumes "reachable l" and "optOn (o_StrictNodeLimit opt)" and "rq_node req \<noteq> []"
    and "\<forall>p\<in>set (rq_pools req). \<not> hasPrefix p ''node:''"
    and "0 \<le> externalOf opt (nodePool m)" and "0 < Limit l (nodePool m)"
  shows "heldLocked (Adopt opt l req sid successors wall) (nodePool m)
    \<le> max (heldLocked l (nodePool m)) (Limit l (nodePool m))"
proof -
  have wf: "wf_map (l_leases l)" using reachable_ok [OF assms(1)] by (simp add: ledger_ok_def leases_ok_def)
  have lim: "0 < limitOf l (nodePool m)" using assms(6) by (simp add: Limit_def)
  note refresh = refreshAdopted_held [OF wf assms(2,3,5) lim]
  let ?ls = "adoptedLease opt l req sid wall"
  have "heldLocked (recordAdopted opt l req sid wall) (nodePool m)
      = heldLocked (updateLease (rq_holder req) ?ls l) (nodePool m)"
    by (simp add: heldLocked_def recordAdopted_def updateLease_def Let_def)
  also have "\<dots> \<le> max (heldLocked l (nodePool m)) (limitOf l (nodePool m))"
    using assms(3,4) unfolding adoptedLease_def Let_def
    by (simp only: if_True not_False_eq_True simp_thms)
      (rule placeAdopted_held [OF wf assms(2,5) lim], auto simp: namesPool_def)
  finally have fresh: "heldLocked (recordAdopted opt l req sid wall) (nodePool m)
      \<le> max (heldLocked l (nodePool m)) (limitOf l (nodePool m))" .
  have found: "mapGet (l_leases l) h = Some ls" if "find P (l_leases l) = Some (h, ls)" for P h ls
    using that wf wf_map_mem by (metis find_Some_split in_set_conv_decomp)
  then show ?thesis
    using fresh refresh unfolding Adopt_def Limit_def by (auto split: option.split)
qed

definition demoNodeFull :: Ledger where
  "demoNodeFull = runOp demoOpt (OpAcquire ((demoReq ''a'')\<lparr>rq_pools := [''node:n''], rq_node := ''n''\<rparr>))
     (runOp demoOpt (OpSetLimit ''node:n'' 1) New)"

lemma adopt_keeps_node_limits_witness:
  "heldLocked (Adopt demoOpt demoNodeFull ((demoReq ''s'')\<lparr>rq_node := ''n''\<rparr>) ''sess'' [] 100) ''node:n'' \<le> 1
     \<and> usedLocked demoOpt (Adopt demoOpt demoNodeFull ((demoReq ''s'')\<lparr>rq_node := ''n''\<rparr>) ''sess'' [] 100) ''node:n'' = 2"
proof -
  have n: "nodePool ''n'' = ''node:n''" by (simp add: nodePool_def)
  have "reachable demoNodeFull" unfolding demoNodeFull_def by (intro reachable.intros)
  moreover have "heldLocked demoNodeFull ''node:n'' = 1" "Limit demoNodeFull ''node:n'' = 1"
    "optOn (o_StrictNodeLimit demoOpt)" "rq_node ((demoReq ''s'')\<lparr>rq_node := ''n''\<rparr>) \<noteq> []"
    "externalOf demoOpt (nodePool ''n'') = 0" "\<not> hasPrefix ''host'' ''node:''"
    "rq_pools ((demoReq ''s'')\<lparr>rq_node := ''n''\<rparr>) = [''host'']"
    "usedLocked demoOpt (Adopt demoOpt demoNodeFull ((demoReq ''s'')\<lparr>rq_node := ''n''\<rparr>) ''sess'' [] 100) ''node:n'' = 2"
    by code_simp+
  ultimately show ?thesis
    using adopt_keeps_node_limits [of demoNodeFull demoOpt "(demoReq ''s'')\<lparr>rq_node := ''n''\<rparr>" "''n''" "''sess''" "[]" 100]
    by (simp add: n)
qed

section \<open>Leases and waits\<close>

text \<open>A hand-off moves one lease from one holder to another and changes no count: every pool is
  as full as before, the receiver holds the giver's lease under its own name, the giver holds nothing
  and nobody else's lease changes.\<close>

theorem handoff_conserves:
  assumes "reachable l" and "Handoff l a b = (l', True)"
  shows "\<exists>ls. LeaseOf l a = Some ls \<and> LeaseOf l' b = Some (ls\<lparr>ls_holder := b\<rparr>) \<and> \<not> Held l' a
    \<and> (\<forall>h. h \<noteq> a \<longrightarrow> h \<noteq> b \<longrightarrow> LeaseOf l' h = LeaseOf l h) \<and> (\<forall>p. usedLocked opt l' p = usedLocked opt l p)
    \<and> l_waiters l' = l_waiters l"
proof -
  have wf: "wf_map (l_leases l)" using reachable_ok [OF assms(1)] by (simp add: ledger_ok_def leases_ok_def)
  show ?thesis
    using used_Handoff [OF wf, of opt a b] assms(2)
    by (auto simp: Handoff_def LeaseOf_def Held_def mapHas_def split: option.splits if_splits)
qed

lemma handoff_conserves_witness:
  "\<exists>ls. LeaseOf demoFull ''a'' = Some ls \<and> LeaseOf (fst (Handoff demoFull ''a'' ''verify:a'')) ''verify:a'' = Some (ls\<lparr>ls_holder := ''verify:a''\<rparr>)"
proof -
  have "snd (Handoff demoFull ''a'' ''verify:a'')" by code_simp
  then have "Handoff demoFull ''a'' ''verify:a'' = (fst (Handoff demoFull ''a'' ''verify:a''), True)"
    by (metis prod.collapse)
  from handoff_conserves [OF demoFull_reachable this, of demoOpt] show ?thesis by blast
qed

text \<open>An \<open>Acquire\<close> that ends in an error leaves nothing behind: its request is no longer queued,
  and a slot granted in the same instant is given back, unless another request of the same holder is
  queued.\<close>

theorem failed_acquire_leaves_nothing:
  assumes "reachable l" and "acquireWake opt l w reported ev = (l', Returned (Some err))"
  shows "w_seq w \<notin> set (map w_seq (l_waiters l'))
    \<and> (granted l (w_seq w) \<and> (\<forall>x\<in>set (l_waiters l). rq_holder (w_req x) \<noteq> rq_holder (w_req w))
        \<longrightarrow> \<not> Held l' (rq_holder (w_req w)))"
proof
  have ok: "ledger_ok l" by (rule reachable_ok [OF assms(1)])
  let ?l1 = "l\<lparr>l_waiters := dropWaiter (w_seq w) (l_waiters l)\<rparr>"
  let ?l2 = "if granted ?l1 (w_seq w)
    then signalChangedLocked (?l1\<lparr>l_leases := mapDelete (l_leases ?l1) (rq_holder (w_req w))\<rparr>) else ?l1"
  have l': "l' = dispatchLocked opt ?l2"
    using assms(2) by (cases ev) (auto simp: remove_def Let_def split: prod.splits if_splits)
  have ok2: "ledger_ok ?l2"
    using ok_dropWaiter [OF ok] ok_signal [OF ok_delete [OF ok_dropWaiter [OF ok]]] by auto
  have gone: "w_seq w \<notin> set (map w_seq (l_waiters ?l2))"
    using ok dropWaiter_seqs [of "w_seq w" "l_waiters l"]
    by (auto simp: ledger_ok_def queue_ok_def set_remove1_eq simp del: set_map)
  show "w_seq w \<notin> set (map w_seq (l_waiters l'))"
    using served_back [OF dispatch_ok_served(2) [OF ok2]] gone unfolding l' by blast
  show "granted l (w_seq w) \<and> (\<forall>x\<in>set (l_waiters l). rq_holder (w_req x) \<noteq> rq_holder (w_req w))
      \<longrightarrow> \<not> Held l' (rq_holder (w_req w))"
    using dispatch_new_holder [OF ok2, of opt "rq_holder (w_req w)"] dropWaiter_sub [of "w_seq w" "l_waiters l"]
    unfolding l' by (fastforce simp: Held_def granted_def split: if_splits)
qed

text \<open>The request \<open>b\<close> of the small ledger: timing out in the queue, and cancelled just after its grant.\<close>

definition demoWaiter :: waiter where
  "demoWaiter = hd (l_waiters demoFull)"

lemma failed_acquire_leaves_nothing_witness:
  "2 \<notin> set (map w_seq (l_waiters (fst (acquireWake demoOpt demoFull demoWaiter [] EvDeadline))))
     \<and> \<not> Held (fst (acquireWake demoOpt (Release demoOpt demoFull ''a'') demoWaiter [] (EvCtxDone ''canceled''))) ''b''"
proof -
  let ?l = "Release demoOpt demoFull ''a''"
  have r: "reachable ?l" using reach_step [OF demoFull_reachable, of demoOpt "OpRelease ''a''"] by simp
  have e: "w_seq demoWaiter = 2" "rq_holder (w_req demoWaiter) = ''b''" "granted ?l 2" "l_waiters ?l = []" by code_simp+
  have "2 \<notin> set (map w_seq (l_waiters (fst (acquireWake demoOpt demoFull demoWaiter [] EvDeadline))))"
    using failed_acquire_leaves_nothing [OF demoFull_reachable, of demoOpt demoWaiter "[]" EvDeadline] e(1) by auto
  moreover have "\<not> Held (fst (acquireWake demoOpt ?l demoWaiter [] (EvCtxDone ''canceled''))) ''b''"
    using failed_acquire_leaves_nothing [OF r, of demoOpt demoWaiter "[]" "EvCtxDone ''canceled''"] e by auto
  ultimately show ?thesis by blast
qed



text \<open>A dry run changes nothing but bookkeeping: \<open>WouldGrant\<close> keeps every limit, lease, queued
  request, number, grant, affinity and history, and every rate window from now on, and a second dry
  run gives the same answer.\<close>

theorem wouldGrant_is_a_read:
  "(let l' = fst (WouldGrant opt l req) in
     l' = l\<lparr>l_rateUse := l_rateUse l', l_adopting := l_adopting l'\<rparr>
     \<and> (\<forall>p t. o_now opt \<le> t \<longrightarrow> snd (rateWindowLocked l' p t) = snd (rateWindowLocked l p t))
     \<and> snd (adoptionPendingLocked opt l') = snd (adoptionPendingLocked opt l)
     \<and> snd (WouldGrant opt l' other) = snd (WouldGrant opt l other))"
proof -
  let ?l = "fst (WouldGrant opt l req)"
  have q: "quiet opt l ?l" by (rule WouldGrant_quiet)
  have win: "snd (rateWindowLocked ?l p t) = snd (rateWindowLocked l p t)" if "o_now opt \<le> t" for p t
  proof -
    have "window ?l p t = window l p t" using q that by (simp add: quiet_def same_windows_def)
    then show ?thesis
      using rateWindow_view [of ?l p t] rateWindow_view [of l p t] by (metis snd_conv usedIn_def)
  qed
  have "snd (adoptionPendingLocked opt ?l) = snd (adoptionPendingLocked opt l)"
    using q by (auto simp: quiet_def adoptionPendingLocked_def adoptionHold_def split: if_splits)
  then show ?thesis
    using q win by (simp add: quiet_def Let_def WouldGrant_resolved resolved_quiet [OF q])
qed

lemma wouldGrant_is_a_read_witness:
  "snd (rateWindowLocked (fst (WouldGrant demoOpt demoRate (demoReq ''c''))) ''host'' 105) = snd (rateWindowLocked demoRate ''host'' 105)"
proof -
  have "o_now demoOpt \<le> 105" by code_simp
  then show ?thesis
    using wouldGrant_is_a_read [of demoOpt demoRate "demoReq ''c''" "demoReq ''c''"] by (simp add: Let_def)
qed

text \<open>Re-targeting a queued request twice is re-targeting it once: after a successful \<open>Retarget\<close>
  the same call again reports false and changes nothing, so it never makes a second live request.\<close>

theorem retarget_idempotent:
  assumes "reachable l" and "Retarget opt l holder req = (l1, True)" and "rq_holder req = holder"
  shows "Retarget opt l1 holder req = (l1, False)"
proof -
  have ok: "ledger_ok l" by (rule reachable_ok [OF assms(1)])
  let ?req = "withoutStaleNode (applyRefresh (o_now opt) req)"
  obtain w where w: "find (\<lambda>x. rq_holder (w_req x) = holder) (l_waiters l) = Some w"
    and l1: "l1 = dispatchLocked opt (signalChangedLocked (setRequest (w_seq w) ?req l))"
    using assms(2) by (auto simp: Retarget_def Let_def split: option.splits if_splits)
  let ?l0 = "signalChangedLocked (setRequest (w_seq w) ?req l)" and ?w = "w\<lparr>w_req := ?req\<rparr>"
  show ?thesis
  proof (cases "mapHas (l_leases l1) holder")
    case True
    then show ?thesis by (simp add: Retarget_def)
  next
    case False
    have ok0: "ledger_ok ?l0" using ok by (intro ok_signal ok_setRequest)
    have "find (\<lambda>x. rq_holder (w_req x) = holder) (l_waiters ?l0) = Some ?w"
      using find_updated [OF w, of "\<lambda>x. x\<lparr>w_req := ?req\<rparr>"] ok assms(3)
      by (simp add: setRequest_def ledger_ok_def queue_ok_def)
    from dispatch_find [OF ok0 this] False obtain x where
      x: "find (\<lambda>x. rq_holder (w_req x) = holder) (l_waiters l1) = Some x"
      "w_req x = w_req (refreshWaiterLocked opt ?w)"
      unfolding l1 by blast
    have "w_req (refreshWaiterLocked opt ?w) = ?req"
      using refresh_fixed [of opt "\<lparr>w_req = req, w_seq = 0, w_since = 0, w_reason = []\<rparr>"]
      by (simp add: refreshWaiterLocked_def)
    with x False show ?thesis by (simp add: Retarget_def samePlacement_refl Let_def)
  qed
qed

lemma retarget_idempotent_witness:
  "snd (Retarget demoOpt demoFull ''b'' ((demoReq ''b'')\<lparr>rq_pools := [''host'', ''llm:x'']\<rparr>))
     \<and> \<not> snd (Retarget demoOpt (fst (Retarget demoOpt demoFull ''b'' ((demoReq ''b'')\<lparr>rq_pools := [''host'', ''llm:x'']\<rparr>)))
          ''b'' ((demoReq ''b'')\<lparr>rq_pools := [''host'', ''llm:x'']\<rparr>))"
proof -
  let ?r = "(demoReq ''b'')\<lparr>rq_pools := [''host'', ''llm:x'']\<rparr>"
  have e: "snd (Retarget demoOpt demoFull ''b'' ?r)" "rq_holder ?r = ''b''" by code_simp+
  then have "Retarget demoOpt demoFull ''b'' ?r = (fst (Retarget demoOpt demoFull ''b'' ?r), True)"
    by (metis prod.collapse)
  from retarget_idempotent [OF demoFull_reachable this e(2)] e(1) show ?thesis by simp
qed

text \<open>The second half of \<open>Reap\<close>, run after anything may have happened since the candidates were
  copied, releases exactly the holders whose current lease has the acquisition time of a lease found
  dead, in name order, and no other holder loses its lease.\<close>

theorem reap_exact:
  assumes "reachable l" and "reapFinish opt l dead = (l', out)"
  shows "sorted out \<and> distinct out
    \<and> (\<forall>h. h \<in> set out \<longleftrightarrow> (\<exists>cur. LeaseOf l h = Some cur
         \<and> (\<exists>d\<in>set dead. ls_holder d = h \<and> ls_acquired d = ls_acquired cur)))
    \<and> (\<forall>h. Held l h \<and> h \<notin> set out \<longrightarrow> Held l' h)
    \<and> (\<forall>h\<in>set out. (\<forall>w\<in>set (l_waiters l). rq_holder (w_req w) \<noteq> h) \<longrightarrow> \<not> Held l' h)"
proof -
  have ok: "ledger_ok l" by (rule reachable_ok [OF assms(1)])
  obtain m o1 where r: "reapLoop (l_leases l) dead = (m, o1)" by fastforce
  have wf: "wf_map (l_leases l)" using ok by (simp add: ledger_ok_def leases_ok_def)
  note spec = reapLoop_spec [OF wf r]
  have out: "out = sort o1" using assms(2) r by (auto simp: reapFinish_def Let_def split: if_splits)
  let ?l1 = "signalChangedLocked (l\<lparr>l_leases := m\<rparr>)"
  have ok1: "ledger_ok ?l1" using ok_signal [OF ok_reapLoop [OF ok, of dead]] r by simp
  have l': "l_leases l' = l_leases l \<and> o1 = [] \<or> l' = dispatchLocked opt ?l1 \<or> l_leases l' = m"
    using assms(2) r by (auto simp: reapFinish_def Let_def split: if_splits)
  have keeps: "Held l' h" if "mapHas m h" for h
    using l' that spec dispatch_keeps_holder [OF ok1, of h opt] by (auto simp: Held_def mapHas_def)
  have news: "\<not> Held l' h" if "h \<in> set o1" "\<forall>w\<in>set (l_waiters l). rq_holder (w_req w) \<noteq> h" for h
  proof -
    have "\<not> mapHas (l_leases ?l1) h" using spec that(1) by (simp add: mapHas_def)
    with dispatch_new_holder [OF ok1, of opt h] that(2) have "\<not> mapHas (l_leases (dispatchLocked opt ?l1)) h" by auto
    with l' that(1) spec show ?thesis by (auto simp: Held_def mapHas_def)
  qed
  show ?thesis
    using spec keeps news by (auto simp: out reapable_def LeaseOf_def Held_def mapHas_def)
qed

lemma reap_exact_witness:
  "snd (reapFinish demoOpt demoFull (reapCandidates demoFull)) = [''a''] \<and> \<not> Held (fst (reapFinish demoOpt demoFull (reapCandidates demoFull))) ''a''"
proof -
  let ?r = "reapFinish demoOpt demoFull (reapCandidates demoFull)"
  have "snd ?r = [''a'']" by code_simp
  then have r: "reapFinish demoOpt demoFull (reapCandidates demoFull) = (fst ?r, [''a''])" by (metis prod.collapse)
  have "map (rq_holder \<circ> w_req) (l_waiters demoFull) = [''b'']" by code_simp
  then have "\<forall>w\<in>set (l_waiters demoFull). rq_holder (w_req w) \<noteq> ''a''"
    by (cases "l_waiters demoFull") auto
  then show ?thesis using reap_exact [OF demoFull_reachable r] \<open>snd ?r = [''a'']\<close> by simp
qed

end
