(* ===== verification/Capacity_Queries.thy ===== *)
theory Capacity_Queries
  imports Capacity_Decision Capacity_Properties
begin

text \<open>
  The properties of the ledger's queries: what \<open>Check\<close> answers, which alternates it offers, and what
  \<open>Snapshot\<close> reports.
\<close>

section \<open>Check\<close>

lemma orderLess_quiet:
  assumes q: "quiet opt l l'"
  shows "orderLess opt l' now = orderLess opt l now"
  by (intro ext) (simp only: orderLess_def affine_def quiet_fields [OF q])

lemma blockedPools_blocked:
  "blockedPools opt l ia ps r = (l', bs, r') \<Longrightarrow> p \<in> set bs \<Longrightarrow> p \<in> set ps \<and> \<not> fits opt l (poolsOnly [p] ia)"
proof (induction ps arbitrary: l r bs l' r')
  case (Cons x ps)
  obtain l1 why where b: "blockReasonLocked opt l (poolsOnly [x] ia) = (l1, why)" by fastforce
  obtain l2 rate where r2: "rateBlockLocked l1 x (o_now opt) = (l2, rate)" by fastforce
  obtain l3 at where r3: "rateResetLocked l2 x (o_now opt) = (l3, at)" by fastforce
  have q: "quiet opt l l2" "quiet opt l l3"
    using quiet_trans [OF blockReason_quiet_pair [OF b]] rateBlock_quiet [of opt l1 x]
      quiet_trans [OF quiet_trans [OF blockReason_quiet_pair [OF b] rateBlock_quiet [of opt l1 x]]]
      rateReset_quiet [of opt l2 x] r2 r3 by simp_all
  let ?l = "if rate \<noteq> [] then l3 else l2"
  have same: "fits opt ?l y = fits opt l y" for y using fits_quiet [OF q(1)] fits_quiet [OF q(2)] by simp
  let ?R = "if rate \<noteq> [] then (case at of None \<Rightarrow> r | Some t \<Rightarrow>
    (case r of None \<Rightarrow> Some t | Some r \<Rightarrow> if r < t then Some t else Some r)) else r"
  obtain l4 bs' r4 where rest: "blockedPools opt ?l ia ps ?R = (l4, bs', r4)" using prod_cases3 by blast
  have "blockedPools opt l ia (x # ps) r = (l4, if why \<noteq> [] then x # bs' else bs', r4)"
  proof (cases "rate = []")
    case True
    with rest have "blockedPools opt l2 ia ps r = (l4, bs', r4)" by simp
    with True show ?thesis by (simp add: b r2 Let_def)
  next
    case False
    with rest have "blockedPools opt l3 ia ps (case at of None \<Rightarrow> r | Some t \<Rightarrow>
        (case r of None \<Rightarrow> Some t | Some r \<Rightarrow> if r < t then Some t else Some r)) = (l4, bs', r4)" by simp
    with False show ?thesis by (simp add: b r2 r3 Let_def)
  qed
  with Cons.prems(1) have bs: "bs = (if why \<noteq> [] then x # bs' else bs')" by simp
  have "why \<noteq> [] \<longleftrightarrow> \<not> fits opt l (poolsOnly [x] ia)"
    using blockReason_empty [of opt l "poolsOnly [x] ia"] b by simp
  with Cons.IH [OF rest] Cons.prems(2) bs same show ?case by (auto split: if_splits)
qed simp

lemma next_seq_new: "ledger_ok l \<Longrightarrow> Suc (l_seq l) \<notin> set (map w_seq (l_waiters l))"
proof
  assume "ledger_ok l" "Suc (l_seq l) \<in> set (map w_seq (l_waiters l))"
  then have "Suc (l_seq l) \<le> l_seq l" unfolding ledger_ok_def queue_ok_def by (metis UnI1 set_append)
  then show False by simp
qed

lemma hyp_distinct: "ledger_ok l \<Longrightarrow> distinct (map w_seq (l_waiters l @ [hypotheticalWaiter opt l req]))"
  using next_seq_new [of l] by (simp add: ledger_ok_def queue_ok_def hypotheticalWaiter_def)

text \<open>The admission query is exact and changes nothing: \<open>Check\<close> answers "admit" exactly when the
  request passes every check now and no queued request that dispatch would try first, and that
  competes for one of its pools, would be granted; otherwise it reports the place the request would
  take in grant order.\<close>

theorem check_exact:
  assumes "reachable l"
  shows "let d = snd (Check opt l req); hyp = hypotheticalWaiter opt l req;
      before = filter (\<lambda>w. orderLess opt l (o_now opt) w hyp) (l_waiters l)
    in (d_kind d = DecisionAdmit \<longleftrightarrow> snd (snd (resolveLocked opt l req)) = []
         \<and> (\<forall>w\<in>set before. sharesPool (allPools (w_req w)) (allPools req) \<longrightarrow>
              snd (snd (resolveLocked opt l (w_req w))) \<noteq> []))
      \<and> (d_kind d \<noteq> DecisionAdmit \<longrightarrow> d_position d = Suc (length before))
      \<and> quiet opt l (fst (Check opt l req))"
proof -
  let ?hyp = "hypotheticalWaiter opt l req"
  let ?before = "filter (\<lambda>w. orderLess opt l (o_now opt) w ?hyp) (l_waiters l)"
  obtain l0 b why where r: "resolveLocked opt l req = (l0, b, why)" by (metis prod_cases3)
  have q: "quiet opt l l0" by (rule resolve_quiet_pair [OF r])
  have hyp: "hypotheticalWaiter opt l0 req = ?hyp" by (simp add: hypotheticalWaiter_def quiet_fields [OF q])
  let ?ahead = "aheadOf (w_seq ?hyp) (orderListLocked opt l0 (l_waiters l0 @ [?hyp]) (o_now opt))"
  have d: "distinct (map w_seq (l_waiters l0 @ [?hyp]))"
    using hyp_distinct [OF reachable_ok [OF assms]] by (simp add: quiet_fields [OF q])
  note before = ahead_before [OF d, where opt = opt and l = l0 and now = "o_now opt",
      unfolded orderLess_quiet [OF q] quiet_fields(3) [OF q]]
  obtain l1 n where c: "countCompeting opt l0 req ?ahead = (l1, n)" by fastforce
  note comp = countCompeting_spec [OF c, unfolded resolved_quiet [OF q]]
  obtain l2 bs rs where bp: "blockedPools opt l1 (rq_interactive req) (allPools req) None = (l2, bs, rs)"
    by (metis prod_cases3)
  have q2: "quiet opt l l1" "quiet opt l l2"
    using quiet_trans [OF q] comp quiet_trans [OF quiet_trans [OF q]]
      blockedPools_quiet [of opt l1 "rq_interactive req" "allPools req" None] bp by auto
  have n: "n = 0 \<longleftrightarrow> (\<forall>w\<in>set ?before. sharesPool (allPools (w_req w)) (allPools req) \<longrightarrow>
      snd (snd (resolveLocked opt l (w_req w))) \<noteq> [])"
    using comp before(1) resolve_reason by (auto simp: filter_empty_conv quiet_fields [OF q])
  have pos: "length ?ahead = length ?before" using before(2) by (simp add: quiet_fields [OF q])
  show ?thesis
    using r c bp n pos hyp q2 quiet_trans [OF q2(2) alternates_quiet [of opt l2 req bs]]
    by (simp add: Check_def Let_def case_prod_beta)
qed

lemma check_exact_witness:
  "d_kind (snd (Check demoOpt demoFull (demoReq ''c''))) = DecisionQueued
     \<and> d_position (snd (Check demoOpt demoFull (demoReq ''c''))) = 2"
proof -
  let ?hyp = "hypotheticalWaiter demoOpt demoFull (demoReq ''c'')"
  have e: "d_kind (snd (Check demoOpt demoFull (demoReq ''c''))) = DecisionQueued"
    "length (filter (\<lambda>w. orderLess demoOpt demoFull (o_now demoOpt) w ?hyp) (l_waiters demoFull)) = 1" by code_simp+
  then show ?thesis
    using check_exact [OF demoFull_reachable, of demoOpt "demoReq ''c''"] by (simp add: Let_def)
qed

text \<open>Every alternate \<open>Check\<close> offers could take work now and is a real alternative: its pool passes
  the pool check on its own, is not one of the request's pools nor an excluded node, and is of the
  kind of one of the request's pools that is blocked.\<close>

theorem check_alternates_open:
  assumes "a \<in> set (d_alternates (snd (Check opt l req)))"
  shows "snd (blockReasonLocked opt l (poolsOnly [al_pool a] (rq_interactive req))) = []
    \<and> al_pool a \<notin> set (allPools req) \<and> al_pool a \<notin> nodePool ` set (rq_exclude req)
    \<and> (\<exists>p\<in>set (allPools req). \<exists>kind rest. p = kind @ '':'' @ rest \<and> hasPrefix (al_pool a) (kind @ '':'')
         \<and> snd (blockReasonLocked opt l (poolsOnly [p] (rq_interactive req))) \<noteq> [])"
proof -
  obtain l0 b why where r: "resolveLocked opt l req = (l0, b, why)" by (metis prod_cases3)
  let ?ahead = "aheadOf (w_seq (hypotheticalWaiter opt l0 req))
    (orderListLocked opt l0 (l_waiters l0 @ [hypotheticalWaiter opt l0 req]) (o_now opt))"
  obtain l1 n where c: "countCompeting opt l0 req ?ahead = (l1, n)" by fastforce
  obtain l2 bs rs where bp: "blockedPools opt l1 (rq_interactive req) (allPools req) None = (l2, bs, rs)"
    using prod_cases3 by blast
  have q1: "quiet opt l l1" using quiet_trans [OF resolve_quiet_pair [OF r]] countCompeting_spec [OF c] by blast
  then have q2: "quiet opt l l2"
    using quiet_trans blockedPools_quiet [of opt l1 "rq_interactive req" "allPools req" None] bp by simp
  obtain l3 seen where al: "alternatesLoop opt l2 req (knownPools l2 req) bs [] = (l3, seen)" by fastforce
  have "a \<in> set (snd (alternatesLocked opt l2 req bs))"
    using assms r c bp by (auto simp: Check_def Let_def case_prod_beta split: if_splits)
  then have "al_pool a \<in> set seen"
    using al by (auto simp: alternatesLocked_def alternateFor_def split: option.splits)
  with alternatesLoop_spec [OF al, unfolded fits_quiet [OF q2]] obtain p kind rest where
    p: "p \<in> set bs" "cutChar (CHR '':'') p = Some (kind, rest)" "hasPrefix (al_pool a) (kind @ '':'')"
    and fit: "fits opt l (poolsOnly [al_pool a] (rq_interactive req))" and own: "al_pool a \<notin> set (ownPools req)"
    by auto
  have "p \<in> set (allPools req) \<and> \<not> fits opt l (poolsOnly [p] (rq_interactive req))"
    using blockedPools_blocked [OF bp p(1)] by (simp add: fits_quiet [OF q1])
  moreover have "p = kind @ '':'' @ rest" using cutChar_SomeD [OF p(2)] by simp
  ultimately show ?thesis
    using p(3) fit own unfolding blockReason_empty by (auto simp: ownPools_def)
qed

definition demoAlt :: Ledger where
  "demoAlt = runOp demoOpt (OpSetLimit ''llm:y'' 1) (runOp demoOpt (OpAcquire ((demoReq ''a'')\<lparr>rq_pools := [''llm:x'']\<rparr>))
     (runOp demoOpt (OpSetLimit ''llm:x'' 1) New))"

lemma check_alternates_open_witness:
  "snd (blockReasonLocked demoOpt demoAlt (poolsOnly [''llm:y''] False)) = []"
proof -
  let ?r = "(demoReq ''c'')\<lparr>rq_pools := [''llm:x'']\<rparr>"
  have e: "d_alternates (snd (Check demoOpt demoAlt ?r)) = [\<lparr>al_pool = ''llm:y'', al_node = [], al_model = []\<rparr>]"
    "rq_interactive ?r = False" by code_simp+
  then show ?thesis
    using check_alternates_open [of "\<lparr>al_pool = ''llm:y'', al_node = [], al_model = []\<rparr>" demoOpt demoAlt ?r] by simp
qed

section \<open>Snapshot\<close>

interpretation pool_name_order: strict_weak_order "\<lambda>a b. ps_name a < ps_name b"
  by unfold_locales auto

lemma snapshotWaiters_spec: "snapshotWaiters opt l ws = (l', ws') \<Longrightarrow> quiet opt l l'
    \<and> map core ws' = map (core \<circ> refreshWaiterLocked opt) ws
    \<and> (\<forall>w\<in>set ws'. w_reason w = [] \<longleftrightarrow> resolved opt l (w_req w) \<noteq> None)"
proof (induction ws arbitrary: l l' ws')
  case (Cons w ws)
  let ?w = "refreshWaiterLocked opt w"
  obtain l1 b why where r: "resolveLocked opt l (w_req ?w) = (l1, b, why)" using prod_cases3 by blast
  obtain l2 ws2 where s: "snapshotWaiters opt l1 ws = (l2, ws2)" by fastforce
  have q: "quiet opt l l1" by (rule resolve_quiet_pair [OF r])
  have "why = [] \<longleftrightarrow> resolved opt l (w_req ?w) \<noteq> None" using resolve_reason [of opt l "w_req ?w"] r by simp
  moreover have "l' = l2" "ws' = ?w\<lparr>w_reason := why\<rparr> # ws2" using Cons.prems r s by simp_all
  ultimately show ?case
    using Cons.IH [OF s, unfolded resolved_quiet [OF q]] quiet_trans [OF q] by (auto simp: core_def)
qed simp

lemma poolStatus_spec: "poolStatus opt l p = (l', s) \<Longrightarrow> quiet opt l l' \<and> ps_name s = p \<and> ps_limit s = limitOf l p
    \<and> ps_held s = heldLocked l p \<and> ps_external s = externalOf opt p
    \<and> int (ps_overflow s) = (case cutPrefix p ''node:'' of None \<Rightarrow> 0 | Some n \<Rightarrow> int (length (overflowLocked l n)))"
proof -
  assume s: "poolStatus opt l p = (l', s)"
  obtain l1 x where w: "rateWindowLocked l p (o_now opt) = (l1, x)" by (rule prod.exhaust)
  obtain l2 at where r: "rateResetLocked l1 p (o_now opt) = (l2, at)" by fastforce
  have "quiet opt l l2"
    using quiet_trans [of opt l l1 l2] rateReset_quiet [of opt l1 p] rateBlock_quiet [of opt l p] w r
    by (simp add: rateBlock_state)
  then show ?thesis
    using s w r by (auto simp: poolStatus_def Let_def case_prod_beta split: option.splits)
qed

lemma poolStatuses_spec: "poolStatuses opt l ps = (l', ss) \<Longrightarrow> quiet opt l l' \<and> map ps_name ss = ps
    \<and> (\<forall>s\<in>set ss. ps_limit s = limitOf l (ps_name s) \<and> ps_held s = heldLocked l (ps_name s)
         \<and> ps_external s = externalOf opt (ps_name s)
         \<and> int (ps_overflow s) = (case cutPrefix (ps_name s) ''node:'' of None \<Rightarrow> 0 | Some n \<Rightarrow> int (length (overflowLocked l n))))"
proof (induction ps arbitrary: l l' ss)
  case (Cons p ps)
  obtain l1 s where a: "poolStatus opt l p = (l1, s)" by fastforce
  obtain l2 ss2 where b: "poolStatuses opt l1 ps = (l2, ss2)" by fastforce
  note A = poolStatus_spec [OF a]
  then have q: "quiet opt l l1" by blast
  note B = Cons.IH [OF b, unfolded quiet_usage [OF q]]
  have "l' = l2" "ss = s # ss2" using Cons.prems a b by simp_all
  with A B quiet_trans [OF q] show ?case by simp
qed simp

text \<open>A snapshot grants nothing and reports the ledger as it is: no lease, number or grant changes
  and the queue keeps its order; the pools are listed once each, by name, every limited pool and
  every pool a lease names among them, with their limit, holders and overflow, and for a node pool
  the three figures add up to the count admission compares with the limit; a waiter is shown without
  a reason exactly when the next pass could grant it.\<close>

theorem snapshot_faithful:
  assumes "Snapshot opt l = (l', st)"
  shows "l_leases l' = l_leases l \<and> l_grants l' = l_grants l \<and> map w_seq (l_waiters l') = map w_seq (l_waiters l)
    \<and> sorted_wrt (<) (map ps_name (st_pools st))
    \<and> (\<forall>p. 0 < Limit l p \<longrightarrow> p \<in> set (map ps_name (st_pools st)))
    \<and> (\<forall>h ls p. LeaseOf l h = Some ls \<and> p \<in> set (ls_pools ls) \<longrightarrow> p \<in> set (map ps_name (st_pools st)))
    \<and> (\<forall>s\<in>set (st_pools st). ps_limit s = Limit l (ps_name s) \<and> ps_held s = heldLocked l (ps_name s)
        \<and> (hasPrefix (ps_name s) ''node:'' \<longrightarrow>
             ps_held s + int (ps_overflow s) + ps_external s = usedLocked opt l (ps_name s)))
    \<and> (\<forall>w\<in>set (l_waiters l'). w_reason w = [] \<longleftrightarrow> snd (snd (resolveLocked opt l (w_req w))) = [])"
proof -
  obtain l0 ws where sw: "snapshotWaiters opt l (l_waiters l) = (l0, ws)" by fastforce
  let ?l1 = "l0\<lparr>l_waiters := ws\<rparr>"
  let ?names = "remdups (mapKeys (l_limits ?l1) @ mapKeys (l_rates ?l1) @ concat (map (\<lambda>e. ls_pools (snd e)) (l_leases ?l1))
    @ concat (map (\<lambda>w. waiterPools ?l1 (w_req w)) ws))"
  obtain l2 pools where ps: "poolStatuses opt ?l1 ?names = (l2, pools)" by fastforce
  note W = snapshotWaiters_spec [OF sw] and P = poolStatuses_spec [OF ps]
  have q: "quiet opt l l0" and q2: "quiet opt ?l1 l2" using W P by blast+
  have l': "l' = l2" "st_pools st = sortSliceStable (\<lambda>a b. ps_name a < ps_name b) pools"
    using assms sw ps by (auto simp: Snapshot_def Let_def)
  have usage: "limitOf ?l1 = limitOf l" "heldLocked ?l1 = heldLocked l" "overflowLocked ?l1 = overflowLocked l"
    using usage_cong [of ?l1 l] by (simp_all add: quiet_fields [OF q])
  have names: "mset (map ps_name (st_pools st)) = mset ?names"
    using P l'(2) by (metis mset_map mset_sortSliceStable)
  then have "distinct (map ps_name (st_pools st))" by (metis distinct_remdups mset_eq_imp_distinct_iff)
  moreover have "sorted (map ps_name (st_pools st))"
    unfolding l'(2) sorted_map using pool_name_order.sorted_sort by (simp add: not_less)
  ultimately have srt: "sorted_wrt (<) (map ps_name (st_pools st))" by (simp add: strict_sorted_iff)
  have mem: "set (map ps_name (st_pools st)) = set ?names" using mset_eq_setD [OF names] .
  have lims: "p \<in> set ?names" if "0 < Limit l p" for p
    using that by (auto simp: Limit_def limitOf_def mapGetOr_def mapKeys_def quiet_fields [OF q] split: option.splits
        dest!: mapGet_mem intro!: rev_image_eqI)
  have leased: "p \<in> set ?names" if "LeaseOf l h = Some ls" "p \<in> set (ls_pools ls)" for h ls p
    using that by (force simp: LeaseOf_def quiet_fields [OF q] dest!: mapGet_mem)
  have figures: "ps_limit s = Limit l (ps_name s) \<and> ps_held s = heldLocked l (ps_name s)
      \<and> (hasPrefix (ps_name s) ''node:'' \<longrightarrow> ps_held s + int (ps_overflow s) + ps_external s = usedLocked opt l (ps_name s))"
    if "s \<in> set (st_pools st)" for s
    using P [unfolded usage] that l'(2) by (auto simp: Limit_def usedLocked_def dest!: hasPrefix_nodeD)
  have queue: "l_waiters l' = ws" using quiet_fields(3) [OF q2] l'(1) by simp
  have "map fst (map core ws) = map fst (map (core \<circ> refreshWaiterLocked opt) (l_waiters l))"
    using W by (simp only:)
  then have seqs: "map w_seq ws = map w_seq (l_waiters l)" by (simp add: core_def comp_def)
  have "l_leases l' = l_leases l" "l_grants l' = l_grants l"
    using quiet_fields(2,8) [OF q] quiet_fields(2,8) [OF q2] l'(1) by simp_all
  then show ?thesis
    using srt lims leased figures seqs W unfolding mem queue resolve_reason by blast
qed

lemma snapshot_faithful_witness:
  "''host'' \<in> set (map ps_name (st_pools (snd (Snapshot demoOpt demoFull))))"
  using snapshot_faithful [of demoOpt demoFull "fst (Snapshot demoOpt demoFull)" "snd (Snapshot demoOpt demoFull)"]
    demoFull_eval(5) by simp

end
