(* ===== verification/Pipeline.thy ===== *)
theory Pipeline
  imports Prelude "HOL-Library.Monad_Syntax"
begin

text \<open>
  \<open>internal/pipeline\<close>: a pipeline is a list of tasks that depend on each other by id (pipeline.go), and
  the executor drives it one tick at a time (executor.go).

  A task is reached by its id, as in the code: \<open>TaskByID\<close> is the first task with that id, and the
  marking operations change that one. \<open>DetectCycles\<close> is a depth-first search with three colours; its
  recursion and its walk back along the parents are given fuel, and running out of fuel is the value
  \<open>None\<close>, which \<open>Pipeline_DAG\<close> shows never happens. \<open>time.Now\<close> is an argument. The executor's session
  starter is outside the package; a tick takes what \<open>GetSessionState\<close> and \<open>StartSession\<close> answer.
\<close>

datatype State = StatePending | StateRunning | StateCompleted | StateFailed | StateCancelled

record Task =
  t_id :: string
  t_title :: string
  t_depends :: "string list"
  t_state :: State
  t_session :: string
  t_error :: string
  t_started :: "time option"
  t_completed :: "time option"

record Pipeline =
  p_id :: string
  p_name :: string
  p_dir :: string
  p_tasks :: "Task list"
  p_state :: State
  p_max :: int
  p_created :: time
  p_error :: string

section \<open>Cycle detection\<close>

datatype Color = White | Gray | Black

record dfsState =
  df_color :: "(string, Color) gomap"
  df_parent :: "(string, string) gomap"

definition colorOf :: "dfsState \<Rightarrow> string \<Rightarrow> Color" where
  "colorOf st v = mapGetOr White (df_color st) v"

definition setColor :: "string \<Rightarrow> Color \<Rightarrow> dfsState \<Rightarrow> dfsState" where
  "setColor v c st = st\<lparr>df_color := mapSet (df_color st) v c\<rparr>"

definition setParent :: "string \<Rightarrow> string \<Rightarrow> dfsState \<Rightarrow> dfsState" where
  "setParent v u st = st\<lparr>df_parent := mapSet (df_parent st) v u\<rparr>"

text \<open>The adjacency \<open>dep \<rightarrow>\<close> the tasks that depend on \<open>dep\<close>.\<close>

fun addDeps :: "string \<Rightarrow> string list \<Rightarrow> (string, string list) gomap \<Rightarrow> (string, string list) gomap" where
  "addDeps tid [] adj = adj"
| "addDeps tid (d # ds) adj = addDeps tid ds (mapSet adj d (mapGetOr [] adj d @ [tid]))"

fun buildAdj :: "Task list \<Rightarrow> (string, string list) gomap \<Rightarrow> (string, string list) gomap" where
  "buildAdj [] adj = adj"
| "buildAdj (t # ts) adj = buildAdj ts (addDeps (t_id t) (t_depends t) adj)"

text \<open>The loop over the successors of \<open>u\<close>; \<open>visit\<close> is the recursive call. The result is the state
  and, when a back edge was found, where the cycle starts and ends.\<close>

fun dfsLoop :: "(string \<Rightarrow> dfsState \<Rightarrow> (dfsState \<times> (string \<times> string) option) option) \<Rightarrow> string \<Rightarrow> string list
    \<Rightarrow> dfsState \<Rightarrow> (dfsState \<times> (string \<times> string) option) option" where
  "dfsLoop visit u [] st = Some (setColor u Black st, None)"
| "dfsLoop visit u (v # vs) st =
     (case colorOf st v of
        White \<Rightarrow> (case visit v (setParent v u st) of
                   None \<Rightarrow> None
                 | Some (st', Some c) \<Rightarrow> Some (st', Some c)
                 | Some (st', None) \<Rightarrow> dfsLoop visit u vs st')
      | Gray \<Rightarrow> Some (st, Some (v, u))
      | Black \<Rightarrow> dfsLoop visit u vs st)"

primrec dfs :: "nat \<Rightarrow> (string, string list) gomap \<Rightarrow> string \<Rightarrow> dfsState
    \<Rightarrow> (dfsState \<times> (string \<times> string) option) option" where
  "dfs 0 adj u st = None"
| "dfs (Suc n) adj u st = dfsLoop (dfs n adj) u (mapGetOr [] adj u) (setColor u Gray st)"

primrec walkBack :: "nat \<Rightarrow> (string, string) gomap \<Rightarrow> string \<Rightarrow> string \<Rightarrow> string list \<Rightarrow> string list option" where
  "walkBack 0 parent start n path = None"
| "walkBack (Suc k) parent start n path =
     (if n = start then Some path
      else case mapGet parent n of
        None \<Rightarrow> Some path
      | Some m \<Rightarrow> walkBack k parent start m (m # path))"

fun detectFrom :: "nat \<Rightarrow> (string, string list) gomap \<Rightarrow> Task list \<Rightarrow> dfsState \<Rightarrow> string list option option" where
  "detectFrom fuel adj [] st = Some None"
| "detectFrom fuel adj (t # ts) st =
     (if colorOf st (t_id t) = White then
        (case dfs fuel adj (t_id t) st of
           None \<Rightarrow> None
         | Some (st', Some (start, end)) \<Rightarrow> map_option Some (walkBack fuel (df_parent st') start end [end])
         | Some (st', None) \<Rightarrow> detectFrom fuel adj ts st')
      else detectFrom fuel adj ts st)"

text \<open>The fuel: one more than the number of tasks, since every node but the roots is a task and each
  call colours one white node.\<close>

definition DetectCycles :: "Task list \<Rightarrow> string list option option" where
  "DetectCycles tasks = detectFrom (Suc (length tasks)) (buildAdj tasks []) tasks \<lparr>df_color = [], df_parent = []\<rparr>"

definition arrow :: string where
  "arrow = [CHR 0x20, CHR 0xE2, CHR 0x86, CHR 0x92, CHR 0x20]"

fun formatCycle :: "string list \<Rightarrow> string" where
  "formatCycle [] = []"
| "formatCycle (c # cs) = c @ concat (map (\<lambda>n. arrow @ n) cs) @ arrow @ c"

section \<open>The pipeline\<close>

definition NewPipeline :: "string \<Rightarrow> string \<Rightarrow> Task list \<Rightarrow> int \<Rightarrow> time \<Rightarrow> (string + Pipeline) option" where
  "NewPipeline name dir tasks maxParallel now =
     (case DetectCycles tasks of
        None \<Rightarrow> None
      | Some (Some cycle) \<Rightarrow> Some (Inl (''circular dependency: '' @ formatCycle cycle))
      | Some None \<Rightarrow> Some (Inr
          \<lparr>p_id = ''pipe-'' @ itoa ((now - 62135596800 * second) div millisecond mod 100000), p_name = name, p_dir = dir,
           p_tasks = tasks, p_state = StatePending, p_max = (if maxParallel \<le> 0 then 3 else maxParallel),
           p_created = now, p_error = []\<rparr>))"

definition TaskByID :: "Pipeline \<Rightarrow> string \<Rightarrow> Task option" where
  "TaskByID p i = find (\<lambda>t. t_id t = i) (p_tasks p)"

fun updateTask :: "string \<Rightarrow> (Task \<Rightarrow> Task) \<Rightarrow> Task list \<Rightarrow> Task list" where
  "updateTask i f [] = []"
| "updateTask i f (t # ts) = (if t_id t = i then f t # ts else t # updateTask i f ts)"

definition completedIDs :: "Pipeline \<Rightarrow> string list" where
  "completedIDs p = map t_id (filter (\<lambda>t. t_state t = StateCompleted) (p_tasks p))"

definition ReadyTasks :: "Pipeline \<Rightarrow> Task list" where
  "ReadyTasks p = filter (\<lambda>t. t_state t = StatePending \<and> list_all (\<lambda>d. d \<in> set (completedIDs p)) (t_depends t)) (p_tasks p)"

definition RunningCount :: "Pipeline \<Rightarrow> int" where
  "RunningCount p = int (length (filter (\<lambda>t. t_state t = StateRunning) (p_tasks p)))"

definition MarkRunning :: "string \<Rightarrow> string \<Rightarrow> time \<Rightarrow> Pipeline \<Rightarrow> Pipeline" where
  "MarkRunning i sid now p =
     p\<lparr>p_tasks := updateTask i (\<lambda>t. t\<lparr>t_state := StateRunning, t_session := sid, t_started := Some now\<rparr>) (p_tasks p)\<rparr>"

definition MarkCompleted :: "string \<Rightarrow> time \<Rightarrow> Pipeline \<Rightarrow> Pipeline" where
  "MarkCompleted i now p =
     p\<lparr>p_tasks := updateTask i (\<lambda>t. t\<lparr>t_state := StateCompleted, t_completed := Some now\<rparr>) (p_tasks p)\<rparr>"

definition MarkFailed :: "string \<Rightarrow> string \<Rightarrow> time \<Rightarrow> Pipeline \<Rightarrow> Pipeline" where
  "MarkFailed i err now p =
     p\<lparr>p_tasks := updateTask i (\<lambda>t. t\<lparr>t_state := StateFailed, t_error := err, t_completed := Some now\<rparr>) (p_tasks p),
       p_state := StateFailed, p_error := ''task '' @ i @ '' failed: '' @ err\<rparr>"

definition IsComplete :: "Pipeline \<Rightarrow> bool" where
  "IsComplete p = list_all (\<lambda>t. t_state t = StateCompleted) (p_tasks p)"

definition Cancel :: "Pipeline \<Rightarrow> Pipeline" where
  "Cancel p =
     p\<lparr>p_tasks := map (\<lambda>t. if t_state t = StatePending then t\<lparr>t_state := StateCancelled\<rparr> else t) (p_tasks p),
       p_state := StateCancelled\<rparr>"

definition countState :: "State \<Rightarrow> Pipeline \<Rightarrow> string" where
  "countState s p = itoa (int (length (filter (\<lambda>t. t_state t = s) (p_tasks p))))"

definition Summary :: "Pipeline \<Rightarrow> string" where
  "Summary p = ''['' @ p_id p @ ''] '' @ p_name p @ '': '' @ itoa (int (length (p_tasks p))) @ '' tasks (''
     @ countState StateCompleted p @ '' done, '' @ countState StateRunning p @ '' running, ''
     @ countState StatePending p @ '' pending, '' @ countState StateFailed p @ '' failed)''"

section \<open>Parsing a specification\<close>

fun indexFrom :: "nat \<Rightarrow> string \<Rightarrow> string \<Rightarrow> nat option" where
  "indexFrom i [] sub = (if sub = [] then Some i else None)"
| "indexFrom i (c # cs) sub = (if take (length sub) (c # cs) = sub then Some i else indexFrom (Suc i) cs sub)"

text \<open>\<open>indexOf\<close> returns -1 when there is no match, here \<open>None\<close>.\<close>

definition indexOf :: "string \<Rightarrow> string \<Rightarrow> nat option" where
  "indexOf s sub = indexFrom 0 s sub"

definition isBlank :: "char \<Rightarrow> bool" where
  "isBlank c \<longleftrightarrow> c = CHR '' '' \<or> c = CHR 0x09"

definition trim :: "string \<Rightarrow> string" where
  "trim s = rev (dropWhile isBlank (rev (dropWhile isBlank s)))"

text \<open>With an empty separator the loop of \<open>splitOn\<close> would not end: that is the value \<open>None\<close>.\<close>

partial_function (option) splitOn :: "string \<Rightarrow> string \<Rightarrow> string list option" where
  "splitOn s sep = (case indexOf s sep of
     None \<Rightarrow> Some [trim s]
   | Some idx \<Rightarrow> do { rest \<leftarrow> splitOn (drop (idx + length sep) s) sep; Some (trim (take idx s) # rest) })"

declare splitOn.simps [code]

fun trySeparators :: "string \<Rightarrow> string list \<Rightarrow> string list \<Rightarrow> string list option" where
  "trySeparators spec parts [] = Some [spec]"
| "trySeparators spec parts (sep # seps) =
     (if length parts = 0 then
        do { ps \<leftarrow> splitOn spec sep;
             if length ps > 1 then Some ps else trySeparators spec ps seps }
      else trySeparators spec parts seps)"

definition splitPipelineSpec :: "string \<Rightarrow> string list option" where
  "splitPipelineSpec spec = trySeparators spec [] ['' -> '', arrow, '' | '']"

definition taskName :: "nat \<Rightarrow> string" where
  "taskName i = ''t'' @ itoa (int i)"

definition specTask :: "nat \<Rightarrow> string \<Rightarrow> Task" where
  "specTask i part = \<lparr>t_id = taskName (i + 1), t_title = part,
     t_depends = (if i > 0 then [taskName i] else []), t_state = StatePending,
     t_session = [], t_error = [], t_started = None, t_completed = None\<rparr>"

definition ParsePipelineSpec :: "string \<Rightarrow> Task list option" where
  "ParsePipelineSpec spec = map_option (\<lambda>parts. map2 specTask [0..<length parts] parts) (splitPipelineSpec spec)"

section \<open>The executor\<close>

text \<open>Why a turn of the executor's loop ends: it goes on to the next tick, or returns.\<close>

datatype TickEnd = KeepRunning | Stopped

text \<open>The check of the running tasks, task by task in list order; the list is read again at every
  task, since marking one changes it.\<close>

fun pollTasks :: "(string \<Rightarrow> string) \<Rightarrow> time \<Rightarrow> nat list \<Rightarrow> Pipeline \<Rightarrow> Pipeline \<times> TickEnd" where
  "pollTasks getState now [] p = (p, KeepRunning)"
| "pollTasks getState now (i # is) p =
     (let t = p_tasks p ! i
      in if t_state t = StateRunning \<and> t_session t \<noteq> [] then
           (let state = getState (t_session t)
            in if state = ''complete'' then pollTasks getState now is (MarkCompleted (t_id t) now p)
               else if state = ''failed'' \<or> state = ''killed''
                 then (MarkFailed (t_id t) (''session '' @ state) now p, Stopped)
               else pollTasks getState now is p)
         else pollTasks getState now is p)"

fun launchTasks :: "(Task \<Rightarrow> string + string) \<Rightarrow> time \<Rightarrow> int \<Rightarrow> Task list \<Rightarrow> Pipeline \<Rightarrow> Pipeline \<times> TickEnd" where
  "launchTasks start now running [] p = (p, KeepRunning)"
| "launchTasks start now running (t # ts) p =
     (if running \<ge> p_max p then (p, KeepRunning)
      else case start t of
        Inl err \<Rightarrow> (MarkFailed (t_id t) err now p, Stopped)
      | Inr sid \<Rightarrow> launchTasks start now (running + 1) ts (MarkRunning (t_id t) sid now p))"

text \<open>The quality gate at completion: \<open>None\<close> when gating is off or there is no baseline, otherwise
  whether the run is a regression, and its summary.\<close>

definition finishPipeline :: "(bool \<times> string) option \<Rightarrow> bool \<Rightarrow> Pipeline \<Rightarrow> Pipeline" where
  "finishPipeline gate blockOnRegression p =
     (case gate of
        Some (regression, summary) \<Rightarrow>
          if regression \<and> blockOnRegression
          then p\<lparr>p_state := StateFailed, p_error := ''quality_gate_regression: '' @ summary\<rparr>
          else p\<lparr>p_state := StateCompleted\<rparr>
      | None \<Rightarrow> p\<lparr>p_state := StateCompleted\<rparr>)"

text \<open>One turn of \<open>run\<close>: what the starter answers, the gate, and the clock.\<close>

definition runTick :: "(string \<Rightarrow> string) \<Rightarrow> (Task \<Rightarrow> string + string) \<Rightarrow> (bool \<times> string) option \<Rightarrow> bool \<Rightarrow> time
    \<Rightarrow> Pipeline \<Rightarrow> Pipeline \<times> TickEnd" where
  "runTick getState start gate block now p =
     (if p_state p \<noteq> StateRunning then (p, Stopped)
      else let (p1, e) = pollTasks getState now [0..<length (p_tasks p)] p
           in if e = Stopped then (p1, Stopped)
              else if IsComplete p1 then (finishPipeline gate block p1, Stopped)
              else launchTasks start now (RunningCount p1) (ReadyTasks p1) p1)"

record Executor =
  ex_pipelines :: "(string, Pipeline) gomap"

definition Start :: "Executor \<Rightarrow> Pipeline \<Rightarrow> (string list option \<times> Executor) option" where
  "Start e p =
     (case DetectCycles (p_tasks p) of
        None \<Rightarrow> None
      | Some (Some cycle) \<Rightarrow> Some (Some cycle, e)
      | Some None \<Rightarrow> Some (None, e\<lparr>ex_pipelines := mapSet (ex_pipelines e) (p_id p) (p\<lparr>p_state := StateRunning\<rparr>)\<rparr>))"

definition Get :: "Executor \<Rightarrow> string \<Rightarrow> Pipeline option" where
  "Get e i = mapGet (ex_pipelines e) i"

definition CancelPipeline :: "Executor \<Rightarrow> string \<Rightarrow> Executor \<times> bool" where
  "CancelPipeline e i =
     (case mapGet (ex_pipelines e) i of
        None \<Rightarrow> (e, False)
      | Some p \<Rightarrow> (e\<lparr>ex_pipelines := mapSet (ex_pipelines e) i (Cancel p)\<rparr>, True))"

end
