(* ===== verification/Pipeline_DAG.thy ===== *)
theory Pipeline_DAG
  imports Pipeline
begin

text \<open>
  The depth-first search of \<open>DetectCycles\<close>: it never runs out of fuel, a list it returns is a cycle of
  the dependency graph, and when it returns none the graph has no cycle. The search's invariants:
  black nodes are closed under successors and ranked by a strictly falling rank (\<open>calm\<close>), and the gray
  nodes are a path linked by the parent map (\<open>on_stack\<close>).
\<close>

section \<open>Invariants of the search\<close>

definition succs :: "(string, string list) gomap \<Rightarrow> string \<Rightarrow> string set" where
  "succs adj u = set (mapGetOr [] adj u)"

definition colored :: "dfsState \<Rightarrow> Color \<Rightarrow> string set" where
  "colored st c = {x. colorOf st x = c}"

definition calm :: "(string, string list) gomap \<Rightarrow> dfsState \<Rightarrow> bool" where
  "calm adj st \<longleftrightarrow> (\<exists>f :: string \<Rightarrow> nat. \<forall>x\<in>colored st Black. \<forall>y\<in>succs adj x. y \<in> colored st Black \<and> f y < f x)"

fun parentChain :: "(string, string list) gomap \<Rightarrow> dfsState \<Rightarrow> string list \<Rightarrow> bool" where
  "parentChain adj st (a # b # r) \<longleftrightarrow> mapGet (df_parent st) a = Some b \<and> a \<in> succs adj b \<and> parentChain adj st (b # r)"
| "parentChain adj st _ \<longleftrightarrow> True"

definition on_stack :: "(string, string list) gomap \<Rightarrow> string set \<Rightarrow> dfsState \<Rightarrow> string list \<Rightarrow> bool" where
  "on_stack adj N st stk \<longleftrightarrow> colored st Gray = set stk \<and> distinct stk \<and> set stk \<subseteq> N \<and> parentChain adj st stk"

text \<open>A back edge \<open>(v, u)\<close> found: the stack still links \<open>u\<close>, its head, back to \<open>v\<close>.\<close>

definition back_edge :: "(string, string list) gomap \<Rightarrow> string set \<Rightarrow> dfsState \<Rightarrow> string \<times> string \<Rightarrow> bool" where
  "back_edge adj N st c \<longleftrightarrow> (\<exists>stk. stk \<noteq> [] \<and> distinct stk \<and> set stk \<subseteq> N \<and> parentChain adj st stk \<and> snd c = hd stk
     \<and> fst c \<in> set stk \<and> fst c \<in> succs adj (snd c))"

definition visited :: "(string, string list) gomap \<Rightarrow> string set \<Rightarrow> dfsState \<Rightarrow> string list \<Rightarrow> string
    \<Rightarrow> dfsState \<times> (string \<times> string) option \<Rightarrow> bool" where
  "visited adj N st stk u r \<longleftrightarrow> (case r of
     (st', None) \<Rightarrow> calm adj st' \<and> on_stack adj N st' stk \<and> colored st Black \<subseteq> colored st' Black
        \<and> colored st' White \<subseteq> colored st White \<and> u \<in> colored st' Black
   | (st', Some c) \<Rightarrow> back_edge adj N st' c)"

lemma colorOf_setColor [simp]: "colorOf (setColor v c st) x = (if x = v then c else colorOf st x)"
  by (simp add: colorOf_def setColor_def)

lemma colorOf_setParent [simp]: "colorOf (setParent v u st) x = colorOf st x"
  by (simp add: colorOf_def setParent_def)

lemma colored_setParent [simp]: "colored (setParent v u st) c = colored st c"
  by (simp add: colored_def)

lemma parent_setColor [simp]: "df_parent (setColor v c st) = df_parent st"
  by (simp add: setColor_def)

lemma parentChain_setColor [simp]: "parentChain adj (setColor v c st) stk = parentChain adj st stk"
  by (induction adj st stk rule: parentChain.induct) simp_all

lemma parentChain_setParent: "v \<notin> set stk \<Longrightarrow> parentChain adj (setParent v u st) stk = parentChain adj st stk"
  by (induction adj st stk rule: parentChain.induct) (auto simp: setParent_def)

lemma parentChain_tl: "parentChain adj st (a # stk) \<Longrightarrow> parentChain adj st stk"
  by (cases stk) auto

text \<open>Colouring a finished node black keeps the ranking: its rank is above those of its successors.\<close>

lemma calm_finish:
  assumes "calm adj st" and "u \<notin> colored st Black" and "succs adj u \<subseteq> colored st Black"
  shows "calm adj (setColor u Black st)"
proof -
  obtain f :: "string \<Rightarrow> nat" where f: "\<forall>x\<in>colored st Black. \<forall>y\<in>succs adj x. y \<in> colored st Black \<and> f y < f x"
    using assms(1) by (auto simp: calm_def)
  let ?g = "f(u := Suc (Max (insert 0 (f ` succs adj u))))"
  have black: "colored (setColor u Black st) Black = insert u (colored st Black)"
    by (auto simp: colored_def)
  have fin: "finite (insert 0 (f ` succs adj u))" by (simp add: succs_def)
  have "f y < Suc (Max (insert 0 (f ` succs adj u)))" if "y \<in> succs adj u" for y
    using Max_ge [OF fin, of "f y"] that by (simp add: less_Suc_eq_le)
  then have "\<forall>x\<in>insert u (colored st Black). \<forall>y\<in>succs adj x. y \<in> insert u (colored st Black) \<and> ?g y < ?g x"
    using f assms(2,3) by (intro ballI) (auto simp: subset_iff)
  then show ?thesis unfolding calm_def black by blast
qed

lemma on_stack_gray: "on_stack adj N st stk \<Longrightarrow> x \<in> set stk \<longleftrightarrow> colorOf st x = Gray"
  by (auto simp: on_stack_def colored_def)

section \<open>One visit\<close>

lemma dfsLoop_visited:
  assumes visit: "\<And>v st1 r. v \<in> N \<Longrightarrow> colorOf st1 v = White \<Longrightarrow> calm adj st1 \<Longrightarrow> on_stack adj N st1 (u # stk) \<Longrightarrow>
      mapGet (df_parent st1) v = Some u \<Longrightarrow> v \<in> succs adj u \<Longrightarrow> visit v st1 = Some r \<Longrightarrow> visited adj N st1 (u # stk) v r"
    and nodes: "\<And>x. succs adj x \<subseteq> N"
    and "calm adj st" and "on_stack adj N st (u # stk)" and "set vs \<subseteq> succs adj u"
    and "succs adj u - set vs \<subseteq> colored st Black" and "dfsLoop visit u vs st = Some r"
  shows "visited adj N st stk u r"
  using assms(3-)
proof (induction vs arbitrary: st)
  case Nil
  have gray: "colored st Gray = insert u (set stk)" "u \<notin> set stk" using Nil by (auto simp: on_stack_def)
  have "u \<notin> colored st Black" using on_stack_gray [OF Nil(2), of u] by (simp add: colored_def)
  then have c: "calm adj (setColor u Black st)" using Nil by (intro calm_finish) auto
  have "colored (setColor u Black st) Gray = set stk"
    using gray by (auto simp: colored_def)
  then have "on_stack adj N (setColor u Black st) stk"
    using Nil by (auto simp: on_stack_def dest: parentChain_tl)
  with c Nil show ?case by (auto simp: visited_def colored_def)
next
  case (Cons v vs)
  have v: "v \<in> succs adj u" "v \<in> N" using Cons.prems nodes by auto
  show ?case
  proof (cases "colorOf st v")
    case White
    let ?st = "setParent v u st"
    have out: "v \<notin> set (u # stk)" using White on_stack_gray [OF Cons.prems(2), of v] by simp
    have stk: "on_stack adj N ?st (u # stk)"
      using Cons.prems(2) parentChain_setParent [OF out] by (simp add: on_stack_def)
    have calm1: "calm adj ?st" using Cons.prems(1) by (simp add: calm_def)
    obtain st' o' where r1: "visit v ?st = Some (st', o')" using White Cons.prems(5) by (auto split: option.splits)
    have V: "visited adj N ?st (u # stk) v (st', o')"
    proof (rule visit [OF v(2) _ calm1 stk _ v(1) r1])
      show "colorOf ?st v = White" using White by simp
      show "mapGet (df_parent ?st) v = Some u" by (simp add: setParent_def)
    qed
    show ?thesis
    proof (cases o')
      case (Some c)
      with White r1 Cons.prems(5) V show ?thesis by (auto simp: visited_def)
    next
      case None
      with White r1 Cons.prems(5) have rest: "dfsLoop visit u vs st' = Some r" by simp
      have "visited adj N st' stk u r"
        using V None Cons.prems(3,4) by (intro Cons.IH [OF _ _ _ _ rest]) (auto simp: visited_def)
      with V None show ?thesis by (auto simp: visited_def split: option.splits)
    qed
  next
    case Gray
    then have "back_edge adj N st (v, u)"
      using Cons.prems(2) v by (auto simp: back_edge_def on_stack_def colored_def intro!: exI [of _ "u # stk"])
    with Gray Cons.prems(5) show ?thesis by (auto simp: visited_def)
  next
    case Black
    then have "succs adj u - set vs \<subseteq> colored st Black" using Cons.prems(4) by (auto simp: colored_def)
    with Black Cons show ?thesis by simp
  qed
qed

lemma dfs_visited:
  assumes "\<And>x. succs adj x \<subseteq> N" and "u \<in> N" and "colorOf st u = White" and "calm adj st" and "on_stack adj N st stk"
    and "stk \<noteq> [] \<Longrightarrow> mapGet (df_parent st) u = Some (hd stk) \<and> u \<in> succs adj (hd stk)"
    and "dfs n adj u st = Some r"
  shows "visited adj N st stk u r"
  using assms(2-)
proof (induction n arbitrary: u st stk r)
  case (Suc n)
  let ?st = "setColor u Gray st"
  have out: "u \<notin> set stk" using Suc.prems(2) on_stack_gray [OF Suc.prems(4), of u] by simp
  have black: "colored ?st Black = colored st Black" "colored ?st White \<subseteq> colored st White"
    using Suc.prems(2) by (auto simp: colored_def)
  have "parentChain adj ?st (u # stk)" using Suc.prems(4,5) by (cases stk) (auto simp: on_stack_def)
  then have stk: "on_stack adj N ?st (u # stk)"
    using Suc.prems(1,4) out by (auto simp: on_stack_def colored_def)
  have calm1: "calm adj ?st" using Suc.prems(3) black(1) by (simp add: calm_def)
  have "visited adj N ?st stk u r"
  proof (rule dfsLoop_visited [OF _ assms(1) calm1 stk])
    show "dfsLoop (dfs n adj) u (mapGetOr [] adj u) ?st = Some r" using Suc.prems(6) by simp
    show "visited adj N st1 (u # stk) v r1"
      if "v \<in> N" "colorOf st1 v = White" "calm adj st1" "on_stack adj N st1 (u # stk)"
        "mapGet (df_parent st1) v = Some u" "v \<in> succs adj u" "dfs n adj v st1 = Some r1" for v st1 r1
      using Suc.IH [OF that(1-4) _ that(7)] that(5,6) by simp
  qed (auto simp: succs_def)
  then show ?case using black by (auto simp: visited_def split: option.splits)
qed simp

section \<open>Fuel\<close>

text \<open>A visit needs as much fuel as there are white nodes, and leaves no more of them.\<close>

definition whiteCount :: "string set \<Rightarrow> dfsState \<Rightarrow> nat" where
  "whiteCount N st = card (N \<inter> colored st White)"

lemma dfsLoop_total:
  assumes "\<And>v st1. v \<in> N \<Longrightarrow> colorOf st1 v = White \<Longrightarrow> whiteCount N st1 \<le> n \<Longrightarrow>
      \<exists>st2 c. visit v st1 = Some (st2, c) \<and> whiteCount N st2 \<le> whiteCount N st1"
    and "set vs \<subseteq> N" and "finite N" and "whiteCount N st \<le> n"
  shows "\<exists>st' c. dfsLoop visit u vs st = Some (st', c) \<and> whiteCount N st' \<le> whiteCount N st"
  using assms(2,4)
proof (induction vs arbitrary: st)
  case Nil
  have "whiteCount N (setColor u Black st) \<le> whiteCount N st"
    unfolding whiteCount_def using assms(3) by (intro card_mono) (auto simp: colored_def)
  then show ?case by simp
next
  case (Cons v vs)
  have wp: "whiteCount N (setParent v u st) = whiteCount N st" by (simp add: whiteCount_def)
  show ?case
  proof (cases "colorOf st v")
    case White
    then obtain st2 c where V: "visit v (setParent v u st) = Some (st2, c)" "whiteCount N st2 \<le> whiteCount N st"
      using assms(1) [of v "setParent v u st"] Cons.prems wp by auto
    show ?thesis
    proof (cases c)
      case None
      have "whiteCount N st2 \<le> n" using V(2) Cons.prems(2) by simp
      with Cons.IH [of st2] Cons.prems(1) White V None show ?thesis by fastforce
    next
      case (Some x)
      with White V show ?thesis by simp
    qed
  next
    case Gray
    then show ?thesis by simp
  next
    case Black
    then show ?thesis using Cons by simp
  qed
qed

lemma dfs_total:
  assumes "\<And>x. succs adj x \<subseteq> N" and "finite N" and "u \<in> N" and "colorOf st u = White" and "whiteCount N st \<le> n"
  shows "\<exists>st' c. dfs n adj u st = Some (st', c) \<and> whiteCount N st' \<le> whiteCount N st"
  using assms(3-)
proof (induction n arbitrary: u st)
  case 0
  then have "N \<inter> colored st White = {}" using assms(2) by (simp add: whiteCount_def)
  with 0 show ?case by (auto simp: colored_def)
next
  case (Suc n)
  let ?st = "setColor u Gray st"
  have "N \<inter> colored ?st White = N \<inter> colored st White - {u}" by (auto simp: colored_def)
  moreover have "u \<in> N \<inter> colored st White" using Suc.prems by (simp add: colored_def)
  ultimately have w: "whiteCount N ?st < whiteCount N st"
    unfolding whiteCount_def using assms(2) by (metis card_Diff1_less finite_Int)
  have "\<exists>st' c. dfsLoop (dfs n adj) u (mapGetOr [] adj u) ?st = Some (st', c) \<and> whiteCount N st' \<le> whiteCount N ?st"
    using assms(1) [of u] Suc.IH w Suc.prems(3) by (intro dfsLoop_total [OF _ _ assms(2)]) (auto simp: succs_def)
  with w show ?case by fastforce
qed

section \<open>The walk back\<close>

text \<open>From the head of a parent chain the walk follows the chain down to the start of the cycle.\<close>

lemma walkBack_chain:
  "parentChain adj st (pre @ v # post) \<Longrightarrow> v \<notin> set pre \<Longrightarrow> length pre < k \<Longrightarrow>
   walkBack k (df_parent st) v (hd (pre @ [v])) path = Some (rev (tl (pre @ [v])) @ path)"
proof (induction pre arbitrary: k path)
  case Nil
  then show ?case by (cases k) auto
next
  case (Cons a pre)
  obtain b r where b: "pre @ v # post = b # r" by (cases "pre @ v # post") auto
  have hb: "hd (pre @ [v]) = b" using b by (cases pre) auto
  have p: "mapGet (df_parent st) a = Some b" using Cons.prems(1) b by simp
  obtain k' where k: "k = Suc k'" using Cons.prems(3) by (cases k) auto
  have "walkBack k' (df_parent st) v b (b # path) = Some (rev (tl (pre @ [v])) @ b # path)"
    using Cons.IH [of k' "b # path"] Cons.prems k b hb by (auto simp: parentChain_tl)
  moreover have "rev (tl (pre @ [v])) @ b # path = rev (pre @ [v]) @ path"
    using hb by (cases pre) auto
  moreover have "a \<noteq> v" using Cons.prems(2) by auto
  ultimately show ?case by (simp add: k p)
qed

text \<open>A cycle of the graph: consecutive nodes and the last and first are linked.\<close>

definition isCycle :: "(string, string list) gomap \<Rightarrow> string list \<Rightarrow> bool" where
  "isCycle adj c \<longleftrightarrow> c \<noteq> [] \<and> distinct c \<and> successively (\<lambda>x y. y \<in> succs adj x) c \<and> hd c \<in> succs adj (last c)"

lemma chain_successively: "parentChain adj st stk \<Longrightarrow> successively (\<lambda>x y. y \<in> succs adj x) (rev stk)"
proof (induction adj st stk rule: parentChain.induct)
  case (1 adj st a b r)
  then show ?case by (simp add: successively_append_iff)
qed simp_all

lemma parentChain_prefix: "parentChain adj st (xs @ ys) \<Longrightarrow> parentChain adj st xs"
proof (induction xs)
  case (Cons a xs)
  show ?case
  proof (cases xs)
    case (Cons b r)
    then show ?thesis using Cons.prems Cons.IH by simp
  qed simp
qed simp

lemma back_edge_cycle:
  assumes "back_edge adj N st (v, u)" and "finite N" and "card N < k"
  shows "\<exists>c. walkBack k (df_parent st) v u [u] = Some c \<and> isCycle adj c"
proof -
  obtain stk where stk: "stk \<noteq> []" "distinct stk" "set stk \<subseteq> N" "parentChain adj st stk" "u = hd stk"
    "v \<in> set stk" "v \<in> succs adj u"
    using assms(1) by (auto simp: back_edge_def)
  obtain pre post where split: "stk = pre @ v # post" "v \<notin> set pre" using stk(6) by (meson split_list_first)
  have "length stk \<le> card N" using stk(2,3) assms(2) by (metis card_mono distinct_card)
  then have k: "length pre < k" using split assms(3) by simp
  have u: "u = hd (pre @ [v])" using stk(5) split by (cases pre) auto
  have "walkBack k (df_parent st) v u [u] = Some (rev (tl (pre @ [v])) @ [u])"
    using walkBack_chain [of adj st pre v post k "[u]"] stk(4) split k u by simp
  moreover have "rev (tl (pre @ [v])) @ [u] = rev (pre @ [v])" using u by (cases pre) auto
  moreover have "isCycle adj (rev (pre @ [v]))"
  proof -
    have "parentChain adj st ((pre @ [v]) @ post)" using stk(4) split(1) by simp
    from chain_successively [OF parentChain_prefix [OF this]]
    have "successively (\<lambda>x y. y \<in> succs adj x) (rev (pre @ [v]))" .
    moreover have "last (rev (pre @ [v])) = u" using u by (cases pre) auto
    ultimately show ?thesis using stk(2,7) split by (simp add: isCycle_def)
  qed
  ultimately show ?thesis by auto
qed

section \<open>The whole search\<close>

definition searched :: "(string, string list) gomap \<Rightarrow> dfsState \<Rightarrow> Task list \<Rightarrow> string list option \<Rightarrow> bool" where
  "searched adj st ts r \<longleftrightarrow> (case r of Some c \<Rightarrow> isCycle adj c
     | None \<Rightarrow> \<exists>st'. calm adj st' \<and> t_id ` set ts \<subseteq> colored st' Black \<and> colored st Black \<subseteq> colored st' Black)"

lemma searched_Cons:
  assumes "searched adj st' ts r" and "t_id t \<in> colored st' Black" and "colored st Black \<subseteq> colored st' Black"
  shows "searched adj st (t # ts) r"
proof (cases r)
  case None
  then obtain st2 where "calm adj st2" "t_id ` set ts \<subseteq> colored st2 Black" "colored st' Black \<subseteq> colored st2 Black"
    using assms(1) by (auto simp: searched_def)
  with assms(2,3) have "calm adj st2 \<and> t_id ` set (t # ts) \<subseteq> colored st2 Black \<and> colored st Black \<subseteq> colored st2 Black"
    by auto
  with None show ?thesis unfolding searched_def by auto
qed (use assms(1) in \<open>simp add: searched_def\<close>)

lemma detectFrom_correct:
  assumes nodes: "\<And>x. succs adj x \<subseteq> N" and fin: "finite N" and fuel: "card N < fuel"
    and "t_id ` set ts \<subseteq> N" and "calm adj st" and "on_stack adj N st []" and "whiteCount N st \<le> fuel"
  shows "\<exists>r. detectFrom fuel adj ts st = Some r \<and> searched adj st ts r"
  using assms(4-)
proof (induction ts arbitrary: st)
  case Nil
  then show ?case by (auto simp: searched_def)
next
  case (Cons t ts)
  let ?u = "t_id t"
  show ?case
  proof (cases "colorOf st ?u = White")
    case True
    have u: "?u \<in> N" using Cons.prems(1) by simp
    obtain st' c where d: "dfs fuel adj ?u st = Some (st', c)" "whiteCount N st' \<le> whiteCount N st"
      using dfs_total [OF nodes fin u True Cons.prems(4)] by blast
    have V: "visited adj N st [] ?u (st', c)"
      using dfs_visited [OF nodes u True Cons.prems(2,3) _ d(1)] by simp
    show ?thesis
    proof (cases c)
      case None
      with V have "calm adj st'" "on_stack adj N st' []" "?u \<in> colored st' Black" "colored st Black \<subseteq> colored st' Black"
        by (auto simp: visited_def)
      with Cons.IH [of st'] Cons.prems d(2) obtain r where "detectFrom fuel adj ts st' = Some r" "searched adj st (t # ts) r"
        using searched_Cons by fastforce
      with True d(1) None show ?thesis by simp
    next
      case (Some vu)
      obtain v w where vu: "vu = (v, w)" by (cases vu)
      with V Some have "back_edge adj N st' (v, w)" by (simp add: visited_def)
      from back_edge_cycle [OF this fin fuel] obtain cy where
        "walkBack fuel (df_parent st') v w [w] = Some cy" "isCycle adj cy" by blast
      with True d(1) Some vu show ?thesis by (simp add: searched_def)
    qed
  next
    case False
    have "colorOf st ?u \<noteq> Gray" using on_stack_gray [OF Cons.prems(3), of ?u] by simp
    with False have b: "?u \<in> colored st Black" by (cases "colorOf st ?u") (auto simp: colored_def)
    obtain r where "detectFrom fuel adj ts st = Some r" "searched adj st ts r"
      using Cons.IH [OF _ Cons.prems(2-)] Cons.prems(1) by auto
    with False b searched_Cons show ?thesis by (intro exI [of _ r]) auto
  qed
qed

lemma succs_addDeps: "succs (addDeps i ds adj) d = succs adj d \<union> (if d \<in> set ds then {i} else {})"
  by (induction ds arbitrary: adj) (auto simp: succs_def)

lemma succs_buildAdj: "succs (buildAdj ts adj) d = succs adj d \<union> {t_id t |t. t \<in> set ts \<and> d \<in> set (t_depends t)}"
  by (induction ts arbitrary: adj) (auto simp: succs_addDeps)

definition dependencies :: "Task list \<Rightarrow> (string \<times> string) set" where
  "dependencies tasks = {(d, t_id t) |t d. t \<in> set tasks \<and> d \<in> set (t_depends t)}"

lemma succs_tasks: "succs (buildAdj tasks []) d = {x. (d, x) \<in> dependencies tasks}"
  by (auto simp: succs_buildAdj dependencies_def) (simp add: succs_def mapGetOr_def)

lemma detectCycles_view:
  obtains r where "DetectCycles tasks = Some r"
    and "case r of Some c \<Rightarrow> isCycle (buildAdj tasks []) c | None \<Rightarrow> acyclic (dependencies tasks)"
proof -
  let ?N = "t_id ` set tasks" and ?adj = "buildAdj tasks []" and ?st = "\<lparr>df_color = [], df_parent = []\<rparr> :: dfsState"
  have nodes: "succs ?adj x \<subseteq> ?N" for x by (auto simp: succs_tasks dependencies_def)
  have card: "card ?N < Suc (length tasks)"
    by (metis card_image_le card_length finite_set le_trans less_Suc_eq_le)
  have white: "colorOf ?st x = White" for x by (simp add: colorOf_def mapGetOr_def)
  have calm0: "calm ?adj ?st" "on_stack ?adj ?N ?st []" by (simp_all add: calm_def on_stack_def colored_def white)
  have "whiteCount ?N ?st \<le> Suc (length tasks)"
    using card by (simp add: whiteCount_def colored_def white)
  from detectFrom_correct [OF nodes _ card order_refl calm0 this] obtain r where
    r: "DetectCycles tasks = Some r" "searched ?adj ?st tasks r" by (auto simp: DetectCycles_def)
  have "acyclic (dependencies tasks)" if none: "r = None"
  proof -
    obtain st' where st': "calm ?adj st'" "?N \<subseteq> colored st' Black" using r(2) none by (auto simp: searched_def)
    then obtain f :: "string \<Rightarrow> nat" where f: "\<forall>x\<in>colored st' Black. \<forall>y\<in>succs ?adj x. f y < f x"
      unfolding calm_def by blast
    have "f y < f x" if "(x, y) \<in> dependencies tasks" "x \<in> Range (dependencies tasks)" for x y
    proof -
      have "x \<in> ?N" using that(2) by (auto simp: dependencies_def)
      with f st'(2) that(1) show ?thesis by (auto simp: succs_tasks)
    qed
    then show ?thesis by (rule ranked_acyclic)
  qed
  with r that show ?thesis by (cases r) (auto simp: searched_def)
qed

end
