(* ===== verification/Pipeline_Properties.thy ===== *)
theory Pipeline_Properties
  imports Pipeline_DAG
begin

text \<open>
  The properties of pipelines: cycle detection, the absence of dead ends, the order and the bound the
  executor keeps, and what a specification parses to.
\<close>

section \<open>Cycles\<close>

lemma successively_nth: "successively R xs \<Longrightarrow> Suc i < length xs \<Longrightarrow> R (xs ! i) (xs ! Suc i)"
  by (simp add: successively_conv_nth)

lemma isCycle_nth:
  assumes "isCycle adj c" and "i < length c"
  shows "c ! (Suc i mod length c) \<in> succs adj (c ! i)"
proof (cases "Suc i < length c")
  case True
  then show ?thesis using assms(1) successively_nth [of _ c i] by (auto simp: isCycle_def)
next
  case False
  then have i: "Suc i = length c" "i = length c - 1" using assms(2) by simp_all
  moreover have "hd c = c ! 0" "last c = c ! (length c - 1)"
    using assms(1) by (simp_all add: isCycle_def hd_conv_nth last_conv_nth)
  ultimately show ?thesis using assms(1) by (simp add: isCycle_def)
qed

lemma isCycle_cyclic: "isCycle (buildAdj tasks []) c \<Longrightarrow> \<not> acyclic (dependencies tasks)"
proof -
  assume c: "isCycle (buildAdj tasks []) c"
  let ?R = "dependencies tasks"
  have walk: "(c ! 0, c ! i) \<in> ?R\<^sup>*" if "i < length c" for i
    using that
  proof (induction i)
    case (Suc i)
    then have "(c ! i, c ! Suc i) \<in> ?R" using isCycle_nth [OF c, of i] by (simp add: succs_tasks)
    with Suc show ?case by (simp add: rtrancl_into_rtrancl)
  qed simp
  have ne: "0 < length c" using c by (simp add: isCycle_def)
  have "(c ! (length c - 1), c ! 0) \<in> ?R" using isCycle_nth [OF c, of "length c - 1"] ne by (simp add: succs_tasks)
  moreover have "(c ! 0, c ! (length c - 1)) \<in> ?R\<^sup>*" using walk ne by simp
  ultimately show ?thesis unfolding acyclic_def by (meson rtrancl_into_trancl1)
qed

lemma detectCycles_none: "DetectCycles tasks = Some None \<longleftrightarrow> acyclic (dependencies tasks)"
proof -
  obtain r where "DetectCycles tasks = Some r"
    "case r of Some c \<Rightarrow> isCycle (buildAdj tasks []) c | None \<Rightarrow> acyclic (dependencies tasks)"
    using detectCycles_view by blast
  then show ?thesis using isCycle_cyclic by (auto split: option.splits)
qed

text \<open>C29. Cycle detection is total and exact: it always returns; it returns no cycle exactly when the
  dependency graph has none; and the path it returns is a simple cycle of dependencies, each task
  depending on the one before it and the first on the last.\<close>

theorem detectCycles_correct:
  "case DetectCycles tasks of
     None \<Rightarrow> False
   | Some None \<Rightarrow> acyclic {(d, t_id t) |t d. t \<in> set tasks \<and> d \<in> set (t_depends t)}
   | Some (Some c) \<Rightarrow> c \<noteq> [] \<and> distinct c \<and> (\<forall>i<length c. \<exists>t\<in>set tasks.
       t_id t = c ! (Suc i mod length c) \<and> c ! i \<in> set (t_depends t))"
proof -
  obtain r where r: "DetectCycles tasks = Some r"
    "case r of Some c \<Rightarrow> isCycle (buildAdj tasks []) c | None \<Rightarrow> acyclic (dependencies tasks)"
    using detectCycles_view by blast
  show ?thesis
  proof (cases r)
    case None
    with r show ?thesis by (simp add: dependencies_def)
  next
    case (Some c)
    with r have c: "isCycle (buildAdj tasks []) c" by simp
    have "\<exists>t\<in>set tasks. t_id t = c ! (Suc i mod length c) \<and> c ! i \<in> set (t_depends t)" if "i < length c" for i
      using isCycle_nth [OF c that] by (auto simp: succs_tasks dependencies_def)
    with c Some r(1) show ?thesis by (simp add: isCycle_def)
  qed
qed

definition demoTask :: "string \<Rightarrow> string list \<Rightarrow> State \<Rightarrow> Task" where
  "demoTask i ds s = \<lparr>t_id = i, t_title = i, t_depends = ds, t_state = s, t_session = [], t_error = [],
     t_started = None, t_completed = None\<rparr>"

lemma detectCycles_correct_witness:
  "DetectCycles [demoTask ''a'' [''c''] StatePending, demoTask ''b'' [''a''] StatePending, demoTask ''c'' [''b''] StatePending]
     = Some (Some [''a'', ''b'', ''c'']) \<and> distinct [''a'', ''b'', ''c'']"
proof -
  let ?ts = "[demoTask ''a'' [''c''] StatePending, demoTask ''b'' [''a''] StatePending, demoTask ''c'' [''b''] StatePending]"
  have "DetectCycles ?ts = Some (Some [''a'', ''b'', ''c''])" by code_simp
  with detectCycles_correct [of ?ts] show ?thesis by simp
qed


definition demoPipe :: "Task list \<Rightarrow> Pipeline" where
  "demoPipe ts = \<lparr>p_id = ''pipe-1'', p_name = ''demo'', p_dir = [], p_tasks = ts, p_state = StateRunning, p_max = 1,
     p_created = 0, p_error = []\<rparr>"


section \<open>The executor\<close>

text \<open>A task that runs or is done has its dependencies done; ids are distinct.\<close>

definition ordered :: "Pipeline \<Rightarrow> bool" where
  "ordered p \<longleftrightarrow> distinct (map t_id (p_tasks p))
     \<and> (\<forall>t\<in>set (p_tasks p). t_state t = StateRunning \<or> t_state t = StateCompleted \<longrightarrow>
          set (t_depends t) \<subseteq> set (completedIDs p))"

lemma mem_completedIDs: "x \<in> set (completedIDs p) \<longleftrightarrow> (\<exists>t\<in>set (p_tasks p). t_state t = StateCompleted \<and> t_id t = x)"
  by (auto simp: completedIDs_def)

lemma ordered_same: "ordered p \<Longrightarrow> x \<in> set (p_tasks p) \<Longrightarrow> y \<in> set (p_tasks p) \<Longrightarrow> t_id x = t_id y \<Longrightarrow> x = y"
  by (simp add: ordered_def distinct_map inj_on_def)

lemma updateTask_map: "distinct (map t_id ts) \<Longrightarrow> updateTask i f ts = map (\<lambda>t. if t_id t = i then f t else t) ts"
proof (induction ts)
  case (Cons t ts)
  then show ?case by (auto intro!: map_idI [symmetric] simp: image_iff)
qed simp

lemma length_filter_updateTask: "length (filter P (updateTask i f ts)) \<le> Suc (length (filter P ts))"
  by (induction ts) auto

lemma length_filter_updateTask_le: "(\<And>t. \<not> P (f t)) \<Longrightarrow> length (filter P (updateTask i f ts)) \<le> length (filter P ts)"
  by (induction ts) auto

text \<open>Replacing the state of one task keeps \<open>ordered\<close>, when no completed task stops being completed and
  a task that becomes running or completed has its dependencies done.\<close>

lemma ordered_update:
  assumes o: "ordered p" and f: "\<And>t. t_id (f t) = t_id t \<and> t_depends (f t) = t_depends t"
    and c: "\<And>t. t \<in> set (p_tasks p) \<Longrightarrow> t_id t = i \<Longrightarrow> t_state t = StateCompleted \<Longrightarrow> t_state (f t) = StateCompleted"
    and d: "\<And>t. t \<in> set (p_tasks p) \<Longrightarrow> t_id t = i \<Longrightarrow> t_state (f t) = StateRunning \<or> t_state (f t) = StateCompleted \<Longrightarrow>
        set (t_depends t) \<subseteq> set (completedIDs p)"
    and p': "p_tasks p' = updateTask i f (p_tasks p)"
  shows "ordered p' \<and> set (completedIDs p) \<subseteq> set (completedIDs p')"
proof -
  have up: "p_tasks p' = map (\<lambda>t. if t_id t = i then f t else t) (p_tasks p)"
    using o p' by (simp add: ordered_def updateTask_map)
  have ids: "map t_id (p_tasks p') = map t_id (p_tasks p)" by (simp add: up f)
  have kept: "set (completedIDs p) \<subseteq> set (completedIDs p')"
  proof
    fix x
    assume "x \<in> set (completedIDs p)"
    then obtain t where t: "t \<in> set (p_tasks p)" "t_state t = StateCompleted" "x = t_id t" by (auto simp: mem_completedIDs)
    let ?t = "if t_id t = i then f t else t"
    have "?t \<in> set (p_tasks p')" "t_state ?t = StateCompleted" "t_id ?t = x"
      using t c [of t] f [of t] by (auto simp: up)
    then show "x \<in> set (completedIDs p')" unfolding mem_completedIDs by blast
  qed
  have "set (t_depends t) \<subseteq> set (completedIDs p')"
    if mem: "t \<in> set (p_tasks p')" and st: "t_state t = StateRunning \<or> t_state t = StateCompleted" for t
  proof -
    obtain t0 where t0: "t0 \<in> set (p_tasks p)" "t = (if t_id t0 = i then f t0 else t0)" using mem unfolding up set_map by blast
    then have "set (t_depends t0) \<subseteq> set (completedIDs p)"
      using st o d [of t0] by (auto simp: ordered_def split: if_splits)
    with t0 f kept show ?thesis by (auto split: if_splits)
  qed
  with o kept show ?thesis unfolding ordered_def ids by blast
qed

lemma ordered_MarkCompleted:
  assumes "ordered p" and "t \<in> set (p_tasks p)" and "t_state t = StateRunning"
  shows "ordered (MarkCompleted (t_id t) now p)"
proof -
  have "set (t_depends x) \<subseteq> set (completedIDs p)" if "x \<in> set (p_tasks p)" "t_id x = t_id t" for x
    using ordered_same [OF assms(1) that(1) assms(2) that(2)] assms by (simp add: ordered_def)
  then show ?thesis
    by (intro conjunct1 [OF ordered_update [OF assms(1), where i = "t_id t"]]) (simp_all add: MarkCompleted_def)
qed

lemma ordered_MarkFailed:
  assumes "ordered p" and "t \<in> set (p_tasks p)" and "t_state t \<noteq> StateCompleted"
  shows "ordered (MarkFailed (t_id t) err now p)"
proof -
  have "t_state x \<noteq> StateCompleted" if "x \<in> set (p_tasks p)" "t_id x = t_id t" for x
    using ordered_same [OF assms(1) that(1) assms(2) that(2)] assms(3) by simp
  then show ?thesis
    by (intro conjunct1 [OF ordered_update [OF assms(1), where i = "t_id t"]]) (simp_all add: MarkFailed_def)
qed

lemma ordered_MarkRunning:
  assumes "ordered p" and "t \<in> set (p_tasks p)" and "t_state t = StatePending" and "set (t_depends t) \<subseteq> set (completedIDs p)"
  shows "ordered (MarkRunning (t_id t) sid now p) \<and> set (completedIDs p) \<subseteq> set (completedIDs (MarkRunning (t_id t) sid now p))"
proof -
  have "t_state x \<noteq> StateCompleted \<and> set (t_depends x) \<subseteq> set (completedIDs p)"
    if "x \<in> set (p_tasks p)" "t_id x = t_id t" for x
    using ordered_same [OF assms(1) that(1) assms(2) that(2)] assms(3,4) by simp
  then show ?thesis
    by (intro ordered_update [OF assms(1), where i = "t_id t"]) (simp_all add: MarkRunning_def)
qed

lemma pollTasks_ordered:
  assumes "ordered p" and "\<forall>i\<in>set is. i < length (p_tasks p)"
  shows "ordered (fst (pollTasks getState now is p)) \<and> RunningCount (fst (pollTasks getState now is p)) \<le> RunningCount p
    \<and> p_max (fst (pollTasks getState now is p)) = p_max p"
  using assms
proof (induction "is" arbitrary: p)
  case (Cons i "is")
  let ?t = "p_tasks p ! i"
  have t: "?t \<in> set (p_tasks p)" using Cons.prems(2) by simp
  let ?c = "MarkCompleted (t_id ?t) now p" and ?f = "MarkFailed (t_id ?t) (''session '' @ getState (t_session ?t)) now p"
  have len: "length (updateTask j g ts) = length ts" for j g ts by (induction ts) auto
  have c: "ordered ?c" if "t_state ?t = StateRunning"
    by (rule ordered_MarkCompleted [OF Cons.prems(1) t that])
  have f: "ordered ?f" if "t_state ?t = StateRunning"
    by (rule ordered_MarkFailed [OF Cons.prems(1) t]) (simp add: that)
  have r: "RunningCount ?c \<le> RunningCount p" "RunningCount ?f \<le> RunningCount p"
    by (simp_all add: RunningCount_def MarkCompleted_def MarkFailed_def length_filter_updateTask_le)
  have m: "p_max ?c = p_max p" "p_max ?f = p_max p" "length (p_tasks ?c) = length (p_tasks p)"
    by (simp_all add: MarkCompleted_def MarkFailed_def len)
  show ?case
    using Cons.IH [of p] Cons.IH [of ?c] Cons.prems c f r m by (auto simp: Let_def)
qed simp

lemma launchTasks_ordered:
  assumes "ordered p" and "distinct (map t_id ts)"
    and "\<forall>t\<in>set ts. t \<in> set (p_tasks p) \<and> t_state t = StatePending \<and> set (t_depends t) \<subseteq> set (completedIDs p)"
    and "RunningCount p \<le> running"
  shows "ordered (fst (launchTasks start now running ts p))
    \<and> RunningCount (fst (launchTasks start now running ts p)) \<le> max (RunningCount p) (p_max p)"
  using assms
proof (induction ts arbitrary: p running)
  case (Cons t ts)
  have t: "t \<in> set (p_tasks p)" "t_state t = StatePending" "set (t_depends t) \<subseteq> set (completedIDs p)"
    using Cons.prems(3) by auto
  show ?case
  proof (cases "running \<ge> p_max p")
    case True
    with Cons.prems(1) show ?thesis by simp
  next
    case False
    show ?thesis
    proof (cases "start t")
      case (Inl err)
      have "ordered (MarkFailed (t_id t) err now p)"
        by (rule ordered_MarkFailed [OF Cons.prems(1) t(1)]) (simp add: t(2))
      moreover have "RunningCount (MarkFailed (t_id t) err now p) \<le> RunningCount p"
        by (simp add: RunningCount_def MarkFailed_def length_filter_updateTask_le)
      ultimately show ?thesis using False Inl by simp
    next
      case (Inr sid)
      let ?p = "MarkRunning (t_id t) sid now p"
      have o: "ordered ?p \<and> set (completedIDs p) \<subseteq> set (completedIDs ?p)"
        by (rule ordered_MarkRunning [OF Cons.prems(1) t])
      have count: "RunningCount ?p \<le> RunningCount p + 1"
      proof -
        have "length (filter (\<lambda>t. t_state t = StateRunning) (p_tasks ?p))
            \<le> Suc (length (filter (\<lambda>t. t_state t = StateRunning) (p_tasks p)))"
          unfolding MarkRunning_def by (simp add: length_filter_updateTask)
        then show ?thesis unfolding RunningCount_def by linarith
      qed
      have kept: "x \<in> set (p_tasks ?p)" if "x \<in> set ts" for x
      proof -
        have "x \<in> set (p_tasks p)" "t_id x \<noteq> t_id t" using Cons.prems(2,3) that by (auto simp: image_iff)
        then show ?thesis using Cons.prems(1) by (force simp: MarkRunning_def ordered_def updateTask_map)
      qed
      have "ordered (fst (launchTasks start now (running + 1) ts ?p))
          \<and> RunningCount (fst (launchTasks start now (running + 1) ts ?p)) \<le> max (RunningCount ?p) (p_max ?p)"
      proof (rule Cons.IH)
        show "\<forall>x\<in>set ts. x \<in> set (p_tasks ?p) \<and> t_state x = StatePending \<and> set (t_depends x) \<subseteq> set (completedIDs ?p)"
          using Cons.prems(3) o kept by (meson list.set_intros(2) subset_trans)
      qed (use Cons.prems(2,4) o count in auto)
      moreover have "RunningCount ?p \<le> p_max p" using count Cons.prems(4) False by simp
      moreover have "p_max ?p = p_max p" by (simp add: MarkRunning_def)
      ultimately show ?thesis using False Inr by (simp add: le_max_iff_disj)
    qed
  qed
qed simp

text \<open>C31. A turn of the executor respects the graph and the bound: when ids are distinct and every task
  that runs or is done has its dependencies done, the same holds after the turn, whatever the session
  starter answers, and no more tasks run than the parallel limit allows or ran before.\<close>

theorem executor_tick_respects_graph:
  assumes "distinct (map t_id (p_tasks p))"
    and "\<forall>t\<in>set (p_tasks p). t_state t = StateRunning \<or> t_state t = StateCompleted \<longrightarrow>
          set (t_depends t) \<subseteq> set (completedIDs p)"
    and "runTick getState start gate block now p = (p', e)"
  shows "distinct (map t_id (p_tasks p'))
    \<and> (\<forall>t\<in>set (p_tasks p'). t_state t = StateRunning \<or> t_state t = StateCompleted \<longrightarrow>
          set (t_depends t) \<subseteq> set (completedIDs p'))
    \<and> RunningCount p' \<le> max (RunningCount p) (p_max p)"
proof -
  have o: "ordered p" using assms(1,2) by (simp add: ordered_def)
  let ?poll = "pollTasks getState now [0..<length (p_tasks p)] p" and ?p1 = "fst (pollTasks getState now [0..<length (p_tasks p)] p)"
  have P: "ordered ?p1" "RunningCount ?p1 \<le> RunningCount p" "p_max ?p1 = p_max p"
    using pollTasks_ordered [OF o, of "[0..<length (p_tasks p)]" getState now] by auto
  have F: "ordered (finishPipeline gate block ?p1)" "RunningCount (finishPipeline gate block ?p1) = RunningCount ?p1"
    using P(1) by (auto simp: finishPipeline_def ordered_def completedIDs_def RunningCount_def split: option.splits prod.splits)
  have "distinct (map t_id (ReadyTasks ?p1))" using P(1) by (simp add: ReadyTasks_def ordered_def distinct_map_filter)
  then have L: "ordered (fst (launchTasks start now (RunningCount ?p1) (ReadyTasks ?p1) ?p1))
      \<and> RunningCount (fst (launchTasks start now (RunningCount ?p1) (ReadyTasks ?p1) ?p1)) \<le> max (RunningCount ?p1) (p_max ?p1)"
    using P(1) by (intro launchTasks_ordered) (auto simp: ReadyTasks_def list_all_iff)
  have "ordered p' \<and> RunningCount p' \<le> max (RunningCount p) (p_max p)"
    using assms(3) o P F L by (auto simp: runTick_def Let_def case_prod_beta split: if_splits)
  then show ?thesis by (simp add: ordered_def)
qed

lemma executor_tick_respects_graph_witness:
  "RunningCount (fst (runTick (\<lambda>_. []) (\<lambda>t. Inr ''s1'') None False 5
      (demoPipe [demoTask ''a'' [] StatePending, demoTask ''b'' [] StatePending]))) \<le> 1"
proof -
  let ?p = "demoPipe [demoTask ''a'' [] StatePending, demoTask ''b'' [] StatePending]"
  have "RunningCount ?p = 0" "p_max ?p = 1" "distinct (map t_id (p_tasks ?p))"
    "list_all (\<lambda>t. t_state t = StatePending) (p_tasks ?p)" by code_simp+
  then show ?thesis
    using executor_tick_respects_graph [of ?p "\<lambda>_. []" "\<lambda>t. Inr ''s1''" None False 5
        "fst (runTick (\<lambda>_. []) (\<lambda>t. Inr ''s1'') None False 5 ?p)" "snd (runTick (\<lambda>_. []) (\<lambda>t. Inr ''s1'') None False 5 ?p)"]
    by (simp add: list_all_iff)
qed

section \<open>Specifications\<close>

lemma indexFrom_None: "CHR ''>'' \<notin> set s \<Longrightarrow> indexFrom i s '' -> '' = None"
proof (induction s arbitrary: i)
  case (Cons c s)
  have "take 4 (c # s) \<noteq> '' -> ''"
  proof
    assume "take 4 (c # s) = '' -> ''"
    then have "CHR ''>'' \<in> set (take 4 (c # s))" by simp
    with Cons.prems show False by (meson in_set_takeD)
  qed
  with Cons show ?case by (simp add: eval_nat_numeral)
qed simp

lemma take4_head: "take 4 (c # a @ '' -> '' @ r) \<noteq> '' -> ''" if "CHR ''>'' \<notin> set (c # a)"
  using that by (cases a; cases "tl a"; cases "tl (tl a)") auto

lemma indexFrom_sep: "CHR ''>'' \<notin> set a \<Longrightarrow> indexFrom i (a @ '' -> '' @ r) '' -> '' = Some (i + length a)"
proof (induction a arbitrary: i)
  case (Cons c a)
  then show ?case using take4_head [of c a r] by (simp add: eval_nat_numeral)
qed simp

lemma splitOn_sep:
  assumes "xs \<noteq> []" and "\<forall>x\<in>set xs. CHR ''>'' \<notin> set x"
  shows "splitOn (joinStr '' -> '' xs) '' -> '' = Some (map trim xs)"
  using assms
proof (induction "'' -> ''" xs rule: joinStr.induct)
  case (2 x)
  then show ?case by (subst splitOn.simps) (simp add: indexOf_def indexFrom_None)
next
  case (3 x y xs)
  have "indexOf (x @ '' -> '' @ joinStr '' -> '' (y # xs)) '' -> '' = Some (length x)"
    using 3 indexFrom_sep [of x 0] by (simp add: indexOf_def)
  with 3 show ?case by (subst splitOn.simps) simp
qed simp

lemma specTask_ids: "map t_id (map2 specTask [0..<length ps] ps) = map (\<lambda>i. taskName (Suc i)) [0..<length ps]"
  by (rule nth_equalityI) (simp_all add: specTask_def)

lemma taskName_inj: "taskName i = taskName j \<longleftrightarrow> i = j"
  by (simp add: taskName_def itoa_inj)

lemma spec_acyclic: "DetectCycles (map2 specTask [0..<length ps] ps) = Some None"
proof -
  let ?ts = "map2 specTask [0..<length ps] ps"
  have dep: "\<exists>i. d = taskName i \<and> x = taskName (Suc i)" if "(d, x) \<in> dependencies ?ts" for d x
    using that by (auto simp: dependencies_def specTask_def set_zip split: if_splits)
  let ?f = "\<lambda>x. length ps - (THE i. x = taskName i)"
  have val: "(THE i. taskName j = taskName i) = j" for j by (simp add: taskName_inj)
  have bound: "j \<le> length ps" if "(d, taskName j) \<in> dependencies ?ts" for d j
    using that by (auto simp: dependencies_def specTask_def set_zip taskName_inj)
  have "acyclic (dependencies ?ts)"
  proof (rule ranked_acyclic [where f = ?f])
    fix x y
    assume e: "(x, y) \<in> dependencies ?ts"
    then obtain i where i: "x = taskName i" "y = taskName (Suc i)" using dep by blast
    with bound [of x "Suc i"] e have "Suc i \<le> length ps" by simp
    with i show "?f y < ?f x" by (simp add: val)
  qed
  then show ?thesis by (simp add: detectCycles_none)
qed

text \<open>A specification of parts joined with the arrow \<open>->\<close>, none of which contains \<open>>\<close>, parses to a
  chain: one pending task per part, titled with the trimmed part, each depending on the one before,
  and the chain passes cycle detection.\<close>

theorem parse_spec_chain:
  assumes "2 \<le> length parts" and "\<forall>x\<in>set parts. CHR ''>'' \<notin> set x"
  shows "\<exists>ts. ParsePipelineSpec (joinStr '' -> '' parts) = Some ts \<and> map t_title ts = map trim parts
    \<and> (\<forall>i<length ts. t_state (ts ! i) = StatePending \<and> t_depends (ts ! i) = (if i = 0 then [] else [t_id (ts ! (i - 1))]))
    \<and> distinct (map t_id ts) \<and> DetectCycles ts = Some None"
proof -
  let ?ps = "map trim parts" and ?ts = "map2 specTask [0..<length (map trim parts)] (map trim parts)"
  have "splitPipelineSpec (joinStr '' -> '' parts) = Some ?ps"
  proof -
    have "splitOn (joinStr '' -> '' parts) '' -> '' = Some ?ps" using assms by (intro splitOn_sep) auto
    then show ?thesis using assms(1) by (simp add: splitPipelineSpec_def)
  qed
  then have p: "ParsePipelineSpec (joinStr '' -> '' parts) = Some ?ts" by (simp add: ParsePipelineSpec_def)
  moreover have "map t_title ?ts = ?ps" by (rule nth_equalityI) (simp_all add: specTask_def)
  moreover have "\<forall>i<length ?ts. t_state (?ts ! i) = StatePending
      \<and> t_depends (?ts ! i) = (if i = 0 then [] else [t_id (?ts ! (i - 1))])"
    by (simp add: specTask_def)
  moreover have "distinct (map t_id ?ts)"
    unfolding specTask_ids by (simp add: distinct_map inj_on_def taskName_inj)
  ultimately show ?thesis using spec_acyclic [of ?ps] by blast
qed

lemma parse_spec_chain_witness:
  "\<exists>ts. ParsePipelineSpec (joinStr '' -> '' [''lint'', ''test'', ''ship'']) = Some ts \<and> map t_title ts = map trim [''lint'', ''test'', ''ship'']"
  using parse_spec_chain [of "[''lint'', ''test'', ''ship'']"] by auto

text \<open>Only the first separator is ever tried: a specification that holds no \<open>>\<close>, whatever other
  separators it uses, parses to a single task titled with the whole text. The loop over the
  separators goes on only while no parts were found, and splitting always finds at least one.\<close>

theorem parse_spec_only_first_separator:
  assumes "CHR ''>'' \<notin> set spec"
  shows "\<exists>t. ParsePipelineSpec spec = Some [t] \<and> t_title t = spec \<and> t_depends t = []"
proof -
  have "splitOn spec '' -> '' = Some [trim spec]" using splitOn_sep [of "[spec]"] assms by simp
  then have "splitPipelineSpec spec = Some [spec]" by (simp add: splitPipelineSpec_def)
  then show ?thesis by (simp add: ParsePipelineSpec_def specTask_def)
qed

lemma parse_spec_only_first_separator_witness:
  "\<exists>t. ParsePipelineSpec ''lint | test'' = Some [t] \<and> t_title t = ''lint | test''"
  using parse_spec_only_first_separator [of "''lint | test''"] by auto

end
