(* ===== verification/Quality_Gate.thy ===== *)
theory Quality_Gate
  imports Pipeline
begin

text \<open>
  \<open>internal/pipeline/quality.go\<close>: the test regression gate. A test run is parsed into failing test names, and the
  gate compares a baseline run with the current one by name and re-runs what newly fails once.

  Running a command is outside the package's logic: the argument \<open>sh\<close> says for a command whether it could be
  started, and its output and how it ended. Everything computed from that is modelled: \<open>RunTests\<close> from there on, the
  parsers of \<open>go test\<close> and \<open>node --test\<close> output, the comparison, the command of the confirming re-run and the gate.
  The wall-clock fields of a result (\<open>RunAt\<close>, \<open>Duration\<close>) and \<open>ScopePlan\<close>, which this file never sets, are left out.
  Strings are bytes; the multi-byte spaces of \<open>strings.TrimSpace\<close> and \<open>strings.Fields\<close> are their UTF-8 encodings.
\<close>

section \<open>The strings package\<close>

definition spaces :: "string list" where
  "spaces = [[CHR 0x09], [CHR 0x0A], [CHR 0x0B], [CHR 0x0C], [CHR 0x0D], [CHR 0x20],
     [CHR 0xC2, CHR 0x85], [CHR 0xC2, CHR 0xA0], [CHR 0xE1, CHR 0x9A, CHR 0x80],
     [CHR 0xE2, CHR 0x80, CHR 0x80], [CHR 0xE2, CHR 0x80, CHR 0x81], [CHR 0xE2, CHR 0x80, CHR 0x82],
     [CHR 0xE2, CHR 0x80, CHR 0x83], [CHR 0xE2, CHR 0x80, CHR 0x84], [CHR 0xE2, CHR 0x80, CHR 0x85],
     [CHR 0xE2, CHR 0x80, CHR 0x86], [CHR 0xE2, CHR 0x80, CHR 0x87], [CHR 0xE2, CHR 0x80, CHR 0x88],
     [CHR 0xE2, CHR 0x80, CHR 0x89], [CHR 0xE2, CHR 0x80, CHR 0x8A], [CHR 0xE2, CHR 0x80, CHR 0xA8],
     [CHR 0xE2, CHR 0x80, CHR 0xA9], [CHR 0xE2, CHR 0x80, CHR 0xAF], [CHR 0xE2, CHR 0x81, CHR 0x9F],
     [CHR 0xE3, CHR 0x80, CHR 0x80]]"

definition leading :: "string list \<Rightarrow> string \<Rightarrow> string option" where
  "leading ps s = find (\<lambda>p. p \<noteq> [] \<and> hasPrefix s p) ps"

lemma leading_shorter: "leading ps s = Some p \<Longrightarrow> length (drop (length p) s) < length s"
  by (auto simp: leading_def find_Some_iff hasPrefix_def) (metis diff_less length_greater_0_conv take_Nil)

function trimBy :: "string list \<Rightarrow> string \<Rightarrow> string" where
  "trimBy ps s = (case leading ps s of None \<Rightarrow> s | Some p \<Rightarrow> trimBy ps (drop (length p) s))"
  by pat_completeness auto
termination by (relation "measure (\<lambda>(ps, s). length s)") (auto dest: leading_shorter)

declare trimBy.simps [simp del]

definition TrimSpace :: "string \<Rightarrow> string" where
  "TrimSpace s = rev (trimBy (map rev spaces) (rev (trimBy spaces s)))"

function fieldsFrom :: "string \<Rightarrow> string \<Rightarrow> string list" where
  "fieldsFrom [] cur = (if cur = [] then [] else [cur])"
| "fieldsFrom (c # cs) cur =
    (case leading spaces (c # cs) of
       Some p \<Rightarrow> (if cur = [] then [] else [cur]) @ fieldsFrom (drop (length p) (c # cs)) []
     | None \<Rightarrow> fieldsFrom cs (cur @ [c]))"
  by pat_completeness auto
termination by (relation "measure (\<lambda>(s, cur). length s)") (auto dest: leading_shorter)

declare fieldsFrom.simps(2) [simp del]

definition Fields :: "string \<Rightarrow> string list" where
  "Fields s = fieldsFrom s []"

definition trimRightChars :: "string \<Rightarrow> string \<Rightarrow> string" where
  "trimRightChars cs s = rev (dropWhile (\<lambda>c. c \<in> set cs) (rev s))"

definition containsStr :: "string \<Rightarrow> string \<Rightarrow> bool" where
  "containsStr s sub \<longleftrightarrow> indexOf s sub \<noteq> None"

fun lastIndexFrom :: "nat \<Rightarrow> string \<Rightarrow> string \<Rightarrow> nat option \<Rightarrow> nat option" where
  "lastIndexFrom i [] sub best = (if sub = [] then Some i else best)"
| "lastIndexFrom i (c # cs) sub best =
    lastIndexFrom (Suc i) cs sub (if hasPrefix (c # cs) sub then Some i else best)"

definition lastIndexOf :: "string \<Rightarrow> string \<Rightarrow> nat option" where
  "lastIndexOf s sub = lastIndexFrom 0 s sub None"

text \<open>The classes \<open>\s\<close> and \<open>\d\<close> of the regular expressions.\<close>

definition reSpace :: "char \<Rightarrow> bool" where
  "reSpace c \<longleftrightarrow> c \<in> {CHR 0x09, CHR 0x0A, CHR 0x0C, CHR 0x0D, CHR 0x20}"

definition reDigit :: "char \<Rightarrow> bool" where
  "reDigit c \<longleftrightarrow> (of_char c :: nat) \<in> {48..57}"

section \<open>Results\<close>

record QualityGateConfig =
  qc_enabled :: bool
  qc_command :: string
  qc_timeout :: int
  qc_block :: bool
  qc_scope :: string
  qc_smoke :: "string list"

definition EffectiveTimeout :: "QualityGateConfig \<Rightarrow> int" where
  "EffectiveTimeout c = (if qc_timeout c > 0 then qc_timeout c else 300)"

record TestResult =
  te_command :: string
  te_exit :: int
  te_output :: string
  te_pass :: int
  te_fail :: int
  te_failed :: "string list"
  te_packages :: "string list"
  te_found :: int
  te_timedOut :: bool

record QualityGateResult =
  qg_baseline :: TestResult
  qg_current :: TestResult
  qg_newFailures :: int
  qg_regression :: bool
  qg_improved :: bool
  qg_summary :: string
  qg_failing :: "string list"
  qg_newNames :: "string list"
  qg_invalid :: bool
  qg_reason :: string

section \<open>Parsing test output\<close>

record goTestFailure =
  gf_pkg :: string
  gf_test :: string

definition failureString :: "goTestFailure \<Rightarrow> string" where
  "failureString f =
    (if gf_test f = [] then gf_pkg f else if gf_pkg f = [] then gf_test f else gf_pkg f @ ''.'' @ gf_test f)"

text \<open>The submatch of \<open>^\s*--- FAIL: (\S+)\<close>.\<close>

definition failTestName :: "string \<Rightarrow> string option" where
  "failTestName line =
    (case cutPrefix (dropWhile reSpace line) ''--- FAIL: '' of
       None \<Rightarrow> None
     | Some r \<Rightarrow> (let n = takeWhile (\<lambda>c. \<not> reSpace c) r in if n = [] then None else Some n))"

definition failTab :: string where "failTab = ''FAIL'' @ [CHR 0x09]"

fun goFailures :: "string list \<Rightarrow> string list \<Rightarrow> goTestFailure list \<Rightarrow> goTestFailure list" where
  "goFailures [] pending out = out @ map (\<lambda>t. \<lparr>gf_pkg = [], gf_test = t\<rparr>) pending"
| "goFailures (raw # raws) pending out =
    (let line = trimRightChars [CHR 0x0D] raw
     in case failTestName line of
          Some t \<Rightarrow> goFailures raws (pending @ [t]) out
        | None \<Rightarrow>
           if \<not> hasPrefix line failTab then goFailures raws pending out
           else case Fields (trimPrefix line failTab) of
                  [] \<Rightarrow> goFailures raws pending out
                | pkg # _ \<Rightarrow>
                   if pending = [] then goFailures raws [] (out @ [\<lparr>gf_pkg = pkg, gf_test = []\<rparr>])
                   else goFailures raws [] (out @ map (\<lambda>t. \<lparr>gf_pkg = pkg, gf_test = t\<rparr>) pending))"

definition parseGoTestFailures :: "string \<Rightarrow> goTestFailure list" where
  "parseGoTestFailures s = goFailures (splitChar (CHR 0x0A) s) [] []"

definition FailingTests :: "string \<Rightarrow> string list" where
  "FailingTests s = map failureString (parseGoTestFailures s)"

text \<open>\<open>^ok\s+\d+(\s|$)\<close> and \<open>^not ok\s+\d+\<close>.\<close>

definition afterNumber :: "string \<Rightarrow> string option" where
  "afterNumber r =
    (let rest = dropWhile reSpace r; n = takeWhile reDigit rest
     in if rest = r \<or> n = [] then None else Some (dropWhile reDigit rest))"

definition nodeOKLine :: "string \<Rightarrow> bool" where
  "nodeOKLine line =
    (case cutPrefix line ''ok'' of
       None \<Rightarrow> False
     | Some r \<Rightarrow> (case afterNumber r of None \<Rightarrow> False | Some t \<Rightarrow> t = [] \<or> reSpace (hd t)))"

definition nodeFailLine :: "string \<Rightarrow> bool" where
  "nodeFailLine line =
    (case cutPrefix line ''not ok'' of None \<Rightarrow> False | Some r \<Rightarrow> afterNumber r \<noteq> None)"

definition nodeTestName :: "string \<Rightarrow> string" where
  "nodeTestName line =
    (let name = TrimSpace line;
         name1 = (case indexOf name '' - '' of
                    Some i \<Rightarrow> TrimSpace (drop (i + 3) name)
                  | None \<Rightarrow> dropWhile (\<lambda>c. c \<in> set (''0123456789 '' @ [CHR 0x09])) (TrimSpace (trimPrefix name ''not ok'')));
         name2 = (case indexOf name1 '' ['' of Some i \<Rightarrow> take i name1 | None \<Rightarrow> name1)
     in TrimSpace name2)"

definition crossMark :: string where "crossMark = [CHR 0xE2, CHR 0x9C, CHR 0x96]"

definition crossName :: "string \<Rightarrow> string" where
  "crossName line =
    (let name = TrimSpace (trimPrefix line crossMark)
     in case lastIndexOf name '' ('' of Some i \<Rightarrow> TrimSpace (take i name) | None \<Rightarrow> name)"

text \<open>\<open>addFailed\<close> keeps the failing names distinct and says whether the name is new.\<close>

definition addFailed :: "string \<Rightarrow> TestResult \<Rightarrow> TestResult \<times> bool" where
  "addFailed name r =
    (if name = [] \<or> name \<in> set (te_failed r) then (r, False) else (r\<lparr>te_failed := te_failed r @ [name]\<rparr>, True))"

definition countFound :: "TestResult \<times> bool \<Rightarrow> TestResult" where
  "countFound p = (if snd p then (fst p)\<lparr>te_found := te_found (fst p) + 1\<rparr> else fst p)"

fun addGoFailures :: "goTestFailure list \<Rightarrow> TestResult \<Rightarrow> TestResult" where
  "addGoFailures [] r = r"
| "addGoFailures (f # fs) r =
    addGoFailures fs
      (case addFailed (failureString f) r of
         (r1, False) \<Rightarrow> r1
       | (r1, True) \<Rightarrow>
          if gf_test f = [] then r1\<lparr>te_packages := te_packages r1 @ [failureString f]\<rparr>
          else r1\<lparr>te_found := te_found r1 + 1\<rparr>)"

definition parseLine :: "string \<Rightarrow> TestResult \<Rightarrow> TestResult" where
  "parseLine raw r =
    (let line = TrimSpace raw
     in if hasPrefix line ''--- PASS:'' \<or> nodeOKLine line \<or> hasPrefix line (''ok'' @ [CHR 0x09]) \<or> hasPrefix line ''ok  ''
        then r\<lparr>te_pass := te_pass r + 1, te_found := te_found r + 1\<rparr>
        else if nodeFailLine line then countFound (addFailed (nodeTestName line) r)
        else if hasPrefix line crossMark then countFound (addFailed (crossName line) r)
        else r)"

definition parseTestOutput :: "TestResult \<Rightarrow> TestResult" where
  "parseTestOutput r =
    (let r1 = addGoFailures (parseGoTestFailures (te_output r)) r;
         r2 = fold parseLine (splitChar (CHR 0x0A) (te_output r1)) r1
     in r2\<lparr>te_fail := int (length (te_failed r2))\<rparr>)"

section \<open>Running\<close>

datatype RunEnd = ExitOK | ExitCode int | DeadlineExceeded | OtherError

datatype ShOutcome = NotStarted string | Ran string RunEnd

definition emptyResult :: "string \<Rightarrow> TestResult" where
  "emptyResult command = \<lparr>te_command = command, te_exit = 0, te_output = [], te_pass = 0, te_fail = 0, te_failed = [],
     te_packages = [], te_found = 0, te_timedOut = False\<rparr>"

definition timeoutNote :: string where
  "timeoutNote = [CHR 0x0A] @ ''[timeout] the command was killed after it did not finish in time'' @ [CHR 0x0A]"

definition RunTests :: "(string \<Rightarrow> ShOutcome) \<Rightarrow> string \<Rightarrow> TestResult" where
  "RunTests sh command =
    (let r = emptyResult command;
         trimmed = TrimSpace command
     in if trimmed = [] then r\<lparr>te_exit := - 1, te_output := ''empty test command''\<rparr>
        else case sh trimmed of
               NotStarted reason \<Rightarrow> r\<lparr>te_exit := - 1, te_output := reason\<rparr>
             | Ran out end \<Rightarrow>
                parseTestOutput
                  (case end of
                     ExitOK \<Rightarrow> r\<lparr>te_output := out\<rparr>
                   | ExitCode c \<Rightarrow> r\<lparr>te_output := out, te_exit := c\<rparr>
                   | DeadlineExceeded \<Rightarrow> r\<lparr>te_output := out @ timeoutNote, te_exit := - 1, te_timedOut := True\<rparr>
                   | OtherError \<Rightarrow> r\<lparr>te_output := out, te_exit := - 1\<rparr>))"

section \<open>Comparison\<close>

definition testLevelFailures :: "TestResult \<Rightarrow> int" where
  "testLevelFailures r = int (length (filter (\<lambda>n. n \<notin> set (te_packages r)) (te_failed r)))"

definition ClassifyBaseline :: "TestResult \<Rightarrow> bool \<times> string" where
  "ClassifyBaseline r =
    (if te_exit r = - 1 then
       (if te_timedOut r then (False, ''the test command timed out and was killed before finishing'')
        else (False, ''the test command could not be started''))
     else if te_exit r \<noteq> 0 \<and> testLevelFailures r = 0 then
       (False, ''the test run ended with an error but did not report any failing test (command, build or environment problem)'')
     else if te_found r = 0 then (False, ''no tests were found in the test output'')
     else (True, []))"

definition invalidGate :: "QualityGateResult \<Rightarrow> string \<Rightarrow> string \<Rightarrow> QualityGateResult" where
  "invalidGate q reason summary =
    q\<lparr>qg_invalid := True, qg_reason := reason, qg_regression := False, qg_summary := ''gate invalid: '' @ summary\<rparr>"

definition emptyGate :: "TestResult \<Rightarrow> TestResult \<Rightarrow> QualityGateResult" where
  "emptyGate baseline current = \<lparr>qg_baseline = baseline, qg_current = current, qg_newFailures = 0, qg_regression = False,
     qg_improved = False, qg_summary = [], qg_failing = [], qg_newNames = [], qg_invalid = False, qg_reason = []\<rparr>"

definition countLine :: "string \<Rightarrow> string list \<Rightarrow> string \<Rightarrow> TestResult \<Rightarrow> TestResult \<Rightarrow> string" where
  "countLine head names middle baseline current =
    head @ itoa (int (length names)) @ middle @ joinStr '', '' names @ '' (failures '' @
    itoa (int (length (te_failed baseline))) @ arrow @ itoa (int (length (te_failed current))) @ '')''"

definition CompareResults :: "TestResult \<Rightarrow> TestResult \<Rightarrow> QualityGateResult" where
  "CompareResults baseline current =
    (let q = emptyGate baseline current
     in case ClassifyBaseline baseline of
          (False, reason) \<Rightarrow> invalidGate q reason reason
        | (True, _) \<Rightarrow>
           (case ClassifyBaseline current of
              (False, reason) \<Rightarrow> invalidGate q reason (''current run could not be compared - '' @ reason)
            | (True, _) \<Rightarrow>
               (let newNames = filter (\<lambda>n. n \<notin> set (te_failed baseline)) (te_failed current);
                    fixedNames = filter (\<lambda>n. n \<notin> set (te_failed current)) (te_failed baseline);
                    q1 = q\<lparr>qg_newNames := newNames, qg_newFailures := int (length newNames)\<rparr>
                in if newNames \<noteq> [] then
                     q1\<lparr>qg_regression := True,
                        qg_summary := countLine ''REGRESSION: '' newNames '' new failing test(s) not in baseline: '' baseline current\<rparr>
                   else if fixedNames \<noteq> [] then
                     q1\<lparr>qg_improved := True,
                        qg_summary := countLine ''IMPROVED: '' fixedNames '' previously failing test(s) now pass: '' baseline current\<rparr>
                   else
                     q1\<lparr>qg_summary := ''STABLE: '' @ itoa (te_pass current) @ '' pass, '' @ itoa (te_fail current) @ '' fail (unchanged)''\<rparr>)))"

section \<open>The confirming re-run\<close>

definition isPlainGoTest :: "string \<Rightarrow> bool" where
  "isPlainGoTest command =
    (if (\<exists>c\<in>set command. c \<in> set (''&|;<>`'' @ [CHR 0x0A])) \<or> containsStr command ''$('' then False
     else case Fields command of
            f0 # f1 # _ \<Rightarrow> f0 = ''go'' \<and> f1 = ''test''
          | _ \<Rightarrow> False)"

definition commandPackages :: "string \<Rightarrow> string list" where
  "commandPackages command =
    filter (\<lambda>a. \<not> hasPrefix a ''-'' \<and> (hasPrefix a ''.'' \<or> containsStr a ''/'')) (drop 2 (Fields command))"

definition quoteMeta :: "string \<Rightarrow> string" where
  "quoteMeta s = concat (map (\<lambda>c. if c \<in> set (CHR 0x5C # ''.+*?()|[]{}^$'') then [CHR 0x5C, c] else [c]) s)"

definition shellQuote :: "string \<Rightarrow> string" where
  "shellQuote s =
    CHR 0x27 # concat (map (\<lambda>c. if c = CHR 0x27 then [CHR 0x27, CHR 0x5C, CHR 0x27, CHR 0x27] else [c]) s) @ [CHR 0x27]"

text \<open>The loop over the failures of the current run: \<open>None\<close> when a wanted one is a whole package.\<close>

fun narrow :: "string list \<Rightarrow> goTestFailure list \<Rightarrow> nat \<times> string list \<times> string list \<Rightarrow> (nat \<times> string list \<times> string list) option" where
  "narrow want [] acc = Some acc"
| "narrow want (f # fs) (matched, tops, pkgs) =
    (if failureString f \<notin> set want then narrow want fs (matched, tops, pkgs)
     else if gf_test f = [] then None
     else narrow want fs
       (Suc matched, quoteMeta (takeWhile (\<lambda>c. c \<noteq> CHR ''/'') (gf_test f)) # tops,
        if gf_pkg f = [] then pkgs else gf_pkg f # pkgs))"

definition narrowedCommand :: "string \<Rightarrow> string list \<Rightarrow> string list \<Rightarrow> string" where
  "narrowedCommand command tops pkgSet =
    (let p0 = sort (remdups pkgSet);
         p1 = (if p0 = [] then commandPackages command else p0);
         pkgs = (if p1 = [] then [''./...''] else p1);
         alts = sort (remdups tops)
     in joinStr '' '' (map shellQuote ([''go'', ''test'', ''-count=1'', ''-run'', ''^('' @ joinStr ''|'' alts @ '')$''] @ pkgs)))"

definition rerunCommand :: "TestResult \<Rightarrow> string list \<Rightarrow> string" where
  "rerunCommand current candidates =
    (if \<not> isPlainGoTest (te_command current) then te_command current
     else case narrow candidates (parseGoTestFailures (te_output current)) (0, [], []) of
            None \<Rightarrow> te_command current
          | Some (matched, tops, pkgSet) \<Rightarrow>
             if matched < length (remdups candidates) \<or> tops = [] then te_command current
             else narrowedCommand (te_command current) tops pkgSet)"

definition rerunCandidates :: "(string \<Rightarrow> ShOutcome) \<Rightarrow> TestResult \<Rightarrow> string list \<Rightarrow> TestResult" where
  "rerunCandidates sh current candidates = RunTests sh (rerunCommand current candidates)"

definition EvaluateGate :: "(string \<Rightarrow> ShOutcome) \<Rightarrow> TestResult \<Rightarrow> TestResult \<Rightarrow> QualityGateResult" where
  "EvaluateGate sh baseline current =
    (let q = CompareResults baseline current
     in if qg_invalid q \<or> \<not> qg_regression q then q
        else
          (let candidates = qg_newNames q;
               rerun = rerunCandidates sh current candidates
           in case ClassifyBaseline rerun of
                (False, reason) \<Rightarrow>
                  invalidGate q (''confirming re-run unusable: '' @ reason) (''confirming re-run unusable: '' @ reason)
              | (True, _) \<Rightarrow>
                 (let confirmed = filter (\<lambda>n. n \<in> set (te_failed rerun)) candidates
                  in if confirmed = [] then
                       q\<lparr>qg_regression := False, qg_newFailures := 0, qg_newNames := [],
                         qg_summary := ''STABLE: '' @ itoa (int (length candidates)) @
                           '' failing test(s) did not reproduce on re-run: '' @ joinStr '', '' candidates\<rparr>
                     else
                       q\<lparr>qg_regression := True, qg_newFailures := int (length confirmed), qg_failing := confirmed,
                         qg_newNames := confirmed,
                         qg_summary := ''REGRESSION (confirmed on re-run): '' @ joinStr '', '' confirmed\<rparr>)))"

end
