(* ===== verification/Quality_Properties.thy ===== *)
theory Quality_Properties
  imports Quality_Gate
begin

text \<open>
  The properties of the quality gate: when a run is usable, what the comparison reports, that only failures that
  reproduce are reported as a regression, and that the failures \<open>go test\<close> prints are read back.
\<close>

section \<open>Comparison\<close>

definition usable :: "TestResult \<Rightarrow> bool" where
  "usable r \<longleftrightarrow> te_exit r \<noteq> - 1 \<and> (te_exit r = 0 \<or> (\<exists>n\<in>set (te_failed r). n \<notin> set (te_packages r))) \<and> te_found r \<noteq> 0"

lemma ClassifyBaseline_usable: "fst (ClassifyBaseline r) \<longleftrightarrow> usable r"
  by (auto simp: ClassifyBaseline_def usable_def testLevelFailures_def filter_empty_conv)

lemma classify_cases:
  obtains "ClassifyBaseline r = (True, [])" "usable r" | reason where "ClassifyBaseline r = (False, reason)" "\<not> usable r"
  using ClassifyBaseline_usable [of r] by (cases "ClassifyBaseline r") (auto simp: ClassifyBaseline_def split: if_splits)

definition newNamesOf :: "TestResult \<Rightarrow> TestResult \<Rightarrow> string list" where
  "newNamesOf baseline current = filter (\<lambda>n. n \<notin> set (te_failed baseline)) (te_failed current)"

lemma Compare_usable:
  assumes "usable baseline" "usable current"
  shows "\<not> qg_invalid (CompareResults baseline current)"
    "qg_newNames (CompareResults baseline current) = newNamesOf baseline current"
    "qg_newFailures (CompareResults baseline current) = int (length (newNamesOf baseline current))"
    "qg_regression (CompareResults baseline current) \<longleftrightarrow> newNamesOf baseline current \<noteq> []"
    "qg_improved (CompareResults baseline current) \<longleftrightarrow>
       newNamesOf baseline current = [] \<and> \<not> set (te_failed baseline) \<subseteq> set (te_failed current)"
    "qg_failing (CompareResults baseline current) = []"
proof -
  have "ClassifyBaseline baseline = (True, [])" "ClassifyBaseline current = (True, [])"
    using assms classify_cases by metis+
  then show "\<not> qg_invalid (CompareResults baseline current)"
    "qg_newNames (CompareResults baseline current) = newNamesOf baseline current"
    "qg_newFailures (CompareResults baseline current) = int (length (newNamesOf baseline current))"
    "qg_regression (CompareResults baseline current) \<longleftrightarrow> newNamesOf baseline current \<noteq> []"
    "qg_improved (CompareResults baseline current) \<longleftrightarrow>
       newNamesOf baseline current = [] \<and> \<not> set (te_failed baseline) \<subseteq> set (te_failed current)"
    "qg_failing (CompareResults baseline current) = []"
    by (auto simp: CompareResults_def newNamesOf_def emptyGate_def Let_def filter_empty_conv)
qed

lemma Compare_unusable:
  assumes "\<not> (usable baseline \<and> usable current)"
  shows "qg_invalid (CompareResults baseline current) \<and> \<not> qg_regression (CompareResults baseline current) \<and>
    \<not> qg_improved (CompareResults baseline current) \<and> qg_newNames (CompareResults baseline current) = [] \<and>
    qg_failing (CompareResults baseline current) = []"
  by (rule classify_cases [of baseline]; rule classify_cases [of current])
    (use assms in \<open>auto simp: CompareResults_def invalidGate_def emptyGate_def\<close>)

text \<open>C40. The comparison by name. The gate is invalid exactly when a run is unusable: it could not be started or
  timed out, it ended with an error and names no individual test, or it found no test. Otherwise it is a regression
  exactly when a test fails now that does not fail in the baseline, even with equal counts, and an improvement exactly
  when there is none such and one of the baseline's failures is gone; the new names are those and no others.\<close>

theorem compare_exact:
  "let q = CompareResults baseline current;
       ok = (\<lambda>r. te_exit r \<noteq> - 1 \<and> (te_exit r = 0 \<or> (\<exists>n\<in>set (te_failed r). n \<notin> set (te_packages r))) \<and> te_found r \<noteq> 0);
       new = set (te_failed current) - set (te_failed baseline);
       fixed = set (te_failed baseline) - set (te_failed current)
   in (qg_invalid q \<longleftrightarrow> \<not> (ok baseline \<and> ok current)) \<and>
      (qg_regression q \<longleftrightarrow> ok baseline \<and> ok current \<and> new \<noteq> {}) \<and>
      (qg_improved q \<longleftrightarrow> ok baseline \<and> ok current \<and> new = {} \<and> fixed \<noteq> {}) \<and>
      set (qg_newNames q) = (if ok baseline \<and> ok current then new else {})"
proof (cases "usable baseline \<and> usable current")
  case True
  then show ?thesis using Compare_usable [of baseline current] unfolding Let_def usable_def [symmetric]
    by (auto simp: newNamesOf_def filter_empty_conv)
next
  case False
  then show ?thesis using Compare_unusable [of baseline current] unfolding Let_def usable_def [symmetric] by auto
qed

definition demoResult :: "string list \<Rightarrow> TestResult" where
  "demoResult names = (emptyResult ''make test'')\<lparr>te_exit := (if names = [] then 0 else 1), te_failed := names,
     te_found := 9, te_fail := int (length names)\<rparr>"

lemma compare_exact_witness:
  "qg_regression (CompareResults (demoResult [''a'']) (demoResult [''b''])) \<and>
   qg_improved (CompareResults (demoResult [''a'', ''b'']) (demoResult [''b'']))"
  using compare_exact [of "demoResult [''a'']" "demoResult [''b'']"] compare_exact [of "demoResult [''a'', ''b'']" "demoResult [''b'']"]
  by (auto simp: demoResult_def emptyResult_def Let_def)

section \<open>The gate\<close>

text \<open>Only what reproduces is a regression. The gate reports a regression exactly when the baseline, the current
  run and the confirming re-run are usable and some test fails in the current run and again in the re-run but not in
  the baseline; it then names exactly those tests. It is invalid exactly when the baseline or the current run is
  unusable, or a test newly fails and the re-run is unusable, and an invalid gate is never a regression.\<close>

theorem gate_confirms:
  "let q = EvaluateGate sh baseline current;
       new = filter (\<lambda>n. n \<notin> set (te_failed baseline)) (te_failed current);
       rerun = rerunCandidates sh current new;
       confirmed = filter (\<lambda>n. n \<in> set (te_failed rerun)) new
   in (qg_regression q \<longleftrightarrow> usable baseline \<and> usable current \<and> usable rerun \<and> confirmed \<noteq> []) \<and>
      (qg_invalid q \<longleftrightarrow> \<not> usable baseline \<or> \<not> usable current \<or> (new \<noteq> [] \<and> \<not> usable rerun)) \<and>
      qg_failing q = (if qg_regression q then confirmed else []) \<and>
      (if qg_regression q then qg_newNames q = confirmed \<and> qg_newFailures q = int (length confirmed) else True)"
proof (cases "usable baseline \<and> usable current")
  case False
  then show ?thesis using Compare_unusable [OF False] by (auto simp: EvaluateGate_def Let_def)
next
  case True
  note C = Compare_usable [of baseline current, unfolded newNamesOf_def]
  let ?new = "filter (\<lambda>n. n \<notin> set (te_failed baseline)) (te_failed current)"
  let ?rerun = "rerunCandidates sh current ?new"
  show ?thesis
  proof (cases "?new = []")
    case True
    then show ?thesis using C \<open>usable baseline \<and> usable current\<close> by (auto simp: EvaluateGate_def Let_def)
  next
    case False
    show ?thesis
    proof (rule classify_cases [of ?rerun])
      assume "ClassifyBaseline ?rerun = (True, [])" "usable ?rerun"
      then show ?thesis using C True False by (auto simp: EvaluateGate_def Let_def)
    next
      fix reason assume "ClassifyBaseline ?rerun = (False, reason)" "\<not> usable ?rerun"
      then show ?thesis using C True False by (auto simp: EvaluateGate_def Let_def invalidGate_def)
    qed
  qed
qed

lemma gate_confirms_witness:
  "\<not> qg_regression (EvaluateGate (\<lambda>c. NotStarted ''no shell'') (demoResult [''a'']) (demoResult [''b''])) \<and>
   qg_invalid (EvaluateGate (\<lambda>c. NotStarted ''no shell'') (demoResult [''a'']) (demoResult [''b'']))"
proof -
  let ?sh = "\<lambda>c. NotStarted ''no shell''" and ?b = "demoResult [''a'']" and ?c = "demoResult [''b'']"
  have "\<not> usable (RunTests ?sh c)" for c by (simp add: RunTests_def usable_def emptyResult_def Let_def)
  then have "\<not> usable (rerunCandidates ?sh ?c ns)" for ns by (simp add: rerunCandidates_def)
  moreover have "filter (\<lambda>n. n \<notin> set (te_failed ?b)) (te_failed ?c) \<noteq> []" by (simp add: demoResult_def)
  ultimately show ?thesis using gate_confirms [of ?sh ?b ?c] unfolding Let_def by blast
qed

section \<open>Reading \<open>go test\<close>\<close>

text \<open>The failure lines \<open>go test\<close> prints for packages and their failing tests.\<close>

definition testLine :: "string \<Rightarrow> string" where
  "testLine t = ''--- FAIL: '' @ t @ '' (0.00s)''"

definition pkgLine :: "string \<Rightarrow> string" where
  "pkgLine p = failTab @ p @ [CHR 0x09] @ ''0.012s''"

definition pkgLines :: "string \<times> string list \<Rightarrow> string list" where
  "pkgLines x = map testLine (snd x) @ [pkgLine (fst x)]"

definition goReport :: "(string \<times> string list) list \<Rightarrow> string" where
  "goReport ps = joinStr [CHR 0x0A] (concat (map pkgLines ps))"

text \<open>A name of visible ASCII characters.\<close>

definition visible :: "char \<Rightarrow> bool" where
  "visible c \<longleftrightarrow> 32 < (of_char c :: nat) \<and> (of_char c :: nat) < 127"

definition plainName :: "string \<Rightarrow> bool" where
  "plainName s \<longleftrightarrow> s \<noteq> [] \<and> (\<forall>c\<in>set s. visible c)"

declare goFailures.simps(2) [simp del]

lemma visible_not_space: "visible c \<Longrightarrow> \<not> reSpace c" "visible c \<Longrightarrow> c \<noteq> CHR 0x0A"
  by (auto simp: visible_def reSpace_def)

lemma leading_visible:
  assumes "visible c"
  shows "leading spaces (c # cs) = None"
proof -
  have "c \<noteq> CHR 0x09" "c \<noteq> CHR 0x0A" "c \<noteq> CHR 0x0B" "c \<noteq> CHR 0x0C" "c \<noteq> CHR 0x0D" "c \<noteq> CHR 0x20"
    "c \<noteq> CHR 0xC2" "c \<noteq> CHR 0xE1" "c \<noteq> CHR 0xE2" "c \<noteq> CHR 0xE3" using assms by (auto simp: visible_def)
  then show ?thesis by (simp add: leading_def spaces_def hasPrefix_def)
qed

lemma fieldsFrom_visible:
  "\<forall>c\<in>set s. visible c \<Longrightarrow> cur @ s \<noteq> [] \<Longrightarrow> \<exists>fs. fieldsFrom (s @ CHR 0x09 # rest) cur = (cur @ s) # fs"
proof (induction s arbitrary: cur)
  case Nil
  have "leading spaces (CHR 0x09 # rest) = Some [CHR 0x09]" by (simp add: leading_def spaces_def hasPrefix_def)
  then show ?case using Nil by (simp add: fieldsFrom.simps(2))
next
  case (Cons c s)
  then show ?case using Cons.IH [of "cur @ [c]"] by (simp add: fieldsFrom.simps(2) leading_visible)
qed

lemma trimCR: "last s \<noteq> CHR 0x0D \<Longrightarrow> s \<noteq> [] \<Longrightarrow> trimRightChars [CHR 0x0D] s = s"
  by (cases s rule: rev_cases) (auto simp: trimRightChars_def)

lemma failTestName_testLine:
  assumes "plainName t"
  shows "failTestName (testLine t) = Some t"
proof -
  have "takeWhile (\<lambda>c. \<not> reSpace c) (t @ '' (0.00s)'') = t"
    using assms by (subst takeWhile_append2) (auto simp: plainName_def visible_not_space, simp add: reSpace_def)
  then show ?thesis using assms
    by (simp add: failTestName_def testLine_def plainName_def reSpace_def cutPrefix_def hasPrefix_def Let_def)
qed

lemma goFailures_tests:
  "\<forall>t\<in>set ts. plainName t \<Longrightarrow> goFailures (map testLine ts @ rest) pending out = goFailures rest (pending @ ts) out"
proof (induction ts arbitrary: pending)
  case (Cons t ts)
  have "trimRightChars [CHR 0x0D] (testLine t) = testLine t" by (rule trimCR) (simp_all add: testLine_def)
  then show ?case using Cons failTestName_testLine [of t] by (simp add: Let_def goFailures.simps(2))
qed simp

lemma goFailures_pkg:
  assumes "plainName p"
  shows "goFailures (pkgLine p # rest) pending out
    = goFailures rest [] (out @ (if pending = [] then [\<lparr>gf_pkg = p, gf_test = []\<rparr>] else map (\<lambda>t. \<lparr>gf_pkg = p, gf_test = t\<rparr>) pending))"
proof -
  have 1: "trimRightChars [CHR 0x0D] (pkgLine p) = pkgLine p" by (rule trimCR) (simp_all add: pkgLine_def failTab_def)
  have 2: "failTestName (pkgLine p) = None"
    by (simp add: failTestName_def pkgLine_def failTab_def reSpace_def cutPrefix_def hasPrefix_def)
  obtain fs where 3: "Fields (trimPrefix (pkgLine p) failTab) = p # fs"
    using fieldsFrom_visible [of p "[]" "''0.012s''"] assms by (auto simp: Fields_def pkgLine_def plainName_def)
  have 4: "hasPrefix (pkgLine p) failTab" by (simp add: pkgLine_def)
  show ?thesis using 1 2 3 4 by (simp add: Let_def goFailures.simps(2))
qed

lemma goFailures_report:
  "\<forall>x\<in>set ps. plainName (fst x) \<and> (\<forall>t\<in>set (snd x). plainName t) \<Longrightarrow>
   goFailures (concat (map pkgLines ps)) [] out = out @ concat (map (\<lambda>x. if snd x = [] then [\<lparr>gf_pkg = fst x, gf_test = []\<rparr>]
     else map (\<lambda>t. \<lparr>gf_pkg = fst x, gf_test = t\<rparr>) (snd x)) ps)"
proof (induction ps arbitrary: out)
  case (Cons x ps)
  have "goFailures (pkgLines x @ rest) [] out = goFailures rest [] (out @ (if snd x = [] then [\<lparr>gf_pkg = fst x, gf_test = []\<rparr>]
     else map (\<lambda>t. \<lparr>gf_pkg = fst x, gf_test = t\<rparr>) (snd x)))" for rest
    using Cons.prems by (simp add: pkgLines_def goFailures_tests goFailures_pkg)
  then show ?case using Cons by simp
qed simp

text \<open>Reading back what \<open>go test\<close> prints: for packages and tests with visible ASCII names, the failing tests read
  from their failure lines are each package's tests, qualified by the package, in order, and the package itself where
  it failed without naming a test.\<close>

theorem go_report_read_back:
  assumes "\<forall>x\<in>set ps. plainName (fst x) \<and> (\<forall>t\<in>set (snd x). plainName t)"
  shows "FailingTests (goReport ps)
    = concat (map (\<lambda>x. if snd x = [] then [fst x] else map (\<lambda>t. fst x @ ''.'' @ t) (snd x)) ps)"
proof -
  let ?ls = "concat (map pkgLines ps)"
  have "CHR 0x0A \<notin> set s" if "plainName s" for s using that visible_not_space(2) unfolding plainName_def by blast
  then have nl: "\<forall>l\<in>set ?ls. CHR 0x0A \<notin> set l"
    using assms by (fastforce simp: pkgLines_def testLine_def pkgLine_def failTab_def)
  have "goFailures (splitChar (CHR 0x0A) (goReport ps)) [] [] = goFailures ?ls [] []"
  proof (cases "ps = []")
    case True
    then show ?thesis by (simp add: goReport_def goFailures.simps(2) failTestName_def cutPrefix_def hasPrefix_def trimRightChars_def failTab_def)
  next
    case False
    then have "?ls \<noteq> []" by (cases ps) (auto simp: pkgLines_def)
    then show ?thesis unfolding goReport_def using split_joinStr [OF _ nl] by simp
  qed
  then have "parseGoTestFailures (goReport ps) = concat (map (\<lambda>x. if snd x = [] then [\<lparr>gf_pkg = fst x, gf_test = []\<rparr>]
     else map (\<lambda>t. \<lparr>gf_pkg = fst x, gf_test = t\<rparr>) (snd x)) ps)"
    unfolding parseGoTestFailures_def using goFailures_report [OF assms, of "[]"] by simp
  moreover have "map failureString (if snd x = [] then [\<lparr>gf_pkg = fst x, gf_test = []\<rparr>] else map (\<lambda>t. \<lparr>gf_pkg = fst x, gf_test = t\<rparr>) (snd x))
      = (if snd x = [] then [fst x] else map (\<lambda>t. fst x @ ''.'' @ t) (snd x))" if "x \<in> set ps" for x
    using assms that by (auto simp: failureString_def plainName_def)
  ultimately show ?thesis unfolding FailingTests_def by (auto simp: map_concat comp_def intro!: arg_cong [where f = concat] map_cong)
qed

lemma go_report_read_back_witness:
  "FailingTests (goReport [(''p/a'', [''T1'', ''T2'']), (''p/b'', [])]) = [''p/a.T1'', ''p/a.T2'', ''p/b'']"
proof -
  have "\<forall>x\<in>set [(''p/a'', [''T1'', ''T2'']), (''p/b'', [])]. plainName (fst x) \<and> (\<forall>t\<in>set (snd x). plainName t)"
    by (simp add: plainName_def visible_def)
  from go_report_read_back [OF this] show ?thesis by simp
qed

end
