(* ===== verification/Orchestrator.thy ===== *)
theory Orchestrator
  imports Prelude "HOL-Library.Word"
begin

text \<open>
  \<open>internal/orchestrator\<close>: a graph of PRD nodes and guardrail nodes (models.go), the store that keeps the
  graphs (store.go) and the runner that plans a graph and walks it in dependency order (runner.go).

  What the package does not own is an environment \<open>Env\<close>: the clock, the outcome of writing the graphs
  file, the state of the context, the PRD run function and the guardrail function. Each answer may depend
  on the position in the run (\<open>r_tick\<close>, which counts the interactions with the environment), so nothing is
  assumed about two answers being alike. \<open>r_calls\<close> records the PRD runs and guardrails that were started.

  A \<open>*Graph\<close> of the store is shared with the runner. Every change the runner makes to it is followed by
  \<open>SaveGraph\<close> before the store is read again, so the model passes the graph as a value and writes it back
  there. A \<open>*Node\<close> of the runner points into the slice at the first node with that id, which is also the
  slot \<open>saveNode\<close> writes: the model passes the node as a value and \<open>saveNode\<close> puts it back.
\<close>

section \<open>Data\<close>

datatype NodeKind = NodeKindPRD | NodeKindGuardrail

datatype NodeStatus = NodePending | NodeQueued | NodeInProgress | NodeCompleted | NodeBlocked | NodeFailed
  | NodeCancelled

datatype GraphStatus = GraphDraft | GraphActive | GraphCompleted | GraphBlocked | GraphCancelled

record Verdict =
  v_outcome :: string
  v_severity :: string
  v_summary :: string
  v_issues :: "string list"
  v_at :: time
  v_validator :: string

record Node =
  n_id :: string
  n_graph :: string
  n_kind :: NodeKind
  n_prd :: string
  n_guardrail :: string
  n_depends :: "string list"
  n_status :: NodeStatus
  n_verdict :: "Verdict option"
  n_error :: string
  n_started :: "time option"
  n_finished :: "time option"
  n_created :: time
  n_updated :: time

record Graph =
  g_id :: string
  g_title :: string
  g_dir :: string
  g_prds :: "string list"
  g_nodes :: "Node list"
  g_status :: GraphStatus
  g_created :: time
  g_updated :: time

record GuardrailRequest =
  q_graph :: string
  q_node :: string
  q_prd :: string
  q_guardrail :: string
  q_summary :: string
  q_dir :: string

record Config =
  c_enabled :: bool
  c_guardrails :: "string list"
  c_timeoutMs :: int
  c_backend :: string
  c_model :: string
  c_maxParallel :: int

definition DefaultConfig :: Config where
  "DefaultConfig = \<lparr>c_enabled = False,
     c_guardrails = [''rules'', ''security'', ''release-readiness'', ''docs-diagrams-architecture''],
     c_timeoutMs = 120000, c_backend = [], c_model = [], c_maxParallel = 2\<rparr>"

datatype Call = RanPRD string | RanGuardrail GuardrailRequest duration

record Env =
  e_clock :: "nat \<Rightarrow> time"
  e_disk :: "nat \<Rightarrow> string option"
  e_ctx :: "nat \<Rightarrow> string option"
  e_run :: "(nat \<Rightarrow> string \<Rightarrow> string + string) option"
  e_guard :: "(nat \<Rightarrow> duration \<Rightarrow> GuardrailRequest \<Rightarrow> string + Verdict) option"

record Runner =
  r_cfg :: Config
  r_graphs :: "(string, Graph) gomap"
  r_tick :: nat
  r_calls :: "Call list"

datatype OrchError = GraphNotFound string | PRDIDsRequired | GraphCycle | ContextErr string | SaveErr string

definition tick :: "Runner \<Rightarrow> Runner" where
  "tick w = w\<lparr>r_tick := Suc (r_tick w)\<rparr>"

definition timeNow :: "Env \<Rightarrow> Runner \<Rightarrow> time \<times> Runner" where
  "timeNow env w = (e_clock env (r_tick w), tick w)"

definition NewRunner :: "Config \<Rightarrow> Runner" where
  "NewRunner cfg = \<lparr>r_cfg = cfg, r_graphs = [], r_tick = 0, r_calls = []\<rparr>"

definition SetConfig :: "Config \<Rightarrow> Runner \<Rightarrow> Runner" where
  "SetConfig c w = w\<lparr>r_cfg := c\<rparr>"

section \<open>Store\<close>

text \<open>\<open>persist\<close> rewrites the graphs file; its outcome is the environment's.\<close>

definition persist :: "Env \<Rightarrow> Runner \<Rightarrow> Runner \<times> string option" where
  "persist env w = (tick w, e_disk env (r_tick w))"

text \<open>\<open>newID\<close> prints the low 32 bits of the clock's nanoseconds as eight hexadecimal digits.\<close>

definition unixEpoch :: time where "unixEpoch = 62135596800 * second"

fun hexDigits :: "nat \<Rightarrow> nat \<Rightarrow> string" where
  "hexDigits 0 v = []"
| "hexDigits (Suc k) v = hexDigits k (v div 16) @ [hexChar (v mod 16)]"

definition idOf :: "time \<Rightarrow> string" where
  "idOf t = hexDigits 8 (unat (word_of_int (t - unixEpoch) :: 32 word))"

lemma unat_low32: "unat (word_of_int x :: 32 word) = nat (x mod 4294967296)"
  by (simp add: unat_eq_nat_uint uint_word_of_int)

lemma idOf_code [code]:
  "idOf t = hexDigits (Suc (Suc (Suc (Suc (Suc (Suc (Suc (Suc 0)))))))) (nat ((t - unixEpoch) mod 4294967296))"
proof -
  have "8 = Suc (Suc (Suc (Suc (Suc (Suc (Suc (Suc 0)))))))" by simp
  then show ?thesis unfolding idOf_def unat_low32 by (simp only:)
qed

definition newID :: "Env \<Rightarrow> Runner \<Rightarrow> string \<times> Runner" where
  "newID env w = (case timeNow env w of (t, w1) \<Rightarrow> (idOf t, w1))"

definition CreateGraph :: "Env \<Rightarrow> Runner \<Rightarrow> string \<Rightarrow> string \<Rightarrow> string list \<Rightarrow> Runner \<times> (OrchError + Graph)" where
  "CreateGraph env w title dir prds =
    (if prds = [] then (w, Inl PRDIDsRequired)
     else
       let (i, w1) = newID env w;
           (c, w2) = timeNow env w1;
           (u, w3) = timeNow env w2;
           g = \<lparr>g_id = i, g_title = title, g_dir = dir, g_prds = prds, g_nodes = [], g_status = GraphDraft,
                g_created = c, g_updated = u\<rparr>;
           (w4, e) = persist env (w3\<lparr>r_graphs := mapSet (r_graphs w3) i g\<rparr>)
       in (w4, case e of Some m \<Rightarrow> Inl (SaveErr m) | None \<Rightarrow> Inr g))"

definition SaveGraph :: "Env \<Rightarrow> Runner \<Rightarrow> Graph \<Rightarrow> Runner \<times> Graph \<times> string option" where
  "SaveGraph env w g =
    (let (t, w1) = timeNow env w;
         g1 = g\<lparr>g_updated := t\<rparr>;
         (w2, e) = persist env (w1\<lparr>r_graphs := mapSet (r_graphs w1) (g_id g1) g1\<rparr>)
     in (w2, g1, e))"

definition GetGraph :: "Runner \<Rightarrow> string \<Rightarrow> Graph option" where
  "GetGraph w i = mapGet (r_graphs w) i"

text \<open>
  \<open>ListGraphs\<close> sorts by exchanges: for each position, every later graph that is newer than the one there
  is swapped into it. \<open>exchange x ys\<close> is one such inner loop, with \<open>x\<close> at the position and \<open>ys\<close> after it.
\<close>

fun exchange :: "Graph \<Rightarrow> Graph list \<Rightarrow> Graph \<times> Graph list" where
  "exchange x [] = (x, [])"
| "exchange x (y # ys) =
    (if g_created x < g_created y then (let (m, zs) = exchange y ys in (m, x # zs))
     else (let (m, zs) = exchange x ys in (m, y # zs)))"

lemma length_exchange [simp]: "length (snd (exchange x ys)) = length ys"
  by (induction x ys rule: exchange.induct) (auto split: prod.splits)

function exchangeSort :: "Graph list \<Rightarrow> Graph list" where
  "exchangeSort [] = []"
| "exchangeSort (x # xs) = fst (exchange x xs) # exchangeSort (snd (exchange x xs))"
  by pat_completeness auto
termination by (relation "measure length") auto

definition ListGraphs :: "Runner \<Rightarrow> Graph list" where
  "ListGraphs w = exchangeSort (map snd (r_graphs w))"

definition ListVerdicts :: "Runner \<Rightarrow> Verdict list" where
  "ListVerdicts w = concat (map (\<lambda>g. List.map_filter n_verdict (g_nodes g)) (map snd (r_graphs w)))"

section \<open>Plan\<close>

text \<open>
  One PRD node per PRD id, in the order of the list. A dependency is looked up among the PRD ids already
  given a node; the map is from PRD id to node id.
\<close>

fun knownIDs :: "(string, string) gomap \<Rightarrow> string list \<Rightarrow> string list" where
  "knownIDs ids [] = []"
| "knownIDs ids (d # ds) = (case mapGet ids d of Some i \<Rightarrow> i # knownIDs ids ds | None \<Rightarrow> knownIDs ids ds)"

lemma knownIDs_map_filter: "knownIDs ids ds = List.map_filter (mapGet ids) ds"
  by (induction ds) (auto simp: List.map_filter_simps split: option.splits)

definition planDepends :: "(string, string list) gomap \<Rightarrow> (string, string) gomap \<Rightarrow> string \<Rightarrow> string list" where
  "planDepends deps ids pid =
    (case mapGet deps pid of None \<Rightarrow> [] | Some ds \<Rightarrow> knownIDs ids ds)"

fun planPRDs :: "Env \<Rightarrow> string \<Rightarrow> time \<Rightarrow> (string, string list) gomap \<Rightarrow> string list \<Rightarrow> (string, string) gomap \<Rightarrow>
    Runner \<Rightarrow> Runner \<times> (string, string) gomap \<times> Node list" where
  "planPRDs env gid t deps [] ids w = (w, ids, [])"
| "planPRDs env gid t deps (pid # pids) ids w =
    (case newID env w of
       (i, w1) \<Rightarrow>
         case planPRDs env gid t deps pids (mapSet ids pid i) w1 of
           (w2, ids', ns) \<Rightarrow>
             (w2, ids',
              \<lparr>n_id = i, n_graph = gid, n_kind = NodeKindPRD, n_prd = pid, n_guardrail = [],
               n_depends = planDepends deps ids pid, n_status = NodePending, n_verdict = None, n_error = [],
               n_started = None, n_finished = None, n_created = t, n_updated = t\<rparr> # ns))"

fun planGuards :: "Env \<Rightarrow> string \<Rightarrow> time \<Rightarrow> string \<Rightarrow> string \<Rightarrow> string list \<Rightarrow> Runner \<Rightarrow> Runner \<times> Node list" where
  "planGuards env gid t pid dep [] w = (w, [])"
| "planGuards env gid t pid dep (gr # grs) w =
    (case newID env w of
       (i, w1) \<Rightarrow>
         case planGuards env gid t pid dep grs w1 of
           (w2, ns) \<Rightarrow>
             (w2, \<lparr>n_id = i, n_graph = gid, n_kind = NodeKindGuardrail, n_prd = pid, n_guardrail = gr,
                   n_depends = [dep], n_status = NodePending, n_verdict = None, n_error = [],
                   n_started = None, n_finished = None, n_created = t, n_updated = t\<rparr> # ns))"

fun planAllGuards :: "Env \<Rightarrow> string \<Rightarrow> time \<Rightarrow> (string, string) gomap \<Rightarrow> string list \<Rightarrow> string list \<Rightarrow> Runner \<Rightarrow>
    Runner \<times> Node list" where
  "planAllGuards env gid t ids guards [] w = (w, [])"
| "planAllGuards env gid t ids guards (pid # pids) w =
    (case planGuards env gid t pid (mapGetOr [] ids pid) guards w of
       (w1, ns) \<Rightarrow>
         case planAllGuards env gid t ids guards pids w1 of
           (w2, ms) \<Rightarrow> (w2, ns @ ms))"

definition planNodes :: "Env \<Rightarrow> Graph \<Rightarrow> (string, string list) gomap \<Rightarrow> Runner \<Rightarrow> Runner \<times> Node list" where
  "planNodes env g deps w =
    (case timeNow env w of
       (t, w1) \<Rightarrow>
         case planPRDs env (g_id g) t deps (g_prds g) [] w1 of
           (w2, ids, ns) \<Rightarrow>
             case planAllGuards env (g_id g) t ids (c_guardrails (r_cfg w)) (g_prds g) w2 of
               (w3, gs) \<Rightarrow> (w3, ns @ gs))"

definition Plan :: "Env \<Rightarrow> Runner \<Rightarrow> string \<Rightarrow> (string, string list) gomap \<Rightarrow> Runner \<times> (OrchError + Graph)" where
  "Plan env w gid deps =
    (case GetGraph w gid of
       None \<Rightarrow> (w, Inl (GraphNotFound gid))
     | Some g \<Rightarrow>
        (case planNodes env g deps w of
           (w1, nodes) \<Rightarrow>
             case SaveGraph env w1 (g\<lparr>g_nodes := nodes, g_status := GraphActive\<rparr>) of
               (w2, g2, e) \<Rightarrow> (w2, case e of Some m \<Rightarrow> Inl (SaveErr m) | None \<Rightarrow> Inr g2)))"

section \<open>Dependency order\<close>

definition nodeIDs :: "Node list \<Rightarrow> string list" where
  "nodeIDs nodes = map n_id nodes"

fun initIndeg :: "Node list \<Rightarrow> (string, int) gomap \<Rightarrow> (string, int) gomap" where
  "initIndeg [] m = m"
| "initIndeg (n # ns) m = initIndeg ns (if mapHas m (n_id n) then m else mapSet m (n_id n) 0)"

fun countDeps :: "string list \<Rightarrow> string \<Rightarrow> string list \<Rightarrow> (string, int) gomap \<Rightarrow> (string, int) gomap" where
  "countDeps known i [] m = m"
| "countDeps known i (d # ds) m =
    countDeps known i ds (if d \<in> set known then mapSet m i (mapGetOr 0 m i + 1) else m)"

fun countAll :: "string list \<Rightarrow> Node list \<Rightarrow> (string, int) gomap \<Rightarrow> (string, int) gomap" where
  "countAll known [] m = m"
| "countAll known (n # ns) m = countAll known ns (countDeps known (n_id n) (n_depends n) m)"

fun relaxDeps :: "string \<Rightarrow> string \<Rightarrow> string list \<Rightarrow> (string, int) gomap \<times> string list \<Rightarrow>
    (string, int) gomap \<times> string list" where
  "relaxDeps i nid [] s = s"
| "relaxDeps i nid (d # ds) (m, ready) =
    relaxDeps i nid ds
      (if d = i then
         (let k = mapGetOr 0 m nid - 1 in (mapSet m nid k, if k = 0 then ready @ [nid] else ready))
       else (m, ready))"

fun relaxAll :: "string \<Rightarrow> Node list \<Rightarrow> (string, int) gomap \<times> string list \<Rightarrow>
    (string, int) gomap \<times> string list" where
  "relaxAll i [] s = s"
| "relaxAll i (n # ns) s = relaxAll i ns (relaxDeps i (n_id n) (n_depends n) s)"

text \<open>The loop of \<open>topoSort\<close> ends: an id enters \<open>ready\<close> only when its in-degree drops from 1 to 0.\<close>

definition positives :: "Node list \<Rightarrow> (string, int) gomap \<Rightarrow> nat" where
  "positives nodes m = card {i \<in> set (nodeIDs nodes). 0 < mapGetOr 0 m i}"

definition topoWork :: "Node list \<Rightarrow> (string, int) gomap \<times> string list \<Rightarrow> nat" where
  "topoWork nodes s = length (snd s) + positives nodes (fst s)"

lemma positives_dec:
  assumes "i \<in> set (nodeIDs nodes)"
  shows "positives nodes (mapSet m i (mapGetOr 0 m i - 1))
       = positives nodes m - (if mapGetOr 0 m i = 1 then 1 else 0)"
    and "mapGetOr 0 m i = 1 \<Longrightarrow> 0 < positives nodes m"
proof -
  let ?S = "{k \<in> set (nodeIDs nodes). 0 < mapGetOr 0 m k}"
  have "{k \<in> set (nodeIDs nodes). 0 < mapGetOr 0 (mapSet m i (mapGetOr 0 m i - 1)) k}
      = (if mapGetOr 0 m i = 1 then ?S - {i} else ?S)"
    using assms by (auto split: if_splits)
  moreover have "mapGetOr 0 m i = 1 \<Longrightarrow> i \<in> ?S" using assms by simp
  moreover have "finite ?S" by simp
  ultimately show "positives nodes (mapSet m i (mapGetOr 0 m i - 1))
       = positives nodes m - (if mapGetOr 0 m i = 1 then 1 else 0)"
    "mapGetOr 0 m i = 1 \<Longrightarrow> 0 < positives nodes m"
    unfolding positives_def by (auto simp: card_Diff_singleton card_gt_0_iff)
qed

lemma relaxDeps_work:
  "nid \<in> set (nodeIDs nodes) \<Longrightarrow> topoWork nodes (relaxDeps i nid ds s) \<le> topoWork nodes s"
proof (induction i nid ds s rule: relaxDeps.induct)
  case (2 i nid d ds m ready)
  let ?k = "mapGetOr 0 m nid - 1"
  have "topoWork nodes (mapSet m nid ?k, if ?k = 0 then ready @ [nid] else ready) \<le> topoWork nodes (m, ready)"
    using positives_dec [OF 2(2), of m] unfolding topoWork_def by (auto split: if_splits)
  then show ?case using 2(1) [OF 2(2)] by (auto simp: Let_def split: if_splits)
qed simp

lemma relaxAll_work:
  "set (nodeIDs ns) \<subseteq> set (nodeIDs nodes) \<Longrightarrow> topoWork nodes (relaxAll i ns s) \<le> topoWork nodes s"
proof (induction i ns s rule: relaxAll.induct)
  case (2 i n ns s)
  then have "topoWork nodes (relaxAll i ns (relaxDeps i (n_id n) (n_depends n) s))
      \<le> topoWork nodes (relaxDeps i (n_id n) (n_depends n) s)" by (auto simp: nodeIDs_def)
  also have "\<dots> \<le> topoWork nodes s" using 2(2) by (intro relaxDeps_work) (auto simp: nodeIDs_def)
  finally show ?case by simp
qed simp

function topoLoop :: "Node list \<Rightarrow> (string, int) gomap \<Rightarrow> string list \<Rightarrow> string list \<Rightarrow> string list" where
  "topoLoop nodes m [] out = out"
| "topoLoop nodes m (i # ready) out =
    topoLoop nodes (fst (relaxAll i nodes (m, ready))) (sort (snd (relaxAll i nodes (m, ready)))) (out @ [i])"
  by pat_completeness auto
termination
proof (relation "measure (\<lambda>(nodes, m, ready, out). topoWork nodes (m, ready))")
  fix nodes m i ready and out :: "string list"
  have "topoWork nodes (relaxAll i nodes (m, ready)) \<le> topoWork nodes (m, ready)"
    by (rule relaxAll_work) simp
  then show "((nodes, fst (relaxAll i nodes (m, ready)), sort (snd (relaxAll i nodes (m, ready))), out @ [i]),
      nodes, m, i # ready, out) \<in> measure (\<lambda>(nodes, m, ready, out). topoWork nodes (m, ready))"
    by (simp add: topoWork_def)
qed simp

definition topoSort :: "Node list \<Rightarrow> OrchError + string list" where
  "topoSort nodes =
    (let m = countAll (nodeIDs nodes) nodes (initIndeg nodes []);
         ready = sort (map fst (filter (\<lambda>e. snd e = 0) m));
         out = topoLoop nodes m ready []
     in if length out \<noteq> length nodes then Inl GraphCycle else Inr out)"

section \<open>Run\<close>

fun lookupIn :: "Node list \<Rightarrow> string \<Rightarrow> Node option" where
  "lookupIn [] i = None"
| "lookupIn (n # ns) i = (if n_id n = i then Some n else lookupIn ns i)"

definition lookupNode :: "Graph \<Rightarrow> string \<Rightarrow> Node option" where
  "lookupNode g i = lookupIn (g_nodes g) i"

definition depBlocked :: "Graph \<Rightarrow> Node \<Rightarrow> bool" where
  "depBlocked g n \<longleftrightarrow> (\<exists>d\<in>set (n_depends n). \<exists>x\<in>set (g_nodes g).
     n_id x = d \<and> (n_status x = NodeBlocked \<or> n_status x = NodeFailed))"

fun replaceFirst :: "Node \<Rightarrow> Node list \<Rightarrow> Node list" where
  "replaceFirst n [] = []"
| "replaceFirst n (x # xs) = (if n_id x = n_id n then n # xs else x # replaceFirst n xs)"

definition markStart :: "Env \<Rightarrow> Runner \<Rightarrow> Node \<Rightarrow> Runner \<times> Node" where
  "markStart env w n = (let (t, w1) = timeNow env w in (w1, n\<lparr>n_started := Some t, n_status := NodeInProgress\<rparr>))"

definition markDone :: "Env \<Rightarrow> Runner \<Rightarrow> Node \<Rightarrow> NodeStatus \<Rightarrow> Runner \<times> Node" where
  "markDone env w n s = (let (t, w1) = timeNow env w in (w1, n\<lparr>n_finished := Some t, n_status := s\<rparr>))"

definition saveNode :: "Env \<Rightarrow> Runner \<Rightarrow> Graph \<Rightarrow> Node \<Rightarrow> Runner \<times> Graph \<times> Node \<times> string option" where
  "saveNode env w g n =
    (let (t, w1) = timeNow env w;
         n1 = n\<lparr>n_updated := t\<rparr>;
         (w2, g2, e) = SaveGraph env w1 (g\<lparr>g_nodes := replaceFirst n1 (g_nodes g)\<rparr>)
     in (w2, g2, n1, e))"

definition callRun :: "Env \<Rightarrow> Runner \<Rightarrow> string \<Rightarrow> Runner \<times> (string + string)" where
  "callRun env w prd =
    (case e_run env of
       None \<Rightarrow> (w, Inr [])
     | Some f \<Rightarrow> (tick w\<lparr>r_calls := r_calls w @ [RanPRD prd]\<rparr>, f (r_tick w) prd))"

definition runPRD :: "Env \<Rightarrow> Runner \<Rightarrow> Graph \<Rightarrow> Node \<Rightarrow> Runner \<times> Graph \<times> Node \<times> string option" where
  "runPRD env w g n =
    (let (w1, n1) = markStart env w n;
         (w2, g2, n2, _) = saveNode env w1 g n1;
         (w3, res) = callRun env w2 (n_prd n2)
     in case res of
          Inl e \<Rightarrow> (w3, g2, n2, Some e)
        | Inr s \<Rightarrow>
           (let (t, w4) = timeNow env w3;
                v = \<lparr>v_outcome = ''pass'', v_severity = [], v_summary = s, v_issues = [], v_at = t, v_validator = []\<rparr>;
                (w5, n5) = markDone env w4 (n2\<lparr>n_verdict := Some v\<rparr>) NodeCompleted
            in saveNode env w5 g2 n5))"

fun prdSummary :: "string \<Rightarrow> Node list \<Rightarrow> string" where
  "prdSummary prd [] = []"
| "prdSummary prd (x # xs) =
    (case n_verdict x of
       Some v \<Rightarrow> if n_kind x = NodeKindPRD \<and> n_prd x = prd then v_summary v else prdSummary prd xs
     | None \<Rightarrow> prdSummary prd xs)"

definition guardTimeout :: "Config \<Rightarrow> duration" where
  "guardTimeout cfg = (let t = c_timeoutMs cfg * millisecond in if t \<le> 0 then 2 * minute else t)"

definition requestFor :: "Graph \<Rightarrow> Node \<Rightarrow> GuardrailRequest" where
  "requestFor g n = \<lparr>q_graph = g_id g, q_node = n_id n, q_prd = n_prd n, q_guardrail = n_guardrail n,
     q_summary = prdSummary (n_prd n) (g_nodes g), q_dir = g_dir g\<rparr>"

definition runGuardrail :: "Env \<Rightarrow> Runner \<Rightarrow> Graph \<Rightarrow> Node \<Rightarrow> Runner \<times> Graph \<times> Node \<times> string option" where
  "runGuardrail env w g n =
    (let (w1, n1) = markStart env w n;
         (w2, g2, n2, _) = saveNode env w1 g n1
     in case e_guard env of
          None \<Rightarrow>
           (let (t, w3) = timeNow env w2;
                v = \<lparr>v_outcome = ''pass'', v_severity = [], v_summary = ''no guardrail fn configured'', v_issues = [],
                     v_at = t, v_validator = []\<rparr>;
                (w4, n4) = markDone env w3 (n2\<lparr>n_verdict := Some v\<rparr>) NodeCompleted
            in saveNode env w4 g2 n4)
        | Some f \<Rightarrow>
           (let req = requestFor g2 n2;
                lim = guardTimeout (r_cfg w2);
                w3 = tick w2\<lparr>r_calls := r_calls w2 @ [RanGuardrail req lim]\<rparr>
            in case f (r_tick w2) lim req of
                 Inl e \<Rightarrow> (w3, g2, n2, Some e)
               | Inr v \<Rightarrow>
                  (let n3 = n2\<lparr>n_verdict := Some v\<rparr>;
                       (w4, n4) = (if v_outcome v \<noteq> ''block'' then markDone env w3 n3 NodeCompleted else (w3, n3))
                   in saveNode env w4 g2 n4)))"

definition blocks :: "Node \<Rightarrow> bool" where
  "blocks n \<longleftrightarrow> (case n_verdict n of None \<Rightarrow> False | Some v \<Rightarrow> v_outcome v = ''block'')"

text \<open>The body of the loop of \<open>Run\<close> for one id, after the context was found alive.\<close>

definition runNode :: "Env \<Rightarrow> Runner \<Rightarrow> Graph \<Rightarrow> bool \<Rightarrow> string \<Rightarrow> Runner \<times> Graph \<times> bool" where
  "runNode env w g blocked i =
    (case lookupNode g i of
       None \<Rightarrow> (w, g, blocked)
     | Some n \<Rightarrow>
        if n_status n = NodeCompleted \<or> n_status n = NodeBlocked then (w, g, blocked)
        else if depBlocked g n then
          (let (w1, g1, _, _) = saveNode env w g (n\<lparr>n_status := NodeCancelled\<rparr>) in (w1, g1, blocked))
        else if n_kind n = NodeKindPRD then
          (let (w1, g1, n1, e) = runPRD env w g n
           in case e of
                Some m \<Rightarrow>
                 (let (w2, g2, _, _) = saveNode env w1 g1 (n1\<lparr>n_status := NodeFailed, n_error := m\<rparr>) in (w2, g2, True))
              | None \<Rightarrow> (w1, g1, blocked))
        else
          (let (w1, g1, n1, e) = runGuardrail env w g n
           in case e of
                Some m \<Rightarrow>
                 (let (w2, g2, _, _) = saveNode env w1 g1 (n1\<lparr>n_status := NodeFailed, n_error := m\<rparr>) in (w2, g2, blocked))
              | None \<Rightarrow>
                 if blocks n1 then
                   (let (w2, g2, _, _) = saveNode env w1 g1 (n1\<lparr>n_status := NodeBlocked\<rparr>) in (w2, g2, True))
                 else (w1, g1, blocked)))"

fun runLoop :: "Env \<Rightarrow> string list \<Rightarrow> Runner \<Rightarrow> Graph \<Rightarrow> bool \<Rightarrow> Runner \<times> Graph \<times> bool \<times> string option" where
  "runLoop env [] w g blocked = (w, g, blocked, None)"
| "runLoop env (i # is) w g blocked =
    (case e_ctx env (r_tick w) of
       Some e \<Rightarrow> (tick w, g, blocked, Some e)
     | None \<Rightarrow> (let (w1, g1, b1) = runNode env (tick w) g blocked i in runLoop env is w1 g1 b1))"

definition runOrder :: "Env \<Rightarrow> Runner \<Rightarrow> Graph \<Rightarrow> string list \<Rightarrow> Runner \<times> OrchError option" where
  "runOrder env w g order =
    (let (w1, g1, blocked, e) = runLoop env order w g False
     in case e of
          Some m \<Rightarrow> (w1, Some (ContextErr m))
        | None \<Rightarrow>
           (let (w2, _, se) = SaveGraph env w1 (g1\<lparr>g_status := (if blocked then GraphBlocked else GraphCompleted)\<rparr>)
            in (w2, map_option SaveErr se)))"

definition runPlanned :: "Env \<Rightarrow> Runner \<Rightarrow> Graph \<Rightarrow> Runner \<times> OrchError option" where
  "runPlanned env w g =
    (case topoSort (g_nodes g) of Inl e \<Rightarrow> (w, Some e) | Inr order \<Rightarrow> runOrder env w g order)"

definition Run :: "Env \<Rightarrow> Runner \<Rightarrow> string \<Rightarrow> Runner \<times> OrchError option" where
  "Run env w gid =
    (case GetGraph w gid of
       None \<Rightarrow> (w, Some (GraphNotFound gid))
     | Some g \<Rightarrow>
        if g_nodes g = [] then
          (case Plan env w gid [] of
             (w1, Inl e) \<Rightarrow> (w1, Some e)
           | (w1, Inr _) \<Rightarrow>
              (case GetGraph w1 gid of None \<Rightarrow> (w1, Some (GraphNotFound gid)) | Some g1 \<Rightarrow> runPlanned env w1 g1))
        else runPlanned env w g)"

end
