(* ===== verification/Orchestrator_Topo.thy ===== *)
theory Orchestrator_Topo
  imports Orchestrator
begin

text \<open>
  \<open>topoSort\<close> of \<open>internal/orchestrator/runner.go\<close> is Kahn's algorithm with the ready set kept sorted. The
  loop invariant \<open>topoInv\<close> says that the in-degree of an id is the number of its dependencies not yet
  put out, and that the ids with in-degree 0 are the ones put out or ready. With it, the sort succeeds
  exactly on distinct ids without a cycle, and its result lists every id once, after its dependencies.
\<close>

section \<open>In-degrees\<close>

definition edges :: "Node list \<Rightarrow> (string \<times> string) list" where
  "edges nodes = concat (map (\<lambda>n. map (Pair (n_id n)) (n_depends n)) nodes)"

lemma edges_simps [simp]:
  "edges [] = []" "edges (n # ns) = map (Pair (n_id n)) (n_depends n) @ edges ns"
  by (simp_all add: edges_def)

lemma set_edges: "(i, d) \<in> set (edges nodes) \<longleftrightarrow> (\<exists>n\<in>set nodes. n_id n = i \<and> d \<in> set (n_depends n))"
  by (auto simp: edges_def)

lemma nodeIDs_simps [simp]: "nodeIDs [] = []" "nodeIDs (n # ns) = n_id n # nodeIDs ns"
  by (simp_all add: nodeIDs_def)

text \<open>The number of dependencies of \<open>i\<close> among \<open>D\<close>, with multiplicity.\<close>

definition waits :: "Node list \<Rightarrow> (string \<Rightarrow> bool) \<Rightarrow> string \<Rightarrow> nat" where
  "waits nodes D i = length (filter (\<lambda>e. fst e = i \<and> D (snd e)) (edges nodes))"

lemma countDeps_value [simp]:
  "mapGetOr 0 (countDeps known i ds m) a = mapGetOr 0 m a + (if a = i then int (length (filter (\<lambda>d. d \<in> set known) ds)) else 0)"
  by (induction known i ds m rule: countDeps.induct) auto

lemma countDeps_keys: "mapHas m i \<Longrightarrow> mapHas (countDeps known i ds m) a \<longleftrightarrow> mapHas m a"
  by (induction known i ds m rule: countDeps.induct) auto

lemma countDeps_wf: "wf_map m \<Longrightarrow> wf_map (countDeps known i ds m)"
  by (induction known i ds m rule: countDeps.induct) auto

lemma countAll_value:
  "mapGetOr 0 (countAll known ns m) a = mapGetOr 0 m a + int (waits ns (\<lambda>d. d \<in> set known) a)"
  by (induction known ns m rule: countAll.induct) (auto simp: waits_def filter_map comp_def)

lemma countAll_keys:
  "\<forall>i\<in>set (nodeIDs ns). mapHas m i \<Longrightarrow> mapHas (countAll known ns m) a \<longleftrightarrow> mapHas m a"
  by (induction known ns m rule: countAll.induct) (auto simp: countDeps_keys)

lemma countAll_wf: "wf_map m \<Longrightarrow> wf_map (countAll known ns m)"
  by (induction known ns m rule: countAll.induct) (auto simp: countDeps_wf)

lemma initIndeg_props:
  "\<forall>i. mapGetOr 0 m i = 0 \<Longrightarrow> mapGetOr 0 (initIndeg ns m) a = 0"
  "mapHas (initIndeg ns m) a \<longleftrightarrow> a \<in> set (nodeIDs ns) \<or> mapHas m a"
  "wf_map m \<Longrightarrow> wf_map (initIndeg ns m)"
  by (induction ns m rule: initIndeg.induct) auto

section \<open>One round\<close>

definition decr :: "string \<Rightarrow> (string, int) gomap \<times> string list \<Rightarrow> (string, int) gomap \<times> string list" where
  "decr a s = (let k = mapGetOr 0 (fst s) a - 1
               in (mapSet (fst s) a k, if k = 0 then snd s @ [a] else snd s))"

definition dependants :: "Node list \<Rightarrow> string \<Rightarrow> string list" where
  "dependants nodes i = map fst (filter (\<lambda>e. snd e = i) (edges nodes))"

lemma relaxDeps_fold: "relaxDeps i a ds s = fold decr (map fst (filter (\<lambda>e. snd e = i) (map (Pair a) ds))) s"
  by (induction i a ds s rule: relaxDeps.induct) (auto simp: decr_def Let_def)

lemma relaxAll_fold: "relaxAll i ns s = fold decr (dependants ns i) s"
  by (induction i ns s rule: relaxAll.induct) (simp_all add: dependants_def relaxDeps_fold)

lemma fold_decr_value: "mapGetOr 0 (fst (fold decr as s)) a = mapGetOr 0 (fst s) a - int (count_list as a)"
  by (induction as arbitrary: s) (auto simp: decr_def Let_def)

lemma fold_decr_ready:
  assumes "\<forall>a\<in>set as. int (count_list as a) \<le> mapGetOr 0 (fst s) a"
  shows "\<exists>X. snd (fold decr as s) = snd s @ X \<and> distinct X
           \<and> set X = {a \<in> set as. mapGetOr 0 (fst s) a = int (count_list as a)}"
  using assms
proof (induction as arbitrary: s)
  case (Cons b bs)
  let ?s = "decr b s"
  have val: "mapGetOr 0 (fst ?s) a = mapGetOr 0 (fst s) a - (if a = b then 1 else 0)" for a
    by (simp add: decr_def Let_def)
  have "\<forall>a\<in>set bs. int (count_list bs a) \<le> mapGetOr 0 (fst ?s) a"
    using Cons.prems by (fastforce simp: val)
  from Cons.IH [OF this] obtain X where X: "snd (fold decr bs ?s) = snd ?s @ X" "distinct X"
    "set X = {a \<in> set bs. mapGetOr 0 (fst ?s) a = int (count_list bs a)}" by blast
  show ?case
  proof (cases "mapGetOr 0 (fst s) b = 1")
    case True
    then have "count_list bs b = 0" using Cons.prems by force
    then have "b \<notin> set bs" by (simp add: count_list_0_iff)
    moreover have "snd ?s = snd s @ [b]" using True by (simp add: decr_def)
    ultimately show ?thesis using X True by (intro exI [of _ "b # X"]) (auto simp: val)
  next
    case False
    then have "snd ?s = snd s" by (simp add: decr_def Let_def)
    moreover have "a \<in> set bs \<and> mapGetOr 0 (fst ?s) a = int (count_list bs a)
      \<longleftrightarrow> a \<in> set (b # bs) \<and> mapGetOr 0 (fst s) a = int (count_list (b # bs) a)" for a
    proof (cases "a = b \<and> b \<notin> set bs")
      case True
      then show ?thesis using False by simp
    qed (auto simp: val)
    ultimately show ?thesis using X by simp
  qed
qed simp

section \<open>The loop\<close>

definition depsBefore :: "Node list \<Rightarrow> string list \<Rightarrow> bool" where
  "depsBefore nodes out \<longleftrightarrow> (\<forall>us i vs d. out = us @ i # vs \<longrightarrow> (i, d) \<in> set (edges nodes) \<longrightarrow>
     d \<in> set (nodeIDs nodes) \<longrightarrow> d \<in> set us)"

definition topoInv :: "Node list \<Rightarrow> (string, int) gomap \<Rightarrow> string list \<Rightarrow> string list \<Rightarrow> bool" where
  "topoInv nodes m ready out \<longleftrightarrow>
     distinct (out @ ready) \<and> set (out @ ready) \<subseteq> set (nodeIDs nodes) \<and>
     (\<forall>i\<in>set (nodeIDs nodes). mapGetOr 0 m i = int (waits nodes (\<lambda>d. d \<in> set (nodeIDs nodes) \<and> d \<notin> set out) i)) \<and>
     (\<forall>i\<in>set (nodeIDs nodes). i \<in> set (out @ ready) \<longleftrightarrow> mapGetOr 0 m i = 0) \<and>
     depsBefore nodes out"

lemma edges_ids: "(i, d) \<in> set (edges nodes) \<Longrightarrow> i \<in> set (nodeIDs nodes)"
  by (auto simp: set_edges nodeIDs_def)

lemma waits_zero: "waits nodes D i = 0 \<longleftrightarrow> (\<forall>d. (i, d) \<in> set (edges nodes) \<longrightarrow> \<not> D d)"
  unfolding waits_def length_0_conv filter_empty_conv by (simp only: Ball_def split_paired_all) auto

lemma count_dependants: "count_list (dependants nodes i) a = waits nodes (\<lambda>d. d = i) a"
  unfolding dependants_def waits_def
  by (induction "edges nodes" arbitrary: nodes) (auto simp: count_list_eq_length_filter filter_map comp_def conj_commute intro!: arg_cong [where f = length] filter_cong)

lemma waits_split:
  assumes "D i" "\<not> E i" "\<And>d. d \<noteq> i \<Longrightarrow> D d \<longleftrightarrow> E d"
  shows "waits nodes D a = waits nodes E a + waits nodes (\<lambda>d. d = i) a"
proof -
  have D: "D d \<longleftrightarrow> d = i \<or> E d" for d using assms by (cases "d = i") auto
  have "length (filter (\<lambda>e. fst e = a \<and> D (snd e)) es) = length (filter (\<lambda>e. fst e = a \<and> E (snd e)) es)
      + length (filter (\<lambda>e. fst e = a \<and> snd e = i) es)" for es
    by (induction es) (auto simp: D assms(2))
  then show ?thesis unfolding waits_def .
qed

lemma depsBefore_snoc:
  "depsBefore nodes out \<Longrightarrow> \<forall>d. (i, d) \<in> set (edges nodes) \<longrightarrow> d \<in> set (nodeIDs nodes) \<longrightarrow> d \<in> set out \<Longrightarrow>
   depsBefore nodes (out @ [i])"
  unfolding depsBefore_def by (auto simp: append_eq_append_conv2 append_eq_Cons_conv Cons_eq_append_conv)

lemma topoInv_step:
  assumes "topoInv nodes m (i # ready) out"
  shows "topoInv nodes (fst (relaxAll i nodes (m, ready))) (sort (snd (relaxAll i nodes (m, ready)))) (out @ [i])"
proof -
  let ?N = "set (nodeIDs nodes)" and ?as = "dependants nodes i"
  let ?W = "\<lambda>Q. waits nodes (\<lambda>d. d \<in> ?N \<and> d \<notin> Q)"
  note inv = assms [unfolded topoInv_def]
  have i: "i \<in> ?N" "i \<notin> set out" and deg: "\<And>a. a \<in> ?N \<Longrightarrow> mapGetOr 0 m a = int (?W (set out) a)"
    and zero: "\<And>a. a \<in> ?N \<Longrightarrow> a \<in> set (out @ i # ready) \<longleftrightarrow> mapGetOr 0 m a = 0"
    using inv by auto
  have split: "?W (set out) a = ?W (set (out @ [i])) a + count_list ?as a" for a
    unfolding count_dependants by (rule waits_split) (use i in auto)
  have as: "set ?as \<subseteq> ?N" by (auto simp: dependants_def dest: edges_ids)
  have bound: "\<forall>a\<in>set ?as. int (count_list ?as a) \<le> mapGetOr 0 (fst (m, ready)) a"
    using as deg split by fastforce
  from fold_decr_ready [OF bound] obtain X where X: "snd (relaxAll i nodes (m, ready)) = ready @ X" "distinct X"
    "set X = {a \<in> set ?as. mapGetOr 0 m a = int (count_list ?as a)}" unfolding relaxAll_fold by auto
  let ?m = "fst (relaxAll i nodes (m, ready))"
  have val: "mapGetOr 0 ?m a = int (?W (set (out @ [i])) a)" if "a \<in> ?N" for a
    using deg [OF that] split [of a] by (simp add: relaxAll_fold fold_decr_value)
  have pos: "0 < count_list ?as a" if "a \<in> set ?as" for a
    using that count_list_0_iff [of ?as a] by simp
  have notin: "set X \<inter> set (out @ i # ready) = {}"
    using X(3) zero as pos by fastforce
  have newzero: "a \<in> set (out @ [i] @ ready @ X) \<longleftrightarrow> mapGetOr 0 ?m a = 0" if a: "a \<in> ?N" for a
  proof -
    have "mapGetOr 0 ?m a = mapGetOr 0 m a - int (count_list ?as a)"
      by (simp add: relaxAll_fold fold_decr_value)
    moreover have "a \<notin> set ?as \<Longrightarrow> count_list ?as a = 0" by (simp add: count_list_0_iff)
    moreover have "a \<in> set ?as \<Longrightarrow> mapGetOr 0 m a \<noteq> 0" using bound pos by fastforce
    ultimately show ?thesis using zero [OF a] X(3) by (cases "a \<in> set ?as") auto
  qed
  have "?W (set out) i = 0" using zero [OF i(1)] deg [OF i(1)] by simp
  then have "depsBefore nodes (out @ [i])"
    using inv by (intro depsBefore_snoc) (auto simp: waits_zero)
  then show ?thesis using inv X notin as val newzero unfolding topoInv_def by auto
qed

lemma topoInv_loop: "topoInv nodes m ready out \<Longrightarrow> \<exists>m'. topoInv nodes m' [] (topoLoop nodes m ready out)"
proof (induction nodes m ready out rule: topoLoop.induct)
  case (1 nodes m out)
  then show ?case by auto
next
  case (2 nodes m i ready out)
  then show ?case using topoInv_step by simp
qed

lemma topoInv_start:
  fixes nodes
  defines "m \<equiv> countAll (nodeIDs nodes) nodes (initIndeg nodes [])"
  shows "topoInv nodes m (sort (map fst (filter (\<lambda>e. snd e = 0) m))) []"
proof -
  have has: "mapHas m a \<longleftrightarrow> a \<in> set (nodeIDs nodes)" for a
    unfolding m_def by (subst countAll_keys) (auto simp: initIndeg_props(2), simp add: mapHas_def)
  have wf: "wf_map m" unfolding m_def by (simp add: countAll_wf initIndeg_props)
  have val: "mapGetOr 0 m a = int (waits nodes (\<lambda>d. d \<in> set (nodeIDs nodes)) a)" for a
    unfolding m_def countAll_value by (subst initIndeg_props(1)) (auto simp: mapGetOr_def)
  have keys: "a \<in> set (map fst (filter (\<lambda>e. snd e = 0) m)) \<longleftrightarrow> mapGet m a = Some 0" for a
    using wf_map_mem [OF wf, of a 0] by force
  have "distinct (map fst (filter (\<lambda>e. snd e = 0) m))"
    using wf unfolding wf_map_def by (rule distinct_map_filter)
  moreover have "mapGet m a = Some 0 \<longleftrightarrow> mapGetOr 0 m a = 0" if "a \<in> set (nodeIDs nodes)" for a
    using that has [of a] by (auto simp: mapGetOr_def mapHas_def)
  moreover have "mapGet m a = Some 0 \<Longrightarrow> a \<in> set (nodeIDs nodes)" for a
    using has [of a] by (simp add: mapHas_def)
  ultimately show ?thesis unfolding topoInv_def depsBefore_def using keys val by auto
qed

section \<open>The sort\<close>

text \<open>The dependencies between nodes of the list, as a relation on ids.\<close>

definition nodeDeps :: "Node list \<Rightarrow> (string \<times> string) set" where
  "nodeDeps nodes = {(d, n_id n) |n d. n \<in> set nodes \<and> d \<in> set (n_depends n) \<and> d \<in> set (nodeIDs nodes)}"

lemma nodeDeps_edges: "(d, i) \<in> nodeDeps nodes \<longleftrightarrow> (i, d) \<in> set (edges nodes) \<and> d \<in> set (nodeIDs nodes)"
  by (auto simp: nodeDeps_def set_edges)

lemma finite_nodeDeps: "finite (nodeDeps nodes)"
proof (rule finite_subset)
  show "nodeDeps nodes \<subseteq> set (nodeIDs nodes) \<times> set (nodeIDs nodes)" by (auto simp: nodeDeps_def nodeIDs_def)
qed simp

lemma topoLoop_out:
  assumes "topoInv nodes m [] out"
  shows "distinct out" "set out \<subseteq> set (nodeIDs nodes)" "depsBefore nodes out"
    and "i \<in> set (nodeIDs nodes) - set out \<Longrightarrow> \<exists>d. (d, i) \<in> nodeDeps nodes \<and> d \<in> set (nodeIDs nodes) - set out"
proof -
  note inv = assms [unfolded topoInv_def]
  show "distinct out" "set out \<subseteq> set (nodeIDs nodes)" "depsBefore nodes out" using inv by auto
  assume i: "i \<in> set (nodeIDs nodes) - set out"
  then have "waits nodes (\<lambda>d. d \<in> set (nodeIDs nodes) \<and> d \<notin> set out) i \<noteq> 0" using inv by auto
  then show "\<exists>d. (d, i) \<in> nodeDeps nodes \<and> d \<in> set (nodeIDs nodes) - set out"
    unfolding waits_zero nodeDeps_edges by auto
qed

lemma topoLoop_all:
  assumes "topoInv nodes m [] out" "acyclic (nodeDeps nodes)"
  shows "set out = set (nodeIDs nodes)"
proof (rule ccontr)
  assume "set out \<noteq> set (nodeIDs nodes)"
  then obtain i where i: "i \<in> set (nodeIDs nodes) - set out" using topoLoop_out(2) [OF assms(1)] by blast
  have "wf (nodeDeps nodes)" using finite_acyclic_wf finite_nodeDeps assms(2) by blast
  from wfE_min [OF this i] obtain z where z: "z \<in> set (nodeIDs nodes) - set out"
    "\<And>y. (y, z) \<in> nodeDeps nodes \<Longrightarrow> y \<notin> set (nodeIDs nodes) - set out" by blast
  then show False using topoLoop_out(4) [OF assms(1) z(1)] by blast
qed

lemma depsBefore_acyclic:
  assumes "distinct out" "set (nodeIDs nodes) \<subseteq> set out" "depsBefore nodes out"
  shows "acyclic (nodeDeps nodes)"
proof -
  define f where "f i = length (takeWhile (\<lambda>x. x \<noteq> i) (rev out))" for i
  have "f i < f d" if "(d, i) \<in> nodeDeps nodes" for d i
  proof -
    have e: "(i, d) \<in> set (edges nodes)" "d \<in> set (nodeIDs nodes)" using that by (auto simp: nodeDeps_edges)
    with assms(2) edges_ids have "i \<in> set out" by blast
    then obtain us vs where out: "out = us @ i # vs" by (meson split_list)
    with e assms(3) have "d \<in> set us" unfolding depsBefore_def by blast
    with out assms(1) have "d \<noteq> i" "d \<notin> set vs" "i \<notin> set vs" by auto
    then show ?thesis using out unfolding f_def by (auto simp: takeWhile_append)
  qed
  then show ?thesis by (rule ranked_acyclic)
qed

lemma topoSort_out:
  obtains out m where "topoInv nodes m [] out"
    "topoSort nodes = (if length out \<noteq> length nodes then Inl GraphCycle else Inr out)"
  using topoInv_loop [OF topoInv_start, of nodes] unfolding topoSort_def Let_def by blast

lemma topoSort_sound:
  assumes "topoSort nodes = Inr out"
  shows "distinct out" "set out = set (nodeIDs nodes)" "distinct (nodeIDs nodes)" "depsBefore nodes out"
    "acyclic (nodeDeps nodes)"
proof -
  obtain m where inv: "topoInv nodes m [] out" and len: "length out = length nodes"
    using assms by (rule_tac topoSort_out [of nodes]) (auto split: if_splits)
  note o = topoLoop_out(1-3) [OF inv]
  have card: "card (set out) = length (nodeIDs nodes)"
    using o(1) len by (simp add: distinct_card nodeIDs_def)
  have "card (set out) \<le> card (set (nodeIDs nodes))" using o(2) by (simp add: card_mono)
  with card have "card (set (nodeIDs nodes)) = length (nodeIDs nodes)"
    using card_length [of "nodeIDs nodes"] by linarith
  then show "distinct (nodeIDs nodes)" by (rule card_distinct)
  show all: "set out = set (nodeIDs nodes)"
    using o(2) card \<open>card (set (nodeIDs nodes)) = length (nodeIDs nodes)\<close> by (simp add: card_subset_eq)
  show "distinct out" "depsBefore nodes out" using o by auto
  show "acyclic (nodeDeps nodes)" using depsBefore_acyclic o all by blast
qed

lemma topoSort_complete:
  assumes "distinct (nodeIDs nodes)" "acyclic (nodeDeps nodes)"
  shows "\<exists>out. topoSort nodes = Inr out"
proof (rule topoSort_out [of nodes])
  fix out m assume inv: "topoInv nodes m [] out"
    and ts: "topoSort nodes = (if length out \<noteq> length nodes then Inl GraphCycle else Inr out)"
  have "length out = length (nodeIDs nodes)"
    using topoLoop_all [OF inv assms(2)] topoLoop_out(1) [OF inv] assms(1) by (metis distinct_card)
  then show ?thesis using ts by (simp add: nodeIDs_def)
qed

end
