(* ===== verification/Orchestrator_Run.thy ===== *)
theory Orchestrator_Run
  imports Orchestrator_Topo
begin

text \<open>
  One walk of \<open>Run\<close> over the graph. A step of the loop changes the node it is at and nothing else of the
  graph's nodes (\<open>runNode_outcome\<close>); since the order puts dependencies first, what a step decided about a
  node stays true to the end. \<open>walked\<close> is the invariant that says so, \<open>runLoop_walked\<close> keeps it.
\<close>

section \<open>Nodes by id\<close>

lemma lookupIn_Some: "lookupIn ns i = Some n \<Longrightarrow> n \<in> set ns \<and> n_id n = i"
  by (induction ns) (auto split: if_splits)

lemma lookupIn_None: "lookupIn ns i = None \<longleftrightarrow> i \<notin> set (nodeIDs ns)"
  by (induction ns) auto

lemma lookupIn_mem: "distinct (nodeIDs ns) \<Longrightarrow> n \<in> set ns \<longleftrightarrow> lookupIn ns (n_id n) = Some n"
proof (induction ns)
  case (Cons x xs)
  then show ?case using lookupIn_None [of xs] by (auto simp: nodeIDs_def dest: lookupIn_Some)
qed simp

lemma nodeIDs_replaceFirst [simp]: "nodeIDs (replaceFirst n ns) = nodeIDs ns"
  by (induction ns) auto

lemma lookupIn_replaceFirst:
  "lookupIn (replaceFirst n ns) j = (if j = n_id n \<and> j \<in> set (nodeIDs ns) then Some n else lookupIn ns j)"
  by (induction ns) auto

lemma replaceFirst_twice: "n_id a = n_id b \<Longrightarrow> replaceFirst a (replaceFirst b ns) = replaceFirst a ns"
  by (induction ns) auto

definition stuck :: "Node \<Rightarrow> bool" where
  "stuck n \<longleftrightarrow> n_status n = NodeBlocked \<or> n_status n = NodeFailed"

lemma depBlocked_lookup:
  assumes "distinct (nodeIDs (g_nodes g))"
  shows "depBlocked g n \<longleftrightarrow> (\<exists>d\<in>set (n_depends n). \<exists>x. lookupNode g d = Some x \<and> stuck x)"
  using lookupIn_mem [OF assms] unfolding depBlocked_def lookupNode_def stuck_def
  by (metis lookupIn_Some)

section \<open>Frame of the operations\<close>

text \<open>What no operation of the runner changes in a node.\<close>

definition sameNode :: "Node \<Rightarrow> Node \<Rightarrow> bool" where
  "sameNode n n' \<longleftrightarrow> n_id n' = n_id n \<and> n_graph n' = n_graph n \<and> n_kind n' = n_kind n \<and> n_prd n' = n_prd n
     \<and> n_guardrail n' = n_guardrail n \<and> n_depends n' = n_depends n \<and> n_created n' = n_created n"

lemma sameNode_refl [simp]: "sameNode n n"
  by (simp add: sameNode_def)

definition sameGraph :: "Graph \<Rightarrow> Graph \<Rightarrow> bool" where
  "sameGraph g g' \<longleftrightarrow> g_id g' = g_id g \<and> g_title g' = g_title g \<and> g_dir g' = g_dir g \<and> g_prds g' = g_prds g
     \<and> g_created g' = g_created g"

lemma sameGraph_trans: "sameGraph a b \<Longrightarrow> sameGraph b c \<Longrightarrow> sameGraph a c"
  by (simp add: sameGraph_def)

lemma sameGraph_refl [simp]: "sameGraph g g"
  by (simp add: sameGraph_def)

fun prdRuns :: "Call list \<Rightarrow> string list" where
  "prdRuns [] = []"
| "prdRuns (RanPRD p # cs) = p # prdRuns cs"
| "prdRuns (RanGuardrail q d # cs) = prdRuns cs"

lemma prdRuns_append [simp]: "prdRuns (xs @ ys) = prdRuns xs @ prdRuns ys"
  by (induction xs rule: prdRuns.induct) auto

lemmas clock_simps = timeNow_def tick_def persist_def Let_def

lemma SaveGraph_frame:
  assumes "SaveGraph env w g = (w', g', e)"
  shows "sameGraph g g'" "g_nodes g' = g_nodes g" "g_status g' = g_status g" "r_calls w' = r_calls w"
    "GetGraph w' (g_id g) = Some g'" "e = e_disk env (Suc (r_tick w))"
  using assms by (auto simp: SaveGraph_def clock_simps sameGraph_def GetGraph_def)

lemma saveNode_frame:
  assumes "saveNode env w g n = (w', g', n', e)"
  shows "sameGraph g g'" "g_nodes g' = replaceFirst n' (g_nodes g)" "\<exists>t. n' = n\<lparr>n_updated := t\<rparr>"
    "r_calls w' = r_calls w" "GetGraph w' (g_id g) = Some g'" "e = e_disk env (Suc (Suc (r_tick w)))"
proof -
  obtain t w1 where s: "SaveGraph env w1 (g\<lparr>g_nodes := replaceFirst n' (g_nodes g)\<rparr>) = (w', g', e)"
    "n' = n\<lparr>n_updated := t\<rparr>" "r_calls w1 = r_calls w" "r_tick w1 = Suc (r_tick w)"
    using assms by (auto simp: saveNode_def clock_simps split: prod.splits)
  from SaveGraph_frame [OF s(1)] s(2-)
  show "sameGraph g g'" "g_nodes g' = replaceFirst n' (g_nodes g)" "\<exists>t. n' = n\<lparr>n_updated := t\<rparr>"
    "r_calls w' = r_calls w" "GetGraph w' (g_id g) = Some g'" "e = e_disk env (Suc (Suc (r_tick w)))"
    by (auto simp: sameGraph_def)
qed

text \<open>
  \<open>moved g n (w, g', n')\<close>: \<open>n'\<close> is a later form of the node \<open>n\<close>, and \<open>g'\<close> is \<open>g\<close> with \<open>n'\<close> in its place.
\<close>

definition moved :: "Graph \<Rightarrow> Node \<Rightarrow> Graph \<Rightarrow> Node \<Rightarrow> bool" where
  "moved g n g' n' \<longleftrightarrow> sameGraph g g' \<and> sameNode n n' \<and> g_nodes g' = replaceFirst n' (g_nodes g)"

lemma saveNode_moved:
  assumes "saveNode env w g n1 = (w', g', n', e)" "sameNode n n1"
  shows "moved g n g' n'" "n_status n' = n_status n1" "n_verdict n' = n_verdict n1" "r_calls w' = r_calls w"
  using saveNode_frame(1-4) [OF assms(1)] assms(2) by (auto simp: moved_def sameNode_def)

lemma saveNode_moved_again:
  assumes "moved g n g1 n1" "saveNode env w g1 n2 = (w', g', n', e)" "sameNode n n2"
  shows "moved g n g' n'" "n_status n' = n_status n2" "n_verdict n' = n_verdict n2" "r_calls w' = r_calls w"
  using saveNode_frame(1-4) [OF assms(2)] assms(1,3)
  by (auto simp: moved_def sameNode_def sameGraph_def replaceFirst_twice)

lemma started_moved:
  assumes "markStart env w n = (w1, n1)" "saveNode env w1 g n1 = (w2, g2, n2, e)"
  shows "moved g n g2 n2" "r_calls w2 = r_calls w"
  using assms saveNode_moved [OF assms(2), of n] by (auto simp: markStart_def clock_simps sameNode_def)

lemma sameNode_updates [simp]:
  "sameNode n (n'\<lparr>n_status := s\<rparr>) \<longleftrightarrow> sameNode n n'" "sameNode n (n'\<lparr>n_verdict := v\<rparr>) \<longleftrightarrow> sameNode n n'"
  "sameNode n (n'\<lparr>n_finished := f\<rparr>) \<longleftrightarrow> sameNode n n'" "sameNode n (n'\<lparr>n_error := x\<rparr>) \<longleftrightarrow> sameNode n n'"
  by (auto simp: sameNode_def)

lemma moved_same: "moved g n g' n' \<Longrightarrow> sameNode n n'"
  by (simp add: moved_def)

section \<open>Running one node\<close>

text \<open>What running a PRD, or a guardrail, leaves behind.\<close>

definition prdCall :: "Env \<Rightarrow> Node \<Rightarrow> string list" where
  "prdCall env n = (if e_run env = None then [] else [n_prd n])"

lemma callRun_calls: "callRun env w p = (w', r) \<Longrightarrow> prdRuns (r_calls w') = prdRuns (r_calls w) @ (if e_run env = None then [] else [p])"
  by (auto simp: callRun_def tick_def split: option.splits)

lemma runPRD_moved:
  assumes "runPRD env w g n = (w', g', n', e)"
  shows "moved g n g' n'" "e = None \<Longrightarrow> n_status n' = NodeCompleted"
    "prdRuns (r_calls w') = prdRuns (r_calls w) @ prdCall env n"
proof -
  obtain w1 n1 where 1: "markStart env w n = (w1, n1)" by fastforce
  obtain w2 g2 n2 e2 where 2: "saveNode env w1 g n1 = (w2, g2, n2, e2)" by (rule prod_cases4)
  obtain w3 res where 3: "callRun env w2 (n_prd n2) = (w3, res)" by fastforce
  note m = started_moved [OF 1 2]
  have calls: "prdRuns (r_calls w3) = prdRuns (r_calls w) @ prdCall env n"
    using callRun_calls [OF 3] m moved_same [OF m(1)] by (simp add: prdCall_def sameNode_def)
  have "moved g n g' n' \<and> (e = None \<longrightarrow> n_status n' = NodeCompleted) \<and> r_calls w' = r_calls w3"
  proof (cases res)
    case (Inl x)
    then show ?thesis using assms 1 2 3 m by (auto simp: runPRD_def)
  next
    case (Inr s)
    then obtain w5 n5 where "saveNode env w5 g2 n5 = (w', g', n', e)" "sameNode n n5"
      "n_status n5 = NodeCompleted" "r_calls w5 = r_calls w3"
      using assms 1 2 3 moved_same [OF m(1)] by (auto simp: runPRD_def markDone_def clock_simps)
    then show ?thesis using saveNode_moved_again [OF m(1)] by metis
  qed
  then show "moved g n g' n'" "e = None \<Longrightarrow> n_status n' = NodeCompleted"
    "prdRuns (r_calls w') = prdRuns (r_calls w) @ prdCall env n" using calls by auto
qed

lemma runGuardrail_moved:
  assumes "runGuardrail env w g n = (w', g', n', e)"
  shows "moved g n g' n'" "e = None \<Longrightarrow> \<not> blocks n' \<Longrightarrow> n_status n' = NodeCompleted"
    "prdRuns (r_calls w') = prdRuns (r_calls w)"
proof -
  obtain w1 n1 where 1: "markStart env w n = (w1, n1)" by fastforce
  obtain w2 g2 n2 e2 where 2: "saveNode env w1 g n1 = (w2, g2, n2, e2)" by (rule prod_cases4)
  note m = started_moved [OF 1 2]
  have fin: "moved g n g' n' \<and> (e = None \<longrightarrow> \<not> blocks n' \<longrightarrow> n_status n' = NodeCompleted)
      \<and> prdRuns (r_calls w') = prdRuns (r_calls w2)"
    if "saveNode env w4 g2 n4 = (w', g', n', e)" "sameNode n n4" "blocks n4 \<or> n_status n4 = NodeCompleted"
      "prdRuns (r_calls w4) = prdRuns (r_calls w2)" for w4 n4
    using saveNode_moved_again [OF m(1) that(1,2)] that(3,4) unfolding blocks_def by auto
  have "moved g n g' n' \<and> (e = None \<longrightarrow> \<not> blocks n' \<longrightarrow> n_status n' = NodeCompleted)
      \<and> prdRuns (r_calls w') = prdRuns (r_calls w2)"
  proof (cases "e_guard env")
    case None
    then obtain w4 n4 where "saveNode env w4 g2 n4 = (w', g', n', e)" "sameNode n n4"
      "n_status n4 = NodeCompleted" "r_calls w4 = r_calls w2"
      using assms 1 2 moved_same [OF m(1)] by (auto simp: runGuardrail_def markDone_def clock_simps)
    then show ?thesis using fin by metis
  next
    case (Some h)
    let ?r = "h (r_tick w2) (guardTimeout (r_cfg w2)) (requestFor g2 n2)"
    let ?w = "tick w2\<lparr>r_calls := r_calls w2 @ [RanGuardrail (requestFor g2 n2) (guardTimeout (r_cfg w2))]\<rparr>"
    show ?thesis
    proof (cases ?r)
      case (Inl x)
      then show ?thesis using assms 1 2 Some m by (auto simp: runGuardrail_def clock_simps)
    next
      case (Inr v)
      let ?n = "n2\<lparr>n_verdict := Some v\<rparr>"
      let ?wn = "if v_outcome v \<noteq> ''block'' then markDone env ?w ?n NodeCompleted else (?w, ?n)"
      have "saveNode env (fst ?wn) g2 (snd ?wn) = (w', g', n', e)"
        using assms 1 2 Some Inr by (cases ?wn) (simp add: runGuardrail_def Let_def)
      then show ?thesis
        by (rule fin) (use moved_same [OF m(1)] in \<open>auto simp: markDone_def clock_simps blocks_def\<close>)
    qed
  qed
  then show "moved g n g' n'" "e = None \<Longrightarrow> \<not> blocks n' \<Longrightarrow> n_status n' = NodeCompleted"
    "prdRuns (r_calls w') = prdRuns (r_calls w)" using m(2) by auto
qed

text \<open>A node that stops the graph: a PRD that failed, or a guardrail that blocked.\<close>

definition alarm :: "Node \<Rightarrow> bool" where
  "alarm n \<longleftrightarrow> n_status n = NodeBlocked \<or> (n_kind n = NodeKindPRD \<and> n_status n = NodeFailed)"

definition skipped :: "Node \<Rightarrow> bool" where
  "skipped n \<longleftrightarrow> n_status n = NodeCompleted \<or> n_status n = NodeBlocked"

definition settled :: "Node \<Rightarrow> bool" where
  "settled n \<longleftrightarrow> n_status n \<in> {NodeCompleted, NodeBlocked, NodeFailed, NodeCancelled}"

text \<open>How a step of the loop leaves a node it did not skip.\<close>

definition outcome :: "Graph \<Rightarrow> Node \<Rightarrow> Node \<Rightarrow> bool" where
  "outcome g n n' \<longleftrightarrow> settled n' \<and> (n_status n' = NodeCancelled \<longleftrightarrow> depBlocked g n)
     \<and> (n_status n' = NodeBlocked \<longrightarrow> n_kind n = NodeKindGuardrail \<and> blocks n')"

lemma runNode_cases:
  assumes "lookupNode g i = Some n" "\<not> skipped n" "runNode env w g b i = (w', g', b')"
  obtains
    (cancelled) n1 e where "depBlocked g n" "saveNode env w g (n\<lparr>n_status := NodeCancelled\<rparr>) = (w', g', n1, e)" "b' = b"
  | (prd) "\<not> depBlocked g n" "n_kind n = NodeKindPRD" "\<exists>n'. runPRD env w g n = (w', g', n', None)" "b' = b"
  | (prd_failed) w1 g1 n1 m n2 e where "\<not> depBlocked g n" "n_kind n = NodeKindPRD" "runPRD env w g n = (w1, g1, n1, Some m)"
      "saveNode env w1 g1 (n1\<lparr>n_status := NodeFailed, n_error := m\<rparr>) = (w', g', n2, e)" "b'"
  | (guard) n' where "\<not> depBlocked g n" "n_kind n = NodeKindGuardrail" "runGuardrail env w g n = (w', g', n', None)"
      "\<not> blocks n'" "b' = b"
  | (guard_failed) w1 g1 n1 m n2 e where "\<not> depBlocked g n" "n_kind n = NodeKindGuardrail"
      "runGuardrail env w g n = (w1, g1, n1, Some m)"
      "saveNode env w1 g1 (n1\<lparr>n_status := NodeFailed, n_error := m\<rparr>) = (w', g', n2, e)" "b' = b"
  | (guard_blocks) w1 g1 n1 n2 e where "\<not> depBlocked g n" "n_kind n = NodeKindGuardrail"
      "runGuardrail env w g n = (w1, g1, n1, None)" "blocks n1"
      "saveNode env w1 g1 (n1\<lparr>n_status := NodeBlocked\<rparr>) = (w', g', n2, e)" "b'"
  using assms unfolding runNode_def skipped_def
  by (cases "n_kind n") (auto split: prod.splits option.splits if_splits)

text \<open>A step changes its own node, to a settled one, and raises the flag exactly on an alarm.\<close>

lemma runNode_outcome:
  assumes "lookupNode g i = Some n" "\<not> skipped n" "runNode env w g b i = (w', g', b')"
  shows "\<exists>n'. moved g n g' n' \<and> outcome g n n' \<and> (b' \<longleftrightarrow> b \<or> alarm n') \<and>
    prdRuns (r_calls w') = prdRuns (r_calls w)
      @ (if n_kind n = NodeKindPRD \<and> n_status n' \<noteq> NodeCancelled then prdCall env n else [])"
  using assms
proof (cases rule: runNode_cases)
  case (cancelled n1 e)
  then show ?thesis using saveNode_moved [OF cancelled(2), of n]
    by (intro exI [of _ n1]) (auto simp: outcome_def settled_def alarm_def)
next
  case prd
  then obtain n' where r: "runPRD env w g n = (w', g', n', None)" by blast
  show ?thesis using runPRD_moved [OF r] moved_same [of g n g' n'] prd
    by (intro exI [of _ n']) (auto simp: outcome_def settled_def alarm_def)
next
  case (prd_failed w1 g1 n1 m n2 e)
  note r = runPRD_moved [OF prd_failed(3)]
  show ?thesis using saveNode_moved_again [OF r(1) prd_failed(4)] moved_same [OF r(1)] moved_same [of g n g' n2] r(3) prd_failed
    by (intro exI [of _ n2]) (auto simp: outcome_def settled_def alarm_def sameNode_def)
next
  case (guard n')
  note r = runGuardrail_moved [OF guard(3)]
  show ?thesis using r moved_same [OF r(1)] guard
    by (intro exI [of _ n']) (auto simp: outcome_def settled_def alarm_def sameNode_def)
next
  case (guard_failed w1 g1 n1 m n2 e)
  note r = runGuardrail_moved [OF guard_failed(3)]
  show ?thesis using saveNode_moved_again [OF r(1) guard_failed(4)] moved_same [OF r(1)] moved_same [of g n g' n2] r(3) guard_failed
    by (intro exI [of _ n2]) (auto simp: outcome_def settled_def alarm_def sameNode_def)
next
  case (guard_blocks w1 g1 n1 n2 e)
  note r = runGuardrail_moved [OF guard_blocks(3)]
  show ?thesis using saveNode_moved_again [OF r(1) guard_blocks(5)] moved_same [OF r(1)] r(3) guard_blocks
    by (intro exI [of _ n2]) (auto simp: outcome_def settled_def alarm_def blocks_def)
qed

section \<open>The walk\<close>

text \<open>
  \<open>walked g0 vis g b\<close>: the loop started on \<open>g0\<close> and has visited \<open>vis\<close>. A visited node is as it was if it
  was to be skipped, and otherwise settled, cancelled exactly when a dependency of it is stuck; a node not
  visited is untouched; \<open>b\<close> tells whether the walk met an alarm.
\<close>

definition walked :: "Graph \<Rightarrow> string list \<Rightarrow> Graph \<Rightarrow> bool \<Rightarrow> bool" where
  "walked g0 vis g b \<longleftrightarrow> sameGraph g0 g \<and> nodeIDs (g_nodes g) = nodeIDs (g_nodes g0) \<and>
     (\<forall>i n0. lookupNode g0 i = Some n0 \<longrightarrow> (\<exists>n. lookupNode g i = Some n \<and> sameNode n0 n \<and>
        (if i \<in> set vis \<and> \<not> skipped n0 then outcome g n n else n = n0))) \<and>
     (b \<longleftrightarrow> (\<exists>i\<in>set vis. \<exists>n0 n. lookupNode g0 i = Some n0 \<and> \<not> skipped n0 \<and> lookupNode g i = Some n \<and> alarm n))"

definition startedPRD :: "Graph \<Rightarrow> Graph \<Rightarrow> string \<Rightarrow> string option" where
  "startedPRD g0 g i =
    (case (lookupNode g0 i, lookupNode g i) of
       (Some n0, Some n) \<Rightarrow>
         if n_kind n0 = NodeKindPRD \<and> \<not> skipped n0 \<and> n_status n \<noteq> NodeCancelled then Some (n_prd n0) else None
     | _ \<Rightarrow> None)"

lemma moved_lookup:
  assumes "moved g n g' n'" "lookupNode g (n_id n) = Some n"
  shows "lookupNode g' j = (if j = n_id n then Some n' else lookupNode g j)"
  using assms lookupIn_None [of "g_nodes g" "n_id n"]
  by (auto simp: moved_def sameNode_def lookupNode_def lookupIn_replaceFirst)

lemma depBlocked_frame:
  assumes "distinct (nodeIDs (g_nodes g))" "nodeIDs (g_nodes g') = nodeIDs (g_nodes g)" "n_depends n' = n_depends n"
    "\<And>d. d \<in> set (n_depends n) \<Longrightarrow> lookupNode g' d = lookupNode g d"
  shows "depBlocked g' n' \<longleftrightarrow> depBlocked g n"
  using assms by (simp add: depBlocked_lookup)

lemma walked_unseen: "walked g0 vis g b \<Longrightarrow> lookupNode g0 i = None \<longleftrightarrow> lookupNode g i = None"
  unfolding walked_def lookupNode_def by (metis lookupIn_None)

lemma depsBefore_dep:
  assumes "depsBefore (g_nodes g) (vis @ [i])" "distinct (vis @ [i])" "j \<in> set (vis @ [i])" "lookupNode g j = Some n"
    "d \<in> set (n_depends n)" "lookupNode g d \<noteq> None"
  shows "d \<in> set vis"
proof -
  have "(j, d) \<in> set (edges (g_nodes g))" "d \<in> set (nodeIDs (g_nodes g))"
    using assms(4-6) lookupIn_Some [of "g_nodes g" j n] lookupIn_None [of "g_nodes g" d]
    by (auto simp: set_edges lookupNode_def)
  moreover obtain us vs where "vis @ [i] = us @ j # vs" using assms(3) by (meson split_list)
  ultimately have "d \<in> set us" using assms(1) unfolding depsBefore_def by blast
  then show ?thesis using \<open>vis @ [i] = us @ j # vs\<close>
    by (cases vs rule: rev_cases) (auto simp: append_eq_append_conv2 append_eq_Cons_conv)
qed

lemma walked_visit:
  assumes w: "walked g0 vis g b" and i: "i \<notin> set vis" "lookupNode g0 i = Some n0" "\<not> skipped n0"
    and look: "\<And>j. lookupNode g' j = (if j = i then Some n' else lookupNode g j)"
    and m: "moved g n0 g' n'" and out: "outcome g' n' n'" and b: "b' \<longleftrightarrow> b \<or> alarm n'"
    and frame: "\<And>j k0 k. lookupNode g0 j = Some k0 \<Longrightarrow> sameNode k0 k \<Longrightarrow> j \<in> set vis \<Longrightarrow> outcome g k k \<Longrightarrow> outcome g' k k"
  shows "walked g0 (vis @ [i]) g' b'"
proof -
  have "\<exists>n. lookupNode g' j = Some n \<and> sameNode k0 n \<and>
        (if j \<in> set (vis @ [i]) \<and> \<not> skipped k0 then outcome g' n n else n = k0)" if "lookupNode g0 j = Some k0" for j k0
  proof (cases "j = i")
    case True
    then show ?thesis using that i look moved_same [OF m] out by auto
  next
    case False
    obtain n where "lookupNode g j = Some n" "sameNode k0 n" "if j \<in> set vis \<and> \<not> skipped k0 then outcome g n n else n = k0"
      using w \<open>lookupNode g0 j = Some k0\<close> unfolding walked_def by blast
    then show ?thesis using False look frame [OF that] by auto
  qed
  moreover have "b' \<longleftrightarrow> (\<exists>j\<in>set (vis @ [i]). \<exists>k0 k. lookupNode g0 j = Some k0 \<and> \<not> skipped k0 \<and> lookupNode g' j = Some k \<and> alarm k)"
  proof -
    have "b \<longleftrightarrow> (\<exists>j\<in>set vis. \<exists>k0 k. lookupNode g0 j = Some k0 \<and> \<not> skipped k0 \<and> lookupNode g' j = Some k \<and> alarm k)"
      using w i(1) look unfolding walked_def by metis
    then show ?thesis using b i look by auto
  qed
  moreover have "sameGraph g0 g'" "nodeIDs (g_nodes g') = nodeIDs (g_nodes g0)"
    using w m sameGraph_trans by (auto simp: walked_def moved_def)
  ultimately show ?thesis unfolding walked_def by blast
qed

text \<open>Visiting the next node of the order: what it waits for was visited before.\<close>

lemma depBlocked_keep:
  assumes "walked g0 vis g b" "distinct (nodeIDs (g_nodes g0))" "distinct (vis @ [i])"
    "depsBefore (g_nodes g0) (vis @ [i])" "lookupNode g0 i = Some n0"
    "\<And>j. lookupNode g' j = (if j = i then Some n' else lookupNode g j)" "nodeIDs (g_nodes g') = nodeIDs (g_nodes g0)"
    "lookupNode g0 j = Some k0" "j \<in> set (vis @ [i])" "n_depends k = n_depends k0" "n_depends k' = n_depends k0"
  shows "depBlocked g' k \<longleftrightarrow> depBlocked g k'"
proof (rule depBlocked_frame)
  fix d assume "d \<in> set (n_depends k')"
  then have "lookupNode g0 d \<noteq> None \<Longrightarrow> d \<in> set vis"
    using depsBefore_dep [OF assms(4,3,9,8)] assms(11) by simp
  then have "d \<noteq> i" using assms(3,5) by auto
  then show "lookupNode g' d = lookupNode g d" using assms(6) by auto
qed (use assms(1,2,7,10,11) in \<open>auto simp: walked_def\<close>)

lemma walked_run:
  assumes w: "walked g0 vis g b" and d: "distinct (nodeIDs (g_nodes g0))" "distinct (vis @ [i])"
    "depsBefore (g_nodes g0) (vis @ [i])" and r: "runNode env w g b i = (w', g', b')"
    and n0: "lookupNode g0 i = Some n0" "\<not> skipped n0"
  obtains n' where "walked g0 (vis @ [i]) g' b'" "\<And>j. lookupNode g' j = (if j = i then Some n' else lookupNode g j)"
    "prdRuns (r_calls w') = prdRuns (r_calls w)
       @ (if n_kind n0 = NodeKindPRD \<and> n_status n' \<noteq> NodeCancelled then prdCall env n0 else [])"
proof -
  have n: "lookupNode g i = Some n0" using w d(2) n0(1) unfolding walked_def by fastforce
  obtain n' where m: "moved g n0 g' n'" and out: "outcome g n0 n'" and b: "b' \<longleftrightarrow> b \<or> alarm n'"
    and calls: "prdRuns (r_calls w') = prdRuns (r_calls w)
      @ (if n_kind n0 = NodeKindPRD \<and> n_status n' \<noteq> NodeCancelled then prdCall env n0 else [])"
    using runNode_outcome [OF n n0(2) r] by blast
  have "n_id n0 = i" using n lookupIn_Some unfolding lookupNode_def by blast
  then have look: "lookupNode g' j = (if j = i then Some n' else lookupNode g j)" for j
    using moved_lookup [OF m] n by simp
  have "nodeIDs (g_nodes g') = nodeIDs (g_nodes g0)" using m w by (simp add: moved_def walked_def)
  note keep = depBlocked_keep [OF w d n0(1) look this]
  have "outcome g' n' n'"
    using out keep [of i n0 n' n0] n0(1) moved_same [OF m] by (auto simp: outcome_def sameNode_def)
  moreover have "outcome g' k k" if "lookupNode g0 j = Some k0" "sameNode k0 k" "j \<in> set vis" "outcome g k k" for j k k0
    using keep [of j k0 k k] that by (auto simp: outcome_def sameNode_def)
  ultimately have "walked g0 (vis @ [i]) g' b'"
    by (intro walked_visit [OF w _ n0 look m _ b]) (use d(2) in auto)
  then show thesis using that look calls by blast
qed

lemma walked_skip:
  assumes "walked g0 vis g b" "\<And>n0. lookupNode g0 i = Some n0 \<Longrightarrow> skipped n0"
  shows "walked g0 (vis @ [i]) g b"
proof -
  have "j \<in> set (vis @ [i]) \<and> \<not> skipped k0 \<longleftrightarrow> j \<in> set vis \<and> \<not> skipped k0" if "lookupNode g0 j = Some k0" for j k0
    using assms(2) that by auto
  moreover have "(\<exists>j\<in>set (vis @ [i]). \<exists>n0 n. lookupNode g0 j = Some n0 \<and> \<not> skipped n0 \<and> lookupNode g j = Some n \<and> alarm n)
    \<longleftrightarrow> (\<exists>j\<in>set vis. \<exists>n0 n. lookupNode g0 j = Some n0 \<and> \<not> skipped n0 \<and> lookupNode g j = Some n \<and> alarm n)"
    using assms(2) by auto blast
  ultimately show ?thesis using assms(1) unfolding walked_def by simp
qed

lemma walked_step:
  assumes w: "walked g0 vis g b" and d: "distinct (nodeIDs (g_nodes g0))" "distinct (vis @ [i])"
    "depsBefore (g_nodes g0) (vis @ [i])" and r: "runNode env w g b i = (w', g', b')"
  shows "walked g0 (vis @ [i]) g' b' \<and> (\<forall>j\<in>set vis. lookupNode g' j = lookupNode g j) \<and>
    (e_run env \<noteq> None \<longrightarrow>
      prdRuns (r_calls w') = prdRuns (r_calls w) @ (case startedPRD g0 g' i of None \<Rightarrow> [] | Some p \<Rightarrow> [p]))"
proof (cases "lookupNode g0 i")
  case None
  then have "lookupNode g i = None" using walked_unseen [OF w] by blast
  then show ?thesis using walked_skip [OF w, of i] r None by (auto simp: runNode_def startedPRD_def)
next
  case (Some n0)
  show ?thesis
  proof (cases "skipped n0")
    case True
    have n: "lookupNode g i = Some n0" using w d(2) Some unfolding walked_def by fastforce
    then have "(w', g', b') = (w, g, b)" using r True by (auto simp: runNode_def skipped_def)
    then show ?thesis using walked_skip [OF w, of i] Some n True by (auto simp: startedPRD_def)
  next
    case False
    from w d r Some this show ?thesis
      by (rule walked_run) (use d(2) Some False in \<open>auto simp: startedPRD_def prdCall_def\<close>)
  qed
qed

lemma depsBefore_prefix: "depsBefore nodes (xs @ ys) \<Longrightarrow> depsBefore nodes xs"
  unfolding depsBefore_def by (metis append.assoc append_Cons)

lemma startedPRD_frame: "lookupNode g' i = lookupNode g i \<Longrightarrow> startedPRD g0 g' i = startedPRD g0 g i"
  by (simp add: startedPRD_def)

lemma runLoop_walked:
  assumes "walked g0 vis g b" "distinct (nodeIDs (g_nodes g0))" "distinct (vis @ is)"
    "depsBefore (g_nodes g0) (vis @ is)" "runLoop env is w g b = (w', g', b', None)"
  shows "walked g0 (vis @ is) g' b' \<and> (\<forall>j\<in>set vis. lookupNode g' j = lookupNode g j) \<and>
    (e_run env \<noteq> None \<longrightarrow> prdRuns (r_calls w') = prdRuns (r_calls w) @ List.map_filter (startedPRD g0 g') is)"
  using assms
proof (induction "is" arbitrary: vis w g b)
  case Nil
  then show ?case by simp
next
  case (Cons i "is")
  obtain w1 g1 b1 where r: "runNode env (tick w) g b i = (w1, g1, b1)" by (rule prod_cases3)
  then have rest: "runLoop env is w1 g1 b1 = (w', g', b', None)"
    using Cons.prems(5) by (auto split: option.splits)
  have pre: "distinct (vis @ [i])" "depsBefore (g_nodes g0) (vis @ [i])"
    using Cons.prems(3,4) depsBefore_prefix [of _ "vis @ [i]" "is"] by auto
  have step: "walked g0 (vis @ [i]) g1 b1" "\<forall>j\<in>set vis. lookupNode g1 j = lookupNode g j"
    "e_run env \<noteq> None \<longrightarrow> prdRuns (r_calls w1) = prdRuns (r_calls w) @ (case startedPRD g0 g1 i of None \<Rightarrow> [] | Some p \<Rightarrow> [p])"
    using walked_step [OF Cons.prems(1,2) pre r] by (auto simp: tick_def)
  have "walked g0 ((vis @ [i]) @ is) g' b' \<and> (\<forall>j\<in>set (vis @ [i]). lookupNode g' j = lookupNode g1 j) \<and>
    (e_run env \<noteq> None \<longrightarrow> prdRuns (r_calls w') = prdRuns (r_calls w1) @ List.map_filter (startedPRD g0 g') is)"
    by (rule Cons.IH [OF step(1) Cons.prems(2) _ _ rest]) (use Cons.prems(3,4) in auto)
  then show ?case using step(2,3) startedPRD_frame [of g' i g1 g0]
    by (auto simp: List.map_filter_simps split: option.splits)
qed

lemma walked_start: "walked g [] g False"
  by (simp add: walked_def)

text \<open>A whole run of a planned graph that returns no error.\<close>

lemma runPlanned_walked:
  assumes "runPlanned env w g = (w', None)"
  obtains order g1 g' b where "topoSort (g_nodes g) = Inr order" "walked g order g1 b"
    "GetGraph w' (g_id g) = Some g'" "sameGraph g g'" "g_nodes g' = g_nodes g1"
    "g_status g' = (if b then GraphBlocked else GraphCompleted)"
    "e_run env \<noteq> None \<longrightarrow> prdRuns (r_calls w') = prdRuns (r_calls w) @ List.map_filter (startedPRD g g') order"
proof -
  obtain order where o: "topoSort (g_nodes g) = Inr order" "runOrder env w g order = (w', None)"
    using assms by (auto simp: runPlanned_def split: sum.splits)
  obtain w1 g1 b e where l: "runLoop env order w g False = (w1, g1, b, e)" by (rule prod_cases4)
  let ?s = "if b then GraphBlocked else GraphCompleted"
  have e: "e = None" using o(2) l by (auto simp: runOrder_def split: option.splits prod.splits)
  obtain w2 g' se where s: "SaveGraph env w1 (g1\<lparr>g_status := ?s\<rparr>) = (w2, g', se)" by (rule prod_cases3)
  have w': "w' = w2" using o(2) l s e by (simp add: runOrder_def)
  note t = topoSort_sound [OF o(1)]
  have walk: "walked g order g1 b"
    "e_run env \<noteq> None \<longrightarrow> prdRuns (r_calls w1) = prdRuns (r_calls w) @ List.map_filter (startedPRD g g1) order"
    using runLoop_walked [OF walked_start t(3), of order env w w1 g1 b] t(1,4) l e by auto
  note fr = SaveGraph_frame [OF s]
  have "sameGraph g g1" using walk(1) by (simp add: walked_def)
  then have same: "sameGraph g g'" using fr(1) by (simp add: sameGraph_def)
  have "startedPRD g g' = startedPRD g g1" using fr(2) by (intro ext) (simp add: startedPRD_def lookupNode_def)
  then show thesis using that [OF o(1) walk(1)] fr(2-5) same walk(2) \<open>sameGraph g g1\<close> w' by (simp add: sameGraph_def)
qed

end
