(* ===== verification/Orchestrator_Plan.thy ===== *)
theory Orchestrator_Plan
  imports Orchestrator_Run
begin

text \<open>
  What \<open>Plan\<close> builds: the PRD nodes in the order of the PRD ids, then the guardrail nodes of each PRD.
  A dependency reaches the nodes of earlier PRDs only. And the runs in a cooperative environment, in which
  no interaction with the outside fails.
\<close>

section \<open>Planning\<close>

definition addIDs :: "(string \<times> string) list \<Rightarrow> (string, string) gomap \<Rightarrow> (string, string) gomap" where
  "addIDs xs ids = fold (\<lambda>e m. mapSet m (fst e) (snd e)) xs ids"

lemma mapGet_addIDs: "mapGet (addIDs xs ids) d = (case map_of (rev xs) d of Some i \<Rightarrow> Some i | None \<Rightarrow> mapGet ids d)"
proof (induction xs arbitrary: ids)
  case (Cons x xs)
  then show ?case by (cases x) (auto simp: addIDs_def map_add_def split: option.splits)
qed (simp add: addIDs_def)

type_synonym nodeView = "NodeKind \<times> string \<times> string \<times> string list \<times> NodeStatus"

definition view :: "Node \<Rightarrow> nodeView" where
  "view n = (n_kind n, n_prd n, n_guardrail n, n_depends n, n_status n)"

lemma planPRDs_result:
  "planPRDs env gid t deps pids ids w = (w', ids', ns) \<Longrightarrow>
   length ns = length pids \<and> ids' = addIDs (zip pids (nodeIDs ns)) ids \<and>
   (\<forall>k<length pids. view (ns ! k) = (NodeKindPRD, pids ! k, [],
      planDepends deps (addIDs (zip (take k pids) (nodeIDs (take k ns))) ids) (pids ! k), NodePending))"
proof (induction pids arbitrary: ids w ns)
  case (Cons pid pids)
  obtain i w1 where i: "newID env w = (i, w1)" by fastforce
  obtain w2 ids2 ms where rec: "planPRDs env gid t deps pids (mapSet ids pid i) w1 = (w2, ids2, ms)"
    by (rule prod_cases3)
  obtain n where n: "ns = n # ms" "n_id n = i" "ids' = ids2" "w' = w2"
    "view n = (NodeKindPRD, pid, [], planDepends deps ids pid, NodePending)"
    using Cons.prems i rec by (auto simp: Let_def view_def)
  note IH = Cons.IH [OF rec [folded n(3,4)]]
  have "view (ns ! k) = (NodeKindPRD, (pid # pids) ! k, [],
      planDepends deps (addIDs (zip (take k (pid # pids)) (nodeIDs (take k ns))) ids) ((pid # pids) ! k), NodePending)"
    if "k < length (pid # pids)" for k
    using that IH n by (cases k) (auto simp: addIDs_def)
  then show ?case using IH n by (auto simp: addIDs_def)
qed (simp add: addIDs_def)

lemma planGuards_result:
  assumes "planGuards env gid t pid dep grs w = (w', ns)"
  shows "map view ns = map (\<lambda>gr. (NodeKindGuardrail, pid, gr, [dep], NodePending)) grs"
  using assms
  by (induction env gid t pid dep grs w arbitrary: w' ns rule: planGuards.induct)
    (auto simp: view_def split: prod.splits)

lemma planAllGuards_result:
  assumes "planAllGuards env gid t ids guards pids w = (w', ns)"
  shows "map view ns
    = concat (map (\<lambda>pid. map (\<lambda>gr. (NodeKindGuardrail, pid, gr, [mapGetOr [] ids pid], NodePending)) guards) pids)"
  using assms
  by (induction env gid t ids guards pids w arbitrary: w' ns rule: planAllGuards.induct)
    (auto simp: planGuards_result split: prod.splits)

text \<open>With distinct PRD ids, the node id a PRD id was given is found by its position.\<close>

lemma find_index_nth:
  assumes "distinct ps" "k \<le> length ps" "j < k"
  shows "find (\<lambda>x. ps ! x = ps ! j) [0..<k] = Some j"
proof -
  have "\<forall>x<j. ps ! x \<noteq> ps ! j" using assms by (simp add: nth_eq_iff_index_eq)
  then show ?thesis using assms(3) by (auto simp: find_Some_iff intro!: exI [of _ j])
qed

lemma planned_id:
  assumes "distinct ps" "length ns = length ps" "k \<le> length ps"
  shows "mapGet (addIDs (zip (take k ps) (nodeIDs (take k ns))) []) d
       = map_option (\<lambda>j. n_id (ns ! j)) (find (\<lambda>j. ps ! j = d) [0..<k])"
proof -
  let ?z = "zip (take k ps) (nodeIDs (take k ns))"
  have dz: "distinct (map fst (rev ?z))"
    using assms by (simp add: rev_map [symmetric] nodeIDs_def)
  have get: "mapGet (addIDs ?z []) d = map_of (rev ?z) d"
    by (simp add: mapGet_addIDs split: option.splits)
  show ?thesis
  proof (cases "\<exists>j<k. ps ! j = d")
    case True
    then obtain j where j: "j < k" "ps ! j = d" by blast
    have "(d, n_id (ns ! j)) \<in> set ?z" using j assms by (auto simp: in_set_zip nodeIDs_def intro!: exI [of _ j])
    then have "map_of (rev ?z) d = Some (n_id (ns ! j))" using map_of_eq_Some_iff [OF dz] by simp
    then show ?thesis using get find_index_nth [OF assms(1,3) j(1)] j(2) by simp
  next
    case False
    then have "find (\<lambda>j. ps ! j = d) [0..<k] = None" by (auto simp: find_None_iff)
    moreover have "d \<notin> fst ` set ?z" using False assms by (auto simp: set_zip)
    then have "map_of (rev ?z) d = None" by (simp add: map_of_eq_None_iff)
    ultimately show ?thesis using get by simp
  qed
qed

definition earlierIDs :: "string list \<Rightarrow> Node list \<Rightarrow> nat \<Rightarrow> string list \<Rightarrow> string list" where
  "earlierIDs ps nodes k ds = List.map_filter (\<lambda>d. map_option (\<lambda>j. n_id (nodes ! j)) (find (\<lambda>j. ps ! j = d) [0..<k])) ds"

lemma planDepends_earlier:
  assumes "distinct ps" "length ns = length ps" "k \<le> length ps"
  shows "planDepends deps (addIDs (zip (take k ps) (nodeIDs (take k ns))) []) p = earlierIDs ps ns k (mapGetOr [] deps p)"
  unfolding planDepends_def knownIDs_map_filter earlierIDs_def mapGetOr_def planned_id [OF assms, abs_def]
  by (auto simp: List.map_filter_simps split: option.splits)

lemma planNodes_result:
  assumes "planNodes env g deps w = (w', nodes)" "distinct (g_prds g)"
  shows "map view nodes
    = map (\<lambda>k. (NodeKindPRD, g_prds g ! k, [], earlierIDs (g_prds g) nodes k (mapGetOr [] deps (g_prds g ! k)), NodePending))
        [0..<length (g_prds g)]
    @ concat (map (\<lambda>k. map (\<lambda>gr. (NodeKindGuardrail, g_prds g ! k, gr, [n_id (nodes ! k)], NodePending))
        (c_guardrails (r_cfg w))) [0..<length (g_prds g)])"
proof -
  let ?ps = "g_prds g" and ?t = "e_clock env (r_tick w)"
  obtain w2 ids ns where p: "planPRDs env (g_id g) ?t deps ?ps [] (tick w) = (w2, ids, ns)" by (rule prod_cases3)
  obtain w3 gs where q: "planAllGuards env (g_id g) ?t ids (c_guardrails (r_cfg w)) ?ps w2 = (w3, gs)" by fastforce
  have nodes: "nodes = ns @ gs" using assms(1) p q by (simp add: planNodes_def timeNow_def Let_def)
  note P = planPRDs_result [OF p]
  have len: "length ns = length ?ps" using P by blast
  have "map view ns = map (\<lambda>k. (NodeKindPRD, ?ps ! k, [], earlierIDs ?ps nodes k (mapGetOr [] deps (?ps ! k)), NodePending))
      [0..<length ?ps]"
  proof (rule nth_equalityI)
    fix k assume "k < length (map view ns)"
    then have k: "k < length ?ps" using len by simp
    have "earlierIDs ?ps nodes k ds = earlierIDs ?ps ns k ds" for ds
      unfolding earlierIDs_def nodes using k len
      by (intro arg_cong2 [where f = List.map_filter] ext) (auto simp: find_Some_iff nth_append intro!: option.map_cong)
    then show "map view ns ! k = map (\<lambda>k. (NodeKindPRD, ?ps ! k, [],
        earlierIDs ?ps nodes k (mapGetOr [] deps (?ps ! k)), NodePending)) [0..<length ?ps] ! k"
      using P k len planDepends_earlier [OF assms(2) len, of k deps "?ps ! k"] by simp
  qed (simp add: len)
  moreover have "mapGetOr [] ids (?ps ! k) = n_id (nodes ! k)" if "k < length ?ps" for k
    using planned_id [OF assms(2) len order_refl, of "?ps ! k"] P len that find_index_nth [OF assms(2) order_refl that]
    by (simp add: mapGetOr_def nodes nth_append)
  then have "map view gs = concat (map (\<lambda>k. map (\<lambda>gr. (NodeKindGuardrail, ?ps ! k, gr, [n_id (nodes ! k)], NodePending))
        (c_guardrails (r_cfg w))) [0..<length ?ps])"
    unfolding planAllGuards_result [OF q]
    by (intro arg_cong [where f = concat] nth_equalityI) simp_all
  ultimately show ?thesis by (simp add: nodes)
qed

lemma set_earlierIDs: "d \<in> set (earlierIDs ps nodes k ds) \<Longrightarrow> \<exists>j<k. d = n_id (nodes ! j)"
  unfolding earlierIDs_def
  by (induction ds) (auto simp: List.map_filter_simps find_Some_iff split: option.splits)

text \<open>Every dependency of a planned node is a node before it, so a planned graph has an order.\<close>

lemma planNodes_backward:
  assumes "planNodes env g deps w = (w', nodes)" "distinct (g_prds g)" "k < length nodes" "d \<in> set (n_depends (nodes ! k))"
  shows "\<exists>j<k. d = n_id (nodes ! j)"
proof -
  let ?n = "length (g_prds g)" and ?gs = "c_guardrails (r_cfg w)"
  let ?G = "concat (map (\<lambda>k. map (\<lambda>gr. (NodeKindGuardrail, g_prds g ! k, gr, [n_id (nodes ! k)], NodePending)) ?gs) [0..<?n])"
  note R = planNodes_result [OF assms(1,2)]
  have vk: "map view nodes ! k = view (nodes ! k)" using assms(3) by simp
  show ?thesis
  proof (cases "k < ?n")
    case True
    then have "n_depends (nodes ! k) = earlierIDs (g_prds g) nodes k (mapGetOr [] deps (g_prds g ! k))"
      using vk R by (auto simp: nth_append view_def)
    then show ?thesis using assms(4) set_earlierIDs by metis
  next
    case False
    have "length nodes = ?n + length ?G" using arg_cong [OF R, of length] by simp
    then have "k - ?n < length ?G" using False assms(3) by linarith
    moreover have "view (nodes ! k) = ?G ! (k - ?n)" using vk R False by (simp add: nth_append)
    ultimately have "view (nodes ! k) \<in> set ?G" by (simp only: nth_mem)
    then obtain j where "j < ?n" "n_depends (nodes ! k) = [n_id (nodes ! j)]" by (auto simp: view_def)
    then show ?thesis using assms(4) False by (intro exI [of _ j]) auto
  qed
qed

lemma backward_order:
  assumes "distinct (nodeIDs nodes)" "\<And>k d. k < length nodes \<Longrightarrow> d \<in> set (n_depends (nodes ! k)) \<Longrightarrow> \<exists>j<k. d = n_id (nodes ! j)"
  shows "\<exists>order. topoSort nodes = Inr order"
proof (rule topoSort_complete [OF assms(1)], rule depsBefore_acyclic [OF assms(1) order_refl])
  show "depsBefore nodes (nodeIDs nodes)" unfolding depsBefore_def
  proof (intro allI impI)
    fix us i vs d assume s: "nodeIDs nodes = us @ i # vs" and e: "(i, d) \<in> set (edges nodes)"
    obtain x where x: "x \<in> set nodes" "n_id x = i" "d \<in> set (n_depends x)" using e by (auto simp: set_edges)
    then obtain k where k: "k < length nodes" "nodes ! k = x" by (auto simp: in_set_conv_nth)
    have lens: "length nodes = length us + Suc (length vs)" using arg_cong [OF s, of length] by (simp add: nodeIDs_def)
    have "nodeIDs nodes ! k = i" using k x(2) by (simp add: nodeIDs_def)
    moreover have "nodeIDs nodes ! length us = i" unfolding s by simp
    ultimately have "k = length us"
      using nth_eq_iff_index_eq [OF assms(1), of k "length us"] k(1) lens by (simp add: nodeIDs_def)
    then obtain j where "j < length us" "d = n_id (nodes ! j)" using assms(2) [of k d] k x by auto
    then have "d = nodeIDs nodes ! j" "j < length us" using lens by (simp_all add: nodeIDs_def)
    then show "d \<in> set us" unfolding s by (simp add: nth_append)
  qed
qed

text \<open>The ids of the planned nodes are the clock readings after the first, and those differ when the clock moves on.\<close>

lemma newID_result: "newID env w = (idOf (e_clock env (r_tick w)), w\<lparr>r_tick := Suc (r_tick w)\<rparr>)"
  by (simp add: newID_def timeNow_def tick_def)

definition clockIDs :: "Env \<Rightarrow> nat \<Rightarrow> nat \<Rightarrow> string list" where
  "clockIDs env a n = map (\<lambda>k. idOf (e_clock env k)) [a..<a + n]"

lemma clockIDs_Suc: "clockIDs env a (Suc n) = idOf (e_clock env a) # clockIDs env (Suc a) n"
  unfolding clockIDs_def by (subst upt_conv_Cons) simp_all

lemma clockIDs_add: "clockIDs env a (m + n) = clockIDs env a m @ clockIDs env (a + m) n"
  unfolding clockIDs_def by (metis add.assoc le_add1 map_append upt_add_eq_append)

lemma planPRDs_ids:
  "planPRDs env gid t deps pids ids w = (w', ids', ns) \<Longrightarrow>
   nodeIDs ns = clockIDs env (r_tick w) (length pids) \<and> r_tick w' = r_tick w + length pids"
proof (induction pids arbitrary: ids w ns)
  case (Cons p ps)
  then show ?case by (fastforce simp: newID_result clockIDs_Suc split: prod.splits)
qed (simp add: clockIDs_def)

lemma planGuards_ids:
  "planGuards env gid t pid dep grs w = (w', ns) \<Longrightarrow>
   nodeIDs ns = clockIDs env (r_tick w) (length grs) \<and> r_tick w' = r_tick w + length grs"
proof (induction grs arbitrary: w ns)
  case (Cons p ps)
  then show ?case by (fastforce simp: newID_result clockIDs_Suc split: prod.splits)
qed (simp add: clockIDs_def)

lemma planAllGuards_ids:
  "planAllGuards env gid t ids guards pids w = (w', ns) \<Longrightarrow>
   nodeIDs ns = clockIDs env (r_tick w) (length pids * length guards)"
proof (induction pids arbitrary: w ns)
  case (Cons p ps)
  obtain w1 ms where 1: "planGuards env gid t p (mapGetOr [] ids p) guards w = (w1, ms)" by fastforce
  obtain w2 ks where 2: "planAllGuards env gid t ids guards ps w1 = (w2, ks)" by fastforce
  have "w' = w2" "ns = ms @ ks" using Cons.prems 1 2 by auto
  then show ?case using planGuards_ids [OF 1] Cons.IH [of w1 ks] 2 by (simp add: clockIDs_add nodeIDs_def)
qed (simp add: clockIDs_def)

lemma planNodes_ids:
  assumes "planNodes env g deps w = (w', nodes)"
  shows "nodeIDs nodes = clockIDs env (Suc (r_tick w)) (length (g_prds g) + length (g_prds g) * length (c_guardrails (r_cfg w)))"
proof -
  obtain w2 ids ns where p: "planPRDs env (g_id g) (e_clock env (r_tick w)) deps (g_prds g) [] (tick w) = (w2, ids, ns)"
    by (rule prod_cases3)
  obtain w3 gs where q: "planAllGuards env (g_id g) (e_clock env (r_tick w)) ids (c_guardrails (r_cfg w)) (g_prds g) w2 = (w3, gs)"
    by fastforce
  have "nodes = ns @ gs" using assms p q by (simp add: planNodes_def timeNow_def)
  then show ?thesis using planPRDs_ids [OF p] planAllGuards_ids [OF q] by (simp add: clockIDs_add nodeIDs_def tick_def)
qed

lemma hexDigits_inj: "a < 16 ^ k \<Longrightarrow> b < 16 ^ k \<Longrightarrow> hexDigits k a = hexDigits k b \<Longrightarrow> a = b"
proof (induction k arbitrary: a b)
  case (Suc k)
  then have "hexDigits k (a div 16) = hexDigits k (b div 16)" "a mod 16 = b mod 16" using hexChar_inj by auto
  moreover have "a div 16 < 16 ^ k" "b div 16 < 16 ^ k" using Suc.prems by (auto simp: less_mult_imp_div_less mult.commute)
  ultimately show ?case using Suc.IH by (metis div_mult_mod_eq)
qed simp

lemma idOf_differs:
  assumes "s < t" "t < s + 4294967296"
  shows "idOf s \<noteq> idOf t"
proof
  assume "idOf s = idOf t"
  then have "hexDigits 8 (nat ((s - unixEpoch) mod 4294967296)) = hexDigits 8 (nat ((t - unixEpoch) mod 4294967296))"
    unfolding idOf_def unat_low32 .
  moreover have "nat (x mod 4294967296) < 16 ^ 8" for x by (simp add: nat_less_iff)
  ultimately have "nat ((s - unixEpoch) mod 4294967296) = nat ((t - unixEpoch) mod 4294967296)"
    using hexDigits_inj by blast
  then have "(s - unixEpoch) mod 4294967296 = (t - unixEpoch) mod 4294967296" by simp
  then have "4294967296 dvd (t - s)" by (metis diff_diff_eq2 diff_add_cancel mod_eq_dvd_iff add.commute diff_diff_add)
  then show False using assms zdvd_imp_le [of 4294967296 "t - s"] by linarith
qed

section \<open>A cooperative environment\<close>

text \<open>The context stays alive, every write succeeds, every PRD run ends well and no guardrail fails or blocks.\<close>

definition cooperative :: "Env \<Rightarrow> bool" where
  "cooperative env \<longleftrightarrow> (\<forall>k. e_ctx env k = None) \<and> (\<forall>k. e_disk env k = None) \<and>
     (case e_run env of None \<Rightarrow> True | Some f \<Rightarrow> \<forall>k p. \<exists>s. f k p = Inr s) \<and>
     (case e_guard env of None \<Rightarrow> True | Some h \<Rightarrow> \<forall>k d q. \<exists>v. h k d q = Inr v \<and> v_outcome v \<noteq> ''block'')"

lemma saveNode_ok: "cooperative env \<Longrightarrow> saveNode env w g n = (w', g', n', e) \<Longrightarrow> e = None"
  by (drule saveNode_frame(6)) (simp add: cooperative_def)

lemma callRun_ok: "cooperative env \<Longrightarrow> \<exists>s. snd (callRun env w p) = Inr s"
  by (auto simp: callRun_def cooperative_def split: option.splits)

lemma runPRD_ok:
  assumes "cooperative env" "runPRD env w g n = (w', g', n', e)"
  shows "e = None"
proof -
  obtain w1 n1 where 1: "markStart env w n = (w1, n1)" by fastforce
  obtain w2 g2 n2 e2 where 2: "saveNode env w1 g n1 = (w2, g2, n2, e2)" by (rule prod_cases4)
  obtain w3 s where 3: "callRun env w2 (n_prd n2) = (w3, Inr s)"
    using callRun_ok [OF assms(1), of w2 "n_prd n2"] by (metis prod.collapse)
  then obtain w5 n5 where "saveNode env w5 g2 n5 = (w', g', n', e)"
    using assms(2) 1 2 by (auto simp: runPRD_def markDone_def clock_simps)
  then show ?thesis by (rule saveNode_ok [OF assms(1)])
qed

lemma runGuardrail_ok:
  assumes "cooperative env" "runGuardrail env w g n = (w', g', n', e)"
  shows "e = None \<and> \<not> blocks n'"
proof -
  obtain w1 n1 where 1: "markStart env w n = (w1, n1)" by fastforce
  obtain w2 g2 n2 e2 where 2: "saveNode env w1 g n1 = (w2, g2, n2, e2)" by (rule prod_cases4)
  have "\<exists>w4 n4. saveNode env w4 g2 n4 = (w', g', n', e) \<and> \<not> blocks n4"
  proof (cases "e_guard env")
    case None
    then show ?thesis using assms(2) 1 2
      by (auto simp: runGuardrail_def markDone_def clock_simps blocks_def intro!: exI)
  next
    case (Some h)
    then obtain v where v: "h (r_tick w2) (guardTimeout (r_cfg w2)) (requestFor g2 n2) = Inr v" "v_outcome v \<noteq> ''block''"
      using assms(1) by (auto simp: cooperative_def) metis
    then show ?thesis using assms(2) 1 2 Some
      by (auto simp: runGuardrail_def markDone_def clock_simps blocks_def intro!: exI)
  qed
  then obtain w4 n4 where s: "saveNode env w4 g2 n4 = (w', g', n', e)" "\<not> blocks n4" by blast
  then show ?thesis using saveNode_ok [OF assms(1) s(1)] saveNode_frame(3) [OF s(1)] by (auto simp: blocks_def)
qed

lemma set_replaceFirst: "set (replaceFirst n ns) \<subseteq> insert n (set ns)"
  by (induction ns) auto

lemma runNode_clear:
  assumes "cooperative env" "\<forall>n\<in>set (g_nodes g). \<not> stuck n" "runNode env w g b i = (w', g', b')"
  shows "\<forall>n\<in>set (g_nodes g'). \<not> stuck n"
proof (cases "\<exists>n. lookupNode g i = Some n \<and> \<not> skipped n")
  case True
  then obtain n where n: "lookupNode g i = Some n" "\<not> skipped n" by blast
  have nb: "\<not> depBlocked g n" using assms(2) by (auto simp: depBlocked_def stuck_def)
  obtain n' where m: "moved g n g' n'" "\<not> stuck n'"
    using n assms(3)
  proof (cases rule: runNode_cases)
    case prd
    then show ?thesis using that runPRD_moved(1,2) by (fastforce simp: stuck_def)
  next
    case (guard n')
    then show ?thesis using that runGuardrail_moved(1,2) by (fastforce simp: stuck_def)
  qed (use nb runPRD_ok [OF assms(1)] runGuardrail_ok [OF assms(1)] in \<open>fastforce+\<close>)
  then show ?thesis using assms(2) set_replaceFirst [of n' "g_nodes g"] by (auto simp: moved_def)
next
  case False
  then show ?thesis using assms(2,3) by (auto simp: runNode_def skipped_def split: option.splits)
qed

lemma runLoop_clear:
  "cooperative env \<Longrightarrow> \<forall>n\<in>set (g_nodes g). \<not> stuck n \<Longrightarrow>
   \<exists>w' g' b'. runLoop env is w g b = (w', g', b', None) \<and> (\<forall>n\<in>set (g_nodes g'). \<not> stuck n)"
proof (induction "is" arbitrary: w g b)
  case (Cons i "is")
  obtain w1 g1 b1 where r: "runNode env (tick w) g b i = (w1, g1, b1)" by (rule prod_cases3)
  have "e_ctx env (r_tick w) = None" using Cons.prems(1) by (simp add: cooperative_def)
  then show ?case using Cons.IH [OF Cons.prems(1) runNode_clear [OF Cons.prems r]] r by simp
qed simp

end
