(* ===== verification/Orchestrator_Properties.thy ===== *)
theory Orchestrator_Properties
  imports Orchestrator_Plan
begin

text \<open>
  The properties of the orchestrator: the dependency order, what \<open>Plan\<close> builds, and what a run leaves
  behind; and two runs that show where the code is more lenient than its comments.
\<close>

section \<open>Concrete graphs\<close>

definition demoNode :: "string \<Rightarrow> NodeKind \<Rightarrow> string \<Rightarrow> string list \<Rightarrow> Node" where
  "demoNode i k p ds = \<lparr>n_id = i, n_graph = ''g'', n_kind = k, n_prd = p, n_guardrail = ''rules'', n_depends = ds,
     n_status = NodePending, n_verdict = None, n_error = [], n_started = None, n_finished = None,
     n_created = 0, n_updated = 0\<rparr>"

definition demoGraph :: Graph where
  "demoGraph = \<lparr>g_id = ''g'', g_title = ''t'', g_dir = ''d'', g_prds = [''p'', ''q''],
     g_nodes = [demoNode ''3'' NodeKindGuardrail ''p'' [''1''], demoNode ''2'' NodeKindPRD ''q'' [''3''],
                demoNode ''1'' NodeKindPRD ''p'' []],
     g_status = GraphActive, g_created = 0, g_updated = 0\<rparr>"

definition demoVerdict :: "string \<Rightarrow> Verdict" where
  "demoVerdict o' = \<lparr>v_outcome = o', v_severity = [], v_summary = [], v_issues = [], v_at = 0, v_validator = []\<rparr>"

primrec demoClock :: "nat \<Rightarrow> time" where
  "demoClock 0 = unixEpoch"
| "demoClock (Suc k) = demoClock k + 1"

text \<open>Every write succeeds, the PRD \<open>bad\<close> fails, and every guardrail answers \<open>v\<close>.\<close>

definition demoEnv :: "string \<Rightarrow> string \<Rightarrow> Env" where
  "demoEnv bad v = \<lparr>e_clock = demoClock, e_disk = (\<lambda>k. None), e_ctx = (\<lambda>k. None),
     e_run = Some (\<lambda>k p. if p = bad then Inl ''failed'' else Inr p),
     e_guard = Some (\<lambda>k d q. Inr (demoVerdict v))\<rparr>"

definition demoRunner :: "Graph \<Rightarrow> Runner" where
  "demoRunner g = \<lparr>r_cfg = DefaultConfig\<lparr>c_guardrails := [''rules'']\<rparr>, r_graphs = [(''g'', g)], r_tick = 0, r_calls = []\<rparr>"

section \<open>Order\<close>

text \<open>C32. \<open>topoSort\<close> succeeds exactly when the node ids are distinct and the dependencies among them have no
  cycle; its result lists every id once, each after all the dependencies it has in the graph.\<close>

theorem topoSort_exact:
  "case topoSort nodes of
     Inr out \<Rightarrow> distinct out \<and> set out = n_id ` set nodes \<and> distinct (map n_id nodes) \<and>
        (\<forall>us i vs. out = us @ i # vs \<longrightarrow>
           (\<forall>n\<in>set nodes. n_id n = i \<longrightarrow> set (n_depends n) \<inter> n_id ` set nodes \<subseteq> set us))
   | Inl e \<Rightarrow> e = GraphCycle \<and> (\<not> distinct (map n_id nodes) \<or>
        \<not> acyclic {(d, n_id n) |n d. n \<in> set nodes \<and> d \<in> set (n_depends n) \<and> d \<in> n_id ` set nodes})"
proof (cases "topoSort nodes")
  case (Inl e)
  then have "e = GraphCycle" by (auto simp: topoSort_def Let_def split: if_splits)
  moreover have "\<not> (distinct (nodeIDs nodes) \<and> acyclic (nodeDeps nodes))" using Inl topoSort_complete by fastforce
  ultimately show ?thesis using Inl by (simp add: nodeIDs_def nodeDeps_def)
next
  case (Inr out)
  note s = topoSort_sound [OF Inr]
  have "set (n_depends n) \<inter> n_id ` set nodes \<subseteq> set us" if "out = us @ n_id n # vs" "n \<in> set nodes" for us n vs
    using s(4) that unfolding depsBefore_def by (auto simp: set_edges nodeIDs_def)
  then show ?thesis using s(1-3) Inr by (auto simp: nodeIDs_def)
qed

lemma topoSort_exact_witness:
  "topoSort (g_nodes demoGraph) = Inr [''1'', ''3'', ''2''] \<and> distinct [''1'', ''3'', ''2''] \<and>
   (\<exists>e. topoSort [demoNode ''1'' NodeKindPRD ''p'' [''1'']] = Inl e \<and> e = GraphCycle)"
proof -
  have "topoSort (g_nodes demoGraph) = Inr [''1'', ''3'', ''2'']" by code_simp
  moreover have "topoSort [demoNode ''1'' NodeKindPRD ''p'' [''1'']] = Inl GraphCycle" by code_simp
  ultimately show ?thesis using topoSort_exact [of "g_nodes demoGraph"]
      topoSort_exact [of "[demoNode ''1'' NodeKindPRD ''p'' [''1'']]"] by simp
qed

section \<open>Run\<close>

lemma walked_node:
  assumes "topoSort (g_nodes g) = Inr order" "walked g order g1 b" "n \<in> set (g_nodes g1)"
  obtains n0 where "n0 \<in> set (g_nodes g)" "n_id n0 = n_id n" "lookupNode g (n_id n) = Some n0" "lookupNode g1 (n_id n) = Some n"
    "sameNode n0 n" "if skipped n0 then n = n0 else outcome g1 n n"
proof -
  note t = topoSort_sound [OF assms(1)]
  have ids: "nodeIDs (g_nodes g1) = nodeIDs (g_nodes g)" using assms(2) by (simp add: walked_def)
  then have l1: "lookupNode g1 (n_id n) = Some n" using lookupIn_mem t(3) assms(3) by (simp add: lookupNode_def)
  have mem: "n_id n \<in> set (nodeIDs (g_nodes g))" using assms(3) ids by (metis imageI nodeIDs_def list.set_map)
  then obtain n0 where l0: "lookupNode g (n_id n) = Some n0"
    using lookupIn_None [of "g_nodes g" "n_id n"] by (auto simp: lookupNode_def)
  have "sameNode n0 n" "if skipped n0 then n = n0 else outcome g1 n n"
    using assms(2) l0 l1 mem t(2) unfolding walked_def by fastforce+
  then show thesis using that l0 l1 lookupIn_Some [of "g_nodes g"] by (simp add: lookupNode_def)
qed

lemma walked_alarm:
  assumes t: "topoSort (g_nodes g) = Inr order" and wk: "walked g order g1 b" and nb: "\<forall>n\<in>set (g_nodes g). n_status n \<noteq> NodeBlocked"
  shows "b \<longleftrightarrow> (\<exists>n\<in>set (g_nodes g1). alarm n)"
proof
  assume b
  then obtain i n where "lookupNode g1 i = Some n" "alarm n" using wk by (auto simp: walked_def)
  then show "\<exists>n\<in>set (g_nodes g1). alarm n" using lookupIn_Some [of "g_nodes g1"] by (auto simp: lookupNode_def)
next
  assume "\<exists>n\<in>set (g_nodes g1). alarm n"
  then obtain n where n: "n \<in> set (g_nodes g1)" "alarm n" by auto
  from t wk n(1) obtain n0 where n0: "n0 \<in> set (g_nodes g)" "lookupNode g (n_id n) = Some n0" "lookupNode g1 (n_id n) = Some n"
    "if skipped n0 then n = n0 else outcome g1 n n" by (rule walked_node)
  moreover have "\<not> skipped n0" using n0 n(2) nb by (auto simp: alarm_def skipped_def split: if_splits)
  moreover have "n_id n \<in> set order"
    using n0(1,2) topoSort_sound(2) [OF t] lookupIn_Some [of "g_nodes g" "n_id n" n0]
    by (metis image_eqI list.set_map lookupNode_def nodeIDs_def)
  ultimately show b using wk n(2) unfolding walked_def by blast
qed


lemma Run_planned: "GetGraph w gid = Some g \<Longrightarrow> g_nodes g \<noteq> [] \<Longrightarrow> Run env w gid = runPlanned env w g"
  by (simp add: Run_def)

lemma none_result: "snd r = None \<Longrightarrow> r = (fst r, None)"
  by (cases r) simp



text \<open>Each PRD is run once and in order: the PRD runs a call of \<open>Run\<close> starts are those of the PRD nodes that
  were not already completed or blocked and do not end cancelled, each once, in the order of \<open>topoSort\<close>.\<close>

theorem run_starts_each_prd_once:
  assumes "GetGraph w gid = Some g" "g_id g = gid" "g_nodes g \<noteq> []" "e_run env \<noteq> None" "Run env w gid = (w', None)"
  shows "\<exists>order g'. topoSort (g_nodes g) = Inr order \<and> GetGraph w' gid = Some g' \<and>
    prdRuns (r_calls w') = prdRuns (r_calls w) @ concat (map (\<lambda>i.
      case (lookupNode g i, lookupNode g' i) of
        (Some n0, Some n) \<Rightarrow>
          if n_kind n0 = NodeKindPRD \<and> n_status n0 \<noteq> NodeCompleted \<and> n_status n0 \<noteq> NodeBlocked \<and> n_status n \<noteq> NodeCancelled
          then [n_prd n0] else []
      | _ \<Rightarrow> []) order)"
proof -
  obtain order g1 g' b where o: "topoSort (g_nodes g) = Inr order" "GetGraph w' gid = Some g'"
    and r: "prdRuns (r_calls w') = prdRuns (r_calls w) @ List.map_filter (startedPRD g g') order"
    using assms(5) [unfolded Run_planned [OF assms(1,3)]] by (rule runPlanned_walked) (use assms(2,4) in auto)
  have "List.map_filter f xs = concat (map (\<lambda>x. case f x of None \<Rightarrow> [] | Some y \<Rightarrow> [y]) xs)" for f :: "string \<Rightarrow> string option" and xs
    by (induction xs) (auto simp: List.map_filter_simps split: option.splits)
  moreover have "(case startedPRD g g' i of None \<Rightarrow> [] | Some p \<Rightarrow> [p]) = (case (lookupNode g i, lookupNode g' i) of
        (Some n0, Some n) \<Rightarrow>
          if n_kind n0 = NodeKindPRD \<and> n_status n0 \<noteq> NodeCompleted \<and> n_status n0 \<noteq> NodeBlocked \<and> n_status n \<noteq> NodeCancelled
          then [n_prd n0] else []
      | _ \<Rightarrow> [])" for i
    by (auto simp: startedPRD_def skipped_def split: option.splits)
  ultimately show ?thesis using o r by (intro exI [of _ order] exI [of _ g']) simp
qed

lemma run_starts_each_prd_once_witness:
  "\<exists>order. topoSort (g_nodes demoGraph) = Inr order \<and>
     prdRuns (r_calls (fst (Run (demoEnv ''q'' ''pass'') (demoRunner demoGraph) ''g''))) = [''p'', ''q'']"
proof -
  let ?w = "demoRunner demoGraph" and ?env = "demoEnv ''q'' ''pass''"
  have "GetGraph ?w ''g'' = Some demoGraph" "g_id demoGraph = ''g''" "g_nodes demoGraph \<noteq> []" "e_run ?env \<noteq> None"
    "snd (Run ?env ?w ''g'') = None" by (simp_all add: demoRunner_def demoGraph_def demoEnv_def GetGraph_def mapGet_def) code_simp
  from run_starts_each_prd_once [OF this(1-4) none_result [OF this(5)]]
  have "\<exists>order. topoSort (g_nodes demoGraph) = Inr order" by blast
  moreover have "prdRuns (r_calls (fst (Run ?env ?w ''g''))) = [''p'', ''q'']" by code_simp
  ultimately show ?thesis by blast
qed

text \<open>C34. When nothing outside fails (the context stays alive, every write succeeds, every PRD run ends well and no
  guardrail fails or blocks), a run of a pending graph with distinct ids and no cycle returns without error, and
  leaves every node and the graph completed.\<close>

theorem run_completes:
  assumes "GetGraph w gid = Some g" "g_id g = gid" "g_nodes g \<noteq> []" "\<forall>n\<in>set (g_nodes g). n_status n = NodePending"
    "distinct (nodeIDs (g_nodes g))" "acyclic (nodeDeps (g_nodes g))" "cooperative env"
  shows "\<exists>w' g'. Run env w gid = (w', None) \<and> GetGraph w' gid = Some g' \<and> g_status g' = GraphCompleted \<and>
    map n_id (g_nodes g') = map n_id (g_nodes g) \<and> (\<forall>n\<in>set (g_nodes g'). n_status n = NodeCompleted)"
proof -
  obtain order where t: "topoSort (g_nodes g) = Inr order" using topoSort_complete assms(5,6) by blast
  have clear: "\<forall>n\<in>set (g_nodes g). \<not> stuck n" using assms(4) by (auto simp: stuck_def)
  obtain w1 g1 b where l: "runLoop env order w g False = (w1, g1, b, None)" "\<forall>n\<in>set (g_nodes g1). \<not> stuck n"
    using runLoop_clear [OF assms(7) clear] by blast
  note s = topoSort_sound [OF t]
  have wk: "walked g order g1 b" using runLoop_walked [OF walked_start s(3), of order] s(1,4) l(1) by simp
  have comp: "n_status n = NodeCompleted" if "n \<in> set (g_nodes g1)" for n
  proof -
    from t wk that obtain n0 where "n0 \<in> set (g_nodes g)" "if skipped n0 then n = n0 else outcome g1 n n" by (rule walked_node)
    then have "outcome g1 n n" using assms(4) by (auto simp: skipped_def)
    moreover have "\<not> depBlocked g1 n" using l(2) by (auto simp: depBlocked_def stuck_def)
    ultimately show ?thesis using l(2) that by (auto simp: outcome_def settled_def stuck_def)
  qed
  have nb: "\<not> b" using walked_alarm [OF t wk] comp assms(4) by (auto simp: alarm_def)
  obtain w2 g' e where sv: "SaveGraph env w1 (g1\<lparr>g_status := GraphCompleted\<rparr>) = (w2, g', e)" by (rule prod_cases3)
  note fr = SaveGraph_frame [OF sv]
  have "e = None" using fr(6) assms(7) by (simp add: cooperative_def)
  then have "Run env w gid = (w2, None)"
    using l(1) nb sv t by (simp add: Run_planned [OF assms(1,3)] runPlanned_def runOrder_def)
  moreover have "GetGraph w2 gid = Some g'" using fr(5) wk assms(2) by (simp add: walked_def sameGraph_def)
  ultimately show ?thesis using fr(2,3) comp wk by (auto simp: walked_def nodeIDs_def)
qed

lemma run_completes_witness:
  "\<exists>w' g'. Run ((demoEnv [] ''pass'')\<lparr>e_run := Some (\<lambda>k p. Inr p)\<rparr>)
       (demoRunner (demoGraph\<lparr>g_nodes := [demoNode ''1'' NodeKindPRD ''p'' []]\<rparr>)) ''g'' = (w', None)
     \<and> GetGraph w' ''g'' = Some g' \<and> g_status g' = GraphCompleted"
proof -
  let ?g = "demoGraph\<lparr>g_nodes := [demoNode ''1'' NodeKindPRD ''p'' []]\<rparr>"
  let ?env = "(demoEnv [] ''pass'')\<lparr>e_run := Some (\<lambda>k p. Inr p)\<rparr>"
  have "GetGraph (demoRunner ?g) ''g'' = Some ?g" "g_id ?g = ''g''" "g_nodes ?g \<noteq> []"
    "\<forall>n\<in>set (g_nodes ?g). n_status n = NodePending" "distinct (nodeIDs (g_nodes ?g))" "acyclic (nodeDeps (g_nodes ?g))"
    by (simp_all add: demoRunner_def demoGraph_def demoNode_def GetGraph_def mapGet_def nodeDeps_def acyclic_def)
  moreover have "cooperative ?env"
    by (simp add: cooperative_def demoEnv_def demoVerdict_def)
  ultimately show ?thesis using run_completes [of "demoRunner ?g" "''g''" ?g ?env] by blast
qed

section \<open>Plan\<close>

text \<open>What \<open>Plan\<close> builds for distinct PRD ids: first one pending PRD node per PRD id, in the order of the
  list, which depends on the nodes of those of its dependencies that come \<^emph>\<open>earlier\<close> in the list, and then for
  each PRD one pending guardrail node per configured guardrail, which depends on that PRD's node.\<close>

theorem plan_shape:
  assumes "Plan env w gid deps = (w', Inr g')" "GetGraph w gid = Some g" "distinct (g_prds g)"
  shows "g_status g' = GraphActive \<and> map view (g_nodes g')
    = map (\<lambda>k. (NodeKindPRD, g_prds g ! k, [],
          List.map_filter (\<lambda>d. map_option (\<lambda>j. n_id (g_nodes g' ! j)) (find (\<lambda>j. g_prds g ! j = d) [0..<k]))
            (mapGetOr [] deps (g_prds g ! k)), NodePending)) [0..<length (g_prds g)]
    @ concat (map (\<lambda>k. map (\<lambda>gr. (NodeKindGuardrail, g_prds g ! k, gr, [n_id (g_nodes g' ! k)], NodePending))
        (c_guardrails (r_cfg w))) [0..<length (g_prds g)])"
proof -
  obtain w1 nodes where p: "planNodes env g deps w = (w1, nodes)" by fastforce
  have "g_nodes g' = nodes" "g_status g' = GraphActive"
    using assms(1,2) p SaveGraph_frame(2,3) [of env w1 "g\<lparr>g_nodes := nodes, g_status := GraphActive\<rparr>"]
    by (auto simp: Plan_def split: prod.splits option.splits)
  then show ?thesis using planNodes_result [OF p assms(3)] unfolding earlierIDs_def by simp
qed

definition draftGraph :: Graph where
  "draftGraph = demoGraph\<lparr>g_nodes := [], g_status := GraphDraft\<rparr>"

lemma Plan_writes:
  assumes "GetGraph w gid = Some g" "\<And>k. e_disk env k = None" "planNodes env g deps w = (w1, nodes)"
  shows "\<exists>w' g'. Plan env w gid deps = (w', Inr g') \<and> g_nodes g' = nodes"
proof -
  obtain w2 g2 e where s: "SaveGraph env w1 (g\<lparr>g_nodes := nodes, g_status := GraphActive\<rparr>) = (w2, g2, e)" by (rule prod_cases3)
  then show ?thesis using assms SaveGraph_frame(2,6) [OF s] by (simp add: Plan_def)
qed

lemma demo_plan:
  obtains w' g' where "Plan (demoEnv [] ''pass'') (demoRunner draftGraph) ''g'' deps = (w', Inr g')"
    "GetGraph (demoRunner draftGraph) ''g'' = Some draftGraph" "distinct (g_prds draftGraph)"
proof -
  have 1: "GetGraph (demoRunner draftGraph) ''g'' = Some draftGraph" "distinct (g_prds draftGraph)"
    by (simp_all add: demoRunner_def draftGraph_def demoGraph_def GetGraph_def mapGet_def)
  obtain w1 nodes where "planNodes (demoEnv [] ''pass'') draftGraph deps (demoRunner draftGraph) = (w1, nodes)" by fastforce
  then obtain w' g' where "Plan (demoEnv [] ''pass'') (demoRunner draftGraph) ''g'' deps = (w', Inr g')"
    using Plan_writes [OF 1(1)] by (force simp: demoEnv_def)
  then show thesis using 1 by (rule that)
qed

text \<open>The dependency of \<open>p\<close> on the later \<open>q\<close> is dropped, that of \<open>q\<close> on \<open>p\<close> is kept.\<close>

lemma plan_shape_witness:
  "\<exists>w' g'. Plan (demoEnv [] ''pass'') (demoRunner draftGraph) ''g'' [(''p'', [''q'']), (''q'', [''p''])] = (w', Inr g')
     \<and> g_status g' = GraphActive
     \<and> map view (g_nodes g')
       = [(NodeKindPRD, ''p'', [], [], NodePending), (NodeKindPRD, ''q'', [], [n_id (g_nodes g' ! 0)], NodePending),
          (NodeKindGuardrail, ''p'', ''rules'', [n_id (g_nodes g' ! 0)], NodePending),
          (NodeKindGuardrail, ''q'', ''rules'', [n_id (g_nodes g' ! 1)], NodePending)]"
proof -
  obtain w' g' where r: "Plan (demoEnv [] ''pass'') (demoRunner draftGraph) ''g'' [(''p'', [''q'']), (''q'', [''p''])] = (w', Inr g')"
    "GetGraph (demoRunner draftGraph) ''g'' = Some draftGraph" "distinct (g_prds draftGraph)" by (rule demo_plan)
  have "g_prds draftGraph = [''p'', ''q'']" "c_guardrails (r_cfg (demoRunner draftGraph)) = [''rules'']"
    by (simp_all add: draftGraph_def demoGraph_def demoRunner_def)
  then show ?thesis using plan_shape [OF r] r(1)
    by (simp add: mapGetOr_def mapGet_def List.map_filter_simps upt_rec)
qed

text \<open>A planned graph can always be run: when the readings of the clock during \<open>Plan\<close> are increasing and
  less than 2^32 nanoseconds apart, the node ids are distinct and the nodes have a dependency order.\<close>

theorem plan_has_order:
  assumes "Plan env w gid deps = (w', Inr g')" "GetGraph w gid = Some g" "distinct (g_prds g)"
    "\<forall>i j. i < j \<longrightarrow> e_clock env i < e_clock env j \<and>
       (r_tick w < i \<and> j \<le> r_tick w + length (g_prds g) + length (g_prds g) * length (c_guardrails (r_cfg w))
          \<longrightarrow> e_clock env j < e_clock env i + 4294967296)"
  shows "distinct (map n_id (g_nodes g')) \<and> (\<exists>order. topoSort (g_nodes g') = Inr order)"
proof -
  obtain w1 nodes where p: "planNodes env g deps w = (w1, nodes)" by fastforce
  have n: "g_nodes g' = nodes"
    using assms(1,2) p SaveGraph_frame(2) [of env w1 "g\<lparr>g_nodes := nodes, g_status := GraphActive\<rparr>"]
    by (auto simp: Plan_def split: prod.splits option.splits)
  let ?N = "length (g_prds g) + length (g_prds g) * length (c_guardrails (r_cfg w))"
  have "idOf (e_clock env i) \<noteq> idOf (e_clock env j)" if "i < j" "r_tick w < i" "j \<le> r_tick w + ?N" for i j
    using assms(4) that by (intro idOf_differs) auto
  then have "inj_on (\<lambda>k. idOf (e_clock env k)) (set [Suc (r_tick w)..<Suc (r_tick w) + ?N])"
    by (intro linorder_inj_onI) auto
  then have d: "distinct (nodeIDs nodes)" unfolding planNodes_ids [OF p] clockIDs_def by (simp add: distinct_map)
  then show ?thesis using backward_order [OF d planNodes_backward [OF p assms(3)]] n by (simp add: nodeIDs_def)
qed

lemma demoClock_value: "demoClock k = unixEpoch + int k"
  by (induction k) auto

lemma plan_has_order_witness:
  "\<exists>w' g' order. Plan (demoEnv [] ''pass'') (demoRunner draftGraph) ''g'' [(''q'', [''p''])] = (w', Inr g')
     \<and> topoSort (g_nodes g') = Inr order"
proof -
  obtain w' g' where r: "Plan (demoEnv [] ''pass'') (demoRunner draftGraph) ''g'' [(''q'', [''p''])] = (w', Inr g')"
    "GetGraph (demoRunner draftGraph) ''g'' = Some draftGraph" "distinct (g_prds draftGraph)" by (rule demo_plan)
  have "\<forall>i j. i < j \<longrightarrow> e_clock (demoEnv [] ''pass'') i < e_clock (demoEnv [] ''pass'') j \<and>
     (r_tick (demoRunner draftGraph) < i \<and> j \<le> r_tick (demoRunner draftGraph) + length (g_prds draftGraph)
        + length (g_prds draftGraph) * length (c_guardrails (r_cfg (demoRunner draftGraph)))
          \<longrightarrow> e_clock (demoEnv [] ''pass'') j < e_clock (demoEnv [] ''pass'') i + 4294967296)"
    by (auto simp: demoEnv_def demoClock_value demoRunner_def draftGraph_def demoGraph_def)
  from plan_has_order [OF r this] r(1) show ?thesis by blast
qed

section \<open>Listing\<close>

lemma exchange_props:
  assumes "exchange x ys = (m, zs)"
  shows "add_mset m (mset zs) = add_mset x (mset ys)" "\<forall>z\<in>set zs. g_created z \<le> g_created m" "g_created x \<le> g_created m"
  using assms
proof (induction x ys arbitrary: m zs rule: exchange.induct)
  case (2 x y ys)
  { case 1 then show ?case using 2 by (auto split: if_splits prod.splits simp: add_mset_commute)
  next
    case 2 then show ?case using "2.IH" by (auto split: if_splits prod.splits)
  next
    case 3 then show ?case using "2.IH" by (auto split: if_splits prod.splits) }
qed auto

text \<open>\<open>ListGraphs\<close> lists every graph once, newest first.\<close>

lemma listGraphs_newest_first:
  "mset (ListGraphs w) = mset (map snd (r_graphs w)) \<and> sorted_wrt (\<lambda>a b. g_created b \<le> g_created a) (ListGraphs w)"
proof -
  have "mset (exchangeSort xs) = mset xs \<and> sorted_wrt (\<lambda>a b. g_created b \<le> g_created a) (exchangeSort xs)" for xs
  proof (induction xs rule: exchangeSort.induct)
    case (2 x xs)
    obtain m zs where e: "exchange x xs = (m, zs)" by fastforce
    then show ?case using 2 exchange_props [OF e] by (auto simp flip: set_mset_mset)
  qed simp
  then show ?thesis by (simp add: ListGraphs_def)
qed

section \<open>Where the runner is lenient\<close>

text \<open>A second run of a graph that a guardrail blocked skips the blocked node and reports the graph completed.\<close>

lemma rerun_reports_completed:
  "let w1 = fst (Run (demoEnv [] ''block'') (demoRunner demoGraph) ''g'');
       w2 = fst (Run (demoEnv [] ''block'') w1 ''g'')
   in map_option (\<lambda>g. (g_status g, map n_status (g_nodes g))) (GetGraph w1 ''g'')
        = Some (GraphBlocked, [NodeBlocked, NodeCancelled, NodeCompleted])
    \<and> map_option (\<lambda>g. (g_status g, map n_status (g_nodes g))) (GetGraph w2 ''g'')
        = Some (GraphCompleted, [NodeBlocked, NodeCancelled, NodeCompleted])"
  by code_simp

text \<open>A node whose only dependency was cancelled is run all the same.\<close>

lemma cancelled_dependency_runs:
  "map_option (\<lambda>g. map n_status (g_nodes g))
     (GetGraph (fst (Run (demoEnv ''p'' ''pass'') (demoRunner (demoGraph\<lparr>g_nodes :=
        [demoNode ''1'' NodeKindPRD ''p'' [], demoNode ''2'' NodeKindPRD ''q'' [''1''], demoNode ''3'' NodeKindPRD ''r'' [''2'']]\<rparr>)) ''g'')) ''g'')
   = Some [NodeFailed, NodeCancelled, NodeCompleted]"
  by code_simp

text \<open>When every guardrail errors, the graph is still reported completed.\<close>

lemma failed_guardrail_completes:
  "map_option (\<lambda>g. (g_status g, map n_status (g_nodes g)))
     (GetGraph (fst (Run ((demoEnv [] [])\<lparr>e_guard := Some (\<lambda>k d q. Inl ''unreachable'')\<rparr>)
        (demoRunner (demoGraph\<lparr>g_nodes := [demoNode ''1'' NodeKindPRD ''p'' [], demoNode ''2'' NodeKindGuardrail ''p'' [''1'']]\<rparr>)) ''g'')) ''g'')
   = Some (GraphCompleted, [NodeCompleted, NodeFailed])"
  by code_simp

end
