(* ===== verification/Auth_Sessions.thy ===== *)
theory Auth_Sessions
  imports Prelude
begin

text \<open>
  \<open>internal/auth/session_token.go\<close>: one scoped token per session, in two maps (token to record, session to
  token) that are written to a file after each change.

  The random bytes of a mint, or the error of reading them, are an argument, and so is the outcome of
  writing the file (\<open>None\<close> for success); \<open>encoding/json\<close> writes the list of records and reads the same list
  back, so the file is the list (\<open>ss_file\<close>, empty when there is no file). The mutex makes each operation one
  step.

  The specification is a partial map from sessions to a token and its capabilities. \<open>absStore\<close> relates the
  two, and each operation refines the update of the map.
\<close>

section \<open>The store\<close>

record SessionTokenRecord =
  sr_session :: string
  sr_token :: string
  sr_caps :: "string list"

record SessionTokenStore =
  ss_path :: string
  ss_byToken :: "(string, SessionTokenRecord) gomap"
  ss_bySession :: "(string, string) gomap"
  ss_file :: "SessionTokenRecord list"

fun loadRecords :: "SessionTokenRecord list \<Rightarrow> SessionTokenStore \<Rightarrow> SessionTokenStore" where
  "loadRecords [] s = s"
| "loadRecords (r # rs) s =
    loadRecords rs (s\<lparr>ss_byToken := mapSet (ss_byToken s) (sr_token r) r,
                      ss_bySession := mapSet (ss_bySession s) (sr_session r) (sr_token r)\<rparr>)"

definition NewSessionTokenStore :: "string \<Rightarrow> SessionTokenRecord list \<Rightarrow> SessionTokenStore" where
  "NewSessionTokenStore path file =
    (let s = \<lparr>ss_path = path, ss_byToken = [], ss_bySession = [], ss_file = file\<rparr>
     in if path = [] then s else loadRecords file s)"

text \<open>\<open>persistLocked\<close>: the records sorted by session id, written to a temporary file that replaces the store's.\<close>

definition bySessionID :: "SessionTokenRecord \<Rightarrow> SessionTokenRecord \<Rightarrow> bool" where
  "bySessionID a b \<longleftrightarrow> sr_session a < sr_session b"

definition persistSessions :: "string option \<Rightarrow> SessionTokenStore \<Rightarrow> SessionTokenStore \<times> string option" where
  "persistSessions io s =
    (if ss_path s = [] then (s, None)
     else case io of
            Some e \<Rightarrow> (s, Some e)
          | None \<Rightarrow> (s\<lparr>ss_file := sortSliceStable bySessionID (map snd (ss_byToken s))\<rparr>, None))"

definition dropSession :: "string \<Rightarrow> SessionTokenStore \<Rightarrow> SessionTokenStore" where
  "dropSession sid s =
    (case mapGet (ss_bySession s) sid of
       None \<Rightarrow> s
     | Some tok \<Rightarrow> s\<lparr>ss_byToken := mapDelete (ss_byToken s) tok, ss_bySession := mapDelete (ss_bySession s) sid\<rparr>)"

definition putSession :: "string \<Rightarrow> string \<Rightarrow> string list \<Rightarrow> SessionTokenStore \<Rightarrow> SessionTokenStore" where
  "putSession sid tok caps s =
    (let bt = (case mapGet (ss_bySession s) sid of None \<Rightarrow> ss_byToken s | Some old \<Rightarrow> mapDelete (ss_byToken s) old)
     in s\<lparr>ss_byToken := mapSet bt tok \<lparr>sr_session = sid, sr_token = tok, sr_caps = caps\<rparr>,
          ss_bySession := mapSet (ss_bySession s) sid tok\<rparr>)"

definition Mint :: "string + 8 word list \<Rightarrow> string option \<Rightarrow> string \<Rightarrow> string list \<Rightarrow> SessionTokenStore \<Rightarrow>
    SessionTokenStore \<times> (string + string)" where
  "Mint rnd io sid caps s =
    (case rnd of
       Inl e \<Rightarrow> (s, Inl e)
     | Inr buf \<Rightarrow>
        (let tok = hexEncode buf
         in case persistSessions io (putSession sid tok caps s) of
              (s1, Some e) \<Rightarrow> (s1, Inl e)
            | (s1, None) \<Rightarrow> (s1, Inr tok)))"

definition CapsForToken :: "SessionTokenStore \<Rightarrow> string \<Rightarrow> string list option" where
  "CapsForToken s tok = map_option sr_caps (mapGet (ss_byToken s) tok)"

definition SessionIDForToken :: "SessionTokenStore \<Rightarrow> string \<Rightarrow> string" where
  "SessionIDForToken s tok = (case mapGet (ss_byToken s) tok of Some r \<Rightarrow> sr_session r | None \<Rightarrow> [])"

definition Revoke :: "string option \<Rightarrow> string \<Rightarrow> SessionTokenStore \<Rightarrow> SessionTokenStore \<times> string option" where
  "Revoke io sid s =
    (case mapGet (ss_bySession s) sid of None \<Rightarrow> (s, None) | Some tok \<Rightarrow> persistSessions io (dropSession sid s))"

text \<open>The loop of \<open>SweepOrphans\<close> ranges over the sessions of the map and deletes entries it has reached.\<close>

definition orphans :: "string list \<Rightarrow> SessionTokenStore \<Rightarrow> string list" where
  "orphans active s = filter (\<lambda>sid. sid \<notin> set active) (mapKeys (ss_bySession s))"

definition SweepOrphans :: "string option \<Rightarrow> string list \<Rightarrow> SessionTokenStore \<Rightarrow> SessionTokenStore \<times> int \<times> string option" where
  "SweepOrphans io active s =
    (let ks = orphans active s;
         s1 = fold dropSession ks s
     in if ks = [] then (s1, 0, None)
        else case persistSessions io s1 of (s2, e) \<Rightarrow> (s2, int (length ks), e))"

section \<open>Invariant and abstraction\<close>

text \<open>The two maps are inverse to each other.\<close>

definition sessOK :: "SessionTokenStore \<Rightarrow> bool" where
  "sessOK s \<longleftrightarrow> wf_map (ss_byToken s) \<and> wf_map (ss_bySession s) \<and>
     (\<forall>tok r. mapGet (ss_byToken s) tok = Some r \<longrightarrow> sr_token r = tok \<and> mapGet (ss_bySession s) (sr_session r) = Some tok) \<and>
     (\<forall>sid tok. mapGet (ss_bySession s) sid = Some tok \<longrightarrow>
        (\<exists>r. mapGet (ss_byToken s) tok = Some r \<and> sr_session r = sid))"

definition absStore :: "SessionTokenStore \<Rightarrow> string \<Rightarrow> (string \<times> string list) option" where
  "absStore s sid =
    (case mapGet (ss_bySession s) sid of
       None \<Rightarrow> None
     | Some tok \<Rightarrow> map_option (\<lambda>r. (tok, sr_caps r)) (mapGet (ss_byToken s) tok))"

lemma sessOK_byToken:
  "sessOK s \<Longrightarrow> mapGet (ss_byToken s) tok = Some r \<Longrightarrow> sr_token r = tok \<and> mapGet (ss_bySession s) (sr_session r) = Some tok"
  by (simp add: sessOK_def)

lemma sessOK_bySession:
  "sessOK s \<Longrightarrow> mapGet (ss_bySession s) sid = Some tok \<Longrightarrow> \<exists>r. mapGet (ss_byToken s) tok = Some r \<and> sr_session r = sid"
  by (simp add: sessOK_def)

lemma persistSessions_frame:
  assumes "persistSessions io s = (s', e)"
  shows "ss_byToken s' = ss_byToken s" "ss_bySession s' = ss_bySession s" "ss_path s' = ss_path s"
  using assms by (auto simp: persistSessions_def split: if_splits option.splits)

lemma sessOK_cong:
  "ss_byToken s' = ss_byToken s \<Longrightarrow> ss_bySession s' = ss_bySession s \<Longrightarrow> sessOK s' = sessOK s \<and> absStore s' = absStore s"
  by (auto simp: sessOK_def absStore_def fun_eq_iff split: option.split)

lemmas persist_keeps = sessOK_cong [OF persistSessions_frame(1,2)]

lemma dropSession_ok:
  assumes "sessOK s"
  shows "sessOK (dropSession sid s)" "absStore (dropSession sid s) = (absStore s)(sid := None)"
proof -
  show "sessOK (dropSession sid s)"
  proof (cases "mapGet (ss_bySession s) sid")
    case (Some tok)
    then obtain r where "mapGet (ss_byToken s) tok = Some r" "sr_session r = sid" using sessOK_bySession [OF assms] by blast
    then show ?thesis using assms Some unfolding sessOK_def dropSession_def by (auto split: if_splits) (metis option.inject)+
  qed (use assms in \<open>simp add: dropSession_def\<close>)
  show "absStore (dropSession sid s) = (absStore s)(sid := None)"
  proof
    fix k
    show "absStore (dropSession sid s) k = ((absStore s)(sid := None)) k"
      using sessOK_bySession [OF assms, of k] sessOK_bySession [OF assms, of sid]
      by (auto simp: absStore_def dropSession_def split: option.splits)
  qed
qed

interpretation sessions: keyed_store sessOK absStore dropSession
  by unfold_locales (simp_all add: dropSession_ok)

text \<open>A token is fresh for a session when no other session holds it.\<close>

definition freshFor :: "string \<Rightarrow> string \<Rightarrow> SessionTokenStore \<Rightarrow> bool" where
  "freshFor sid tok s \<longleftrightarrow> (\<forall>r. mapGet (ss_byToken s) tok = Some r \<longrightarrow> sr_session r = sid)"

lemma putSession_ok:
  assumes "sessOK s" "freshFor sid tok s"
  shows "sessOK (putSession sid tok caps s)" "absStore (putSession sid tok caps s) = (absStore s)(sid \<mapsto> (tok, caps))"
proof -
  have other: "tok' \<noteq> tok" if "mapGet (ss_bySession s) k = Some tok'" "k \<noteq> sid" for k tok'
    using that assms sessOK_bySession [OF assms(1) that(1)] unfolding freshFor_def by auto
  have old: "tok' \<noteq> old" if "mapGet (ss_bySession s) k = Some tok'" "mapGet (ss_bySession s) sid = Some old" "k \<noteq> sid" for k tok' old
    using that sessOK_bySession [OF assms(1) that(1)] sessOK_bySession [OF assms(1) that(2)] by auto
  show "sessOK (putSession sid tok caps s)"
    using assms(1) other old sessOK_byToken [OF assms(1)] unfolding sessOK_def putSession_def
    by (auto simp: Let_def split: option.splits if_splits)
  show "absStore (putSession sid tok caps s) = (absStore s)(sid \<mapsto> (tok, caps))"
  proof
    fix k
    show "absStore (putSession sid tok caps s) k = ((absStore s)(sid \<mapsto> (tok, caps))) k"
      using other [of k] old [of k] by (auto simp: absStore_def putSession_def Let_def split: option.splits)
  qed
qed

section \<open>Traces\<close>

datatype SessOp = MintOp "string + 8 word list" "string option" string "string list" | RevokeOp "string option" string
  | SweepOp "string option" "string list"

fun runSess :: "SessOp \<Rightarrow> SessionTokenStore \<Rightarrow> SessionTokenStore" where
  "runSess (MintOp rnd io sid caps) s = fst (Mint rnd io sid caps s)"
| "runSess (RevokeOp io sid) s = fst (Revoke io sid s)"
| "runSess (SweepOp io active) s = fst (SweepOrphans io active s)"

text \<open>The specification: each operation as an update of a map from sessions to a token and its capabilities.\<close>

fun specOp :: "SessOp \<Rightarrow> (string \<Rightarrow> (string \<times> string list) option) \<Rightarrow> string \<Rightarrow> (string \<times> string list) option" where
  "specOp (MintOp (Inl e) io sid caps) m = m"
| "specOp (MintOp (Inr buf) io sid caps) m = m(sid \<mapsto> (hexEncode buf, caps))"
| "specOp (RevokeOp io sid) m = m(sid := None)"
| "specOp (SweepOp io active) m = m |` set active"

fun mintedBy :: "SessOp \<Rightarrow> string list" where
  "mintedBy (MintOp (Inr buf) io sid caps) = [hexEncode buf]"
| "mintedBy _ = []"

definition minted :: "SessOp list \<Rightarrow> string list" where
  "minted ops = concat (map mintedBy ops)"

lemma minted_simps [simp]: "minted [] = []" "minted (a # ops) = mintedBy a @ minted ops"
  by (simp_all add: minted_def)

definition heldTokens :: "SessionTokenStore \<Rightarrow> string set" where
  "heldTokens s = {tok. mapHas (ss_byToken s) tok}"

lemma dropSession_held: "heldTokens (dropSession sid s) \<subseteq> heldTokens s"
  by (auto simp: heldTokens_def dropSession_def split: option.splits)

lemma fold_dropSession_held: "heldTokens (fold dropSession ks s) \<subseteq> heldTokens s"
  using dropSession_held by (induction ks arbitrary: s) (auto, blast)

lemma putSession_held: "heldTokens (putSession sid tok caps s) \<subseteq> insert tok (heldTokens s)"
  by (auto simp: heldTokens_def putSession_def Let_def split: option.splits)

lemma runSess_split:
  "\<exists>s1 io. (runSess op s = s1 \<or> runSess op s = fst (persistSessions io s1)) \<and>
     s1 = (case op of MintOp rnd _ sid caps \<Rightarrow> (case rnd of Inl _ \<Rightarrow> s | Inr buf \<Rightarrow> putSession sid (hexEncode buf) caps s)
           | RevokeOp _ sid \<Rightarrow> dropSession sid s | SweepOp _ active \<Rightarrow> fold dropSession (orphans active s) s)"
proof (cases op)
  case (MintOp rnd io sid caps)
  then show ?thesis
    by (cases rnd) (auto simp: Mint_def Let_def split: prod.splits option.splits intro!: exI [of _ io])
next
  case (RevokeOp io sid)
  then show ?thesis by (auto simp: Revoke_def dropSession_def split: option.splits)
next
  case (SweepOp io active)
  then show ?thesis by (auto simp: SweepOrphans_def Let_def split: prod.splits intro!: exI [of _ io])
qed

lemma persist_held: "heldTokens (fst (persistSessions io s)) = heldTokens s"
  using persistSessions_frame(1) [of io s] by (cases "persistSessions io s") (simp add: heldTokens_def)

lemma persist_fst: "sessOK (fst (persistSessions io s)) = sessOK s" "absStore (fst (persistSessions io s)) = absStore s"
  using persist_keeps [of io s] by (cases "persistSessions io s"; simp)+

lemma sweep_restrict:
  assumes "sessOK s"
  shows "absStore (fold dropSession (orphans active s) s) = absStore s |` set active"
proof
  fix sid
  have "absStore s sid = None" if "sid \<notin> set (mapKeys (ss_bySession s))"
    using that by (simp add: absStore_def mapHas_keys [symmetric] mapHas_def)
  then show "absStore (fold dropSession (orphans active s) s) sid = (absStore s |` set active) sid"
    using sessions.entry_fold [OF assms, of "orphans active s" sid] by (auto simp: orphans_def restrict_map_def)
qed

text \<open>Every operation with a fresh token keeps the invariant and is the specification's update.\<close>

lemma runSess_refines:
  assumes "sessOK s" "set (mintedBy op) \<inter> heldTokens s = {}"
  shows "sessOK (runSess op s)" "absStore (runSess op s) = specOp op (absStore s)"
    "heldTokens (runSess op s) \<subseteq> set (mintedBy op) \<union> heldTokens s"
proof -
  obtain s1 io where s: "runSess op s = s1 \<or> runSess op s = fst (persistSessions io s1)"
    "s1 = (case op of MintOp rnd _ sid caps \<Rightarrow> (case rnd of Inl _ \<Rightarrow> s | Inr buf \<Rightarrow> putSession sid (hexEncode buf) caps s)
           | RevokeOp _ sid \<Rightarrow> dropSession sid s | SweepOp _ active \<Rightarrow> fold dropSession (orphans active s) s)"
    using runSess_split by blast
  have "sessOK s1 \<and> absStore s1 = specOp op (absStore s) \<and> heldTokens s1 \<subseteq> set (mintedBy op) \<union> heldTokens s"
  proof (cases op)
    case (MintOp rnd io' sid caps)
    show ?thesis
    proof (cases rnd)
      case (Inr buf)
      then have "freshFor sid (hexEncode buf) s"
        using assms(2) MintOp by (auto simp: freshFor_def heldTokens_def mapHas_def)
      then show ?thesis using s(2) MintOp Inr putSession_ok [OF assms(1)] putSession_held by auto
    qed (use s(2) MintOp assms(1) in simp)
  next
    case (RevokeOp io' sid)
    then show ?thesis using s(2) dropSession_ok [OF assms(1)] dropSession_held by auto
  next
    case (SweepOp io' active)
    then show ?thesis using s(2) sessions.fold_inv [OF assms(1)] sweep_restrict [OF assms(1)] fold_dropSession_held by auto
  qed
  then show "sessOK (runSess op s)" "absStore (runSess op s) = specOp op (absStore s)"
    "heldTokens (runSess op s) \<subseteq> set (mintedBy op) \<union> heldTokens s"
    using s(1) persist_fst persist_held by auto
qed

lemma fold_runSess_refines:
  "sessOK s \<Longrightarrow> distinct (minted ops) \<Longrightarrow> set (minted ops) \<inter> heldTokens s = {} \<Longrightarrow>
   sessOK (fold runSess ops s) \<and> absStore (fold runSess ops s) = fold specOp ops (absStore s)"
proof (induction ops arbitrary: s)
  case (Cons op ops)
  have "set (mintedBy op) \<inter> heldTokens s = {}" using Cons.prems(3) by auto
  note r = runSess_refines [OF Cons.prems(1) this]
  have "set (minted ops) \<inter> heldTokens (runSess op s) = {}" using Cons.prems(2,3) r(3) by auto
  then show ?case using Cons.IH [OF r(1)] Cons.prems(2) r(2) by simp
qed simp

lemma CapsForToken_abs:
  assumes "sessOK s"
  shows "CapsForToken s tok = Some caps \<longleftrightarrow> (\<exists>sid. absStore s sid = Some (tok, caps))"
  using assms sessOK_byToken [OF assms] by (fastforce simp: CapsForToken_def absStore_def split: option.splits)

lemma new_store_ok: "sessOK (NewSessionTokenStore path [])" "absStore (NewSessionTokenStore path []) = Map.empty"
  "heldTokens (NewSessionTokenStore path []) = {}"
  by (auto simp: NewSessionTokenStore_def sessOK_def absStore_def heldTokens_def mapHas_def Let_def)

end
