(* ===== verification/Auth_Broker.thy ===== *)
theory Auth_Broker
  imports Auth_Sessions
begin

text \<open>
  \<open>internal/auth/token_broker.go\<close>: short-lived git tokens for spawned workers, at most one per worker.

  The git provider is outside the package: \<open>MintToken\<close> is an argument of the mint (an error, or a token with
  its expiry), and the tokens passed to \<open>RevokeToken\<close>, whose result the code discards, are recorded in
  \<open>tb_revokes\<close>. The outcome of each rewrite of the store's file is an argument; a read of the clock is an
  argument too. \<open>encoding/json\<close> reads back the list of records it wrote. An audit line keeps its event,
  worker, repo and note; its time stamp and the provider's kind are left out.
\<close>

record TokenRecord =
  tr_worker :: string
  tr_repo :: string
  tr_token :: string
  tr_expires :: time
  tr_issued :: time
  tr_revoked :: time

definition Active :: "TokenRecord \<Rightarrow> time \<Rightarrow> bool" where
  "Active r now \<longleftrightarrow> tr_revoked r = zeroTime \<and> now < tr_expires r"

record TokenStore =
  ts_tokens :: "(string, TokenRecord) gomap"
  ts_file :: "TokenRecord list"

fun loadTokens :: "TokenRecord list \<Rightarrow> (string, TokenRecord) gomap \<Rightarrow> (string, TokenRecord) gomap" where
  "loadTokens [] m = m"
| "loadTokens (r # rs) m = loadTokens rs (mapSet m (tr_worker r) r)"

definition NewTokenStore :: "TokenRecord list \<Rightarrow> TokenStore" where
  "NewTokenStore file = \<lparr>ts_tokens = loadTokens file [], ts_file = file\<rparr>"

definition storeGet :: "TokenStore \<Rightarrow> string \<Rightarrow> TokenRecord option" where
  "storeGet s worker = mapGet (ts_tokens s) worker"

definition storeList :: "TokenStore \<Rightarrow> TokenRecord list" where
  "storeList s = sortSliceStable (\<lambda>a b. tr_issued a < tr_issued b) (map snd (ts_tokens s))"

definition persistTokens :: "string option \<Rightarrow> TokenStore \<Rightarrow> TokenStore" where
  "persistTokens io s =
    (case io of
       Some e \<Rightarrow> s
     | None \<Rightarrow> s\<lparr>ts_file := sortSliceStable (\<lambda>a b. tr_worker a < tr_worker b) (map snd (ts_tokens s))\<rparr>)"

definition storePut :: "string option \<Rightarrow> TokenRecord \<Rightarrow> TokenStore \<Rightarrow> TokenStore" where
  "storePut io r s = persistTokens io (s\<lparr>ts_tokens := mapSet (ts_tokens s) (tr_worker r) r\<rparr>)"

definition storeDelete :: "string option \<Rightarrow> string \<Rightarrow> TokenStore \<Rightarrow> TokenStore" where
  "storeDelete io worker s = persistTokens io (s\<lparr>ts_tokens := mapDelete (ts_tokens s) worker\<rparr>)"

record AuditLine =
  au_event :: string
  au_worker :: string
  au_repo :: string
  au_note :: string

record TokenBroker =
  tb_provider :: bool
  tb_store :: "TokenStore option"
  tb_auditing :: bool
  tb_maxTTL :: duration
  tb_audit :: "AuditLine list"
  tb_revokes :: "string list"

datatype BrokerError = ProviderStoreRequired | WorkerRequired | StoreRequired | MintError string | PersistError string

definition audit :: "string \<Rightarrow> string \<Rightarrow> string \<Rightarrow> string \<Rightarrow> TokenBroker \<Rightarrow> TokenBroker" where
  "audit event worker repo note b =
    (if tb_auditing b
     then b\<lparr>tb_audit := tb_audit b @ [\<lparr>au_event = event, au_worker = worker, au_repo = repo, au_note = note\<rparr>]\<rparr>
     else b)"

definition revokeToken :: "string \<Rightarrow> TokenBroker \<Rightarrow> TokenBroker" where
  "revokeToken tok b = b\<lparr>tb_revokes := tb_revokes b @ [tok]\<rparr>"

definition cappedTTL :: "TokenBroker \<Rightarrow> duration \<Rightarrow> duration" where
  "cappedTTL b ttl =
    (let maxTTL = (if tb_maxTTL b = 0 then hour else tb_maxTTL b)
     in if ttl = 0 \<or> ttl > maxTTL then maxTTL else ttl)"

definition supersede :: "string \<Rightarrow> TokenStore \<Rightarrow> TokenBroker \<Rightarrow> TokenBroker" where
  "supersede worker st b =
    (case storeGet st worker of
       Some prior \<Rightarrow>
         if tr_revoked prior = zeroTime
         then audit ''revoke'' worker (tr_repo prior) ''supersede'' (revokeToken (tr_token prior) b)
         else b
     | None \<Rightarrow> b)"

definition MintForWorker :: "(string \<Rightarrow> duration \<Rightarrow> string + (string \<times> time)) \<Rightarrow> string option \<Rightarrow> time \<Rightarrow>
    string \<Rightarrow> string \<Rightarrow> duration \<Rightarrow> TokenBroker \<Rightarrow> TokenBroker \<times> (BrokerError + TokenRecord)" where
  "MintForWorker mint io now worker repo ttl b =
    (case tb_store b of
       None \<Rightarrow> (b, Inl ProviderStoreRequired)
     | Some st \<Rightarrow>
        if \<not> tb_provider b then (b, Inl ProviderStoreRequired)
        else if worker = [] then (b, Inl WorkerRequired)
        else
          let b1 = supersede worker st b
          in case mint repo (cappedTTL b ttl) of
               Inl e \<Rightarrow> (audit ''mint-fail'' worker repo e b1, Inl (MintError e))
             | Inr (tok, expires) \<Rightarrow>
                let r = \<lparr>tr_worker = worker, tr_repo = repo, tr_token = tok, tr_expires = expires, tr_issued = now,
                         tr_revoked = zeroTime\<rparr>;
                    b2 = b1\<lparr>tb_store := Some (storePut io r st)\<rparr>
                in case io of
                     Some e \<Rightarrow> (b2, Inl (PersistError e))
                   | None \<Rightarrow> (audit ''mint'' worker repo [] b2, Inr r))"

definition RevokeForWorker :: "string option \<Rightarrow> time \<Rightarrow> string \<Rightarrow> TokenBroker \<Rightarrow> TokenBroker \<times> BrokerError option" where
  "RevokeForWorker io now worker b =
    (case tb_store b of
       None \<Rightarrow> (b, Some StoreRequired)
     | Some st \<Rightarrow>
        (case storeGet st worker of
           None \<Rightarrow> (b, None)
         | Some r \<Rightarrow>
            if tr_revoked r \<noteq> zeroTime then (b, None)
            else
              let b1 = (if tb_provider b then revokeToken (tr_token r) b else b);
                  b2 = b1\<lparr>tb_store := Some (storePut io (r\<lparr>tr_revoked := now\<rparr>) st)\<rparr>
              in case io of
                   Some e \<Rightarrow> (b2, Some (PersistError e))
                 | None \<Rightarrow> (audit ''revoke'' worker (tr_repo r) ''explicit'' b2, None)))"

definition expired :: "time \<Rightarrow> TokenRecord \<Rightarrow> bool" where
  "expired now r \<longleftrightarrow> tr_expires r \<noteq> zeroTime \<and> now > tr_expires r"

text \<open>The loop of \<open>SweepOrphans\<close> over the listed records; \<open>io\<close> gives the outcome of each rewrite of the file.\<close>

fun sweepLoop :: "(nat \<Rightarrow> string option) \<Rightarrow> time \<Rightarrow> string list \<Rightarrow> TokenRecord list \<Rightarrow> nat \<Rightarrow> TokenStore \<Rightarrow> TokenBroker \<Rightarrow> int \<Rightarrow>
    TokenStore \<times> TokenBroker \<times> int" where
  "sweepLoop io now active [] k st b swept = (st, b, swept)"
| "sweepLoop io now active (r # rs) k st b swept =
    (if tr_worker r \<in> set active \<and> \<not> expired now r then sweepLoop io now active rs k st b swept
     else
       let b1 = (if tb_provider b \<and> tr_revoked r = zeroTime then revokeToken (tr_token r) b else b);
           st1 = storeDelete (io k) (tr_worker r) st
       in case io k of
            Some e \<Rightarrow> sweepLoop io now active rs (Suc k) st1 (audit ''sweep-error'' (tr_worker r) (tr_repo r) e b1) swept
          | None \<Rightarrow>
             sweepLoop io now active rs (Suc k) st1
               (audit ''sweep'' (tr_worker r) (tr_repo r)
                  (if tr_worker r \<in> set active then ''expired'' else ''orphaned'') b1) (swept + 1))"

definition SweepTokens :: "(nat \<Rightarrow> string option) \<Rightarrow> time \<Rightarrow> string list \<Rightarrow> TokenBroker \<Rightarrow> TokenBroker \<times> (BrokerError + int)" where
  "SweepTokens io now active b =
    (case tb_store b of
       None \<Rightarrow> (b, Inl StoreRequired)
     | Some st \<Rightarrow>
        (case sweepLoop io now active (storeList st) 0 st b 0 of
           (st1, b1, swept) \<Rightarrow> (b1\<lparr>tb_store := Some st1\<rparr>, Inr swept)))"

section \<open>The store's invariant\<close>

text \<open>Each record is filed under its worker.\<close>

definition tokOK :: "TokenStore \<Rightarrow> bool" where
  "tokOK s \<longleftrightarrow> wf_map (ts_tokens s) \<and> (\<forall>worker r. storeGet s worker = Some r \<longrightarrow> tr_worker r = worker)"

lemma storeGet_persist [simp]: "storeGet (persistTokens io s) k = storeGet s k"
  by (simp add: persistTokens_def storeGet_def split: option.splits)

lemma tokOK_persist [simp]: "tokOK (persistTokens io s) = tokOK s"
  by (simp add: tokOK_def) (simp add: persistTokens_def split: option.splits)

lemma storeGet_put [simp]: "storeGet (storePut io r s) k = (if k = tr_worker r then Some r else storeGet s k)"
  by (simp add: storePut_def) (simp add: storeGet_def)

lemma storeGet_delete [simp]: "storeGet (storeDelete io w s) k = (if k = w then None else storeGet s k)"
  by (simp add: storeDelete_def) (simp add: storeGet_def)

lemma tokOK_put: "tokOK s \<Longrightarrow> tokOK (storePut io r s)"
  unfolding storePut_def tokOK_persist by (auto simp: tokOK_def storeGet_def split: if_splits)

lemma tokOK_delete: "tokOK s \<Longrightarrow> tokOK (storeDelete io w s)"
  unfolding storeDelete_def tokOK_persist by (auto simp: tokOK_def storeGet_def split: if_splits)

interpretation tokens: keyed_store tokOK storeGet "storeDelete io" for io
  by unfold_locales (simp_all add: tokOK_delete)

lemma loadTokens_wf: "wf_map m \<Longrightarrow> wf_map (loadTokens rs m)"
  by (induction rs arbitrary: m) auto

definition filed :: "(string, TokenRecord) gomap \<Rightarrow> bool" where
  "filed m \<longleftrightarrow> (\<forall>k r. mapGet m k = Some r \<longrightarrow> tr_worker r = k)"

lemma filed_set: "filed m \<Longrightarrow> filed (mapSet m (tr_worker x) x)"
  unfolding filed_def by (metis mapGet_set option.inject)

lemma filed_load: "filed m \<Longrightarrow> filed (loadTokens rs m)"
  by (induction rs arbitrary: m) (simp_all add: filed_set)

lemma tokOK_new: "tokOK (NewTokenStore file)"
proof -
  have "filed []" by (simp add: filed_def)
  then have "filed (loadTokens file [])" by (rule filed_load)
  moreover have "wf_map (loadTokens file [])" by (simp add: loadTokens_wf)
  ultimately show ?thesis unfolding NewTokenStore_def tokOK_def storeGet_def filed_def by simp
qed

datatype BrokerOp = BrokerMint "string \<Rightarrow> duration \<Rightarrow> string + (string \<times> time)" "string option" time string string duration
  | BrokerRevoke "string option" time string
  | BrokerSweep "nat \<Rightarrow> string option" time "string list"

fun runBroker :: "BrokerOp \<Rightarrow> TokenBroker \<Rightarrow> TokenBroker" where
  "runBroker (BrokerMint mint io now worker repo ttl) b = fst (MintForWorker mint io now worker repo ttl b)"
| "runBroker (BrokerRevoke io now worker) b = fst (RevokeForWorker io now worker b)"
| "runBroker (BrokerSweep io now active) b = fst (SweepTokens io now active b)"

definition brokerOK :: "TokenBroker \<Rightarrow> bool" where
  "brokerOK b \<longleftrightarrow> (case tb_store b of None \<Rightarrow> False | Some st \<Rightarrow> tokOK st)"

lemma audit_frame [simp]:
  "tb_store (audit e w r n b) = tb_store b" "tb_provider (audit e w r n b) = tb_provider b" "tb_revokes (audit e w r n b) = tb_revokes b"
  "tb_auditing (audit e w r n b) = tb_auditing b"
  by (simp_all add: audit_def)

lemma revokeToken_frame [simp]:
  "tb_store (revokeToken t b) = tb_store b" "tb_provider (revokeToken t b) = tb_provider b"
  "tb_revokes (revokeToken t b) = tb_revokes b @ [t]" "tb_auditing (revokeToken t b) = tb_auditing b"
  by (simp_all add: revokeToken_def)

lemma supersede_frame [simp]: "tb_store (supersede w st b) = tb_store b" "tb_provider (supersede w st b) = tb_provider b"
  by (simp_all add: supersede_def split: option.splits)

section \<open>The sweep\<close>

definition swept :: "time \<Rightarrow> string list \<Rightarrow> TokenRecord \<Rightarrow> bool" where
  "swept now active r \<longleftrightarrow> tr_worker r \<notin> set active \<or> expired now r"

lemma sweepLoop_result:
  assumes "sweepLoop io now active rs k st b n = (st', b', n')" "tokOK st"
  shows "tokOK st' \<and> (\<forall>w. storeGet st' w = (if w \<in> set (map tr_worker (filter (swept now active) rs)) then None else storeGet st w))
    \<and> tb_revokes b' = tb_revokes b @ map tr_token (filter (\<lambda>r. swept now active r \<and> tb_provider b \<and> tr_revoked r = zeroTime) rs)
    \<and> n \<le> n' \<and> ((\<forall>j. io j = None) \<longrightarrow> n' = n + int (length (filter (swept now active) rs)))"
  using assms
proof (induction io now active rs k st b n arbitrary: st' b' n' rule: sweepLoop.induct)
  case (2 io now active r rs k st b n)
  let ?b1 = "if tb_provider b \<and> tr_revoked r = zeroTime then revokeToken (tr_token r) b else b"
  show ?case
  proof (cases "swept now active r")
    case False
    then have "tr_worker r \<in> set active \<and> \<not> expired now r" by (simp add: swept_def)
    then show ?thesis using 2(1) 2(4,5) False by simp
  next
    case True
    then have c: "\<not> (tr_worker r \<in> set active \<and> \<not> expired now r)" by (simp add: swept_def)
    have ok: "tokOK (storeDelete (io k) (tr_worker r) st)" using 2(5) by (rule tokOK_delete)
    show ?thesis
    proof (cases "io k")
      case None
      from 2(4) c None have "sweepLoop io now active rs (Suc k) (storeDelete None (tr_worker r) st)
        (audit ''sweep'' (tr_worker r) (tr_repo r) (if tr_worker r \<in> set active then ''expired'' else ''orphaned'') ?b1) (n + 1) = (st', b', n')"
        by (simp add: Let_def)
      from 2(2) [OF c refl refl None, unfolded None, OF this] ok None True show ?thesis by auto
    next
      case (Some e)
      from 2(4) c Some have "sweepLoop io now active rs (Suc k) (storeDelete (Some e) (tr_worker r) st)
        (audit ''sweep-error'' (tr_worker r) (tr_repo r) e ?b1) n = (st', b', n')"
        by (simp add: Let_def)
      from 2(3) [OF c refl refl Some, unfolded Some, OF this] ok Some True show ?thesis by (auto split: if_splits)
    qed
  qed
qed simp

end
