(* ===== verification/Auth_Properties.thy ===== *)
theory Auth_Properties
  imports Auth_Broker
begin

text \<open>The properties of the session token store and of the worker token broker.\<close>

section \<open>Session tokens\<close>

text \<open>C35. The session token store refines a map from sessions to a token and its capabilities: after any sequence
  of mints, revocations and sweeps with distinct random tokens, whether the writes of its file succeed or not, its
  two maps are inverse to each other, they stand for the specification's map, and a bearer token resolves to
  capabilities exactly when the specification gives some session that token with those capabilities.\<close>

theorem session_store_refines:
  assumes "distinct (minted ops)"
  shows "let s = fold runSess ops (NewSessionTokenStore path []); m = fold specOp ops Map.empty
    in sessOK s \<and> absStore s = m \<and>
       (\<forall>tok caps. CapsForToken s tok = Some caps \<longleftrightarrow> (\<exists>sid. m sid = Some (tok, caps)))"
  using fold_runSess_refines [OF new_store_ok(1) assms, of path] new_store_ok(2,3) [of path]
  by (simp add: Let_def CapsForToken_abs)

definition demoOps :: "SessOp list" where
  "demoOps = [MintOp (Inr [1]) None ''a'' [''read''], MintOp (Inr [2]) None ''b'' [''write''],
     MintOp (Inr [3]) None ''a'' [''read'', ''write''], RevokeOp None ''b'']"

lemma demo_minted: "minted demoOps = [''01'', ''02'', ''03'']"
  by code_simp

lemma session_store_refines_witness:
  "CapsForToken (fold runSess demoOps (NewSessionTokenStore ''f'' [])) (hexEncode [3]) = Some [''read'', ''write'']
   \<and> CapsForToken (fold runSess demoOps (NewSessionTokenStore ''f'' [])) (hexEncode [1]) = None"
proof -
  let ?s = "fold runSess demoOps (NewSessionTokenStore ''f'' [])" and ?m = "fold specOp demoOps Map.empty"
  have d: "distinct (minted demoOps)" unfolding demo_minted by simp
  have m: "?m = [''a'' \<mapsto> (hexEncode [3], [''read'', ''write''])]"
    by (simp add: demoOps_def fun_eq_iff)
  have r: "CapsForToken ?s tok = Some caps \<longleftrightarrow> (\<exists>sid. ?m sid = Some (tok, caps))" for tok caps
    using session_store_refines [OF d, of "''f''"] unfolding Let_def by blast
  have "hexEncode [1] \<noteq> hexEncode [3]" by code_simp
  then have "CapsForToken ?s (hexEncode [1]) \<noteq> Some caps" for caps unfolding r m by auto
  then show ?thesis using r [of "hexEncode [3]" "[''read'', ''write'']"] unfolding m by (auto split: if_splits)
qed

text \<open>Which operations end the life of a session's token.\<close>

fun retires :: "string \<Rightarrow> SessOp \<Rightarrow> bool" where
  "retires sid (MintOp (Inl e) io k caps) = False"
| "retires sid (MintOp (Inr buf) io k caps) = (k = sid)"
| "retires sid (RevokeOp io k) = (k = sid)"
| "retires sid (SweepOp io active) = (sid \<notin> set active)"

lemma specOp_token:
  assumes "tok \<notin> set (mintedBy op)"
  shows "specOp op m k = Some (tok, c) \<longleftrightarrow> m k = Some (tok, c) \<and> \<not> retires k op"
  using assms by (cases "(k, op)" rule: retires.cases) (auto simp: restrict_map_def)

lemma fold_specOp_token:
  assumes "tok \<notin> set (minted ops)"
  shows "fold specOp ops m k = Some (tok, c) \<longleftrightarrow> m k = Some (tok, c) \<and> (\<forall>op\<in>set ops. \<not> retires k op)"
  using assms
proof (induction ops arbitrary: m)
  case (Cons op ops)
  then show ?case using specOp_token [of tok op m k c] by auto
qed simp

lemma fold_specOp_source:
  "fold specOp ops m k = Some (tok, c) \<Longrightarrow> tok \<in> set (minted ops) \<or> m k = Some (tok, c)"
  using fold_specOp_token by blast

text \<open>C36. The life of a token: with distinct random tokens, the token minted for a session resolves to the
  capabilities it was minted with until the session is minted another token, is revoked or is missing from a sweep's
  active sessions, and never again after that.\<close>

theorem token_lifetime:
  assumes "distinct (minted (pre @ MintOp (Inr buf) io sid caps # post))"
  shows "CapsForToken (fold runSess (pre @ MintOp (Inr buf) io sid caps # post) (NewSessionTokenStore path [])) (hexEncode buf)
    = (if \<exists>op\<in>set post. retires sid op then None else Some caps)"
proof -
  let ?ops = "pre @ MintOp (Inr buf) io sid caps # post" and ?tok = "hexEncode buf"
  let ?s = "fold runSess ?ops (NewSessionTokenStore path [])"
  let ?m0 = "fold specOp pre Map.empty"
  have fresh: "?tok \<notin> set (minted pre)" "?tok \<notin> set (minted post)" using assms by (auto simp: minted_def)
  have caps: "CapsForToken ?s ?tok = Some c \<longleftrightarrow> (\<exists>k. fold specOp ?ops Map.empty k = Some (?tok, c))" for c
    using CapsForToken_abs fold_runSess_refines [OF new_store_ok(1) assms, of path] new_store_ok(2,3) [of path] by simp
  have m0: "?m0 k \<noteq> Some (?tok, c)" for k c using fold_specOp_source [of pre Map.empty k ?tok c] fresh(1) by auto
  have "fold specOp ?ops Map.empty k = Some (?tok, c) \<longleftrightarrow> k = sid \<and> c = caps \<and> (\<forall>op\<in>set post. \<not> retires sid op)" for k c
    using fold_specOp_token [OF fresh(2), of "?m0(sid \<mapsto> (?tok, caps))" k c] m0 by auto
  then show ?thesis using caps by (cases "CapsForToken ?s ?tok") auto
qed

lemma token_lifetime_witness:
  "CapsForToken (fold runSess demoOps (NewSessionTokenStore ''f'' [])) (hexEncode [1]) = None"
proof -
  have ops: "demoOps = [] @ MintOp (Inr [1]) None ''a'' [''read''] # tl demoOps" by (simp add: demoOps_def)
  have "distinct (minted ([] @ MintOp (Inr [1]) None ''a'' [''read''] # tl demoOps))"
    using demo_minted unfolding ops [symmetric] by simp
  from token_lifetime [OF this, of "''f''"] show ?thesis unfolding ops [symmetric] by (simp add: demoOps_def)
qed

section \<open>Restart\<close>









lemma path_keeps [simp]: "ss_path (dropSession k s) = ss_path s" "ss_path (putSession k t c s) = ss_path s"
  "ss_path (fold dropSession ks s) = ss_path s"
proof -
  show d: "ss_path (dropSession k s) = ss_path s" for k s by (simp add: dropSession_def split: option.splits)
  show "ss_path (putSession k t c s) = ss_path s" by (simp add: putSession_def Let_def)
  show "ss_path (fold dropSession ks s) = ss_path s" by (induction ks arbitrary: s) (simp_all add: d)
qed




section \<open>Worker tokens\<close>

lemma set_storeList:
  assumes "tokOK st"
  shows "r \<in> set (storeList st) \<longleftrightarrow> storeGet st (tr_worker r) = Some r"
proof -
  have wf: "wf_map (ts_tokens st)" using assms by (simp add: tokOK_def)
  have "(\<exists>w. (w, r) \<in> set (ts_tokens st)) \<longleftrightarrow> storeGet st (tr_worker r) = Some r"
    using assms wf_map_mem [OF wf] unfolding tokOK_def storeGet_def by metis
  then show ?thesis by (force simp: storeList_def)
qed

lemma SweepTokens_result:
  assumes "tb_store b = Some st" "tokOK st" "SweepTokens io now active b = (b', res)"
  shows "\<exists>st' n. tb_store b' = Some st' \<and> tokOK st' \<and> res = Inr n \<and>
    (\<forall>w. storeGet st' w = (case storeGet st w of None \<Rightarrow> None
       | Some r \<Rightarrow> if w \<in> set active \<and> \<not> expired now r then Some r else None)) \<and>
    tb_revokes b' = tb_revokes b @ map tr_token (filter (\<lambda>r. swept now active r \<and> tb_provider b \<and> tr_revoked r = zeroTime) (storeList st)) \<and>
    ((\<forall>k. io k = None) \<longrightarrow> n = int (length (filter (swept now active) (storeList st))))"
proof -
  obtain st' b1 n where l: "sweepLoop io now active (storeList st) 0 st b 0 = (st', b1, n)" by (rule prod_cases3)
  note R = sweepLoop_result [OF l assms(2)]
  have "storeGet st' w = (case storeGet st w of None \<Rightarrow> None
       | Some r \<Rightarrow> if w \<in> set active \<and> \<not> expired now r then Some r else None)" for w
  proof -
    have "w \<in> set (map tr_worker (filter (swept now active) (storeList st))) \<longleftrightarrow> (\<exists>r. storeGet st w = Some r \<and> swept now active r)"
      using set_storeList [OF assms(2)] assms(2) unfolding tokOK_def by (auto simp: image_iff)
    moreover have "storeGet st w = Some r \<Longrightarrow> tr_worker r = w" for r using assms(2) by (simp add: tokOK_def)
    ultimately show ?thesis using R by (auto simp: swept_def split: option.splits)
  qed
  then show ?thesis using R l assms(1,3) by (auto simp: SweepTokens_def)
qed

lemma runBroker_ok: "brokerOK b \<Longrightarrow> brokerOK (runBroker op b)"
proof (cases op)
  case (BrokerMint mint io now worker repo ttl)
  assume "brokerOK b"
  then show ?thesis using BrokerMint
    by (auto simp: brokerOK_def MintForWorker_def Let_def tokOK_put split: option.splits sum.splits prod.splits)
next
  case (BrokerRevoke io now worker)
  assume "brokerOK b"
  then show ?thesis using BrokerRevoke
    by (auto simp: brokerOK_def RevokeForWorker_def Let_def tokOK_put split: option.splits)
next
  case (BrokerSweep io now active)
  assume "brokerOK b"
  then obtain st where "tb_store b = Some st" "tokOK st" by (auto simp: brokerOK_def split: option.splits)
  then show ?thesis using SweepTokens_result [of b st io now active] BrokerSweep
    by (cases "SweepTokens io now active b") (fastforce simp: brokerOK_def)
qed

definition newBroker :: "bool \<Rightarrow> bool \<Rightarrow> duration \<Rightarrow> TokenRecord list \<Rightarrow> TokenBroker" where
  "newBroker prov aud maxTTL file = \<lparr>tb_provider = prov, tb_store = Some (NewTokenStore file), tb_auditing = aud,
     tb_maxTTL = maxTTL, tb_audit = [], tb_revokes = []\<rparr>"

lemma broker_store: "\<exists>st. tb_store (fold runBroker ops (newBroker prov aud maxTTL file)) = Some st \<and> tokOK st"
proof -
  have "brokerOK b \<Longrightarrow> brokerOK (fold runBroker ops b)" for b
    by (induction ops arbitrary: b) (simp_all add: runBroker_ok)
  moreover have "brokerOK (newBroker prov aud maxTTL file)" by (simp add: brokerOK_def newBroker_def tokOK_new)
  ultimately have "brokerOK (fold runBroker ops (newBroker prov aud maxTTL file))" by blast
  then show ?thesis by (auto simp: brokerOK_def split: option.splits)
qed

text \<open>A sweep of the worker tokens, at any point of any history of a broker loaded from a file: it removes
  exactly the records whose worker is not active or whose expiry has passed, even where a write of the file fails,
  leaves the other records as they were, and asks the provider to revoke the removed tokens that were not revoked
  yet; with no failing write it returns their number.\<close>

theorem token_sweep_exact:
  assumes "b = fold runBroker ops (newBroker prov aud maxTTL file)" "SweepTokens io now active b = (b', res)"
  shows "\<exists>st st' n. tb_store b = Some st \<and> tb_store b' = Some st' \<and> res = Inr n \<and>
    (\<forall>w. storeGet st' w = (case storeGet st w of None \<Rightarrow> None
       | Some r \<Rightarrow> if w \<in> set active \<and> (tr_expires r = zeroTime \<or> now \<le> tr_expires r) then Some r else None)) \<and>
    tb_revokes b' = tb_revokes b @ map tr_token
      (filter (\<lambda>r. storeGet st' (tr_worker r) = None \<and> tb_provider b \<and> tr_revoked r = zeroTime) (storeList st)) \<and>
    ((\<forall>k. io k = None) \<longrightarrow> n = int (length (filter (\<lambda>r. storeGet st' (tr_worker r) = None) (storeList st))))"
proof -
  obtain st where st: "tb_store b = Some st" "tokOK st" using broker_store assms(1) by blast
  obtain st' n where R: "tb_store b' = Some st'" "res = Inr n"
    "\<forall>w. storeGet st' w = (case storeGet st w of None \<Rightarrow> None
       | Some r \<Rightarrow> if w \<in> set active \<and> \<not> expired now r then Some r else None)"
    "tb_revokes b' = tb_revokes b @ map tr_token (filter (\<lambda>r. swept now active r \<and> tb_provider b \<and> tr_revoked r = zeroTime) (storeList st))"
    "(\<forall>k. io k = None) \<longrightarrow> n = int (length (filter (swept now active) (storeList st)))"
    using SweepTokens_result [OF st assms(2)] by blast
  have sw: "swept now active r \<longleftrightarrow> storeGet st' (tr_worker r) = None" if "r \<in> set (storeList st)" for r
    using that R(3) set_storeList [OF st(2), of r] by (simp add: swept_def)
  have f: "filter (\<lambda>r. swept now active r \<and> tb_provider b \<and> tr_revoked r = zeroTime) (storeList st)
      = filter (\<lambda>r. storeGet st' (tr_worker r) = None \<and> tb_provider b \<and> tr_revoked r = zeroTime) (storeList st)"
    "filter (swept now active) (storeList st) = filter (\<lambda>r. storeGet st' (tr_worker r) = None) (storeList st)"
    using sw by (auto intro!: filter_cong)
  have e: "\<not> expired now r \<longleftrightarrow> tr_expires r = zeroTime \<or> now \<le> tr_expires r" for r by (auto simp: expired_def)
  show ?thesis using st(1) R(1,2) R(3) [unfolded e] R(4,5) [unfolded f] by blast
qed

definition demoTok :: "string \<Rightarrow> time \<Rightarrow> TokenRecord" where
  "demoTok w t = \<lparr>tr_worker = w, tr_repo = ''r'', tr_token = w, tr_expires = t, tr_issued = 1, tr_revoked = zeroTime\<rparr>"

lemma token_sweep_exact_witness:
  "\<exists>b' n. SweepTokens (\<lambda>k. None) 5 [''a'', ''b''] (newBroker True True 0 [demoTok ''a'' 9, demoTok ''b'' 4, demoTok ''c'' 9]) = (b', Inr n)
     \<and> map_option (\<lambda>st. (storeGet st ''a'', storeGet st ''b'')) (tb_store b') = Some (Some (demoTok ''a'' 9), None)"
proof -
  let ?b = "newBroker True True 0 [demoTok ''a'' 9, demoTok ''b'' 4, demoTok ''c'' 9]"
  obtain b' res where r: "SweepTokens (\<lambda>k. None) 5 [''a'', ''b''] ?b = (b', res)" by fastforce
  have b: "?b = fold runBroker [] ?b" by simp
  have st: "tb_store ?b = Some (NewTokenStore [demoTok ''a'' 9, demoTok ''b'' 4, demoTok ''c'' 9])" by (simp add: newBroker_def)
  have g: "storeGet (NewTokenStore [demoTok ''a'' 9, demoTok ''b'' 4, demoTok ''c'' 9]) ''a'' = Some (demoTok ''a'' 9)"
    "storeGet (NewTokenStore [demoTok ''a'' 9, demoTok ''b'' 4, demoTok ''c'' 9]) ''b'' = Some (demoTok ''b'' 4)"
    by (simp_all add: storeGet_def NewTokenStore_def demoTok_def)
  have e: "tr_expires (demoTok w t) = t" for w t by (simp add: demoTok_def)
  obtain st st' n where s: "tb_store ?b = Some st" "tb_store b' = Some st'" "res = Inr n"
    "\<forall>w. storeGet st' w = (case storeGet st w of None \<Rightarrow> None
       | Some r \<Rightarrow> if w \<in> set [''a'', ''b''] \<and> (tr_expires r = zeroTime \<or> 5 \<le> tr_expires r) then Some r else None)"
    using token_sweep_exact [OF b r] by blast
  have "storeGet st' ''a'' = Some (demoTok ''a'' 9)" "storeGet st' ''b'' = None"
    using s(1,4) st g by (simp_all add: e zeroTime_def)
  then show ?thesis using r s(2,3) by auto
qed

text \<open>C38. Minting for a worker, on every branch, for a broker with a provider and a store: the provider is asked for
  at most the broker's maximum lifetime (one hour by default); when it refuses, the store is as before; otherwise the
  worker's record is the new one, unrevoked, and no other worker's record changes, even where the write of the file
  fails. A previous unrevoked token of the worker is revoked at the provider first, in every case.\<close>

theorem mint_for_worker_exact:
  assumes "tb_provider b" "tb_store b = Some st" "worker \<noteq> []" "0 \<le> tb_maxTTL b"
    "MintForWorker mint io now worker repo ttl b = (b', res)"
  shows "\<exists>ttl' st'. ttl' \<le> (if tb_maxTTL b = 0 then hour else tb_maxTTL b) \<and> tb_store b' = Some st' \<and>
    tb_revokes b' = tb_revokes b @ (case storeGet st worker of
        Some prior \<Rightarrow> if tr_revoked prior = zeroTime then [tr_token prior] else [] | None \<Rightarrow> []) \<and>
    (case mint repo ttl' of
       Inl e \<Rightarrow> res = Inl (MintError e) \<and> st' = st
     | Inr (tok, expires) \<Rightarrow>
        (let r = \<lparr>tr_worker = worker, tr_repo = repo, tr_token = tok, tr_expires = expires, tr_issued = now, tr_revoked = zeroTime\<rparr>
         in (\<forall>w. storeGet st' w = (if w = worker then Some r else storeGet st w)) \<and>
            res = (case io of Some e \<Rightarrow> Inl (PersistError e) | None \<Rightarrow> Inr r)))"
proof -
  have ttl: "cappedTTL b ttl \<le> (if tb_maxTTL b = 0 then hour else tb_maxTTL b)"
    by (simp add: cappedTTL_def Let_def)
  have rev: "tb_revokes (supersede worker st b) = tb_revokes b @ (case storeGet st worker of
        Some prior \<Rightarrow> if tr_revoked prior = zeroTime then [tr_token prior] else [] | None \<Rightarrow> [])"
    by (simp add: supersede_def split: option.splits)
  show ?thesis
  proof (cases "mint repo (cappedTTL b ttl)")
    case (Inl e)
    then show ?thesis using assms rev ttl by (intro exI [of _ "cappedTTL b ttl"]) (auto simp: MintForWorker_def Let_def)
  next
    case (Inr te)
    obtain tok expires where te: "te = (tok, expires)" by fastforce
    then show ?thesis using assms rev ttl Inr
      by (intro exI [of _ "cappedTTL b ttl"]) (auto simp: MintForWorker_def Let_def split: option.splits)
  qed
qed

lemma mint_for_worker_exact_witness:
  "\<exists>b' r. MintForWorker (\<lambda>repo ttl. Inr (''t'', ttl)) None 7 ''a'' ''r'' (24 * hour) (newBroker True True 0 [demoTok ''a'' 9]) = (b', Inr r)
     \<and> tb_revokes b' = [''a''] \<and> tr_expires r \<le> hour"
proof -
  let ?b = "newBroker True True 0 [demoTok ''a'' 9]" and ?m = "\<lambda>(repo :: string) ttl. Inr (''t'', ttl)"
  obtain b' res where r: "MintForWorker ?m None 7 ''a'' ''r'' (24 * hour) ?b = (b', res)" by fastforce
  have h: "tb_provider ?b" "tb_store ?b = Some (NewTokenStore [demoTok ''a'' 9])" "''a'' \<noteq> []" "0 \<le> tb_maxTTL ?b"
    by (simp_all add: newBroker_def)
  have g: "storeGet (NewTokenStore [demoTok ''a'' 9]) ''a'' = Some (demoTok ''a'' 9)" "tb_revokes ?b = []" "tb_maxTTL ?b = 0"
    by (simp_all add: storeGet_def NewTokenStore_def demoTok_def newBroker_def)
  have d: "tr_revoked (demoTok ''a'' 9) = zeroTime" "tr_token (demoTok ''a'' 9) = ''a''" by (simp_all add: demoTok_def)
  have "\<exists>rec. res = Inr rec \<and> tb_revokes b' = [''a''] \<and> tr_expires rec \<le> hour"
    using mint_for_worker_exact [OF h r] g d by (auto simp: Let_def)
  then show ?thesis using r by blast
qed

end
