(* ===== verification/Pending_Queue.thy ===== *)
theory Pending_Queue
  imports Prelude
begin

text \<open>
  \<open>internal/autonomous/lifecycle_pending_queue.go\<close>: named rings of lifecycle events that clients poll with a
  cursor. A lifecycle event is opaque here (the type \<open>'e\<close>). A nil receiver is \<open>None\<close>. Cursors are unsigned
  numbers that count the appends of one daemon run, far below 2^64, and are natural numbers here.

  The specification of a queue is its history: every event appended to it since it was last released, with its
  cursor. \<open>ringOf\<close> says that the ring is the end of the history, and \<open>Pending\<close> is described over the history.
\<close>

definition DefaultPendingEventsMax :: int where "DefaultPendingEventsMax = 500"

record 'e PendingEntry =
  pe_cursor :: nat
  pe_event :: 'e

record 'e pendingRing =
  pr_entries :: "'e PendingEntry list"
  pr_evicted :: nat

record 'e PendingEventQueue =
  pq_max :: int
  pq_next :: nat
  pq_queues :: "(string, 'e pendingRing) gomap"

definition NewPendingEventQueue :: "int \<Rightarrow> 'e PendingEventQueue" where
  "NewPendingEventQueue mx =
    \<lparr>pq_max = (if mx < 1 then DefaultPendingEventsMax else mx), pq_next = 0, pq_queues = []\<rparr>"

definition emptyRing :: "'e pendingRing" where
  "emptyRing = \<lparr>pr_entries = [], pr_evicted = 0\<rparr>"

text \<open>Adding an entry to a ring and evicting what exceeds the maximum, oldest first.\<close>

definition pushRing :: "int \<Rightarrow> 'e PendingEntry \<Rightarrow> 'e pendingRing \<Rightarrow> 'e pendingRing" where
  "pushRing mx e r =
    (let es = pr_entries r @ [e];
         over = int (length es) - mx
     in if over > 0
        then \<lparr>pr_entries = drop (nat over) es, pr_evicted = pe_cursor (es ! (nat over - 1))\<rparr>
        else r\<lparr>pr_entries := es\<rparr>)"

definition Append :: "string \<Rightarrow> 'e \<Rightarrow> 'e PendingEventQueue option \<Rightarrow> 'e PendingEventQueue option \<times> nat" where
  "Append name ev q =
    (case q of
       None \<Rightarrow> (None, 0)
     | Some q \<Rightarrow>
        (let n = pq_next q + 1;
             r = mapGetOr emptyRing (pq_queues q) name;
             r' = pushRing (pq_max q) \<lparr>pe_cursor = n, pe_event = ev\<rparr> r
         in (Some (q\<lparr>pq_next := n, pq_queues := mapSet (pq_queues q) name r'\<rparr>), n)))"

text \<open>The loop of \<open>Pending\<close> over the entries.\<close>

fun collect :: "nat \<Rightarrow> int \<Rightarrow> 'e PendingEntry list \<Rightarrow> 'e list \<Rightarrow> nat \<Rightarrow> 'e list \<times> nat" where
  "collect since limit [] evs nxt = (evs, nxt)"
| "collect since limit (e # es) evs nxt =
    (if pe_cursor e \<le> since then collect since limit es evs nxt
     else if limit > 0 \<and> int (length evs) \<ge> limit then (evs, nxt)
     else collect since limit es (evs @ [pe_event e]) (pe_cursor e))"

definition Pending :: "string \<Rightarrow> nat \<Rightarrow> int \<Rightarrow> 'e PendingEventQueue option \<Rightarrow> 'e list \<times> nat \<times> bool" where
  "Pending name since limit q =
    (case q of
       None \<Rightarrow> ([], since, False)
     | Some q \<Rightarrow>
        (case mapGet (pq_queues q) name of
           None \<Rightarrow> ([], since, False)
         | Some r \<Rightarrow>
            if pr_entries r = [] then ([], since, False)
            else case collect since limit (pr_entries r) [] since of
                   (evs, nxt) \<Rightarrow> (evs, nxt, pr_evicted r > since)))"

definition ReleaseQueue :: "string \<Rightarrow> 'e PendingEventQueue option \<Rightarrow> 'e PendingEventQueue option" where
  "ReleaseQueue name q = map_option (\<lambda>q. q\<lparr>pq_queues := mapDelete (pq_queues q) name\<rparr>) q"

definition Queues :: "'e PendingEventQueue \<Rightarrow> int" where
  "Queues q = int (length (pq_queues q))"

definition Names :: "'e PendingEventQueue \<Rightarrow> string list" where
  "Names q = mapKeys (pq_queues q)"

section \<open>Histories\<close>

datatype 'e PqOp = PqAppend string 'e | PqRelease string

fun runPq :: "'e PqOp \<Rightarrow> 'e PendingEventQueue option \<Rightarrow> 'e PendingEventQueue option" where
  "runPq (PqAppend name ev) q = fst (Append name ev q)"
| "runPq (PqRelease name) q = ReleaseQueue name q"

fun histStep :: "string \<Rightarrow> 'e PqOp \<Rightarrow> nat \<times> (nat \<times> 'e) list \<Rightarrow> nat \<times> (nat \<times> 'e) list" where
  "histStep name (PqAppend k ev) (n, L) = (Suc n, if k = name then L @ [(Suc n, ev)] else L)"
| "histStep name (PqRelease k) (n, L) = (n, if k = name then [] else L)"

definition history :: "string \<Rightarrow> 'e PqOp list \<Rightarrow> (nat \<times> 'e) list" where
  "history name ops = snd (fold (histStep name) ops (0, []))"

definition appends :: "string \<Rightarrow> 'e PqOp list \<Rightarrow> nat" where
  "appends name ops = fst (fold (histStep name) ops (0, []))"

lemma histStep_result:
  "histStep name (PqAppend k ev) p = (Suc (fst p), if k = name then snd p @ [(Suc (fst p), ev)] else snd p)"
  "histStep name (PqRelease k) p = (fst p, if k = name then [] else snd p)"
  by (cases p; simp)+

definition retained :: "int \<Rightarrow> (nat \<times> 'e) list \<Rightarrow> (nat \<times> 'e) list" where
  "retained mx L = drop (length L - nat mx) L"

definition entryOf :: "nat \<times> 'e \<Rightarrow> 'e PendingEntry" where
  "entryOf x = \<lparr>pe_cursor = fst x, pe_event = snd x\<rparr>"

lemma entryOf_simps [simp]: "pe_cursor (entryOf x) = fst x" "pe_event (entryOf x) = snd x"
  by (simp_all add: entryOf_def)

text \<open>The ring of a history: its last entries, and the cursor of the newest entry before them.\<close>

definition ringOf :: "int \<Rightarrow> (nat \<times> 'e) list \<Rightarrow> 'e pendingRing" where
  "ringOf mx L = \<lparr>pr_entries = map entryOf (retained mx L),
     pr_evicted = (if length L > nat mx then fst (L ! (length L - nat mx - 1)) else 0)\<rparr>"

lemma ringOf_Nil: "ringOf mx [] = emptyRing"
  by (simp add: ringOf_def retained_def emptyRing_def)

lemma pushRing_ringOf:
  assumes "mx \<ge> 1"
  shows "pushRing mx (entryOf x) (ringOf mx L) = ringOf mx (L @ [x])"
proof (cases "length L < nat mx")
  case True
  then show ?thesis using assms by (auto simp: pushRing_def ringOf_def retained_def Let_def)
next
  case False
  define k where "k = length L - nat mx"
  have len: "length L = k + nat mx" using False k_def by simp
  have es: "map entryOf (drop k L) @ [entryOf x] = map entryOf (drop k (L @ [x]))" using len by simp
  have over: "int (length (map entryOf (drop k L) @ [entryOf x])) - mx = 1" using len assms by simp
  have "drop (Suc 0) (map entryOf (drop k (L @ [x]))) = map entryOf (drop (Suc k) (L @ [x]))"
    by (simp add: drop_map del: drop_append)
  moreover have "(L @ [x]) ! k = L ! k" using len assms by (simp add: nth_append)
  moreover have "pe_cursor (map entryOf (drop k (L @ [x])) ! 0) = fst ((L @ [x]) ! k)" using len assms by (simp del: drop_append)
  ultimately show ?thesis
    using len over es assms by (simp add: pushRing_def ringOf_def retained_def Let_def del: drop_append drop_drop)
qed

section \<open>The rings follow the histories\<close>

definition pqOK :: "'e PqOp list \<Rightarrow> 'e PendingEventQueue \<Rightarrow> bool" where
  "pqOK ops q \<longleftrightarrow> pq_max q \<ge> 1 \<and>
     (\<forall>name. appends name ops = pq_next q \<and>
        mapGetOr emptyRing (pq_queues q) name = ringOf (pq_max q) (history name ops))"

lemma history_snoc:
  "history name (ops @ [PqAppend k ev])
     = (if k = name then history name ops @ [(Suc (appends name ops), ev)] else history name ops)"
  "history name (ops @ [PqRelease k]) = (if k = name then [] else history name ops)"
  "appends name (ops @ [PqAppend k ev]) = Suc (appends name ops)"
  "appends name (ops @ [PqRelease k]) = appends name ops"
  by (simp_all add: history_def appends_def histStep_result)

lemma run_pqOK:
  "\<exists>q. fold runPq ops (Some (NewPendingEventQueue mx)) = Some q \<and> pqOK ops q \<and>
     pq_max q = (if mx < 1 then DefaultPendingEventsMax else mx)"
proof (induction ops rule: rev_induct)
  case Nil
  show ?case by (simp add: NewPendingEventQueue_def pqOK_def DefaultPendingEventsMax_def history_def appends_def mapGetOr_def ringOf_Nil)
next
  case (snoc op ops)
  then obtain q where q: "fold runPq ops (Some (NewPendingEventQueue mx)) = Some q" "pqOK ops q"
    "pq_max q = (if mx < 1 then DefaultPendingEventsMax else mx)" by blast
  have ring: "mapGetOr emptyRing (pq_queues q) name = ringOf (pq_max q) (history name ops)"
    and nxt: "appends name ops = pq_next q" and mx: "pq_max q \<ge> 1" for name
    using q(2) by (simp_all add: pqOK_def)
  show ?case
  proof (cases op)
    case (PqAppend k ev)
    have "pushRing (pq_max q) \<lparr>pe_cursor = Suc (pq_next q), pe_event = ev\<rparr> (ringOf (pq_max q) (history k ops))
      = ringOf (pq_max q) (history k ops @ [(Suc (pq_next q), ev)])"
      using pushRing_ringOf [OF mx, of "(Suc (pq_next q), ev)"] by (simp add: entryOf_def)
    then show ?thesis using q PqAppend ring nxt mx by (simp add: Append_def Let_def pqOK_def history_snoc)
  next
    case (PqRelease k)
    then show ?thesis using q ring nxt mx by (simp add: ReleaseQueue_def pqOK_def history_snoc ringOf_Nil)
  qed
qed

text \<open>The cursors of a history are positive and strictly increasing.\<close>

lemma history_sorted:
  "sorted_wrt (<) (map fst (history name ops)) \<and> (\<forall>x\<in>set (history name ops). 0 < fst x \<and> fst x \<le> appends name ops)"
proof (induction ops rule: rev_induct)
  case (snoc op ops)
  then show ?case by (cases op) (auto simp: history_snoc sorted_wrt_append less_Suc_eq_le le_SucI)
qed (simp add: history_def)

lemma collect_result:
  "collect since limit es evs nxt
   = (let rest = map pe_event (filter (\<lambda>e. since < pe_cursor e) es);
          out = (if limit > 0 then take (nat limit - length evs) rest else rest)
      in (evs @ out, if out = [] then nxt else pe_cursor (filter (\<lambda>e. since < pe_cursor e) es ! (length out - 1))))"
proof (induction since limit es evs nxt rule: collect.induct)
  case (2 since limit e es evs nxt)
  consider (old) "pe_cursor e \<le> since" | (full) "since < pe_cursor e" "limit > 0 \<and> int (length evs) \<ge> limit"
    | (take) "since < pe_cursor e" "\<not> (limit > 0 \<and> int (length evs) \<ge> limit)" by linarith
  then show ?case
  proof cases
    case old
    then show ?thesis using 2(1) by (simp add: Let_def)
  next
    case full
    then have "nat limit - length evs = 0" by (simp add: nat_le_iff)
    then show ?thesis using full by (simp add: Let_def)
  next
    case take
    then have n: "limit > 0 \<Longrightarrow> nat limit - length evs = Suc (nat limit - Suc (length evs))" by (simp add: not_le)
    show ?thesis using 2(2) take n by (auto simp: Let_def nth_Cons' neq_Nil_conv)
  qed
qed simp

lemma evicted_newest:
  fixes L :: "(nat \<times> 'e) list"
  assumes "sorted_wrt (<) (map fst L)" "k \<le> length L" "0 < k"
  shows "since < fst (L ! (k - 1)) \<longleftrightarrow> (\<exists>x\<in>set (take k L). since < fst x)"
proof
  assume "since < fst (L ! (k - 1))"
  moreover have "L ! (k - 1) \<in> set (take k L)" using assms(2,3) by (auto simp: in_set_conv_nth intro!: exI [of _ "k - 1"])
  ultimately show "\<exists>x\<in>set (take k L). since < fst x" by blast
next
  assume "\<exists>x\<in>set (take k L). since < fst x"
  then obtain j where j: "j < k" "since < fst (L ! j)" by (auto simp: in_set_conv_nth)
  have "j = k - 1 \<or> j < k - 1" using j(1) by linarith
  then have "fst (L ! j) \<le> fst (L ! (k - 1))"
    using sorted_wrt_nth_less [OF assms(1), of j "k - 1"] assms(2) j by (elim disjE) (auto simp: less_imp_le)
  then show "since < fst (L ! (k - 1))" using j by linarith
qed

text \<open>C39. A poll delivers exactly what it may: after any appends and releases, \<open>Pending\<close> returns, oldest first, the
  events of the named queue with a cursor past the caller's that are among the last \<open>max\<close> appended to it since its
  release (at most \<open>limit\<close> of them when that is positive), the cursor of the last one returned, and whether an
  event past the caller's cursor has been evicted. So a caller that is not told of a loss has missed nothing.\<close>

theorem pending_exact:
  "let L = history name ops;
       k = length L - nat (if m < 1 then DefaultPendingEventsMax else m);
       new = filter (\<lambda>x. since < fst x) (drop k L);
       out = (if limit > 0 then take (nat limit) new else new)
   in Pending name since limit (fold runPq ops (Some (NewPendingEventQueue m)))
      = (map snd out, if out = [] then since else fst (last out), \<exists>x\<in>set (take k L). since < fst x)"
proof -
  obtain q where q: "fold runPq ops (Some (NewPendingEventQueue m)) = Some q" "pqOK ops q"
    "pq_max q = (if m < 1 then DefaultPendingEventsMax else m)" using run_pqOK by blast
  define L where "L = history name ops"
  define k where "k = length L - nat (pq_max q)"
  define new where "new = filter (\<lambda>x. since < fst x) (drop k L)"
  define out where "out = (if limit > 0 then take (nat limit) new else new)"
  have ring: "mapGetOr emptyRing (pq_queues q) name = ringOf (pq_max q) L" and mx: "pq_max q \<ge> 1"
    using q(2) by (simp_all add: pqOK_def L_def)
  have P: "Pending name since limit (Some q) = (map snd out, if out = [] then since else fst (last out), \<exists>x\<in>set (take k L). since < fst x)"
  proof (cases "L = []")
    case True
    then have "mapGetOr emptyRing (pq_queues q) name = emptyRing" using ring ringOf_Nil by simp
    then have "Pending name since limit (Some q) = ([], since, False)"
      by (auto simp: Pending_def mapGetOr_def emptyRing_def split: option.splits)
    then show ?thesis using True by (simp add: out_def new_def)
  next
    case False
    then have kl: "k < length L" using mx by (simp add: k_def)
    then have ne: "pr_entries (ringOf (pq_max q) L) \<noteq> []" by (simp add: ringOf_def retained_def k_def)
    then have get: "mapGet (pq_queues q) name = Some (ringOf (pq_max q) L)"
      using ring by (cases "mapGet (pq_queues q) name") (auto simp: mapGetOr_def emptyRing_def dest!: arg_cong [where f = pr_entries])
    have f: "filter (\<lambda>e. since < pe_cursor e) (pr_entries (ringOf (pq_max q) L)) = map entryOf new"
      by (simp add: ringOf_def retained_def k_def new_def filter_map comp_def)
    have "collect since limit (pr_entries (ringOf (pq_max q) L)) [] since = (map snd out, if out = [] then since else fst (last out))"
    proof -
      have "new \<noteq> [] \<Longrightarrow> min (length new) (nat limit) - Suc 0 < length new" by (cases new) auto
      then show ?thesis unfolding collect_result f Let_def out_def by (auto simp: comp_def take_map last_conv_nth)
    qed
    moreover have "pr_evicted (ringOf (pq_max q) L) > since \<longleftrightarrow> (\<exists>x\<in>set (take k L). since < fst x)"
    proof (cases "k = 0")
      case False
      then have "pr_evicted (ringOf (pq_max q) L) = fst (L ! (k - 1))" by (simp add: ringOf_def k_def)
      then show ?thesis using evicted_newest [of L k since] history_sorted [of name ops] kl False by (simp add: L_def)
    qed (simp add: ringOf_def k_def)
    ultimately show ?thesis using get ne by (simp add: Pending_def)
  qed
  then show ?thesis using q(1) unfolding Let_def out_def new_def k_def q(3) L_def by simp
qed

definition demoPq :: "nat PqOp list" where
  "demoPq = [PqAppend ''a'' 10, PqAppend ''b'' 20, PqAppend ''a'' 30, PqAppend ''a'' 40]"

lemma pending_exact_witness:
  "Pending ''a'' 0 0 (fold runPq demoPq (Some (NewPendingEventQueue 2))) = ([30, 40], 4, True)
   \<and> Pending ''a'' 1 1 (fold runPq demoPq (Some (NewPendingEventQueue 2))) = ([30], 3, False)"
  using pending_exact [of "''a''" demoPq 2 0 0] pending_exact [of "''a''" demoPq 2 1 1]
  by (simp add: demoPq_def history_def Let_def)

end
