(* ===== verification/Algorithm_Mode.thy ===== *)
theory Algorithm_Mode
  imports Prelude
begin

text \<open>
  \<open>internal/algorithm/algorithm.go\<close>: the seven-phase Algorithm Mode of a session, a state machine driven by the
  operator. A phase is a string, as in the code; \<open>time.Now\<close> is an argument of each operation. \<open>Get\<close>, \<open>Advance\<close>,
  \<open>Edit\<close> and \<open>Abort\<close> hand out copies, which a value is.
\<close>

type_synonym Phase = string

definition Observe :: Phase where "Observe = ''observe''"
definition Orient :: Phase where "Orient = ''orient''"
definition Decide :: Phase where "Decide = ''decide''"
definition Act :: Phase where "Act = ''act''"
definition Measure :: Phase where "Measure = ''measure''"
definition Learn :: Phase where "Learn = ''learn''"
definition Improve :: Phase where "Improve = ''improve''"

lemmas phase_defs = Observe_def Orient_def Decide_def Act_def Measure_def Learn_def Improve_def

definition Phases :: "Phase list" where
  "Phases = [Observe, Orient, Decide, Act, Measure, Learn, Improve]"

definition IsValid :: "Phase \<Rightarrow> bool" where
  "IsValid p \<longleftrightarrow> p = Observe \<or> p = Orient \<or> p = Decide \<or> p = Act \<or> p = Measure \<or> p = Learn \<or> p = Improve"

record PhaseOutput =
  po_phase :: Phase
  po_output :: string
  po_at :: time

record AlgState =
  as_session :: string
  as_current :: Phase
  as_history :: "PhaseOutput list"
  as_started :: time
  as_updated :: time
  as_aborted :: bool

type_synonym Tracker = "(string, AlgState) gomap"

definition NewTracker :: Tracker where "NewTracker = []"

datatype AlgError = NotInMode string | SessionAborted string | NoOutputYet

text \<open>The loops of \<open>nextPhase\<close> and \<open>IndexOf\<close> over the phases.\<close>

fun nextAfter :: "Phase list \<Rightarrow> Phase \<Rightarrow> Phase option" where
  "nextAfter [] p = None"
| "nextAfter [c] p = None"
| "nextAfter (c # d # ps) p = (if c = p then Some d else nextAfter (d # ps) p)"

definition nextPhase :: "Phase \<Rightarrow> Phase \<times> bool" where
  "nextPhase p = (case nextAfter Phases p of Some q \<Rightarrow> (q, True) | None \<Rightarrow> (p, False))"

fun indexIn :: "int \<Rightarrow> Phase list \<Rightarrow> Phase \<Rightarrow> int" where
  "indexIn i [] p = - 1"
| "indexIn i (c # cs) p = (if c = p then i else indexIn (i + 1) cs p)"

definition IndexOf :: "Phase \<Rightarrow> int" where
  "IndexOf p = indexIn 0 Phases p"

definition StartAlg :: "time \<Rightarrow> string \<Rightarrow> Tracker \<Rightarrow> Tracker \<times> AlgState" where
  "StartAlg now sid t =
    (case mapGet t sid of
       Some s \<Rightarrow> (t, s)
     | None \<Rightarrow>
        (let s = \<lparr>as_session = sid, as_current = Observe, as_history = [], as_started = now, as_updated = now,
                 as_aborted = False\<rparr>
         in (mapSet t sid s, s)))"

definition GetAlg :: "Tracker \<Rightarrow> string \<Rightarrow> AlgState option" where
  "GetAlg t sid = mapGet t sid"

definition AllAlg :: "Tracker \<Rightarrow> AlgState list" where
  "AllAlg t = map snd t"

definition Advance :: "time \<Rightarrow> string \<Rightarrow> string \<Rightarrow> Tracker \<Rightarrow> Tracker \<times> (AlgError + AlgState)" where
  "Advance now sid output t =
    (case mapGet t sid of
       None \<Rightarrow> (t, Inl (NotInMode sid))
     | Some s \<Rightarrow>
        if as_aborted s then (t, Inl (SessionAborted sid))
        else
          (let s1 = s\<lparr>as_history := as_history s @ [\<lparr>po_phase = as_current s, po_output = output, po_at = now\<rparr>]\<rparr>
           in case nextPhase (as_current s) of
                (nxt, True) \<Rightarrow>
                  (let s2 = s1\<lparr>as_current := nxt, as_updated := now\<rparr> in (mapSet t sid s2, Inr s2))
              | (_, False) \<Rightarrow> (let s2 = s1\<lparr>as_updated := now\<rparr> in (mapSet t sid s2, Inr s2))))"

definition Edit :: "time \<Rightarrow> string \<Rightarrow> string \<Rightarrow> Tracker \<Rightarrow> Tracker \<times> (AlgError + AlgState)" where
  "Edit now sid output t =
    (case mapGet t sid of
       None \<Rightarrow> (t, Inl (NotInMode sid))
     | Some s \<Rightarrow>
        if as_history s = [] then (t, Inl NoOutputYet)
        else
          (let k = length (as_history s) - 1;
               s1 = s\<lparr>as_history := (as_history s)[k := (as_history s ! k)\<lparr>po_output := output\<rparr>], as_updated := now\<rparr>
           in (mapSet t sid s1, Inr s1)))"

definition Abort :: "time \<Rightarrow> string \<Rightarrow> Tracker \<Rightarrow> Tracker \<times> (AlgError + AlgState)" where
  "Abort now sid t =
    (case mapGet t sid of
       None \<Rightarrow> (t, Inl (NotInMode sid))
     | Some s \<Rightarrow> (let s1 = s\<lparr>as_aborted := True, as_updated := now\<rparr> in (mapSet t sid s1, Inr s1)))"

definition Reset :: "string \<Rightarrow> Tracker \<Rightarrow> Tracker" where
  "Reset sid t = mapDelete t sid"

definition AdvanceWithEval :: "time \<Rightarrow> string \<Rightarrow> string \<Rightarrow> Tracker \<Rightarrow> Tracker \<times> (AlgError + AlgState)" where
  "AdvanceWithEval now sid output t = Advance now sid output t"

section \<open>Reachable trackers\<close>

inductive tracker :: "Tracker \<Rightarrow> bool" where
  new: "tracker NewTracker"
| start: "tracker t \<Longrightarrow> tracker (fst (StartAlg now sid t))"
| advance: "tracker t \<Longrightarrow> tracker (fst (Advance now sid out t))"
| advance_eval: "tracker t \<Longrightarrow> tracker (fst (AdvanceWithEval now sid out t))"
| edit: "tracker t \<Longrightarrow> tracker (fst (Edit now sid out t))"
| abort: "tracker t \<Longrightarrow> tracker (fst (Abort now sid t))"
| reset: "tracker t \<Longrightarrow> tracker (Reset sid t)"

text \<open>The phase reached after \<open>n\<close> gates: the last one is not left.\<close>

definition phaseAt :: "nat \<Rightarrow> Phase" where
  "phaseAt n = Phases ! min n 6"

lemma nextPhase_phaseAt: "nextPhase (phaseAt n) = (phaseAt (Suc n), n < 6)"
proof (cases "n \<le> 6")
  case True
  then have "n \<in> {0, 1, 2, 3, 4, 5, 6}" by auto
  then show ?thesis by (auto simp: nextPhase_def phaseAt_def Phases_def phase_defs)
next
  case False
  then have "phaseAt n = Improve" "phaseAt (Suc n) = Improve" by (simp_all add: phaseAt_def Phases_def)
  then show ?thesis using False by (simp add: nextPhase_def Phases_def phase_defs)
qed

definition algOK :: "string \<Rightarrow> AlgState \<Rightarrow> bool" where
  "algOK sid s \<longleftrightarrow> as_session s = sid \<and> as_current s = phaseAt (length (as_history s)) \<and>
     map po_phase (as_history s) = map phaseAt [0..<length (as_history s)]"

lemma advanced_ok:
  "algOK sid s \<Longrightarrow> algOK sid (s\<lparr>as_history := as_history s @ [\<lparr>po_phase = as_current s, po_output = out, po_at = now\<rparr>],
     as_current := phaseAt (Suc (length (as_history s))), as_updated := now\<rparr>)"
  by (simp add: algOK_def)

lemma same_current: "as_current s = p \<Longrightarrow> s\<lparr>as_history := h, as_current := p, as_updated := u\<rparr> = s\<lparr>as_history := h, as_updated := u\<rparr>"
  by (cases s) simp

lemma Advance_result:
  assumes "mapGet t sid = Some s" "algOK sid s"
  shows "Advance now sid out t =
    (if as_aborted s then (t, Inl (SessionAborted sid))
     else (let s' = s\<lparr>as_history := as_history s @ [\<lparr>po_phase = as_current s, po_output = out, po_at = now\<rparr>],
                as_current := phaseAt (Suc (length (as_history s))), as_updated := now\<rparr>
           in (mapSet t sid s', Inr s')))"
proof -
  let ?n = "length (as_history s)"
  have cur: "as_current s = phaseAt ?n" using assms(2) by (simp add: algOK_def)
  show ?thesis
  proof (cases "?n < 6")
    case True
    then show ?thesis using assms(1) nextPhase_phaseAt [of ?n] cur by (simp add: Advance_def Let_def)
  next
    case False
    then have "phaseAt (Suc ?n) = phaseAt ?n" by (simp add: phaseAt_def)
    then show ?thesis using assms(1) nextPhase_phaseAt [of ?n] cur False
      by (simp add: Advance_def Let_def same_current)
  qed
qed

lemma update_phases:
  "map po_phase (xs[k := (xs ! k)\<lparr>po_output := out\<rparr>]) = map po_phase xs"
  by (cases "k < length xs") (simp_all add: map_update list_update_same_conv list_update_beyond)

lemma tracker_ok: "tracker t \<Longrightarrow> mapGet t sid = Some s \<Longrightarrow> algOK sid s"
proof (induction arbitrary: sid s rule: tracker.induct)
  case new
  then show ?case by (simp add: NewTracker_def)
next
  case (start t now k)
  then show ?case by (auto simp: StartAlg_def algOK_def phaseAt_def Phases_def Let_def split: option.splits if_splits)
next
  case (advance t now k out)
  then show ?case using Advance_result [of t k _ now out] advanced_ok
    by (cases "mapGet t k") (auto simp: Advance_def [of now k out t] Let_def split: if_splits)
next
  case (advance_eval t now k out)
  then show ?case using Advance_result [of t k _ now out] advanced_ok unfolding AdvanceWithEval_def
    by (cases "mapGet t k") (auto simp: Advance_def [of now k out t] Let_def split: if_splits)
next
  case (edit t now k out)
  then show ?case by (auto simp: Edit_def Let_def algOK_def update_phases split: option.splits if_splits)
next
  case (abort t now k)
  then show ?case by (auto simp: Abort_def Let_def algOK_def split: option.splits if_splits)
next
  case (reset t k)
  then show ?case by (auto simp: Reset_def split: if_splits)
qed

text \<open>Phases are gone through in order: in every reachable tracker, the recorded outputs of a session are those of
  Observe, Orient, Decide, Act, Measure, Learn and Improve in this order, further ones at Improve, and the current
  phase is the one after the last gate, or Improve. \<open>Advance\<close> adds one out at the current phase, unless the
  session was aborted, when it fails and changes nothing.\<close>

theorem phases_in_order:
  assumes "tracker t" "GetAlg t sid = Some s"
  shows "as_session s = sid \<and> as_current s = Phases ! min (length (as_history s)) 6 \<and>
    map po_phase (as_history s) = map (\<lambda>k. Phases ! min k 6) [0..<length (as_history s)] \<and>
    (case Advance now sid out t of
       (t', Inl e) \<Rightarrow> as_aborted s \<and> e = SessionAborted sid \<and> t' = t
     | (t', Inr s') \<Rightarrow> \<not> as_aborted s \<and> GetAlg t' sid = Some s' \<and>
         as_history s' = as_history s @ [\<lparr>po_phase = as_current s, po_output = out, po_at = now\<rparr>])"
proof -
  have ok: "algOK sid s" using tracker_ok assms by (simp add: GetAlg_def)
  have get: "mapGet t sid = Some s" using assms(2) by (simp add: GetAlg_def)
  show ?thesis using ok unfolding Advance_result [OF get ok] by (simp add: algOK_def phaseAt_def Let_def GetAlg_def)
qed

lemma phases_in_order_witness:
  "let t = fst (StartAlg 0 ''s'' NewTracker); t1 = fst (Advance 1 ''s'' ''seen'' t)
   in map_option as_current (GetAlg t1 ''s'') = Some Orient"
proof -
  let ?t = "fst (Advance 1 ''s'' ''seen'' (fst (StartAlg 0 ''s'' NewTracker)))"
  have "tracker ?t" by (intro tracker.intros)
  moreover obtain s where s: "GetAlg ?t ''s'' = Some s" "length (as_history s) = 1"
    by (simp add: GetAlg_def Advance_def StartAlg_def NewTracker_def nextPhase_def Phases_def phase_defs Let_def)
  ultimately show ?thesis using phases_in_order [of ?t "''s''" s] by (simp add: Phases_def Let_def)
qed

end
