(* ===== verification/Go_Float.thy ===== *)
theory Go_Float
  imports Complex_Main Prelude
begin

text \<open>
  The floating-point numbers of Go, as far as the modelled code uses them. A \<open>float64\<close> is NaN, an infinity, or a sign
  and an exact magnitude: the code only negates, compares and prints such numbers, so nothing is rounded except in
  \<open>%.1f\<close> and \<open>%.2f\<close>, which round the exact value half to even as \<open>strconv\<close> does.
\<close>

section \<open>Floating-point numbers\<close>

datatype float64 = FNaN | FInf bool | Fin bool rat

definition finVal :: "bool \<Rightarrow> rat \<Rightarrow> rat" where
  "finVal neg a = (if neg then - a else a)"

fun fless :: "float64 \<Rightarrow> float64 \<Rightarrow> bool" where
  "fless (Fin s a) (Fin t b) = (finVal s a < finVal t b)"
| "fless (Fin s a) (FInf t) = (\<not> t)"
| "fless (FInf s) (Fin t b) = s"
| "fless (FInf s) (FInf t) = (s \<and> \<not> t)"
| "fless _ _ = False"

fun feq :: "float64 \<Rightarrow> float64 \<Rightarrow> bool" where
  "feq (Fin s a) (Fin t b) = (finVal s a = finVal t b)"
| "feq (FInf s) (FInf t) = (s = t)"
| "feq _ _ = False"

fun fneg :: "float64 \<Rightarrow> float64" where
  "fneg FNaN = FNaN"
| "fneg (FInf s) = FInf (\<not> s)"
| "fneg (Fin s a) = Fin (\<not> s) a"

definition roundHalfEven :: "rat \<Rightarrow> int" where
  "roundHalfEven q =
    (let n = floor q; r = q - of_int n
     in if r < 1 / 2 \<or> (r = 1 / 2 \<and> even n) then n else n + 1)"

definition fmtFixed :: "nat \<Rightarrow> float64 \<Rightarrow> string" where
  "fmtFixed prec x =
    (case x of
       FNaN \<Rightarrow> ''NaN''
     | FInf neg \<Rightarrow> (if neg then ''-Inf'' else ''+Inf'')
     | Fin neg a \<Rightarrow>
        (let k = roundHalfEven (a * 10 ^ prec); p = 10 ^ prec
         in (if neg then ''-'' else []) @ itoa (k div p) @ ''.'' @ padNat prec (k mod p)))"

lemma fless_irrefl: "\<not> fless x x"
  by (cases x) auto

lemma fless_asym: "fless x y \<Longrightarrow> \<not> fless y x"
  by (cases x; cases y) auto

end
