(* ===== verification/Burn_Ladder.thy ===== *)
theory Burn_Ladder
  imports Go_Float
begin

text \<open>
  \<open>internal/burnguard/ladder.go\<close>: the state machine of the burn guard. A tick compares the projected
  weekly burn with its target and climbs one rung, steps back one rung, holds, or, when the guard is off,
  releases every rung in force; each rung is one change of admission and each release undoes it.

  The ladder only negates, compares and prints floating-point numbers (\<open>Go_Float\<close>). The state store of a ladder is absent or holds the state last saved, and the
  outcome of a save (\<open>None\<close> for success) is an argument of the tick.
\<close>

section \<open>Rungs, actions and settings\<close>

definition RungLowerInflight :: string where "RungLowerInflight = ''lower_inflight''"
definition RungRoutePiPrompt :: string where "RungRoutePiPrompt = ''route_pi_prompt''"
definition RungHoldClaude :: string where "RungHoldClaude = ''hold_claude''"
definition ClaudeBackend :: string where "ClaudeBackend = ''claude-code''"
definition PiBackend :: string where "PiBackend = ''pi-prompt''"
definition ActionSetInflight :: string where "ActionSetInflight = ''set_inflight''"
definition ActionRouteBackend :: string where "ActionRouteBackend = ''route_backend''"
definition ActionHoldNewWork :: string where "ActionHoldNewWork = ''hold_new_work''"

lemmas rung_defs = RungLowerInflight_def RungRoutePiPrompt_def RungHoldClaude_def
lemmas kind_defs = ActionSetInflight_def ActionRouteBackend_def ActionHoldNewWork_def

lemma rungs_differ [simp]:
  "RungLowerInflight \<noteq> RungRoutePiPrompt" "RungRoutePiPrompt \<noteq> RungLowerInflight"
  "RungLowerInflight \<noteq> RungHoldClaude" "RungHoldClaude \<noteq> RungLowerInflight"
  "RungRoutePiPrompt \<noteq> RungHoldClaude" "RungHoldClaude \<noteq> RungRoutePiPrompt"
  by (simp_all add: rung_defs)

lemma kinds_differ [simp]:
  "ActionSetInflight \<noteq> ActionRouteBackend" "ActionRouteBackend \<noteq> ActionSetInflight"
  "ActionSetInflight \<noteq> ActionHoldNewWork" "ActionHoldNewWork \<noteq> ActionSetInflight"
  "ActionRouteBackend \<noteq> ActionHoldNewWork" "ActionHoldNewWork \<noteq> ActionRouteBackend"
  by (simp_all add: kind_defs)

definition ActionKinds :: "string list" where
  "ActionKinds = [ActionSetInflight, ActionRouteBackend, ActionHoldNewWork]"

record Action =
  ac_kind :: string
  ac_release :: bool
  ac_backend :: string
  ac_to :: string
  ac_value :: int

datatype Direction = DirectionHold | DirectionClimb | DirectionStepBack | DirectionDisabled

fun directionText :: "Direction \<Rightarrow> string" where
  "directionText DirectionHold = ''hold''"
| "directionText DirectionClimb = ''climb''"
| "directionText DirectionStepBack = ''step_back''"
| "directionText DirectionDisabled = ''disabled''"

record LadderSettings =
  se_enabled :: bool
  se_ladder :: "string list"
  se_stepBack :: bool
  se_marginPoints :: float64
  se_askOnChange :: bool

definition askOnOffHint :: string where
  "askOnOffHint = ''Set usage.burn_guard.ask_on_change to true to get a question per change.''"

definition DefaultLadder :: "string list" where
  "DefaultLadder = [RungLowerInflight, RungRoutePiPrompt, RungHoldClaude]"

record LadderState =
  ls_applied :: "string list"
  ls_lastChange :: time
  ls_originalInflight :: int

definition zeroLadderState :: LadderState where
  "zeroLadderState = \<lparr>ls_applied = [], ls_lastChange = zeroTime, ls_originalInflight = 0\<rparr>"

text \<open>The fields of \<open>Projection\<close> the ladder and the runner read.\<close>

record Projection =
  pj_needs :: string
  pj_projected :: float64
  pj_target :: float64
  pj_overBy :: float64
  pj_pointsPerHour :: float64
  pj_allowedPerHour :: float64
  pj_line :: float64
  pj_margin :: float64

record TickInput =
  ti_projection :: Projection
  ti_settings :: LadderSettings
  ti_now :: time
  ti_inflightCap :: int

record Decision =
  dc_direction :: Direction
  dc_rung :: string
  dc_level :: int
  dc_previous :: int
  dc_applied :: "string list"
  dc_actions :: "Action list"
  dc_projected :: float64
  dc_line :: float64
  dc_overBy :: float64
  dc_pointsPerHour :: float64
  dc_allowedPerHour :: float64
  dc_changed :: bool
  dc_withdraw :: bool
  dc_alertText :: string
  dc_questionText :: string
  dc_reason :: string

fun changesSetting :: "Action list \<Rightarrow> int \<Rightarrow> bool" where
  "changesSetting [] applyCap = False"
| "changesSetting (a # as) applyCap =
    (if ac_kind a = ActionSetInflight
     then (if (ac_release a \<and> ac_value a > 1) \<or> (\<not> ac_release a \<and> applyCap > 1) then True
           else changesSetting as applyCap)
     else True)"

section \<open>Applying and releasing a rung\<close>

text \<open>The loop of \<open>nextRung\<close> is the first rung of the list that is not applied.\<close>

fun firstMissing :: "string list \<Rightarrow> string list \<Rightarrow> string option" where
  "firstMissing [] applied = None"
| "firstMissing (r # rs) applied = (if r \<in> set applied then firstMissing rs applied else Some r)"

definition nextRung :: "string list \<Rightarrow> string list \<Rightarrow> string option" where
  "nextRung ladder applied =
    (let n = length applied
     in if n < length ladder \<and> ladder ! n \<notin> set applied then Some (ladder ! n)
        else firstMissing ladder applied)"

definition lowered :: "int \<Rightarrow> int" where
  "lowered cap = (if cap \<le> 1 then 1 else cap - 1)"

definition mkAction :: "string \<Rightarrow> bool \<Rightarrow> string \<Rightarrow> string \<Rightarrow> int \<Rightarrow> Action" where
  "mkAction kind rel backend to value =
    \<lparr>ac_kind = kind, ac_release = rel, ac_backend = backend, ac_to = to, ac_value = value\<rparr>"

definition applyRung :: "string \<Rightarrow> int \<Rightarrow> LadderState \<Rightarrow> LadderState \<times> Action list" where
  "applyRung rung inflight s =
    (let s1 = s\<lparr>ls_applied := ls_applied s @ [rung]\<rparr>
     in if rung = RungLowerInflight
        then (s1\<lparr>ls_originalInflight := inflight\<rparr>,
              [mkAction ActionSetInflight False ClaudeBackend [] (lowered inflight)])
        else if rung = RungRoutePiPrompt then (s1, [mkAction ActionRouteBackend False ClaudeBackend PiBackend 0])
        else if rung = RungHoldClaude then (s1, [mkAction ActionHoldNewWork False ClaudeBackend [] 0])
        else (s1, []))"

text \<open>\<open>release\<close> indexes the last applied rung: \<open>None\<close> is the panic of the empty slice, which its two
  callers exclude.\<close>

definition releaseRung :: "LadderState \<Rightarrow> (LadderState \<times> Action list) option" where
  "releaseRung s =
    (if ls_applied s = [] then None
     else let rung = last (ls_applied s);
              s1 = s\<lparr>ls_applied := butlast (ls_applied s)\<rparr>
          in Some (if rung = RungLowerInflight
                   then (s1\<lparr>ls_originalInflight := 0\<rparr>,
                         [mkAction ActionSetInflight True ClaudeBackend [] (ls_originalInflight s)])
                   else if rung = RungRoutePiPrompt then (s1, [mkAction ActionRouteBackend True ClaudeBackend PiBackend 0])
                   else if rung = RungHoldClaude then (s1, [mkAction ActionHoldNewWork True ClaudeBackend [] 0])
                   else (s1, [])))"

lemma releaseRung_SomeD:
  assumes "releaseRung s = Some (s', acts)"
  shows "ls_applied s \<noteq> []" "ls_applied s' = butlast (ls_applied s)"
  using assms by (auto simp: releaseRung_def Let_def split: if_splits)

text \<open>The loop that releases every rung in force, newest first.\<close>

function releaseAll :: "LadderState \<Rightarrow> LadderState \<times> Action list" where
  "releaseAll s =
    (case releaseRung s of
       None \<Rightarrow> (s, [])
     | Some (s1, acts) \<Rightarrow> (case releaseAll s1 of (s2, rest) \<Rightarrow> (s2, acts @ rest)))"
  by auto
termination
proof (relation "measure (\<lambda>s. length (ls_applied s))", goal_cases)
  case 1
  show ?case by simp
next
  case (2 s p s1 acts)
  then have "releaseRung s = Some (s1, acts)" by simp
  from releaseRung_SomeD [OF this] show ?case by (cases "ls_applied s") auto
qed

declare releaseAll.simps [simp del]

section \<open>Texts\<close>

definition describeAction :: "Action \<Rightarrow> int \<Rightarrow> string list" where
  "describeAction a original =
    (if ac_kind a = ActionSetInflight \<and> \<not> ac_release a
     then [''lowered the '' @ ac_backend a @ '' inflight cap from '' @ itoa original @ '' to '' @ itoa (ac_value a) @ ''.'']
     else if ac_kind a = ActionSetInflight
     then [''restored the '' @ ac_backend a @ '' inflight cap to '' @ itoa (ac_value a) @ ''.'']
     else if ac_kind a = ActionRouteBackend \<and> \<not> ac_release a
     then [''routed new '' @ ac_backend a @ '' work to '' @ ac_to a @ ''.'']
     else if ac_kind a = ActionRouteBackend
     then [''stopped routing new '' @ ac_backend a @ '' work to '' @ ac_to a @ ''.'']
     else if ac_kind a = ActionHoldNewWork \<and> \<not> ac_release a
     then [''holding new '' @ ac_backend a @ '' work; running sessions continue.'']
     else if ac_kind a = ActionHoldNewWork
     then [''released the hold on new '' @ ac_backend a @ '' work.'']
     else [])"

definition describe :: "Action list \<Rightarrow> int \<Rightarrow> string" where
  "describe acts original = joinStr '' '' (concat (map (\<lambda>a. describeAction a original) acts))"

definition numbers :: "Projection \<Rightarrow> string" where
  "numbers p = ''(projected '' @ fmtFixed 1 (pj_projected p) @ ''% at the reset, target '' @ fmtFixed 1 (pj_target p)
     @ ''%, burning '' @ fmtFixed 2 (pj_pointsPerHour p) @ '' points/hour against '' @ fmtFixed 2 (pj_allowedPerHour p)
     @ '' allowed)''"

section \<open>The ladder\<close>

record Ladder =
  ld_store :: "LadderState option"
  ld_state :: LadderState

definition NewLadder :: "LadderState option \<Rightarrow> string option \<Rightarrow> string + Ladder" where
  "NewLadder store loadErr =
    (case store of
       None \<Rightarrow> Inr \<lparr>ld_store = None, ld_state = zeroLadderState\<rparr>
     | Some s \<Rightarrow> (case loadErr of
         Some e \<Rightarrow> Inl (''burnguard: load ladder state: '' @ e)
       | None \<Rightarrow> Inr \<lparr>ld_store = Some s, ld_state = s\<rparr>))"

text \<open>The head of \<open>Tick\<close>: a decision that holds, with the numbers of the projection.\<close>

definition holdDecision :: "Projection \<Rightarrow> int \<Rightarrow> Decision" where
  "holdDecision p prev =
    \<lparr>dc_direction = DirectionHold, dc_rung = [], dc_level = prev, dc_previous = prev, dc_applied = [], dc_actions = [],
     dc_projected = pj_projected p, dc_line = pj_target p, dc_overBy = pj_overBy p,
     dc_pointsPerHour = pj_pointsPerHour p, dc_allowedPerHour = pj_allowedPerHour p,
     dc_changed = False, dc_withdraw = False, dc_alertText = [], dc_questionText = [], dc_reason = []\<rparr>"

text \<open>The closure \<open>finish\<close>.\<close>

definition finishTick :: "string option \<Rightarrow> time \<Rightarrow> Decision \<Rightarrow> Ladder \<Rightarrow> Ladder \<times> Decision \<times> string option" where
  "finishTick io now d l =
    (let d1 = d\<lparr>dc_level := int (length (ls_applied (ld_state l))), dc_applied := ls_applied (ld_state l),
                dc_withdraw := dc_changed d\<rparr>
     in if \<not> dc_changed d then (l, d1, None)
        else let s1 = (ld_state l)\<lparr>ls_lastChange := now\<rparr>; l1 = l\<lparr>ld_state := s1\<rparr>
             in case ld_store l of
                  None \<Rightarrow> (l1, d1, None)
                | Some _ \<Rightarrow> (case io of
                    Some e \<Rightarrow> (l1, d1, Some (''burnguard: save ladder state: '' @ e))
                  | None \<Rightarrow> (l1\<lparr>ld_store := Some s1\<rparr>, d1, None)))"

definition hintIfOff :: "LadderSettings \<Rightarrow> string" where
  "hintIfOff se = (if se_askOnChange se then [] else '' '' @ askOnOffHint)"

definition tickDisabled :: "string option \<Rightarrow> TickInput \<Rightarrow> Decision \<Rightarrow> Ladder \<Rightarrow> Ladder \<times> Decision \<times> string option" where
  "tickDisabled io i d l =
    (let released = ls_applied (ld_state l); p = ti_projection i;
         d1 = d\<lparr>dc_direction := DirectionDisabled, dc_reason := ''ladder disabled''\<rparr>
     in if released = [] then finishTick io (ti_now i) d1 l
        else case releaseAll (ld_state l) of (s1, acts) \<Rightarrow>
          finishTick io (ti_now i)
            (d1\<lparr>dc_actions := acts, dc_changed := True, dc_rung := last released,
                dc_alertText := ''Burn guard turned off: released '' @ joinStr '', '' (rev released) @ ''.''
                  @ (if pj_needs p = [] then '' '' @ numbers p else []) @ hintIfOff (ti_settings i)\<rparr>)
            (l\<lparr>ld_state := s1\<rparr>))"

definition tickClimb :: "string option \<Rightarrow> TickInput \<Rightarrow> string list \<Rightarrow> Decision \<Rightarrow> Ladder \<Rightarrow> Ladder \<times> Decision \<times> string option" where
  "tickClimb io i ladder d l =
    (case nextRung ladder (ls_applied (ld_state l)) of
       None \<Rightarrow> finishTick io (ti_now i) (d\<lparr>dc_reason := ''over the line, already at the last rung''\<rparr>) l
     | Some rung \<Rightarrow>
        (case applyRung rung (ti_inflightCap i) (ld_state l) of (s1, acts) \<Rightarrow>
          (let p = ti_projection i; se = ti_settings i; what = describe acts (ls_originalInflight s1)
           in finishTick io (ti_now i)
                (d\<lparr>dc_direction := DirectionClimb, dc_rung := rung, dc_actions := acts, dc_changed := True,
                   dc_alertText := ''Burn guard stepped up to rung '' @ itoa (int (length (ls_applied s1))) @ '' of ''
                     @ itoa (int (length ladder)) @ '' ('' @ rung @ ''): '' @ what @ '' '' @ numbers p @ hintIfOff se,
                   dc_questionText := (if se_askOnChange se \<and> changesSetting acts (ti_inflightCap i)
                     then ''The weekly burn projects to '' @ fmtFixed 1 (pj_projected p) @ ''% at the reset against a target of ''
                       @ fmtFixed 1 (pj_target p) @ ''%. I did this: '' @ what @ '' Release it, or leave it?''
                     else [])\<rparr>)
                (l\<lparr>ld_state := s1\<rparr>))))"

definition tickStepBack :: "string option \<Rightarrow> TickInput \<Rightarrow> Decision \<Rightarrow> Ladder \<Rightarrow> Ladder \<times> Decision \<times> string option" where
  "tickStepBack io i d l =
    (case releaseRung (ld_state l) of
       None \<Rightarrow> finishTick io (ti_now i) d l
     | Some (s1, acts) \<Rightarrow>
        (let p = ti_projection i; se = ti_settings i; rung = last (ls_applied (ld_state l)); what = describe acts 0
         in finishTick io (ti_now i)
              (d\<lparr>dc_direction := DirectionStepBack, dc_rung := rung, dc_actions := acts, dc_changed := True,
                 dc_alertText := ''Burn guard stepped back from '' @ rung @ '': '' @ what @ '' '' @ numbers p @ hintIfOff se,
                 dc_questionText := (if se_askOnChange se \<and> changesSetting acts 0
                   then ''The weekly burn now projects to '' @ fmtFixed 1 (pj_projected p) @ ''% against a target of ''
                     @ fmtFixed 1 (pj_target p) @ ''%. I did this: '' @ what
                   else [])\<rparr>)
              (l\<lparr>ld_state := s1\<rparr>)))"

definition effectiveLadder :: "LadderSettings \<Rightarrow> string list" where
  "effectiveLadder se = (if se_ladder se = [] then DefaultLadder else se_ladder se)"

definition effectiveMargin :: "LadderSettings \<Rightarrow> float64" where
  "effectiveMargin se = (if fless (se_marginPoints se) (Fin False 0) then Fin False 0 else se_marginPoints se)"

definition Tick :: "string option \<Rightarrow> TickInput \<Rightarrow> Ladder \<Rightarrow> Ladder \<times> Decision \<times> string option" where
  "Tick io i l =
    (let prev = length (ls_applied (ld_state l)); p = ti_projection i; se = ti_settings i;
         d = holdDecision p (int prev); margin = effectiveMargin se
     in if \<not> se_enabled se then tickDisabled io i d l
        else if pj_needs p \<noteq> [] then finishTick io (ti_now i) (d\<lparr>dc_reason := ''no usable projection: '' @ pj_needs p\<rparr>) l
        else if fless margin (pj_overBy p) then tickClimb io i (effectiveLadder se) d l
        else if fless (pj_overBy p) (fneg margin) \<and> se_stepBack se \<and> prev > 0 then tickStepBack io i d l
        else finishTick io (ti_now i)
          (d\<lparr>dc_reason := (if fless (pj_overBy p) (fneg margin) \<and> prev > 0
                           then ''under the line, step back is off'' else ''within the margin'')\<rparr>) l)"

section \<open>How a tick moves the ladder\<close>

text \<open>What one rung changes, and what its release changes back, as one function of the rung.\<close>

definition rungActions :: "string \<Rightarrow> bool \<Rightarrow> int \<Rightarrow> Action list" where
  "rungActions rung rel v =
    (if rung = RungLowerInflight then [mkAction ActionSetInflight rel ClaudeBackend [] v]
     else if rung = RungRoutePiPrompt then [mkAction ActionRouteBackend rel ClaudeBackend PiBackend 0]
     else if rung = RungHoldClaude then [mkAction ActionHoldNewWork rel ClaudeBackend [] 0]
     else [])"

lemma applyRung_eq:
  "applyRung r c s = (s\<lparr>ls_applied := ls_applied s @ [r],
       ls_originalInflight := (if r = RungLowerInflight then c else ls_originalInflight s)\<rparr>, rungActions r False (lowered c))"
  by (auto simp: applyRung_def rungActions_def Let_def)

lemma releaseRung_eq:
  "releaseRung s = (if ls_applied s = [] then None
     else Some (s\<lparr>ls_applied := butlast (ls_applied s),
       ls_originalInflight := (if last (ls_applied s) = RungLowerInflight then 0 else ls_originalInflight s)\<rparr>,
       rungActions (last (ls_applied s)) True (ls_originalInflight s)))"
  by (auto simp: releaseRung_def rungActions_def Let_def)

lemma firstMissing_SomeD: "firstMissing rs applied = Some r \<Longrightarrow> r \<in> set rs \<and> r \<notin> set applied"
  by (induction rs) (auto split: if_splits)

lemma firstMissing_None: "firstMissing rs applied = None \<longleftrightarrow> set rs \<subseteq> set applied"
  by (induction rs) auto

lemma nextRung_SomeD: "nextRung rs applied = Some r \<Longrightarrow> r \<in> set rs \<and> r \<notin> set applied"
  by (auto simp: nextRung_def Let_def split: if_splits dest: firstMissing_SomeD)

lemma nextRung_None: "nextRung rs applied = None \<longleftrightarrow> set rs \<subseteq> set applied"
proof (cases "length applied < length rs \<and> rs ! length applied \<notin> set applied")
  case True
  then have "rs ! length applied \<in> set rs" by simp
  with True have "\<not> set rs \<subseteq> set applied" by blast
  with True show ?thesis by (simp add: nextRung_def)
qed (auto simp: nextRung_def Let_def firstMissing_None)

text \<open>The part of the state that releasing every rung leaves.\<close>

lemma releaseAll_Nil: "ls_applied s = [] \<Longrightarrow> releaseAll s = (s, [])"
  by (subst releaseAll.simps) (simp add: releaseRung_eq)

lemma releaseAll_snoc:
  assumes "ls_applied s = rs @ [r]"
  shows "releaseAll s =
    (case releaseAll (s\<lparr>ls_applied := rs, ls_originalInflight := (if r = RungLowerInflight then 0 else ls_originalInflight s)\<rparr>)
     of (s2, rest) \<Rightarrow> (s2, rungActions r True (ls_originalInflight s) @ rest))"
  by (subst releaseAll.simps) (simp add: releaseRung_eq assms)

lemma releaseAll_snoc_actions:
  assumes "ls_applied s = rs @ [r]"
  shows "snd (releaseAll s) = rungActions r True (ls_originalInflight s)
    @ snd (releaseAll (s\<lparr>ls_applied := rs, ls_originalInflight := (if r = RungLowerInflight then 0 else ls_originalInflight s)\<rparr>))"
  by (subst releaseAll_snoc [OF assms]) (simp only: case_prod_beta snd_conv)

lemma releaseAll_state:
  "fst (releaseAll s) = s\<lparr>ls_applied := [],
     ls_originalInflight := (if RungLowerInflight \<in> set (ls_applied s) then 0 else ls_originalInflight s)\<rparr>"
proof (induction "ls_applied s" arbitrary: s rule: rev_induct)
  case Nil
  then show ?case by (simp add: releaseAll_Nil)
next
  case (snoc r rs)
  let ?t = "s\<lparr>ls_applied := rs, ls_originalInflight := (if r = RungLowerInflight then 0 else ls_originalInflight s)\<rparr>"
  have "fst (releaseAll s) = fst (releaseAll ?t)"
    by (simp add: releaseAll_snoc [OF snoc.hyps(2) [symmetric]] split: prod.split)
  also have "\<dots> = ?t\<lparr>ls_applied := [],
     ls_originalInflight := (if RungLowerInflight \<in> set rs then 0 else ls_originalInflight ?t)\<rparr>"
    using snoc.hyps(1) [of ?t] by simp
  finally show ?case by (simp add: snoc.hyps(2) [symmetric])
qed

lemma releaseAll_actions:
  "distinct (ls_applied s) \<Longrightarrow>
   snd (releaseAll s) = concat (map (\<lambda>r. rungActions r True (ls_originalInflight s)) (rev (ls_applied s)))"
proof (induction "ls_applied s" arbitrary: s rule: rev_induct)
  case Nil
  then show ?case by (simp add: releaseAll_Nil)
next
  case (snoc r rs)
  let ?t = "s\<lparr>ls_applied := rs, ls_originalInflight := (if r = RungLowerInflight then 0 else ls_originalInflight s)\<rparr>"
  have d: "distinct rs" "r \<notin> set rs" using snoc.prems snoc.hyps(2) [symmetric] by auto
  have "snd (releaseAll ?t) = concat (map (\<lambda>r'. rungActions r' True (ls_originalInflight ?t)) (rev rs))"
    using snoc.hyps(1) [of ?t] d(1) by simp
  also have "\<dots> = concat (map (\<lambda>r'. rungActions r' True (ls_originalInflight s)) (rev rs))"
    using d(2) by (intro arg_cong [where f = concat] map_cong) (auto simp: rungActions_def)
  finally have rest: "snd (releaseAll ?t) = concat (map (\<lambda>r'. rungActions r' True (ls_originalInflight s)) (rev rs))" .
  note step = releaseAll_snoc_actions [OF snoc.hyps(2) [symmetric]]
  then show ?case by (simp only: step rest) (simp add: snoc.hyps(2) [symmetric])
qed

lemma finishTick_state:
  assumes "finishTick io now d l = (l', d', e)"
  shows "ls_applied (ld_state l') = ls_applied (ld_state l)" "ls_originalInflight (ld_state l') = ls_originalInflight (ld_state l)"
    "dc_actions d' = dc_actions d" "dc_changed d' = dc_changed d" "dc_applied d' = ls_applied (ld_state l)"
    "dc_direction d' = dc_direction d" "dc_rung d' = dc_rung d"
    "dc_questionText d' = dc_questionText d" "dc_alertText d' = dc_alertText d" "dc_reason d' = dc_reason d"
    "dc_level d' = int (length (ls_applied (ld_state l)))" "dc_previous d' = dc_previous d" "dc_withdraw d' = dc_changed d"
  using assms by (auto simp: finishTick_def Let_def split: if_splits option.splits)

text \<open>The three ways a tick leaves the ladder: it holds, it adds the next rung, it drops the newest rung; a
  disabled tick drops them all. \<open>tickMove\<close> decides which, from the input and the rungs in force alone.\<close>

datatype Move = Stay | Climb string | Back string | AllOff

definition tickMove :: "TickInput \<Rightarrow> string list \<Rightarrow> Move" where
  "tickMove i applied =
    (let p = ti_projection i; se = ti_settings i; margin = effectiveMargin se
     in if \<not> se_enabled se then (if applied = [] then Stay else AllOff)
        else if pj_needs p \<noteq> [] then Stay
        else if fless margin (pj_overBy p)
        then (case nextRung (effectiveLadder se) applied of None \<Rightarrow> Stay | Some r \<Rightarrow> Climb r)
        else if fless (pj_overBy p) (fneg margin) \<and> se_stepBack se \<and> applied \<noteq> [] then Back (last applied)
        else Stay)"

fun moveState :: "Move \<Rightarrow> int \<Rightarrow> LadderState \<Rightarrow> LadderState" where
  "moveState Stay cap s = s"
| "moveState (Climb r) cap s = s\<lparr>ls_applied := ls_applied s @ [r],
     ls_originalInflight := (if r = RungLowerInflight then cap else ls_originalInflight s)\<rparr>"
| "moveState (Back r) cap s = s\<lparr>ls_applied := butlast (ls_applied s),
     ls_originalInflight := (if r = RungLowerInflight then 0 else ls_originalInflight s)\<rparr>"
| "moveState AllOff cap s = s\<lparr>ls_applied := [],
     ls_originalInflight := (if RungLowerInflight \<in> set (ls_applied s) then 0 else ls_originalInflight s)\<rparr>"

fun moveActions :: "Move \<Rightarrow> int \<Rightarrow> LadderState \<Rightarrow> Action list" where
  "moveActions Stay cap s = []"
| "moveActions (Climb r) cap s = rungActions r False (lowered cap)"
| "moveActions (Back r) cap s = rungActions r True (ls_originalInflight s)"
| "moveActions AllOff cap s = snd (releaseAll s)"

fun moveDirection :: "bool \<Rightarrow> Move \<Rightarrow> Direction" where
  "moveDirection en Stay = (if en then DirectionHold else DirectionDisabled)"
| "moveDirection en (Climb r) = DirectionClimb"
| "moveDirection en (Back r) = DirectionStepBack"
| "moveDirection en AllOff = DirectionDisabled"

definition finishesAs :: "TickInput \<Rightarrow> Ladder \<Rightarrow> Move \<Rightarrow> string option \<Rightarrow> Ladder \<times> Decision \<times> string option \<Rightarrow> bool" where
  "finishesAs i l m io res \<longleftrightarrow>
    (\<exists>d. res = finishTick io (ti_now i) d (l\<lparr>ld_state := moveState m (ti_inflightCap i) (ld_state l)\<rparr>) \<and>
         dc_actions d = moveActions m (ti_inflightCap i) (ld_state l) \<and> dc_changed d = (m \<noteq> Stay) \<and>
         dc_direction d = moveDirection (se_enabled (ti_settings i)) m \<and>
         dc_previous d = int (length (ls_applied (ld_state l))) \<and>
         (dc_questionText d \<noteq> [] \<longrightarrow> se_askOnChange (ti_settings i) \<and>
            ((\<exists>r. m = Climb r) \<and> changesSetting (dc_actions d) (ti_inflightCap i) \<or>
             (\<exists>r. m = Back r) \<and> changesSetting (dc_actions d) 0)))"

lemma finishesAs_intro:
  "\<lbrakk>res = finishTick io (ti_now i) d l'; l' = l\<lparr>ld_state := moveState m (ti_inflightCap i) (ld_state l)\<rparr>;
    dc_actions d = moveActions m (ti_inflightCap i) (ld_state l); dc_changed d = (m \<noteq> Stay);
    dc_direction d = moveDirection (se_enabled (ti_settings i)) m; dc_previous d = int (length (ls_applied (ld_state l)));
    dc_questionText d \<noteq> [] \<Longrightarrow> se_askOnChange (ti_settings i) \<and>
      ((\<exists>r. m = Climb r) \<and> changesSetting (dc_actions d) (ti_inflightCap i) \<or>
       (\<exists>r. m = Back r) \<and> changesSetting (dc_actions d) 0)\<rbrakk>
   \<Longrightarrow> finishesAs i l m io res"
  unfolding finishesAs_def by blast

lemma tickDisabled_finishes:
  assumes "\<not> se_enabled (ti_settings i)"
  shows "finishesAs i l (if ls_applied (ld_state l) = [] then Stay else AllOff) io
    (tickDisabled io i (holdDecision p (int (length (ls_applied (ld_state l))))) l)"
proof (cases "ls_applied (ld_state l) = []")
  case True
  with assms show ?thesis
    by (auto simp: tickDisabled_def holdDecision_def intro!: finishesAs_intro)
next
  case False
  with assms show ?thesis
    by (auto simp: tickDisabled_def holdDecision_def case_prod_beta Let_def releaseAll_state intro!: finishesAs_intro)
qed

lemma tickClimb_finishes:
  assumes "se_enabled (ti_settings i)"
  shows "finishesAs i l (case nextRung ladder (ls_applied (ld_state l)) of None \<Rightarrow> Stay | Some r \<Rightarrow> Climb r) io
    (tickClimb io i ladder (holdDecision p (int (length (ls_applied (ld_state l))))) l)"
proof (cases "nextRung ladder (ls_applied (ld_state l))")
  case None
  with assms show ?thesis
    by (auto simp: tickClimb_def holdDecision_def intro!: finishesAs_intro)
next
  case (Some r)
  show ?thesis
    using assms unfolding tickClimb_def holdDecision_def Some applyRung_eq option.case prod.case Let_def
    by (intro finishesAs_intro [OF refl]) (simp_all split: if_splits)
qed

lemma tickStepBack_finishes:
  assumes "se_enabled (ti_settings i)" "ls_applied (ld_state l) \<noteq> []"
  shows "finishesAs i l (Back (last (ls_applied (ld_state l)))) io
    (tickStepBack io i (holdDecision p (int (length (ls_applied (ld_state l))))) l)"
  using assms unfolding tickStepBack_def holdDecision_def releaseRung_eq if_not_P [OF assms(2)] option.case prod.case Let_def
  by (intro finishesAs_intro [OF refl]) (simp_all split: if_splits)

lemma hold_finishes:
  assumes "se_enabled (ti_settings i)"
  shows "finishesAs i l Stay io
    (finishTick io (ti_now i) ((holdDecision p (int (length (ls_applied (ld_state l)))))\<lparr>dc_reason := why\<rparr>) l)"
  using assms by (auto simp: holdDecision_def intro!: finishesAs_intro)

lemma Tick_finishes: "finishesAs i l (tickMove i (ls_applied (ld_state l))) io (Tick io i l)"
proof (cases "se_enabled (ti_settings i)")
  case False
  then show ?thesis
    using tickDisabled_finishes [OF False] by (simp add: Tick_def tickMove_def Let_def)
next
  case True
  let ?p = "ti_projection i" and ?m = "effectiveMargin (ti_settings i)"
  consider "pj_needs ?p \<noteq> []" | "pj_needs ?p = []" "fless ?m (pj_overBy ?p)"
    | "pj_needs ?p = []" "\<not> fless ?m (pj_overBy ?p)" "fless (pj_overBy ?p) (fneg ?m) \<and> se_stepBack (ti_settings i) \<and> ls_applied (ld_state l) \<noteq> []"
    | "pj_needs ?p = []" "\<not> fless ?m (pj_overBy ?p)" "\<not> (fless (pj_overBy ?p) (fneg ?m) \<and> se_stepBack (ti_settings i) \<and> ls_applied (ld_state l) \<noteq> [])"
    by blast
  then show ?thesis
  proof cases
    case 1
    with True show ?thesis by (simp add: Tick_def tickMove_def Let_def hold_finishes)
  next
    case 2
    with True show ?thesis by (simp add: Tick_def tickMove_def Let_def tickClimb_finishes)
  next
    case 3
    with True show ?thesis by (simp add: Tick_def tickMove_def Let_def tickStepBack_finishes)
  next
    case 4
    with True show ?thesis unfolding Tick_def tickMove_def Let_def length_greater_0_conv by (simp only: if_False simp_thms hold_finishes)
  qed
qed

lemma Tick_move:
  assumes "Tick io i l = (l', d, e)"
  defines "m \<equiv> tickMove i (ls_applied (ld_state l))"
  shows "ls_applied (ld_state l') = ls_applied (moveState m (ti_inflightCap i) (ld_state l))"
    "ls_originalInflight (ld_state l') = ls_originalInflight (moveState m (ti_inflightCap i) (ld_state l))"
    "dc_actions d = moveActions m (ti_inflightCap i) (ld_state l)"
    "dc_changed d \<longleftrightarrow> m \<noteq> Stay"
    "dc_applied d = ls_applied (ld_state l')"
    "dc_direction d = moveDirection (se_enabled (ti_settings i)) m"
    "dc_level d = int (length (ls_applied (ld_state l')))"
    "dc_questionText d \<noteq> [] \<Longrightarrow> se_askOnChange (ti_settings i) \<and> changesSetting (dc_actions d) (case m of Climb r \<Rightarrow> ti_inflightCap i | _ \<Rightarrow> 0)"
proof -
  obtain d0 where fin: "finishTick io (ti_now i) d0 (l\<lparr>ld_state := moveState m (ti_inflightCap i) (ld_state l)\<rparr>) = (l', d, e)"
    and d0: "dc_actions d0 = moveActions m (ti_inflightCap i) (ld_state l)" "dc_changed d0 = (m \<noteq> Stay)"
      "dc_direction d0 = moveDirection (se_enabled (ti_settings i)) m"
    and q: "dc_questionText d0 \<noteq> [] \<Longrightarrow> se_askOnChange (ti_settings i) \<and>
            ((\<exists>r. m = Climb r) \<and> changesSetting (dc_actions d0) (ti_inflightCap i) \<or>
             (\<exists>r. m = Back r) \<and> changesSetting (dc_actions d0) 0)"
    using Tick_finishes [of i l io] unfolding m_def finishesAs_def assms(1) by metis
  note st = finishTick_state [OF fin]
  show "ls_applied (ld_state l') = ls_applied (moveState m (ti_inflightCap i) (ld_state l))"
    "ls_originalInflight (ld_state l') = ls_originalInflight (moveState m (ti_inflightCap i) (ld_state l))"
    "dc_actions d = moveActions m (ti_inflightCap i) (ld_state l)" "dc_changed d \<longleftrightarrow> m \<noteq> Stay"
    "dc_applied d = ls_applied (ld_state l')" "dc_direction d = moveDirection (se_enabled (ti_settings i)) m"
    "dc_level d = int (length (ls_applied (ld_state l')))"
    using st d0 by simp_all
  assume "dc_questionText d \<noteq> []"
  then show "se_askOnChange (ti_settings i) \<and> changesSetting (dc_actions d) (case m of Climb r \<Rightarrow> ti_inflightCap i | _ \<Rightarrow> 0)"
    using q st by auto
qed

text \<open>Every state a ladder can reach from an empty one: no rung is applied twice, and no original cap is
  remembered while \<open>lower_inflight\<close> is not in force.\<close>

definition ladderOK :: "LadderState \<Rightarrow> bool" where
  "ladderOK s \<longleftrightarrow> distinct (ls_applied s) \<and> (RungLowerInflight \<notin> set (ls_applied s) \<longrightarrow> ls_originalInflight s = 0)"

lemma ladderOK_zero [simp]: "ladderOK zeroLadderState"
  by (simp add: ladderOK_def zeroLadderState_def)

lemma tickMove_Climb: "tickMove i as = Climb r \<Longrightarrow> r \<notin> set as"
  by (auto simp: tickMove_def Let_def split: if_splits option.splits dest: nextRung_SomeD)

lemma tickMove_Back: "tickMove i as = Back r \<Longrightarrow> as \<noteq> [] \<and> r = last as"
  by (auto simp: tickMove_def Let_def split: if_splits option.splits)

lemma ladderOK_cong:
  "ls_applied s = ls_applied t \<Longrightarrow> ls_originalInflight s = ls_originalInflight t \<Longrightarrow> ladderOK s = ladderOK t"
  by (simp add: ladderOK_def)

lemma ladderOK_butlast:
  assumes "ladderOK s" "ls_applied s \<noteq> []"
  shows "ladderOK (s\<lparr>ls_applied := butlast (ls_applied s),
    ls_originalInflight := (if last (ls_applied s) = RungLowerInflight then 0 else ls_originalInflight s)\<rparr>)"
proof -
  obtain rs r where "ls_applied s = rs @ [r]" using assms(2) by (metis append_butlast_last_id)
  with assms(1) show ?thesis by (auto simp: ladderOK_def)
qed

lemma ladderOK_moveState: "ladderOK s \<Longrightarrow> ladderOK (moveState (tickMove i (ls_applied s)) cap s)"
proof (cases "tickMove i (ls_applied s)")
  case (Climb r)
  assume "ladderOK s"
  then show ?thesis using Climb tickMove_Climb [OF Climb] by (auto simp: ladderOK_def)
next
  case (Back r)
  assume "ladderOK s"
  then show ?thesis using Back tickMove_Back [OF Back] ladderOK_butlast [of s] by simp
qed (auto simp: ladderOK_def)

lemma ladderOK_Tick:
  assumes "ladderOK (ld_state l)" "Tick io i l = (l', d, e)"
  shows "ladderOK (ld_state l')"
  using ladderOK_moveState [OF assms(1), of i "ti_inflightCap i"] Tick_move(1,2) [OF assms(2)]
  by (simp add: ladderOK_def)

text \<open>The kinds of action a tick may carry.\<close>

lemma rungActions_kinds: "a \<in> set (rungActions r rel v) \<Longrightarrow> ac_kind a \<in> set ActionKinds \<and> ac_backend a = ClaudeBackend"
  by (auto simp: rungActions_def ActionKinds_def mkAction_def split: if_splits)

lemma releaseAll_kinds: "a \<in> set (snd (releaseAll s)) \<Longrightarrow> ac_kind a \<in> set ActionKinds \<and> ac_backend a = ClaudeBackend"
proof (induction "ls_applied s" arbitrary: s rule: rev_induct)
  case Nil
  then show ?case by (simp add: releaseAll_Nil)
next
  case (snoc r rs)
  let ?t = "s\<lparr>ls_applied := rs, ls_originalInflight := (if r = RungLowerInflight then 0 else ls_originalInflight s)\<rparr>"
  note step = releaseAll_snoc_actions [OF snoc.hyps(2) [symmetric]]
  then show ?case using snoc.prems snoc.hyps(1) [of ?t] rungActions_kinds by (auto simp: step)
qed

lemma Tick_kinds:
  assumes "Tick io i l = (l', d, e)" "a \<in> set (dc_actions d)"
  shows "ac_kind a \<in> set ActionKinds \<and> ac_backend a = ClaudeBackend"
  using assms(2) Tick_move(3) [OF assms(1)] rungActions_kinds releaseAll_kinds
  by (cases "tickMove i (ls_applied (ld_state l))") auto

end
