(* ===== verification/Backoff.thy ===== *)
theory Backoff
  imports Prelude
begin

text \<open>
  \<open>internal/autonomous/backoff.go\<close>: the registry of backends that get no new work before a deadline, and the
  wait text of \<open>wait_reason.go\<close> it answers with.

  The registry is one map under a mutex, so each operation is one step. The clock is an argument; \<open>Blocked\<close>
  reads it twice (once for the gate and once for the text), so it has two. How an instant is printed in the
  local time zone (\<open>15:04 MST\<close>) is the argument \<open>clockText\<close>.
\<close>

section \<open>Entries and the registry\<close>

definition BackoffSourceRateLimit :: string where "BackoffSourceRateLimit = ''rate_limit''"
definition BackoffSourceOperator :: string where "BackoffSourceOperator = ''operator''"

definition emDash :: string where "emDash = [CHR 0x20, CHR 0xE2, CHR 0x80, CHR 0x94, CHR 0x20]"

definition BackoffReasonNoResetTime :: string where
  "BackoffReasonNoResetTime = ''rate-limit'' @ emDash @ ''no reset time (max back-off)''"

record Entry =
  en_backend :: string
  en_until :: time
  en_reason :: string
  en_source :: string
  en_resetKnown :: bool
  en_rung :: string

type_synonym Backoff = "(string, Entry) gomap"

definition NewBackoff :: Backoff where "NewBackoff = []"

definition ResetParsed :: "Entry \<Rightarrow> bool" where
  "ResetParsed e \<longleftrightarrow> en_source e = BackoffSourceRateLimit \<and> en_reason e \<noteq> BackoffReasonNoResetTime"

definition SetWithRung :: "string \<Rightarrow> time \<Rightarrow> string \<Rightarrow> string \<Rightarrow> bool \<Rightarrow> string \<Rightarrow> Backoff \<Rightarrow> Backoff" where
  "SetWithRung backend until reason source resetKnown rung b =
    mapSet b backend \<lparr>en_backend = backend, en_until = until, en_reason = reason, en_source = source,
                      en_resetKnown = resetKnown, en_rung = rung\<rparr>"

definition SetWithReset :: "string \<Rightarrow> time \<Rightarrow> string \<Rightarrow> string \<Rightarrow> bool \<Rightarrow> Backoff \<Rightarrow> Backoff" where
  "SetWithReset backend until reason source resetKnown b = SetWithRung backend until reason source resetKnown [] b"

definition SetBackoff :: "string \<Rightarrow> time \<Rightarrow> string \<Rightarrow> string \<Rightarrow> Backoff \<Rightarrow> Backoff" where
  "SetBackoff backend until reason source b = SetWithReset backend until reason source True b"

definition Clear :: "string \<Rightarrow> Backoff \<Rightarrow> Backoff \<times> bool" where
  "Clear backend b = (mapDelete b backend, mapHas b backend)"

definition ClearAll :: "Backoff \<Rightarrow> Backoff \<times> int" where
  "ClearAll b = ([], int (length b))"

section \<open>The gate\<close>

definition relativeIn :: "time \<Rightarrow> time \<Rightarrow> string" where
  "relativeIn now until =
    (let d = until - now; mins = (d + minute - 1) div minute
     in if d \<le> 0 then ''now''
        else if mins < 60 then ''in '' @ itoa mins @ ''m''
        else if mins mod 60 = 0 then ''in '' @ itoa (mins div 60) @ ''h''
        else ''in '' @ itoa (mins div 60) @ ''h'' @ padNat 2 (mins mod 60) @ ''m'')"

definition BackoffWaitText :: "(time \<Rightarrow> string) \<Rightarrow> time \<Rightarrow> string \<Rightarrow> time \<Rightarrow> bool \<Rightarrow> string \<Rightarrow> string" where
  "BackoffWaitText clockText now backend until resetKnown note =
    (let rel = relativeIn now until;
         detail = (if resetKnown then ''resets '' @ rel else ''reset time unknown; next attempt allowed then, '' @ rel);
         txt = ''backend '' @ backend @ '' backed off until '' @ clockText until @ '' ('' @ detail @ '')'';
         n = trimSpace note
     in if n \<noteq> [] then txt @ emDash @ n else txt)"

definition Blocked :: "(time \<Rightarrow> string) \<Rightarrow> time \<Rightarrow> time \<Rightarrow> string \<Rightarrow> Backoff \<Rightarrow> bool \<times> string" where
  "Blocked clockText now now2 backend b =
    (case mapGet b backend of
       None \<Rightarrow> (False, [])
     | Some e \<Rightarrow>
        if \<not> now < en_until e then (False, [])
        else (True, BackoffWaitText clockText now2 backend (en_until e) (en_resetKnown e)
                      (if en_source e = BackoffSourceOperator then en_reason e else [])))"

section \<open>Sweeps and snapshots\<close>

definition byBackend :: "Entry \<Rightarrow> Entry \<Rightarrow> bool" where
  "byBackend x y \<longleftrightarrow> en_backend x < en_backend y"

definition expiredNames :: "time \<Rightarrow> Backoff \<Rightarrow> string list" where
  "expiredNames now b = map fst (filter (\<lambda>(_, e). \<not> now < en_until e) b)"

definition dropEntry :: "string \<Rightarrow> Backoff \<Rightarrow> Backoff" where
  "dropEntry k b = mapDelete b k"

definition SweepExpired :: "time \<Rightarrow> Backoff \<Rightarrow> Backoff \<times> Entry list" where
  "SweepExpired now b =
    (fold dropEntry (expiredNames now b) b,
     sortSliceStable byBackend (map snd (filter (\<lambda>(_, e). \<not> now < en_until e) b)))"

definition Sweep :: "time \<Rightarrow> Backoff \<Rightarrow> Backoff \<times> string list" where
  "Sweep now b = (case SweepExpired now b of (b1, es) \<Rightarrow> (b1, map en_backend es))"

definition Active :: "Backoff \<Rightarrow> Entry list" where
  "Active b = sortSliceStable byBackend (map snd b)"

definition Live :: "time \<Rightarrow> Backoff \<Rightarrow> Entry list" where
  "Live now b = filter (\<lambda>e. now < en_until e) (Active b)"

section \<open>What the registry keeps\<close>

text \<open>Each entry is stored under its backend.\<close>

definition backoffOK :: "Backoff \<Rightarrow> bool" where
  "backoffOK b \<longleftrightarrow> wf_map b \<and> (\<forall>k e. mapGet b k = Some e \<longrightarrow> en_backend e = k)"

lemma backoffOK_New [simp]: "backoffOK NewBackoff"
  by (simp add: backoffOK_def NewBackoff_def)

lemma backoffOK_SetWithRung [simp]: "backoffOK b \<Longrightarrow> backoffOK (SetWithRung k u r s rk rg b)"
  by (auto simp: backoffOK_def SetWithRung_def split: if_splits)

lemma backoffOK_dropEntry [simp]: "backoffOK b \<Longrightarrow> backoffOK (dropEntry k b)"
  by (auto simp: backoffOK_def dropEntry_def split: if_splits)

interpretation backoff: keyed_store backoffOK mapGet dropEntry
  by unfold_locales (simp_all add: dropEntry_def backoffOK_dropEntry [unfolded dropEntry_def])

interpretation backend_order: strict_weak_order byBackend
  unfolding byBackend_def [abs_def] by unfold_locales auto

lemma expiredNames_mem: "backoffOK b \<Longrightarrow> k \<in> set (expiredNames now b) \<longleftrightarrow> (\<exists>e. mapGet b k = Some e \<and> en_until e \<le> now)"
  by (force simp: expiredNames_def backoffOK_def wf_map_mem not_less)

lemma mapGet_SweepExpired:
  assumes "backoffOK b"
  shows "mapGet (fst (SweepExpired now b)) k =
    (case mapGet b k of Some e \<Rightarrow> if now < en_until e then Some e else None | None \<Rightarrow> None)"
  using backoff.entry_fold [OF assms, of "expiredNames now b" k] expiredNames_mem [OF assms, of k now]
  by (auto simp: SweepExpired_def split: option.split)

lemma backoffOK_SweepExpired: "backoffOK b \<Longrightarrow> backoffOK (fst (SweepExpired now b))"
  by (simp add: SweepExpired_def backoff.fold_inv)

lemma Blocked_iff: "fst (Blocked ct now now2 k b) \<longleftrightarrow> (\<exists>e. mapGet b k = Some e \<and> now < en_until e)"
  by (auto simp: Blocked_def split: option.split)

lemma Blocked_sweep: "backoffOK b \<Longrightarrow> Blocked ct now now2 k (fst (SweepExpired now b)) = Blocked ct now now2 k b"
  by (simp add: Blocked_def mapGet_SweepExpired split: option.split)

lemma Live_mem:
  assumes "backoffOK b"
  shows "e \<in> set (Live now b) \<longleftrightarrow> mapGet b (en_backend e) = Some e \<and> now < en_until e"
proof -
  have "e \<in> snd ` set b \<longleftrightarrow> (\<exists>k. mapGet b k = Some e)"
    using assms unfolding backoffOK_def image_iff Bex_def by (metis prod.collapse snd_conv wf_map_mem)
  also have "\<dots> \<longleftrightarrow> mapGet b (en_backend e) = Some e"
    using assms unfolding backoffOK_def by blast
  finally show ?thesis by (simp add: Live_def Active_def conj_commute)
qed

lemma Live_exact:
  assumes "backoffOK b"
  shows "fst (Blocked ct now now2 k b) \<longleftrightarrow> k \<in> en_backend ` set (Live now b)"
  using assms unfolding Blocked_iff image_iff Bex_def Live_mem [OF assms] backoffOK_def by metis

end
