(* ===== verification/Burn_Guard.thy ===== *)
theory Burn_Guard
  imports Burn_Ladder Backoff Capacity_System
begin

text \<open>
  The runner of the burn guard (\<open>internal/server/burn_guard.go\<close>) and the admission seam it acts on
  (\<open>cmd/datawatch/burn_guard_wiring.go\<close>): the inflight caps it has lowered, the back ends whose new work it
  routes elsewhere, the back-off flag of the hold rung, and the limit of the capacity ledger, with the cap rules
  of \<open>internal/inference/llm.go\<close> and the limit sync of \<open>capacity_wiring.go\<close> that read them.

  A tick is serialised by a mutex and is one step here. What a tick reads is its argument: the settings, the
  clock, the outcome of reading the usage data (\<open>ProjectOutcome\<close>: the projection, and the failures recorded on
  the way), the outcome of saving the ladder state, the next weekly reset, and the settings as the announcement
  reads them again. The texts it sends are its result.
\<close>

section \<open>Back ends and their configured caps\<close>

record LLM =
  lm_name :: string
  lm_kind :: string
  lm_planTier :: string
  lm_maxInflight :: int
  lm_tombstoned :: bool

datatype kindInflightClass = localKinds | apiKinds | subscriptionKinds

definition kindInflight :: "LLM \<Rightarrow> kindInflightClass" where
  "kindInflight l =
    (if lm_kind l \<in> {''ollama'', ''openwebui'', ''opencode''} then localKinds
     else if lm_kind l \<in> {''claude'', ''gemini'', ''gemini-api'', ''opencode-api''} then apiKinds
     else subscriptionKinds)"

definition EffectiveMaxInflight :: "LLM \<Rightarrow> (string, int) gomap \<Rightarrow> int" where
  "EffectiveMaxInflight l table =
    (let byKind = (case kindInflight l of subscriptionKinds \<Rightarrow> 1 | _ \<Rightarrow> 0)
     in if lm_maxInflight l > 0 then lm_maxInflight l
        else if lm_planTier l \<noteq> []
        then (case mapGet table (lm_planTier l) of Some v \<Rightarrow> v | None \<Rightarrow> byKind)
        else byKind)"

type_synonym Registry = "(string, LLM) gomap"

definition registryGet :: "Registry \<Rightarrow> string \<Rightarrow> LLM option" where
  "registryGet reg name =
    (case mapGet reg name of None \<Rightarrow> None | Some l \<Rightarrow> if lm_tombstoned l then None else Some l)"

section \<open>The admission seam\<close>

record Daemon =
  da_reg :: "Registry option"
  da_tiers :: "(string, int) gomap"
  da_overrides :: "(string, int) gomap"
  da_routes :: "(string, string) gomap"
  da_bo :: "Backoff option"
  da_ledger :: "Ledger option"

definition RouteFor :: "Daemon \<Rightarrow> string \<Rightarrow> string option" where
  "RouteFor da backend = mapGet (da_routes da) backend"

definition seamEntry :: "Daemon \<Rightarrow> string \<Rightarrow> string + LLM" where
  "seamEntry da backend =
    (case da_reg da of
       None \<Rightarrow> Inl ''no LLM registry''
     | Some reg \<Rightarrow> (case registryGet reg backend of
         None \<Rightarrow> Inl (''no LLM entry \"'' @ backend @ ''\"'')
       | Some l \<Rightarrow> Inr l))"

definition InflightCap :: "Daemon \<Rightarrow> string \<Rightarrow> int" where
  "InflightCap da backend =
    (case seamEntry da backend of
       Inl _ \<Rightarrow> 0
     | Inr l \<Rightarrow> (case mapGet (da_overrides da) (lm_name l) of
         Some v \<Rightarrow> v
       | None \<Rightarrow> EffectiveMaxInflight l (da_tiers da)))"

definition llmPool :: "string \<Rightarrow> string" where "llmPool name = ''llm:'' @ name"

definition SetInflight :: "Options \<Rightarrow> string \<Rightarrow> int \<Rightarrow> Daemon \<Rightarrow> Daemon \<times> string option" where
  "SetInflight opt backend n da =
    (case seamEntry da backend of
       Inl e \<Rightarrow> (da, Some e)
     | Inr l \<Rightarrow>
        (let original = EffectiveMaxInflight l (da_tiers da);
             da1 = da\<lparr>da_overrides := (if n = original then mapDelete (da_overrides da) (lm_name l)
                                      else mapSet (da_overrides da) (lm_name l) n)\<rparr>
         in (da1\<lparr>da_ledger := map_option (\<lambda>led. SetLimit opt led (llmPool (lm_name l)) n) (da_ledger da1)\<rparr>, None)))"

definition RouteBackend :: "string \<Rightarrow> string \<Rightarrow> bool \<Rightarrow> Daemon \<Rightarrow> Daemon \<times> string option" where
  "RouteBackend src to on da =
    (da\<lparr>da_routes := (if on then mapSet (da_routes da) src to else mapDelete (da_routes da) src)\<rparr>, None)"

definition burnGuardBackoffSource :: string where "burnGuardBackoffSource = ''burn_guard''"

definition BurnGuardIntervalMinutesDefault :: int where "BurnGuardIntervalMinutesDefault = 60"

definition holdDeadline :: "int \<Rightarrow> time option \<Rightarrow> time \<Rightarrow> time \<times> bool" where
  "holdDeadline intervalMinutes nextReset now =
    (let mins = (if intervalMinutes < 1 then BurnGuardIntervalMinutesDefault else intervalMinutes);
         until = now + mins * minute
     in case nextReset of
          None \<Rightarrow> (until, False)
        | Some reset \<Rightarrow> (if reset < until then (reset, True) else (until, True)))"

definition HoldNewWork :: "int \<Rightarrow> time option \<Rightarrow> time \<Rightarrow> string \<Rightarrow> bool \<Rightarrow> Daemon \<Rightarrow> Daemon \<times> string option" where
  "HoldNewWork intervalMinutes nextReset now backend on da =
    (case da_bo da of
       None \<Rightarrow> (da, Some ''no back-off registry'')
     | Some bo \<Rightarrow>
        (if \<not> on then (da\<lparr>da_bo := Some (fst (Clear backend bo))\<rparr>, None)
         else case holdDeadline intervalMinutes nextReset now of (until, known) \<Rightarrow>
           (da\<lparr>da_bo := Some (SetWithRung backend until ''burn guard: weekly burn projects over the pace line''
                               burnGuardBackoffSource known RungHoldClaude bo)\<rparr>, None)))"

text \<open>\<open>syncLLMLimits\<close>, which the daemon runs every ten seconds. \<open>List\<close> returns the entries that are not
  deleted, sorted; each has its own pool.\<close>

definition syncLimit :: "Options \<Rightarrow> Daemon \<Rightarrow> LLM \<Rightarrow> Ledger \<Rightarrow> Ledger" where
  "syncLimit opt da l led =
    SetLimit opt led (llmPool (lm_name l))
      (case mapGet (da_overrides da) (lm_name l) of Some v \<Rightarrow> v | None \<Rightarrow> EffectiveMaxInflight l (da_tiers da))"

definition registryList :: "Registry \<Rightarrow> LLM list" where
  "registryList reg = sortSliceStable (\<lambda>a b. lm_name a < lm_name b) (filter (\<lambda>l. \<not> lm_tombstoned l) (map snd reg))"

definition syncLLMLimits :: "Options \<Rightarrow> Daemon \<Rightarrow> Daemon" where
  "syncLLMLimits opt da =
    (case da_reg da of
       None \<Rightarrow> da
     | Some reg \<Rightarrow> da\<lparr>da_ledger := map_option (fold (syncLimit opt da) (registryList reg)) (da_ledger da)\<rparr>)"

section \<open>The runner\<close>

record BurnGuardConfig =
  bg_enabled :: bool
  bg_intervalMinutes :: int
  bg_marginPoints :: float64
  bg_ladder :: "string list"
  bg_stepBack :: bool
  bg_askOnChange :: bool

record BurnGuardCounters =
  ct_ticks :: int
  ct_climbs :: int
  ct_stepBacks :: int
  ct_holds :: int
  ct_errors :: int
  ct_actionsDone :: int

record BurnGuardStatus =
  st_enabled :: bool
  st_state :: string
  st_lastTickAt :: "time option"
  st_lastProjection :: "Projection option"
  st_lastDecision :: "Decision option"
  st_lastError :: string
  st_counters :: BurnGuardCounters

datatype Notice = AlertNotice string string | AskOnChangeNotice bool Decision string | QuestionNotice string

record BurnGuard =
  gd_ladder :: Ladder
  gd_status :: BurnGuardStatus
  gd_notifier :: bool
  gd_questionStore :: bool
  gd_running :: "int option"

record ProjectOutcome =
  po_projection :: Projection
  po_failures :: "string list"

record GuardInput =
  gi_cfg :: BurnGuardConfig
  gi_now :: time
  gi_outcome :: ProjectOutcome
  gi_nextReset :: "time option"
  gi_saveErr :: "string option"
  gi_askAgain :: bool
  gi_questionErr :: "string option"

definition zeroProjection :: Projection where
  "zeroProjection = \<lparr>pj_needs = [], pj_projected = Fin False 0, pj_target = Fin False 0, pj_overBy = Fin False 0,
     pj_pointsPerHour = Fin False 0, pj_allowedPerHour = Fin False 0, pj_line = Fin False 0, pj_margin = Fin False 0\<rparr>"

definition failGuard :: "string \<Rightarrow> BurnGuardStatus \<Rightarrow> BurnGuardStatus" where
  "failGuard msg st = st\<lparr>st_lastError := msg, st_counters := (st_counters st)\<lparr>ct_errors := ct_errors (st_counters st) + 1\<rparr>\<rparr>"

definition actionDone :: "BurnGuardStatus \<Rightarrow> BurnGuardStatus" where
  "actionDone st = st\<lparr>st_counters := (st_counters st)\<lparr>ct_actionsDone := ct_actionsDone (st_counters st) + 1\<rparr>\<rparr>"

definition doAction :: "Options \<Rightarrow> GuardInput \<Rightarrow> Action \<Rightarrow> Daemon \<Rightarrow> Daemon \<times> string option" where
  "doAction opt gi a da =
    (if ac_kind a = ActionSetInflight then SetInflight opt (ac_backend a) (ac_value a) da
     else if ac_kind a = ActionRouteBackend then RouteBackend (ac_backend a) (ac_to a) (\<not> ac_release a) da
     else if ac_kind a = ActionHoldNewWork
     then HoldNewWork (bg_intervalMinutes (gi_cfg gi)) (gi_nextReset gi) (gi_now gi) (ac_backend a) (\<not> ac_release a) da
     else (da, Some (''unknown action kind \"'' @ ac_kind a @ ''\"'')))"

text \<open>\<open>apply\<close>: the daemon and the status after the actions, and the errors of those that failed.\<close>

fun applyActions :: "Options \<Rightarrow> GuardInput \<Rightarrow> Action list \<Rightarrow> Daemon \<times> BurnGuardStatus \<Rightarrow> (Daemon \<times> BurnGuardStatus) \<times> string list" where
  "applyActions opt gi [] (da, st) = ((da, st), [])"
| "applyActions opt gi (a # as) (da, st) =
    (case doAction opt gi a da of
       (da1, None) \<Rightarrow> applyActions opt gi as (da1, actionDone st)
     | (da1, Some e) \<Rightarrow>
        (case applyActions opt gi as (da1, st) of
           (r, es) \<Rightarrow> (r, (ac_kind a @ '' '' @ ac_backend a @ '': '' @ e) # es)))"

definition holdApplied :: "string list \<Rightarrow> bool" where
  "holdApplied applied \<longleftrightarrow> RungHoldClaude \<in> set applied"

definition announce :: "GuardInput \<Rightarrow> Decision \<Rightarrow> BurnGuard \<Rightarrow> BurnGuardStatus \<Rightarrow> BurnGuardStatus \<times> Notice list" where
  "announce gi d g st =
    (if \<not> gd_notifier g then (st, [])
     else let running = (case gd_running g of None \<Rightarrow> [] | Some n \<Rightarrow> '' '' @ itoa n @ '' running session(s) were left alone.'');
              al = AlertNotice (''Burn guard: '' @ directionText (dc_direction d) @ '' '' @ dc_rung d) (dc_alertText d @ running)
          in if gd_questionStore g then (st, [al, AskOnChangeNotice (gi_askAgain gi) d running])
             else if dc_questionText d = [] then (st, [al])
             else case gi_questionErr gi of
                    None \<Rightarrow> (st, [al, QuestionNotice (dc_questionText d @ running)])
                  | Some e \<Rightarrow> (failGuard (''queue question not raised: '' @ e) st, [al]))"

definition countDirection :: "Direction \<Rightarrow> BurnGuardCounters \<Rightarrow> BurnGuardCounters" where
  "countDirection dir c =
    (case dir of
       DirectionClimb \<Rightarrow> c\<lparr>ct_climbs := ct_climbs c + 1\<rparr>
     | DirectionStepBack \<Rightarrow> c\<lparr>ct_stepBacks := ct_stepBacks c + 1\<rparr>
     | DirectionHold \<Rightarrow> c\<lparr>ct_holds := ct_holds c + 1\<rparr>
     | DirectionDisabled \<Rightarrow> c)"

definition recordTick :: "GuardInput \<Rightarrow> Projection \<Rightarrow> Decision \<Rightarrow> bool \<Rightarrow> BurnGuardStatus \<Rightarrow> BurnGuardStatus" where
  "recordTick gi proj d clean st =
    (let cfg = gi_cfg gi;
         c1 = (st_counters st)\<lparr>ct_ticks := ct_ticks (st_counters st) + 1\<rparr>
     in st\<lparr>st_enabled := bg_enabled cfg, st_lastTickAt := Some (gi_now gi),
           st_lastProjection := (if bg_enabled cfg then Some proj else st_lastProjection st),
           st_lastDecision := Some d, st_counters := countDirection (dc_direction d) c1,
           st_state := (if \<not> bg_enabled cfg \<and> dc_level d = 0 then ''off''
                        else if dc_level d > 0 then ''guarding''
                        else if pj_needs proj \<noteq> [] then ''waiting''
                        else ''idle''),
           st_lastError := (if clean then [] else st_lastError st)\<rparr>)"

definition ladderSettings :: "BurnGuardConfig \<Rightarrow> LadderSettings" where
  "ladderSettings cfg = \<lparr>se_enabled = bg_enabled cfg, se_ladder = bg_ladder cfg, se_stepBack = bg_stepBack cfg,
     se_marginPoints = bg_marginPoints cfg, se_askOnChange = bg_askOnChange cfg\<rparr>"

definition guardInputs :: "GuardInput \<Rightarrow> Daemon \<Rightarrow> TickInput" where
  "guardInputs gi da =
    \<lparr>ti_projection = (if bg_enabled (gi_cfg gi) then po_projection (gi_outcome gi) else zeroProjection),
     ti_settings = ladderSettings (gi_cfg gi), ti_now = gi_now gi, ti_inflightCap = InflightCap da ClaudeBackend\<rparr>"

definition renewHold :: "GuardInput \<Rightarrow> Decision \<Rightarrow> Daemon \<Rightarrow> Daemon \<times> string option" where
  "renewHold gi d da =
    (if \<not> dc_changed d \<and> holdApplied (dc_applied d)
     then HoldNewWork (bg_intervalMinutes (gi_cfg gi)) (gi_nextReset gi) (gi_now gi) ClaudeBackend True da
     else (da, None))"

definition noteErr :: "string \<Rightarrow> string option \<Rightarrow> BurnGuardStatus \<Rightarrow> BurnGuardStatus" where
  "noteErr what e st = (case e of None \<Rightarrow> st | Some m \<Rightarrow> failGuard (what @ m) st)"

definition guardTick :: "Options \<Rightarrow> GuardInput \<Rightarrow> BurnGuard \<Rightarrow> Daemon \<Rightarrow> BurnGuard \<times> Daemon \<times> Decision \<times> Notice list" where
  "guardTick opt gi g da =
    (let i = guardInputs gi da;
         st1 = (if bg_enabled (gi_cfg gi) then fold failGuard (po_failures (gi_outcome gi)) (gd_status g) else gd_status g)
     in case Tick (gi_saveErr gi) i (gd_ladder g) of (ladder1, d, saveErr) \<Rightarrow>
        case applyActions opt gi (dc_actions d) (da, noteErr ''ladder state not saved: '' saveErr st1) of ((da1, st2), errs) \<Rightarrow>
        case renewHold gi d da1 of (da2, renewErr) \<Rightarrow>
          (let st3 = noteErr ''renew hold: '' renewErr (if errs = [] then st2 else failGuard (joinStr [CHR 0x0A] errs) st2)
           in case (if dc_changed d then announce gi d g st3 else (st3, [])) of (st4, notices) \<Rightarrow>
             (g\<lparr>gd_ladder := ladder1,
                gd_status := recordTick gi (ti_projection i) d (errs = [] \<and> saveErr = None) st4\<rparr>,
              da2, d, notices)))"

end
