(* ===== verification/Burn_Properties.thy ===== *)
theory Burn_Properties
  imports Burn_Guard
begin

text \<open>
  What the burn guard guarantees. The locale \<open>burn_admission\<close> is the contract of the admission seam
  (\<open>BurnGuardAdmission\<close>): each action of the ladder sets one of the cap, the route and the hold of the Claude
  back end and leaves the other two alone. The lemmas that relate the ladder's state to the admission are proved
  in it and reach the daemon through its interpretation on \<open>doAction\<close>.
\<close>

section \<open>The contract of the seam\<close>

text \<open>\<open>tracks exact c0 s cap route held\<close>: the admission agrees with the rungs in force. Where a rung is not in
  force its setting is the configured one, and \<open>lower_inflight\<close> remembers the configured cap \<open>c0\<close>. With
  \<open>exact\<close>, the rungs in force restrict admission; without, they may also have been forgotten by a restart.\<close>

definition tracks :: "bool \<Rightarrow> int \<Rightarrow> LadderState \<Rightarrow> int \<Rightarrow> string option \<Rightarrow> bool \<Rightarrow> bool" where
  "tracks exact c0 s cap route held \<longleftrightarrow> ladderOK s \<and>
    (if RungLowerInflight \<in> set (ls_applied s)
     then ls_originalInflight s = c0 \<and> (cap = lowered c0 \<or> \<not> exact \<and> cap = c0) else cap = c0) \<and>
    (if RungRoutePiPrompt \<in> set (ls_applied s) then exact \<longrightarrow> route = Some PiBackend else route = None) \<and>
    (RungHoldClaude \<notin> set (ls_applied s) \<longrightarrow> \<not> held)"

locale burn_admission =
  fixes good :: "'d \<Rightarrow> bool"
    and cap :: "'d \<Rightarrow> int"
    and route :: "'d \<Rightarrow> string option"
    and held :: "'d \<Rightarrow> bool"
    and act :: "Action \<Rightarrow> 'd \<Rightarrow> 'd"
  assumes good_act: "good d \<Longrightarrow> ac_backend a = ClaudeBackend \<Longrightarrow> good (act a d)"
    and act_cap: "good d \<Longrightarrow> ac_backend a = ClaudeBackend \<Longrightarrow>
      cap (act a d) = (if ac_kind a = ActionSetInflight then ac_value a else cap d)"
    and act_route: "good d \<Longrightarrow> ac_backend a = ClaudeBackend \<Longrightarrow>
      route (act a d) = (if ac_kind a = ActionRouteBackend then (if ac_release a then None else Some (ac_to a)) else route d)"
    and act_held: "good d \<Longrightarrow> ac_backend a = ClaudeBackend \<Longrightarrow>
      held (act a d) = (if ac_kind a = ActionHoldNewWork then \<not> ac_release a else held d)"
begin

abbreviation tracked :: "bool \<Rightarrow> int \<Rightarrow> LadderState \<Rightarrow> 'd \<Rightarrow> bool" where
  "tracked exact c0 s d \<equiv> good d \<and> tracks exact c0 s (cap d) (route d) (held d)"

lemma fold_good: "\<forall>a \<in> set as. ac_backend a = ClaudeBackend \<Longrightarrow> good d \<Longrightarrow> good (fold act as d)"
  by (induction as arbitrary: d) (auto simp: good_act)

lemma rung_effect:
  assumes "good d"
  shows "good (fold act (rungActions r rel v) d)"
    "cap (fold act (rungActions r rel v) d) = (if r = RungLowerInflight then v else cap d)"
    "route (fold act (rungActions r rel v) d) = (if r = RungRoutePiPrompt then (if rel then None else Some PiBackend) else route d)"
    "held (fold act (rungActions r rel v) d) = (if r = RungHoldClaude then \<not> rel else held d)"
  using assms by (auto simp: rungActions_def mkAction_def good_act act_cap act_route act_held)

lemma climb_tracked:
  assumes "tracked exact c0 s d" "r \<notin> set (ls_applied s)"
  shows "tracked exact c0 (moveState (Climb r) (cap d) s) (fold act (rungActions r False (lowered (cap d))) d)"
  using assms rung_effect [of d r False "lowered (cap d)"]
  by (auto simp: tracks_def ladderOK_def split: if_splits)

lemma release_tracked:
  assumes "tracked exact c0 s d" "ls_applied s = rs @ [r]"
  shows "tracked exact c0 (s\<lparr>ls_applied := rs, ls_originalInflight := (if r = RungLowerInflight then 0 else ls_originalInflight s)\<rparr>)
    (fold act (rungActions r True (ls_originalInflight s)) d)"
  using assms rung_effect [of d r True "ls_originalInflight s"]
  by (auto simp: tracks_def ladderOK_def split: if_splits)

lemma releaseAll_tracked:
  "tracked exact c0 s d \<Longrightarrow> tracked exact c0 (fst (releaseAll s)) (fold act (snd (releaseAll s)) d)"
proof (induction "ls_applied s" arbitrary: s d rule: rev_induct)
  case Nil
  then show ?case by (simp add: releaseAll_Nil)
next
  case (snoc r rs)
  let ?t = "s\<lparr>ls_applied := rs, ls_originalInflight := (if r = RungLowerInflight then 0 else ls_originalInflight s)\<rparr>"
  note eq = snoc.hyps(2) [symmetric]
  have "tracked exact c0 (fst (releaseAll ?t)) (fold act (snd (releaseAll ?t)) (fold act (rungActions r True (ls_originalInflight s)) d))"
    by (rule snoc.hyps(1) [OF _ release_tracked [OF snoc.prems eq]]) simp
  moreover have "fst (releaseAll s) = fst (releaseAll ?t)"
    by (subst releaseAll_snoc [OF eq]) (simp only: case_prod_beta fst_conv)
  ultimately show ?case by (simp only: releaseAll_snoc_actions [OF eq] fold_append comp_apply)
qed

text \<open>The move of a tick and the actions it carries keep the two in step.\<close>

lemma move_tracked:
  assumes "tracked exact c0 s d" and m_def: "m = tickMove i (ls_applied s)"
  shows "tracked exact c0 (moveState m (cap d) s) (fold act (moveActions m (cap d) s) d)"
proof (cases m)
  case Stay
  then show ?thesis using assms(1) by simp
next
  case (Climb r)
  then show ?thesis using climb_tracked [OF assms(1)] tickMove_Climb m_def by (metis moveActions.simps(2))
next
  case (Back r)
  then have "ls_applied s = butlast (ls_applied s) @ [r]" using tickMove_Back m_def by (metis append_butlast_last_id)
  from release_tracked [OF assms(1) this] show ?thesis using Back by simp
next
  case AllOff
  then show ?thesis using releaseAll_tracked [OF assms(1)] by (simp add: releaseAll_state)
qed

end

section \<open>The daemon keeps the contract\<close>

definition seamGood :: "LLM \<Rightarrow> (string, int) gomap \<Rightarrow> Daemon \<Rightarrow> bool" where
  "seamGood l tiers da \<longleftrightarrow> seamEntry da ClaudeBackend = Inr l \<and> da_tiers da = tiers \<and> da_bo da \<noteq> None"

definition claudeCap :: "Daemon \<Rightarrow> int" where "claudeCap da = InflightCap da ClaudeBackend"

definition claudeRoute :: "Daemon \<Rightarrow> string option" where "claudeRoute da = RouteFor da ClaudeBackend"

definition claudeFlag :: "Daemon \<Rightarrow> Entry option" where
  "claudeFlag da = (case da_bo da of None \<Rightarrow> None | Some b \<Rightarrow> mapGet b ClaudeBackend)"

definition guardHolds :: "Daemon \<Rightarrow> bool" where
  "guardHolds da \<longleftrightarrow> (\<exists>e. claudeFlag da = Some e \<and> en_source e = burnGuardBackoffSource)"

lemmas claude_defs = claudeCap_def claudeRoute_def claudeFlag_def guardHolds_def

lemma seamEntry_cong: "da_reg da' = da_reg da \<Longrightarrow> seamEntry da' b = seamEntry da b"
  by (simp add: seamEntry_def)

lemma SetInflight_seam:
  assumes "seamGood l tiers da"
  shows "seamGood l tiers (fst (SetInflight opt ClaudeBackend n da))"
    "claudeCap (fst (SetInflight opt ClaudeBackend n da)) = n"
    "claudeRoute (fst (SetInflight opt ClaudeBackend n da)) = claudeRoute da"
    "claudeFlag (fst (SetInflight opt ClaudeBackend n da)) = claudeFlag da"
  using assms
  by (auto simp: seamGood_def SetInflight_def claudeCap_def claudeRoute_def claudeFlag_def RouteFor_def InflightCap_def Let_def
      seamEntry_cong [of "da\<lparr>da_overrides := _, da_ledger := _\<rparr>" da])

lemma RouteBackend_seam:
  assumes "seamGood l tiers da"
  shows "seamGood l tiers (fst (RouteBackend ClaudeBackend t on da))"
    "claudeCap (fst (RouteBackend ClaudeBackend t on da)) = claudeCap da"
    "claudeRoute (fst (RouteBackend ClaudeBackend t on da)) = (if on then Some t else None)"
    "claudeFlag (fst (RouteBackend ClaudeBackend t on da)) = claudeFlag da"
  using assms
  by (auto simp: seamGood_def RouteBackend_def claudeCap_def claudeRoute_def claudeFlag_def RouteFor_def InflightCap_def
      seamEntry_cong [of "da\<lparr>da_routes := _\<rparr>" da] split: option.split)

definition holdEntry :: "int \<Rightarrow> time option \<Rightarrow> time \<Rightarrow> Entry" where
  "holdEntry mins reset now = \<lparr>en_backend = ClaudeBackend, en_until = fst (holdDeadline mins reset now),
     en_reason = ''burn guard: weekly burn projects over the pace line'', en_source = burnGuardBackoffSource,
     en_resetKnown = snd (holdDeadline mins reset now), en_rung = RungHoldClaude\<rparr>"

lemma HoldNewWork_seam:
  assumes "seamGood l tiers da"
  shows "seamGood l tiers (fst (HoldNewWork mins reset now ClaudeBackend on da))"
    "claudeCap (fst (HoldNewWork mins reset now ClaudeBackend on da)) = claudeCap da"
    "claudeRoute (fst (HoldNewWork mins reset now ClaudeBackend on da)) = claudeRoute da"
    "claudeFlag (fst (HoldNewWork mins reset now ClaudeBackend on da)) = (if on then Some (holdEntry mins reset now) else None)"
  using assms
  by (auto simp: seamGood_def HoldNewWork_def claudeCap_def claudeRoute_def claudeFlag_def RouteFor_def InflightCap_def
      Clear_def SetWithRung_def holdEntry_def case_prod_beta seamEntry_cong [of "da\<lparr>da_bo := _\<rparr>" da] split: option.splits)

lemma holdEntry_source [simp]: "en_source (holdEntry mins reset now) = burnGuardBackoffSource"
  by (simp add: holdEntry_def)

definition actOn :: "Options \<Rightarrow> GuardInput \<Rightarrow> Action \<Rightarrow> Daemon \<Rightarrow> Daemon" where
  "actOn opt gi a da = fst (doAction opt gi a da)"

interpretation seam: burn_admission "seamGood l tiers" claudeCap claudeRoute guardHolds "actOn opt gi" for l tiers opt gi
  by unfold_locales
    (auto simp: actOn_def doAction_def guardHolds_def SetInflight_seam RouteBackend_seam HoldNewWork_seam)

lemma doAction_no_error:
  assumes "seamGood l tiers da" "ac_kind a \<in> set ActionKinds" "ac_backend a = ClaudeBackend"
  shows "snd (doAction opt gi a da) = None"
  using assms
  by (auto simp: doAction_def ActionKinds_def seamGood_def SetInflight_def RouteBackend_def HoldNewWork_def Let_def
      split: option.splits prod.splits)

lemma applyActions_daemon: "fst (fst (applyActions opt gi as (da, st))) = fold (actOn opt gi) as da"
proof (induction as arbitrary: da st)
  case (Cons a as)
  obtain da1 e where a: "doAction opt gi a da = (da1, e)" by fastforce
  then show ?case using Cons.IH [of da1] by (cases e) (auto simp: actOn_def case_prod_beta)
qed simp

lemma guardTick_parts:
  assumes "guardTick opt gi g da = (g', da', d, ns)"
  obtains ladder e where
    "Tick (gi_saveErr gi) (guardInputs gi da) (gd_ladder g) = (ladder, d, e)" "gd_ladder g' = ladder"
    "da' = fst (renewHold gi d (fold (actOn opt gi) (dc_actions d) da))"
  using assms applyActions_daemon [of opt gi _ da]
  unfolding guardTick_def Let_def by (auto split: prod.splits) (metis fst_conv)

lemma ti_cap [simp]: "ti_inflightCap (guardInputs gi da) = claudeCap da"
  by (simp add: guardInputs_def claudeCap_def)

section \<open>Runs of the guard\<close>

text \<open>The steps of the daemon that the guard shares state with: a tick, the limit sync, work of the capacity
  ledger, flags that rate limits and the operator set, cleared flags, the sweep of expired flags, and (when
  \<open>restarts\<close>) a restart, which keeps the saved ladder state and nothing of the seam.\<close>

inductive guardStep :: "bool \<Rightarrow> BurnGuard \<times> Daemon \<Rightarrow> BurnGuard \<times> Daemon \<Rightarrow> bool" for restarts where
  tick: "guardTick opt gi g da = (g', da', d, ns) \<Longrightarrow> guardStep restarts (g, da) (g', da')"
| sync: "guardStep restarts (g, da) (g, syncLLMLimits opt da)"
| ledger: "guardStep restarts (g, da) (g, da\<lparr>da_ledger := led\<rparr>)"
| flag: "da_bo da = Some b \<Longrightarrow> source \<noteq> burnGuardBackoffSource \<Longrightarrow>
    guardStep restarts (g, da) (g, da\<lparr>da_bo := Some (SetWithRung backend until reason source known rung b)\<rparr>)"
| unflag: "da_bo da = Some b \<Longrightarrow> guardStep restarts (g, da) (g, da\<lparr>da_bo := Some (fst (Clear backend b))\<rparr>)"
| sweep: "da_bo da = Some b \<Longrightarrow> backoffOK b \<Longrightarrow> guardStep restarts (g, da) (g, da\<lparr>da_bo := Some (fst (SweepExpired now b))\<rparr>)"
| restart: "restarts \<Longrightarrow> NewLadder (ld_store (gd_ladder g)) None = Inr ladder \<Longrightarrow> gd_ladder g' = ladder \<Longrightarrow>
    guardStep restarts (g, da) (g', da\<lparr>da_overrides := [], da_routes := [], da_bo := Some NewBackoff, da_ledger := led\<rparr>)"

definition freshGuard :: "LLM \<Rightarrow> (string, int) gomap \<Rightarrow> BurnGuard \<times> Daemon \<Rightarrow> bool" where
  "freshGuard l tiers = (\<lambda>(g, da). seamGood l tiers da \<and> ld_state (gd_ladder g) = zeroLadderState \<and>
     ld_store (gd_ladder g) \<in> {None, Some zeroLadderState} \<and>
     claudeCap da = EffectiveMaxInflight l tiers \<and> claudeRoute da = None \<and> \<not> guardHolds da)"

inductive guardReach :: "bool \<Rightarrow> LLM \<Rightarrow> (string, int) gomap \<Rightarrow> BurnGuard \<times> Daemon \<Rightarrow> bool" for restarts l tiers where
  start: "freshGuard l tiers s \<Longrightarrow> guardReach restarts l tiers s"
| step: "guardReach restarts l tiers s \<Longrightarrow> guardStep restarts s t \<Longrightarrow> guardReach restarts l tiers t"

definition storedOK :: "int \<Rightarrow> Ladder \<Rightarrow> bool" where
  "storedOK c0 l \<longleftrightarrow> (\<forall>s. ld_store l = Some s \<longrightarrow>
     ladderOK s \<and> (RungLowerInflight \<in> set (ls_applied s) \<longrightarrow> ls_originalInflight s = c0))"

definition guardInv :: "bool \<Rightarrow> LLM \<Rightarrow> (string, int) gomap \<Rightarrow> BurnGuard \<times> Daemon \<Rightarrow> bool" where
  "guardInv exact l tiers = (\<lambda>(g, da). seamGood l tiers da \<and> storedOK (EffectiveMaxInflight l tiers) (gd_ladder g) \<and>
     tracks exact (EffectiveMaxInflight l tiers) (ld_state (gd_ladder g)) (claudeCap da) (claudeRoute da) (guardHolds da))"

lemma tracks_state_cong:
  "ls_applied s' = ls_applied s \<Longrightarrow> ls_originalInflight s' = ls_originalInflight s \<Longrightarrow>
   tracks exact c0 s' cap route held = tracks exact c0 s cap route held"
  by (simp add: tracks_def ladderOK_def)

lemma finishTick_store:
  "finishTick io now d l = (l', d', e) \<Longrightarrow> ld_store l' = ld_store l \<or> ld_store l' = Some (ld_state l')"
  by (auto simp: finishTick_def Let_def split: if_splits option.splits)

lemma Tick_store:
  assumes "Tick io i l = (l', d, e)"
  shows "ld_store l' = ld_store l \<or> ld_store l' = Some (ld_state l')"
proof -
  obtain d0 m where "finishTick io (ti_now i) d0 (l\<lparr>ld_state := moveState m (ti_inflightCap i) (ld_state l)\<rparr>) = (l', d, e)"
    using Tick_finishes [of i l io] unfolding finishesAs_def assms by metis
  from finishTick_store [OF this] show ?thesis by simp
qed

lemma renewHold_tracked:
  assumes "seamGood l tiers da" "tracks exact c0 s (claudeCap da) (claudeRoute da) (guardHolds da)" "dc_applied d = ls_applied s"
  shows "seamGood l tiers (fst (renewHold gi d da)) \<and>
    tracks exact c0 s (claudeCap (fst (renewHold gi d da))) (claudeRoute (fst (renewHold gi d da))) (guardHolds (fst (renewHold gi d da)))"
  using assms by (auto simp: renewHold_def holdApplied_def HoldNewWork_seam tracks_def)

lemma guardInv_tick:
  assumes "guardTick opt gi g da = (g', da', d, ns)" "guardInv exact l tiers (g, da)"
  shows "guardInv exact l tiers (g', da')"
proof -
  let ?c0 = "EffectiveMaxInflight l tiers" and ?s = "ld_state (gd_ladder g)" and ?i = "guardInputs gi da"
  obtain ladder e where T: "Tick (gi_saveErr gi) ?i (gd_ladder g) = (ladder, d, e)" and g': "gd_ladder g' = ladder"
    and da': "da' = fst (renewHold gi d (fold (actOn opt gi) (dc_actions d) da))"
    using guardTick_parts [OF assms(1)] .
  let ?m = "tickMove ?i (ls_applied ?s)" and ?da1 = "fold (actOn opt gi) (dc_actions d) da"
  have inv: "seamGood l tiers da \<and> tracks exact ?c0 ?s (claudeCap da) (claudeRoute da) (guardHolds da)"
    using assms(2) by (simp add: guardInv_def)
  note move = Tick_move [OF T, simplified]
  have tr: "seamGood l tiers ?da1 \<and> tracks exact ?c0 (ld_state ladder) (claudeCap ?da1) (claudeRoute ?da1) (guardHolds ?da1)"
    using seam.move_tracked [OF inv refl, where i = ?i and opt = opt and gi = gi] move(1-3) by (simp add: tracks_state_cong [of "ld_state ladder"])
  then have "ladderOK (ld_state ladder) \<and> (RungLowerInflight \<in> set (ls_applied (ld_state ladder)) \<longrightarrow> ls_originalInflight (ld_state ladder) = ?c0)"
    by (auto simp: tracks_def split: if_splits)
  then have "storedOK ?c0 ladder"
    using Tick_store [OF T] assms(2) by (auto simp: guardInv_def storedOK_def)
  then show ?thesis
    using renewHold_tracked [of l tiers ?da1 exact ?c0 "ld_state ladder" d gi] tr move(5) by (simp add: guardInv_def g' da')
qed

lemma seamGood_cong:
  "da_reg da' = da_reg da \<Longrightarrow> da_tiers da' = da_tiers da \<Longrightarrow> (da_bo da' = None) = (da_bo da = None) \<Longrightarrow>
   seamGood l tiers da' = seamGood l tiers da"
  by (simp add: seamGood_def seamEntry_def)

lemma claudeCap_cong:
  assumes "da_reg da' = da_reg da" "da_tiers da' = da_tiers da" "da_overrides da' = da_overrides da"
  shows "claudeCap da' = claudeCap da"
  unfolding claudeCap_def InflightCap_def seamEntry_def assms ..

lemma guardInv_other:
  assumes "guardInv exact l tiers (g, da)" "da_reg da' = da_reg da" "da_tiers da' = da_tiers da"
    "da_overrides da' = da_overrides da" "da_routes da' = da_routes da" "(da_bo da' = None) = (da_bo da = None)"
    "guardHolds da' \<Longrightarrow> guardHolds da"
  shows "guardInv exact l tiers (g, da')"
proof -
  have "claudeRoute da' = claudeRoute da" using assms(5) by (simp add: claudeRoute_def RouteFor_def)
  then show ?thesis
    using assms(1,7) seamGood_cong [OF assms(2,3,6)] claudeCap_cong [OF assms(2-4)] by (auto simp: guardInv_def tracks_def)
qed

lemma guardInv_start: "freshGuard l tiers s \<Longrightarrow> guardInv exact l tiers s"
  by (auto simp: freshGuard_def guardInv_def storedOK_def tracks_def zeroLadderState_def ladderOK_def)

lemma NewLadder_state:
  "NewLadder store None = Inr l \<Longrightarrow> ld_store l = store \<and> ld_state l = (case store of None \<Rightarrow> zeroLadderState | Some s \<Rightarrow> s)"
  by (auto simp: NewLadder_def split: option.splits)

lemma guardInv_restart:
  assumes "guardInv False l tiers (g, da)" "NewLadder (ld_store (gd_ladder g)) None = Inr (gd_ladder g')"
  shows "guardInv False l tiers (g', da\<lparr>da_overrides := [], da_routes := [], da_bo := Some NewBackoff, da_ledger := led\<rparr>)"
proof -
  let ?da = "da\<lparr>da_overrides := [], da_routes := [], da_bo := Some NewBackoff, da_ledger := led\<rparr>"
  have good: "seamGood l tiers da" using assms(1) by (simp add: guardInv_def)
  then have da: "seamGood l tiers ?da" "claudeCap ?da = EffectiveMaxInflight l tiers" "claudeRoute ?da = None" "\<not> guardHolds ?da"
    by (auto simp: seamGood_def seamEntry_def claude_defs InflightCap_def RouteFor_def NewBackoff_def)
  have "ladderOK (ld_state (gd_ladder g')) \<and> (RungLowerInflight \<in> set (ls_applied (ld_state (gd_ladder g'))) \<longrightarrow>
      ls_originalInflight (ld_state (gd_ladder g')) = EffectiveMaxInflight l tiers)" "storedOK (EffectiveMaxInflight l tiers) (gd_ladder g')"
    using assms(1) NewLadder_state [OF assms(2)]
    by (simp_all add: guardInv_def storedOK_def ladderOK_def zeroLadderState_def split: option.splits)
  with da show ?thesis by (auto simp: guardInv_def tracks_def)
qed

lemma guardInv_step:
  assumes "guardStep restarts s t" "guardInv exact l tiers s" "restarts \<Longrightarrow> \<not> exact"
  shows "guardInv exact l tiers t"
  using assms
proof (induction rule: guardStep.induct)
  case (tick opt gi g da g' da' d ns)
  then show ?case using guardInv_tick by blast
next
  case (sync g da opt)
  then show ?case by (intro guardInv_other [OF sync.prems(1)]) (auto simp: syncLLMLimits_def claude_defs split: option.splits)
next
  case (ledger g da led)
  then show ?case by (intro guardInv_other [OF ledger.prems(1)]) (auto simp: claude_defs)
next
  case (flag da b source g backend until reason known rung)
  then show ?case by (intro guardInv_other [OF flag.prems(1)]) (auto simp: claude_defs SetWithRung_def split: if_splits)
next
  case (unflag da b g backend)
  then show ?case by (intro guardInv_other [OF unflag.prems(1)]) (auto simp: claude_defs Clear_def split: if_splits)
next
  case (sweep da b g now)
  then show ?case
    by (intro guardInv_other [OF sweep.prems(1)]) (auto simp: claude_defs mapGet_SweepExpired split: option.splits if_splits)
next
  case (restart g ladder g' da led)
  then show ?case using guardInv_restart by auto
qed

lemma guardReach_inv:
  assumes "guardReach restarts l tiers s" "restarts \<Longrightarrow> \<not> exact"
  shows "guardInv exact l tiers s"
  using assms by (induction rule: guardReach.induct) (auto intro: guardInv_start guardInv_step)

section \<open>The ledger follows the cap\<close>

lemma SetLimit_ok: "ledger_ok led \<Longrightarrow> ledger_ok (SetLimit opt led p n)"
  unfolding SetLimit_change by (rule set_limit.after_ok)

lemma Limit_SetLimit:
  assumes "ledger_ok led"
  shows "Limit (SetLimit opt led p n) q = (if q = p then max 0 n else Limit led q)"
proof -
  have "l_limits (SetLimit opt led p n) = l_limits (limitChange p n led)"
    using dispatch_ok_served(2) [OF set_limit.change_ok [OF assms]] by (simp add: SetLimit_change served_def)
  then show ?thesis by (simp add: Limit_def limitOf_def limitChange_def mapGetOr_def)
qed

lemma llmPool_inj [simp]: "llmPool a = llmPool b \<longleftrightarrow> a = b"
  by (simp add: llmPool_def)

lemma syncLimit_fold:
  assumes "ledger_ok led" "distinct (map lm_name ls)"
  shows "ledger_ok (fold (syncLimit opt da) ls led) \<and>
    Limit (fold (syncLimit opt da) ls led) (llmPool n) =
      (case find (\<lambda>l. lm_name l = n) ls of
         None \<Rightarrow> Limit led (llmPool n)
       | Some l \<Rightarrow> max 0 (case mapGet (da_overrides da) n of Some v \<Rightarrow> v | None \<Rightarrow> EffectiveMaxInflight l (da_tiers da)))"
  using assms
proof (induction ls arbitrary: led)
  case (Cons l ls)
  have ok: "ledger_ok (syncLimit opt da l led)" using Cons.prems by (simp add: syncLimit_def SetLimit_ok)
  have lim: "Limit (syncLimit opt da l led) (llmPool n) =
      (if lm_name l = n then max 0 (case mapGet (da_overrides da) n of Some v \<Rightarrow> v | None \<Rightarrow> EffectiveMaxInflight l (da_tiers da))
       else Limit led (llmPool n))"
    using Cons.prems(1) by (auto simp: syncLimit_def Limit_SetLimit)
  have none: "lm_name l = n \<Longrightarrow> find (\<lambda>l. lm_name l = n) ls = None"
    using Cons.prems(2) by (auto simp: find_None_iff image_iff)
  show ?case
    using Cons.IH [OF ok] Cons.prems(2) none lim by (auto split: option.splits)
qed simp

definition registryOK :: "Registry \<Rightarrow> bool" where
  "registryOK reg \<longleftrightarrow> wf_map reg \<and> list_all (\<lambda>(k, l). lm_name l = k) reg"

lemma registryOK_names: "registryOK reg \<Longrightarrow> map (\<lambda>e. lm_name (snd e)) reg = map fst reg"
  by (auto simp: registryOK_def list_all_iff)

lemma registryList_names:
  assumes "registryOK reg"
  shows "distinct (map lm_name (registryList reg))"
proof -
  have "distinct (map lm_name (map snd reg))"
    unfolding map_map comp_def registryOK_names [OF assms] using assms by (simp add: registryOK_def wf_map_def)
  then show ?thesis by (simp add: registryList_def distinct_map_filter)
qed

lemma registryList_find:
  assumes "registryOK reg" "registryGet reg n = Some l"
  shows "find (\<lambda>l. lm_name l = n) (registryList reg) = Some l"
proof -
  have l: "mapGet reg n = Some l" "\<not> lm_tombstoned l"
    using assms(2) by (auto simp: registryGet_def split: option.splits if_splits)
  then have mem: "(n, l) \<in> set reg" by (simp add: mapGet_mem)
  then have name: "lm_name l = n" using assms(1) by (auto simp: registryOK_def list_all_iff)
  have inl: "l \<in> set (registryList reg)" using mem l(2) by (force simp: registryList_def)
  have uniq: "x = l" if "x \<in> set (registryList reg)" "lm_name x = n" for x
    using registryList_names [OF assms(1)] that inl name by (auto simp: distinct_map inj_on_def)
  obtain x where x: "find (\<lambda>l. lm_name l = n) (registryList reg) = Some x"
    using inl name by (cases "find (\<lambda>l. lm_name l = n) (registryList reg)") (auto simp: find_None_iff)
  then have "x \<in> set (registryList reg)" "lm_name x = n" by (auto simp: find_Some_iff)
  with uniq x show ?thesis by simp
qed

lemma sync_limit_is_cap:
  assumes "registryOK reg" "da_reg da = Some reg" "da_ledger da = Some led" "ledger_ok led" "seamEntry da ClaudeBackend = Inr l"
  shows "\<exists>led'. da_ledger (syncLLMLimits opt da) = Some led' \<and> ledger_ok led' \<and> Limit led' (llmPool ClaudeBackend) = max 0 (claudeCap da)"
proof -
  have g: "registryGet reg ClaudeBackend = Some l" using assms(2,5) by (auto simp: seamEntry_def split: option.splits)
  then have name: "lm_name l = ClaudeBackend"
    using assms(1) by (auto simp: registryGet_def registryOK_def list_all_iff dest: mapGet_mem split: option.splits if_splits)
  show ?thesis
    using syncLimit_fold [OF assms(4) registryList_names [OF assms(1)], of opt da ClaudeBackend] registryList_find [OF assms(1) g]
      assms(2,3,5) name
    by (auto simp: syncLLMLimits_def claudeCap_def InflightCap_def)
qed

section \<open>A concrete guard\<close>

definition demoLLM :: LLM where
  "demoLLM = \<lparr>lm_name = ''claude-code'', lm_kind = ''claude-code'', lm_planTier = ''max_20x'', lm_maxInflight = 0, lm_tombstoned = False\<rparr>"

definition demoTiers :: "(string, int) gomap" where "demoTiers = [(''max_20x'', 4)]"

definition demoDaemon :: Daemon where
  "demoDaemon = \<lparr>da_reg = Some [(''claude-code'', demoLLM)], da_tiers = demoTiers, da_overrides = [], da_routes = [],
     da_bo = Some [], da_ledger = Some New\<rparr>"

definition demoGuard :: BurnGuard where
  "demoGuard = \<lparr>gd_ladder = \<lparr>ld_store = Some zeroLadderState, ld_state = zeroLadderState\<rparr>,
     gd_status = \<lparr>st_enabled = False, st_state = [], st_lastTickAt = None, st_lastProjection = None, st_lastDecision = None,
       st_lastError = [], st_counters = \<lparr>ct_ticks = 0, ct_climbs = 0, ct_stepBacks = 0, ct_holds = 0, ct_errors = 0, ct_actionsDone = 0\<rparr>\<rparr>,
     gd_notifier = True, gd_questionStore = True, gd_running = Some 2\<rparr>"

definition demoProjection :: "bool \<Rightarrow> rat \<Rightarrow> Projection" where
  "demoProjection neg over = zeroProjection\<lparr>pj_overBy := Fin neg over\<rparr>"

definition demoInput :: "bool \<Rightarrow> bool \<Rightarrow> rat \<Rightarrow> time \<Rightarrow> GuardInput" where
  "demoInput on neg over now =
    \<lparr>gi_cfg = \<lparr>bg_enabled = on, bg_intervalMinutes = 60, bg_marginPoints = Fin False 2, bg_ladder = [], bg_stepBack = True, bg_askOnChange = True\<rparr>,
     gi_now = now, gi_outcome = \<lparr>po_projection = demoProjection neg over, po_failures = []\<rparr>,
     gi_nextReset = None, gi_saveErr = None, gi_askAgain = True, gi_questionErr = None\<rparr>"

definition demoGuardOpt :: Options where "demoGuardOpt = newOptions (zeroOptions 100)"

definition tickOnce :: "GuardInput \<Rightarrow> BurnGuard \<times> Daemon \<Rightarrow> BurnGuard \<times> Daemon" where
  "tickOnce gi = (\<lambda>(g, da). case guardTick demoGuardOpt gi g da of (g', da', d, ns) \<Rightarrow> (g', da'))"

lemma tickOnce_step: "guardStep restarts s (tickOnce gi s)"
  by (cases s) (auto simp: tickOnce_def intro: guardStep.tick split: prod.split)

lemma demo_fresh: "freshGuard demoLLM demoTiers (demoGuard, demoDaemon)"
proof -
  have "seamEntry demoDaemon ClaudeBackend = Inr demoLLM \<and> claudeCap demoDaemon = EffectiveMaxInflight demoLLM demoTiers \<and>
    claudeRoute demoDaemon = None \<and> claudeFlag demoDaemon = None"
    by code_simp
  then show ?thesis by (simp add: freshGuard_def seamGood_def guardHolds_def demoGuard_def demoDaemon_def)
qed

definition demoUp :: "BurnGuard \<times> Daemon" where
  "demoUp = tickOnce (demoInput True False 5 2000) (tickOnce (demoInput True False 5 1000) (demoGuard, demoDaemon))"

lemma demoUp_reach: "guardReach restarts demoLLM demoTiers demoUp"
  unfolding demoUp_def by (intro guardReach.step [OF _ tickOnce_step] guardReach.start demo_fresh)

lemma demoUp_applied: "ls_applied (ld_state (gd_ladder (fst demoUp))) = [RungLowerInflight, RungRoutePiPrompt]"
  by code_simp

section \<open>Properties\<close>

lemma moveState_changes:
  "ls_applied (moveState (tickMove i (ls_applied s)) cap s) \<noteq> ls_applied s \<longleftrightarrow> tickMove i (ls_applied s) \<noteq> Stay"
proof (cases "tickMove i (ls_applied s)")
  case (Back r)
  then have "ls_applied s \<noteq> []" using tickMove_Back by blast
  then have "length (butlast (ls_applied s)) < length (ls_applied s)" by simp
  then show ?thesis using Back by (metis moveState.simps(3) Move.distinct(3) LadderState.select_convs(1) LadderState.surjective
        LadderState.update_convs(1,3) nat_neq_iff)
next
  case AllOff
  then have "ls_applied s \<noteq> []" by (auto simp: tickMove_def Let_def split: if_splits option.splits)
  then show ?thesis using AllOff by simp
qed auto





text \<open>While the daemon runs, the rungs in force are in force: after any steps but a restart no rung is applied
  twice, the cap of the Claude back end is one below the configured cap exactly while \<open>lower_inflight\<close> is applied, its
  new work goes to pi-prompt exactly while \<open>route_pi_prompt\<close> is applied, the guard's flag is only there while
  \<open>hold_claude\<close> is applied, and the ten-second limit sync gives the capacity ledger that cap and not the configured one.\<close>

theorem guard_rungs_in_force:
  assumes "guardReach False l tiers (g, da)"
    and "registryOK reg" "da_reg da = Some reg" "da_ledger da = Some led" "ledger_ok led"
  shows "let rungs = ls_applied (ld_state (gd_ladder g)); c0 = EffectiveMaxInflight l tiers;
      cap = (if RungLowerInflight \<in> set rungs then lowered c0 else c0)
    in distinct rungs \<and> InflightCap da ClaudeBackend = cap
      \<and> RouteFor da ClaudeBackend = (if RungRoutePiPrompt \<in> set rungs then Some PiBackend else None)
      \<and> (guardHolds da \<longrightarrow> RungHoldClaude \<in> set rungs)
      \<and> map_option (\<lambda>led'. Limit led' (llmPool ClaudeBackend)) (da_ledger (syncLLMLimits opt da)) = Some (max 0 cap)"
proof -
  have inv: "guardInv True l tiers (g, da)" by (rule guardReach_inv [OF assms(1)]) simp
  then have "seamEntry da ClaudeBackend = Inr l" by (simp add: guardInv_def seamGood_def)
  from sync_limit_is_cap [OF assms(2-5) this, of opt] inv show ?thesis
    by (auto simp: Let_def guardInv_def tracks_def ladderOK_def claudeCap_def claudeRoute_def split: if_splits)
qed

lemma actOn_frame:
  "da_reg (actOn opt gi a da) = da_reg da"
  "map_option ledger_ok (da_ledger da) = Some True \<Longrightarrow> map_option ledger_ok (da_ledger (actOn opt gi a da)) = Some True"
  by (auto simp: actOn_def doAction_def SetInflight_def RouteBackend_def HoldNewWork_def Let_def SetLimit_ok
      split: sum.split option.split prod.split)

lemma fold_reg: "da_reg (fold (actOn opt gi) as da) = da_reg da"
  by (induction as arbitrary: da) (simp_all add: actOn_frame(1))

lemma fold_ledger:
  "map_option ledger_ok (da_ledger da) = Some True \<Longrightarrow> map_option ledger_ok (da_ledger (fold (actOn opt gi) as da)) = Some True"
  by (induction as arbitrary: da) (simp_all only: fold_simps comp_apply actOn_frame(2) id_apply)

lemma renewHold_frame: "da_reg (fst (renewHold gi d da)) = da_reg da" "da_ledger (fst (renewHold gi d da)) = da_ledger da"
  by (auto simp: renewHold_def HoldNewWork_def split: option.split prod.split)

lemma tickOnce_frame:
  "da_reg (snd (tickOnce gi s)) = da_reg (snd s)"
  "map_option ledger_ok (da_ledger (snd s)) = Some True \<Longrightarrow> map_option ledger_ok (da_ledger (snd (tickOnce gi s))) = Some True"
proof -
  obtain g da where s: "s = (g, da)" by fastforce
  obtain g' da' d ns where T: "guardTick demoGuardOpt gi g da = (g', da', d, ns)" using prod_cases4 by blast
  have snd: "snd (tickOnce gi s) = da'" by (simp add: tickOnce_def s T)
  have da': "da' = fst (renewHold gi d (fold (actOn demoGuardOpt gi) (dc_actions d) da))" using guardTick_parts [OF T] .
  show "da_reg (snd (tickOnce gi s)) = da_reg (snd s)" unfolding snd unfolding s snd_conv da' renewHold_frame by (rule fold_reg)
  show "map_option ledger_ok (da_ledger (snd s)) = Some True \<Longrightarrow> map_option ledger_ok (da_ledger (snd (tickOnce gi s))) = Some True"
    unfolding snd unfolding s snd_conv da' renewHold_frame by (rule fold_ledger)
qed

lemma demo_ledger: "map_option ledger_ok (da_ledger (snd demoUp)) = Some True" "da_reg (snd demoUp) = da_reg demoDaemon"
  unfolding demoUp_def by (intro tickOnce_frame(2)) (simp_all add: tickOnce_frame(1) demoDaemon_def ok_New)

theorem guard_rungs_in_force_witness:
  "\<exists>g da. guardReach False demoLLM demoTiers (g, da) \<and> InflightCap da ClaudeBackend = 3 \<and>
    RouteFor da ClaudeBackend = Some PiBackend \<and>
    map_option (\<lambda>led. Limit led (llmPool ClaudeBackend)) (da_ledger (syncLLMLimits demoGuardOpt da)) = Some 3"
proof -
  obtain g da where up: "demoUp = (g, da)" by fastforce
  obtain led where led: "da_ledger da = Some led" "ledger_ok led" using demo_ledger(1) unfolding up by auto
  have reg: "da_reg da = Some [(''claude-code'', demoLLM)]" using demo_ledger(2) unfolding up by (simp add: demoDaemon_def)
  have ok: "registryOK [(''claude-code'', demoLLM)]" by code_simp
  have R: "guardReach False demoLLM demoTiers (g, da)" using demoUp_reach [of False] up by simp
  have c0: "EffectiveMaxInflight demoLLM demoTiers = 4" by code_simp
  have rungs: "ls_applied (ld_state (gd_ladder g)) = [RungLowerInflight, RungRoutePiPrompt]" using demoUp_applied unfolding up by simp
  show ?thesis
    using guard_rungs_in_force [OF R ok reg led, of demoGuardOpt] R
    by (auto simp: Let_def rungs c0 lowered_def)
qed

lemma rung_flag:
  assumes "seamGood l tiers da"
  shows "claudeFlag (fold (actOn opt gi) (rungActions r rel v) da) =
    (if r = RungHoldClaude
     then (if rel then None else Some (holdEntry (bg_intervalMinutes (gi_cfg gi)) (gi_nextReset gi) (gi_now gi)))
     else claudeFlag da)"
  using assms by (auto simp: rungActions_def mkAction_def actOn_def doAction_def SetInflight_seam RouteBackend_seam HoldNewWork_seam)

lemma releases_flag:
  assumes "seamGood l tiers da"
  shows "claudeFlag (fold (actOn opt gi) (concat (map (\<lambda>r. rungActions r True v) rs)) da) =
    (if RungHoldClaude \<in> set rs then None else claudeFlag da)"
  using assms
proof (induction rs arbitrary: da)
  case (Cons r rs)
  then show ?case
    using seam.rung_effect(1) [OF Cons.prems] rung_flag [OF Cons.prems] by auto
qed simp

lemma move_flag:
  assumes "seamGood l tiers da" "distinct (ls_applied s)" and m: "m = tickMove i (ls_applied s)"
    and before_def: "before = ls_applied s" and after_def: "after = ls_applied (moveState m c s)"
  shows "claudeFlag (fold (actOn opt gi) (moveActions m c s) da) =
      (if RungHoldClaude \<in> set after - set before
       then Some (holdEntry (bg_intervalMinutes (gi_cfg gi)) (gi_nextReset gi) (gi_now gi))
       else if RungHoldClaude \<in> set before - set after then None
       else claudeFlag da)"
proof (cases m)
  case (Climb r)
  then have "r \<notin> set before" using tickMove_Climb m before_def by metis
  with Climb show ?thesis using rung_flag [OF assms(1)] by (auto simp: before_def after_def)
next
  case (Back r)
  then obtain rs where "before = rs @ [r]" using tickMove_Back m before_def by (metis append_butlast_last_id)
  with Back assms(2) show ?thesis using rung_flag [OF assms(1)] by (auto simp: before_def after_def)
next
  case AllOff
  then show ?thesis
    using releases_flag [OF assms(1)] by (auto simp: before_def after_def releaseAll_actions [OF assms(2)])
qed (simp add: before_def after_def)

text \<open>The hold flag of a tick: a tick that applies \<open>hold_claude\<close>, or that changes nothing while it is applied, leaves
  the Claude back end blocked until the earlier of the next reset and the next reading; a tick that releases it leaves
  no flag at all, whoever set it; any other tick leaves the flag as it was.\<close>

theorem hold_flag_exact:
  assumes "seamGood l tiers da" and "distinct (ls_applied (ld_state (gd_ladder g)))"
    and "guardTick opt gi g da = (g', da', d, ns)"
  shows "let before = ls_applied (ld_state (gd_ladder g)); after = ls_applied (ld_state (gd_ladder g'))
    in claudeFlag da' =
      (if RungHoldClaude \<in> set after \<and> (RungHoldClaude \<notin> set before \<or> after = before)
       then Some (holdEntry (bg_intervalMinutes (gi_cfg gi)) (gi_nextReset gi) (gi_now gi))
       else if RungHoldClaude \<in> set before - set after then None
       else claudeFlag da)"
proof -
  let ?s = "ld_state (gd_ladder g)" and ?da1 = "fold (actOn opt gi) (dc_actions d) da"
  obtain ladder e where T: "Tick (gi_saveErr gi) (guardInputs gi da) (gd_ladder g) = (ladder, d, e)" "gd_ladder g' = ladder"
    and da': "da' = fst (renewHold gi d ?da1)"
    using guardTick_parts [OF assms(3)] .
  note move = Tick_move [OF T(1)]
  have ch: "dc_changed d \<longleftrightarrow> ls_applied (ld_state ladder) \<noteq> ls_applied ?s"
    using move(1,4) moveState_changes [of "guardInputs gi da" ?s] by simp
  have good: "seamGood l tiers ?da1"
    by (rule seam.fold_good) (use Tick_kinds [OF T(1)] assms(1) in auto)
  have flag: "claudeFlag da' = (if \<not> dc_changed d \<and> RungHoldClaude \<in> set (ls_applied (ld_state ladder))
      then Some (holdEntry (bg_intervalMinutes (gi_cfg gi)) (gi_nextReset gi) (gi_now gi)) else claudeFlag ?da1)"
    unfolding da' renewHold_def holdApplied_def move(5) using HoldNewWork_seam(4) [OF good] by simp
  have moved: "claudeFlag ?da1 =
      (if RungHoldClaude \<in> set (ls_applied (ld_state ladder)) - set (ls_applied ?s)
       then Some (holdEntry (bg_intervalMinutes (gi_cfg gi)) (gi_nextReset gi) (gi_now gi))
       else if RungHoldClaude \<in> set (ls_applied ?s) - set (ls_applied (ld_state ladder)) then None
       else claudeFlag da)"
    unfolding move(3) ti_cap by (rule move_flag [OF assms(1,2) refl refl]) (simp add: move(1))
  show ?thesis
    unfolding Let_def T(2) flag moved ch
    by (cases "ls_applied (ld_state ladder) = ls_applied ?s"; simp only: simp_thms if_True if_False Diff_iff)
qed

theorem hold_flag_exact_witness:
  "\<exists>g da g' da' d ns. guardTick demoGuardOpt (demoInput True False 5 3000) g da = (g', da', d, ns) \<and>
    ls_applied (ld_state (gd_ladder g)) = [RungLowerInflight, RungRoutePiPrompt] \<and> claudeFlag da = None \<and>
    claudeFlag da' = Some (holdEntry 60 None 3000)"
proof -
  obtain g da where up: "demoUp = (g, da)" by fastforce
  obtain g' da' d ns where T: "guardTick demoGuardOpt (demoInput True False 5 3000) g da = (g', da', d, ns)"
    using prod_cases4 by blast
  have inv: "guardInv True demoLLM demoTiers (g, da)" using guardReach_inv [OF demoUp_reach [of False]] unfolding up by simp
  have before: "ls_applied (ld_state (gd_ladder g)) = [RungLowerInflight, RungRoutePiPrompt]" using demoUp_applied unfolding up by simp
  have "claudeFlag (snd demoUp) = None" by code_simp
  then have none: "claudeFlag da = None" unfolding up by simp
  have "ls_applied (ld_state (gd_ladder (fst (tickOnce (demoInput True False 5 3000) demoUp)))) = DefaultLadder" by code_simp
  then have after: "ls_applied (ld_state (gd_ladder g')) = DefaultLadder" by (simp add: tickOnce_def up T)
  have "claudeFlag da' = Some (holdEntry 60 None 3000)"
    using hold_flag_exact [OF _ _ T, of demoLLM demoTiers] inv
    by (simp add: guardInv_def tracks_def ladderOK_def Let_def before after DefaultLadder_def demoInput_def)
  with T before none show ?thesis by blast
qed

section \<open>What the guard does not do\<close>

text \<open>A restart forgets the lowered cap and the route, which live in memory only, and the ladder still counts the rungs
  as applied; a tick that holds does not put them back.\<close>

lemma restart_forgets_rungs:
  assumes "seamGood l tiers da" and "da0 = da\<lparr>da_overrides := [], da_routes := [], da_bo := Some NewBackoff, da_ledger := led\<rparr>"
  shows "InflightCap da0 ClaudeBackend = EffectiveMaxInflight l tiers \<and> RouteFor da0 ClaudeBackend = None"
  using assms by (auto simp: seamGood_def seamEntry_def InflightCap_def RouteFor_def)

text \<open>A cap of zero means no limit. Lowering it sets a limit of one, and the step counts as one that changed nothing, so
  no question is raised for it.\<close>

lemma unlimited_cap_is_a_silent_change:
  "lowered 0 = 1 \<and> \<not> changesSetting (rungActions RungLowerInflight False (lowered 0)) 0"
  by (simp add: lowered_def rungActions_def mkAction_def)

text \<open>A failure to read the usage data is wiped from the status by the tick that recorded it, unless the ladder state
  could not be saved or an action failed.\<close>

lemma clean_tick_clears_error: "st_lastError (recordTick gi proj d True st) = []"
  by (simp add: recordTick_def Let_def)

end
