(* ===== verification/Question_Types.thy ===== *)
theory Question_Types
  imports Prelude
begin

text \<open>
  \<open>internal/autonomous/questions.go\<close>: the operator's questions and answers, what a new question must satisfy, and
  when an answer is allowed.

  The messages of a refusal are values of a datatype instead of text. A string is its bytes; \<open>runes\<close> decodes it the
  way \<open>range\<close> does (an invalid byte is U+FFFD and one byte long).
\<close>

section \<open>UTF-8\<close>

definition contByte :: "int \<Rightarrow> int \<Rightarrow> int \<Rightarrow> bool" where
  "contByte lo hi b \<longleftrightarrow> lo \<le> b \<and> b \<le> hi"

definition byteOf :: "char \<Rightarrow> int" where "byteOf c = int (of_char c)"

text \<open>\<open>utf8.DecodeRuneInString\<close> on a non-empty string: the code point, its length in bytes, and whether it is valid.\<close>

definition decodeRune :: "string \<Rightarrow> int \<times> nat \<times> bool" where
  "decodeRune s =
    (let bad = (0xFFFD, 1, False); bs = map byteOf (take 4 s)
     in case bs of
          [] \<Rightarrow> bad
        | b0 # r \<Rightarrow>
          if b0 < 0x80 then (b0, 1, True)
          else if b0 < 0xC2 \<or> 0xF4 < b0 then bad
          else if b0 < 0xE0 then
            (case r of b1 # _ \<Rightarrow> if contByte 0x80 0xBF b1 then ((b0 - 0xC0) * 64 + (b1 - 0x80), 2, True) else bad | _ \<Rightarrow> bad)
          else if b0 < 0xF0 then
            (case r of
               b1 # b2 # _ \<Rightarrow>
                 if contByte (if b0 = 0xE0 then 0xA0 else 0x80) (if b0 = 0xED then 0x9F else 0xBF) b1 \<and> contByte 0x80 0xBF b2
                 then ((b0 - 0xE0) * 4096 + (b1 - 0x80) * 64 + (b2 - 0x80), 3, True) else bad
             | _ \<Rightarrow> bad)
          else
            (case r of
               b1 # b2 # b3 # _ \<Rightarrow>
                 if contByte (if b0 = 0xF0 then 0x90 else 0x80) (if b0 = 0xF4 then 0x8F else 0xBF) b1
                   \<and> contByte 0x80 0xBF b2 \<and> contByte 0x80 0xBF b3
                 then ((b0 - 0xF0) * 262144 + (b1 - 0x80) * 4096 + (b2 - 0x80) * 64 + (b3 - 0x80), 4, True) else bad
             | _ \<Rightarrow> bad))"

lemma decodeRune_width: "0 < fst (snd (decodeRune s))"
  by (auto simp: decodeRune_def Let_def split: list.split)

function runes :: "string \<Rightarrow> (int \<times> bool) list" where
  "runes s = (if s = [] then [] else
     (case decodeRune s of (r, n, ok) \<Rightarrow> (r, ok) # runes (drop n s)))"
  by auto
termination
proof (relation "measure length", goal_cases)
  case (2 s r p n ok)
  then have "0 < n" using decodeRune_width [of s] by (metis fst_conv snd_conv)
  then show ?case using 2(1) by simp
qed simp

declare runes.simps [simp del]

definition utf8len :: "string \<Rightarrow> int" where "utf8len s = int (length (runes s))"

definition validUTF8 :: "string \<Rightarrow> bool" where "validUTF8 s = list_all snd (runes s)"

definition isControl :: "int \<Rightarrow> bool" where
  "isControl r \<longleftrightarrow> (0 \<le> r \<and> r < 0x20) \<or> (0x7F \<le> r \<and> r < 0xA0)"

section \<open>Records\<close>

datatype QuestionState = QuestionOpen | QuestionAnswered | QuestionWithdrawn | QuestionExpired | QuestionOther string

record QuestionOption =
  op_id :: string
  op_label :: string
  op_tradeoffs :: string

record QuestionRecommendation =
  re_optionID :: string
  re_rationale :: string

record Question =
  qn_id :: string
  qn_label :: string
  qn_askedBy :: string
  qn_askerKind :: string
  qn_sessionID :: string
  qn_context :: string
  qn_prdID :: string
  qn_taskID :: string
  qn_proposalPath :: string
  qn_registryRowKey :: string
  qn_text :: string
  qn_options :: "QuestionOption list"
  qn_recommendation :: "QuestionRecommendation option"
  qn_default :: string
  qn_risk :: string
  qn_createdAt :: "time option"
  qn_state :: QuestionState
  qn_priority :: string
  qn_returnPath :: bool
  qn_blocking :: bool
  qn_source :: string
  qn_sourceLineSHA256 :: string
  qn_decisionRecordID :: string

record Answer =
  an_id :: string
  an_questionID :: string
  an_actor :: string
  an_surface :: string
  an_chosenOptionID :: string
  an_quote :: string
  an_quoteSHA256 :: string
  an_supersedes :: string
  an_sourceMessageID :: string
  an_createdAt :: "time option"

section \<open>Validation of a new question\<close>

datatype Problem =
    LabelTooLong int | LabelControl | BadRisk string | BadPriority string | ReturnPathNeedsSession
  | MarkerNeedsSession | MarkerNeedsHash | BadSource string | BadLineHash | BadDecisionID string | DecisionIDTooLong int
  | TextRequired | TextTooLong int | TooFewOptions int | TooManyOptions int
  | OptionEmptyID nat | OptionIDRepeated string | OptionEmptyLabel nat | OptionLabelRepeated string
  | OptionLabelTooLong int | TradeoffsTooLong int
  | DefaultRequired | BadDefault string | BadRecommendation string | RationaleTooLong int
  | ContextNeedsLink string | ContextNoneLinked | BadContext string | AbsolutePath string | DotDotPath string

definition questionLineSHA256Len :: nat where "questionLineSHA256Len = 64"

definition isLowerHexDigest :: "string \<Rightarrow> bool" where
  "isLowerHexDigest s \<longleftrightarrow> length s = questionLineSHA256Len \<and>
     list_all (\<lambda>c. (CHR ''0'' \<le> c \<and> c \<le> CHR ''9'') \<or> (CHR ''a'' \<le> c \<and> c \<le> CHR ''f'')) s"

definition checkProposalPath :: "string \<Rightarrow> Problem list" where
  "checkProposalPath p =
    (if p = [] then []
     else if hasPrefix p ''/'' then [AbsolutePath p]
     else if ''..'' \<in> set (splitChar (CHR ''/'') p) then [DotDotPath p]
     else [])"

definition labelProblems :: "string \<Rightarrow> Problem list" where
  "labelProblems label0 =
    (let label = (if label0 = [] then ''decision'' else label0)
     in (if label0 \<noteq> [] \<and> utf8len label0 > 64 then [LabelTooLong (utf8len label0)] else [])
      @ (if list_ex (\<lambda>(r, _). isControl r) (runes label) then [LabelControl] else []))"

definition sourceProblems :: "Question \<Rightarrow> Problem list" where
  "sourceProblems q =
    (if qn_source q \<in> {[], ''rest'', ''held'', ''decision_record''} then []
     else if qn_source q = ''marker''
     then (if qn_sessionID q = [] then [MarkerNeedsSession] else []) @ (if qn_sourceLineSHA256 q = [] then [MarkerNeedsHash] else [])
     else [BadSource (qn_source q)])
    @ (if qn_sourceLineSHA256 q \<noteq> [] \<and> \<not> isLowerHexDigest (qn_sourceLineSHA256 q) then [BadLineHash] else [])"

definition decisionProblems :: "string \<Rightarrow> Problem list" where
  "decisionProblems d =
    (if d = [] then []
     else if \<not> hasPrefix d ''dr-'' \<or> length d = 3 then [BadDecisionID d]
     else if length d > 512 then [DecisionIDTooLong (int (length d))]
     else [])"

text \<open>The loop over the options, with the ids and labels seen so far.\<close>

fun optionProblems :: "nat \<Rightarrow> string list \<Rightarrow> string list \<Rightarrow> QuestionOption list \<Rightarrow> Problem list \<times> string list" where
  "optionProblems i ids labels [] = ([], ids)"
| "optionProblems i ids labels (opt # opts) =
    (let p1 = (if op_id opt = [] then [OptionEmptyID (i + 1)] else if op_id opt \<in> set ids then [OptionIDRepeated (op_id opt)] else []);
         ids1 = (if op_id opt = [] \<or> op_id opt \<in> set ids then ids else op_id opt # ids);
         p2 = (if op_label opt = [] then [OptionEmptyLabel (i + 1)]
               else if op_label opt \<in> set labels then [OptionLabelRepeated (op_label opt)] else []);
         labels1 = (if op_label opt = [] \<or> op_label opt \<in> set labels then labels else op_label opt # labels);
         p3 = (if length (op_label opt) > 200 then [OptionLabelTooLong (int (length (op_label opt)))] else []);
         p4 = (if length (op_tradeoffs opt) > 1000 then [TradeoffsTooLong (int (length (op_tradeoffs opt)))] else [])
     in case optionProblems (i + 1) ids1 labels1 opts of (ps, seen) \<Rightarrow> (p1 @ p2 @ p3 @ p4 @ ps, seen))"

definition contextProblems :: "Question \<Rightarrow> Problem list" where
  "contextProblems q =
    (let c = qn_context q
     in if c = ''prd'' then (if qn_prdID q = [] then [ContextNeedsLink ''prd_id''] else [])
        else if c = ''task'' then (if qn_taskID q = [] then [ContextNeedsLink ''task_id''] else [])
        else if c = ''proposal'' then (if qn_proposalPath q = [] then [ContextNeedsLink ''proposal_path''] else [])
        else if c = ''registry_row'' then (if qn_registryRowKey q = [] then [ContextNeedsLink ''registry_row_key''] else [])
        else if c = ''none''
        then (if qn_prdID q \<noteq> [] \<or> qn_taskID q \<noteq> [] \<or> qn_proposalPath q \<noteq> [] \<or> qn_registryRowKey q \<noteq> [] then [ContextNoneLinked] else [])
        else [BadContext c])"

definition effectiveRisk :: "Question \<Rightarrow> string" where
  "effectiveRisk q = (if qn_risk q = [] then ''normal'' else qn_risk q)"

definition questionProblems :: "Question \<Rightarrow> Problem list" where
  "questionProblems q =
    (case optionProblems 0 [] [] (qn_options q) of (optPs, seenIDs) \<Rightarrow>
       labelProblems (qn_label q)
     @ (if effectiveRisk q \<notin> {''low'', ''normal''} then [BadRisk (effectiveRisk q)] else [])
     @ (if qn_priority q \<notin> {[], ''normal'', ''high''} then [BadPriority (qn_priority q)] else [])
     @ (if qn_returnPath q \<and> qn_sessionID q = [] then [ReturnPathNeedsSession] else [])
     @ sourceProblems q
     @ decisionProblems (qn_decisionRecordID q)
     @ (if trimSpace (qn_text q) = [] then [TextRequired] else [])
     @ (if length (qn_text q) > 8192 then [TextTooLong (int (length (qn_text q)))] else [])
     @ (if length (qn_options q) < 2 then [TooFewOptions (int (length (qn_options q)))] else [])
     @ (if length (qn_options q) > 20 then [TooManyOptions (int (length (qn_options q)))] else [])
     @ optPs
     @ (if qn_default q = [] then [DefaultRequired]
        else if qn_default q \<noteq> ''hold'' \<and> qn_default q \<notin> set seenIDs then [BadDefault (qn_default q)] else [])
     @ (case qn_recommendation q of
          None \<Rightarrow> []
        | Some r \<Rightarrow> (if re_optionID r \<notin> set seenIDs then [BadRecommendation (re_optionID r)] else [])
            @ (if length (re_rationale r) > 1000 then [RationaleTooLong (int (length (re_rationale r)))] else []))
     @ contextProblems q
     @ checkProposalPath (qn_proposalPath q))"

definition ValidateNewQuestion :: "Question \<Rightarrow> Problem list + Question" where
  "ValidateNewQuestion q =
    (if questionProblems q \<noteq> [] then Inl (questionProblems q)
     else Inr (q\<lparr>qn_label := (if qn_label q = [] then ''decision'' else qn_label q), qn_risk := effectiveRisk q\<rparr>))"

section \<open>When an answer is allowed\<close>

datatype AnswerError =
    ErrQuestionNotFound | ErrQuestionNotOpen | ErrAnswerNeedsSupersedes | ErrSupersedesWrongTarget | ErrAnswerEmpty
  | ErrUnknownOption | ErrQuoteTooLong | ErrSecretInAnswer string | ErrQuoteNotUTF8 | ErrInvalidQuestion "Problem list"
  | ErrAppend

definition CheckAnswerAllowed :: "QuestionState \<Rightarrow> string \<Rightarrow> Answer \<Rightarrow> QuestionOption list \<Rightarrow> AnswerError option" where
  "CheckAnswerAllowed state current a options =
    (if state = QuestionWithdrawn \<or> state = QuestionExpired then Some ErrQuestionNotOpen
     else if an_chosenOptionID a \<noteq> [] \<and> an_chosenOptionID a \<notin> op_id ` set options then Some ErrUnknownOption
     else if an_chosenOptionID a = [] \<and> trimSpace (an_quote a) = [] then Some ErrAnswerEmpty
     else if length (an_quote a) > 16384 then Some ErrQuoteTooLong
     else case state of
            QuestionOpen \<Rightarrow> (if an_supersedes a \<noteq> [] then Some ErrSupersedesWrongTarget else None)
          | QuestionAnswered \<Rightarrow>
              (if an_supersedes a = [] then Some ErrAnswerNeedsSupersedes
               else if an_supersedes a \<noteq> current then Some ErrSupersedesWrongTarget
               else None)
          | _ \<Rightarrow> Some ErrQuestionNotOpen)"

section \<open>What validation establishes\<close>

text \<open>A well-formed question: at least two options with distinct non-empty ids and labels, a default that is one of
  them or \<open>hold\<close>, a recommendation among them, and the link its context names.\<close>

definition wfQuestion :: "Question \<Rightarrow> bool" where
  "wfQuestion q \<longleftrightarrow>
     2 \<le> length (qn_options q) \<and> length (qn_options q) \<le> 20 \<and>
     distinct (map op_id (qn_options q)) \<and> [] \<notin> op_id ` set (qn_options q) \<and>
     distinct (map op_label (qn_options q)) \<and> [] \<notin> op_label ` set (qn_options q) \<and>
     (qn_default q = ''hold'' \<or> qn_default q \<in> op_id ` set (qn_options q)) \<and> qn_default q \<noteq> [] \<and>
     (case qn_recommendation q of None \<Rightarrow> True | Some r \<Rightarrow> re_optionID r \<in> op_id ` set (qn_options q)) \<and>
     qn_label q \<noteq> [] \<and> qn_risk q \<in> {''low'', ''normal''} \<and> qn_priority q \<in> {[], ''normal'', ''high''} \<and>
     trimSpace (qn_text q) \<noteq> [] \<and> length (qn_text q) \<le> 8192 \<and>
     (qn_returnPath q \<longrightarrow> qn_sessionID q \<noteq> []) \<and> contextProblems q = [] \<and>
     \<not> hasPrefix (qn_proposalPath q) ''/'' \<and> ''..'' \<notin> set (splitChar (CHR ''/'') (qn_proposalPath q))"

lemma optionProblems_none:
  "optionProblems i ids labels opts = ([], seen) \<Longrightarrow>
    distinct (map op_id opts) \<and> [] \<notin> op_id ` set opts \<and> set ids \<inter> op_id ` set opts = {} \<and>
    distinct (map op_label opts) \<and> [] \<notin> op_label ` set opts \<and> set labels \<inter> op_label ` set opts = {} \<and>
    set seen = set ids \<union> op_id ` set opts"
proof (induction opts arbitrary: i ids labels seen)
  case (Cons opt opts)
  from Cons.prems have fresh: "op_id opt \<noteq> []" "op_id opt \<notin> set ids" "op_label opt \<noteq> []" "op_label opt \<notin> set labels"
    by (auto simp: Let_def split: prod.splits if_splits)
  with Cons.prems have "optionProblems (i + 1) (op_id opt # ids) (op_label opt # labels) opts = ([], seen)"
    by (auto simp: Let_def split: prod.splits if_splits)
  from Cons.IH [OF this] fresh show ?case by auto
qed auto

end
