(* ===== verification/Question_Log.thy ===== *)
theory Question_Log
  imports Question_Types "HOL-Library.Sublist"
begin

text \<open>
  The append-only file of the question store (\<open>replay\<close>, \<open>parseStoreRecord\<close>, \<open>appendLocked\<close> and \<open>tailRepair\<close> of
  \<open>internal/autonomous/questions_store.go\<close>), at the level of bytes: one JSON record per line, an interrupted write
  leaves an unterminated line, and the next append closes that line and marks it as the residue of a crash.

  \<open>json.Marshal\<close> and \<open>json.Unmarshal\<close> of a record are the arguments \<open>enc\<close> and \<open>um\<close>; \<open>lineOK\<close> is what is relied on: the
  text of a record has no line break, reads back as the record, and no proper prefix of it is a record. The outcome of
  the system calls of one append is the argument \<open>w\<close>. The file is its bytes; a missing file is the empty one.
\<close>

section \<open>Records and lines\<close>

record StoreRecord =
  rc_type :: string
  rc_question :: "Question option"
  rc_answer :: "Answer option"
  rc_questionID :: string
  rc_actor :: string
  rc_reason :: string
  rc_at :: "time option"
  rc_discardedBytes :: int
  rc_answerID :: string
  rc_eventKind :: string

definition storeLineQuestionRaised :: string where "storeLineQuestionRaised = ''question_raised''"
definition storeLineAnswerRecorded :: string where "storeLineAnswerRecorded = ''answer_recorded''"
definition storeLineQuestionWithdrawn :: string where "storeLineQuestionWithdrawn = ''question_withdrawn''"
definition storeLineQuestionUpdated :: string where "storeLineQuestionUpdated = ''question_updated''"
definition storeLineQuestionExpired :: string where "storeLineQuestionExpired = ''question_expired''"
definition storeLineQuestionEventEmitted :: string where "storeLineQuestionEventEmitted = ''question_event_emitted''"
definition storeLineCrashResidue :: string where "storeLineCrashResidue = ''crash_residue''"

lemmas storeLine_defs = storeLineQuestionRaised_def storeLineAnswerRecorded_def storeLineQuestionWithdrawn_def
  storeLineQuestionUpdated_def storeLineQuestionExpired_def storeLineQuestionEventEmitted_def storeLineCrashResidue_def

definition emptyRecord :: "string \<Rightarrow> StoreRecord" where
  "emptyRecord t = \<lparr>rc_type = t, rc_question = None, rc_answer = None, rc_questionID = [], rc_actor = [], rc_reason = [],
     rc_at = None, rc_discardedBytes = 0, rc_answerID = [], rc_eventKind = []\<rparr>"

definition recordShapeOK :: "StoreRecord \<Rightarrow> bool" where
  "recordShapeOK r =
    (let t = rc_type r
     in if t = storeLineQuestionRaised \<or> t = storeLineQuestionUpdated
        then (case rc_question r of None \<Rightarrow> False | Some q \<Rightarrow> qn_id q \<noteq> [])
        else if t = storeLineAnswerRecorded
        then (case rc_answer r of None \<Rightarrow> False | Some a \<Rightarrow> an_id a \<noteq> [] \<and> an_questionID a \<noteq> [])
        else if t = storeLineQuestionWithdrawn \<or> t = storeLineQuestionExpired then rc_questionID r \<noteq> []
        else if t = storeLineQuestionEventEmitted then rc_questionID r \<noteq> [] \<and> rc_eventKind r \<noteq> []
        else if t = storeLineCrashResidue then rc_discardedBytes r > 0
        else False)"

definition parseStoreRecord :: "(string \<Rightarrow> StoreRecord option) \<Rightarrow> string \<Rightarrow> StoreRecord option" where
  "parseStoreRecord um line =
    (case um line of None \<Rightarrow> None | Some r \<Rightarrow> if recordShapeOK r then Some r else None)"

section \<open>Replay\<close>

definition newline :: char where "newline = CHR 0x0A"

definition closedBy :: "(string \<Rightarrow> StoreRecord option) \<Rightarrow> string \<Rightarrow> string list \<Rightarrow> bool" where
  "closedBy um line rest =
    (case rest of
       [] \<Rightarrow> False
     | nxt # _ \<Rightarrow> (case parseStoreRecord um nxt of
         None \<Rightarrow> False
       | Some r \<Rightarrow> rc_type r = storeLineCrashResidue \<and> rc_discardedBytes r = int (length line)))"

text \<open>The loop of \<open>replay\<close>: the records it applies, or the number of the line it rejects.\<close>

fun replayLines :: "(string \<Rightarrow> StoreRecord option) \<Rightarrow> bool \<Rightarrow> nat \<Rightarrow> string list \<Rightarrow> nat + StoreRecord list" where
  "replayLines um terminated i [] = Inr []"
| "replayLines um terminated i (line # rest) =
    (if line = [] then replayLines um terminated (i + 1) rest
     else case parseStoreRecord um line of
            Some r \<Rightarrow> map_sum id ((#) r) (replayLines um terminated (i + 1) rest)
          | None \<Rightarrow>
              if rest = [] \<and> \<not> terminated \<or> closedBy um line rest
              then replayLines um terminated (i + 1) rest
              else Inl (i + 1))"

definition endsLine :: "string \<Rightarrow> bool" where
  "endsLine data \<longleftrightarrow> data \<noteq> [] \<and> last data = newline"

definition replayFile :: "(string \<Rightarrow> StoreRecord option) \<Rightarrow> string \<Rightarrow> nat + StoreRecord list" where
  "replayFile um data =
    (let ls = splitChar newline data
     in replayLines um (endsLine data) 0 (if endsLine data then butlast ls else ls))"

section \<open>Append\<close>

definition residueRecord :: "nat \<Rightarrow> StoreRecord" where
  "residueRecord n = (emptyRecord storeLineCrashResidue)\<lparr>rc_discardedBytes := int n\<rparr>"

definition lastLine :: "string \<Rightarrow> string" where
  "lastLine data = rev (takeWhile (\<lambda>c. c \<noteq> newline) (rev data))"

definition tailRepair :: "(StoreRecord \<Rightarrow> string) \<Rightarrow> (string \<Rightarrow> StoreRecord option) \<Rightarrow> string \<Rightarrow> string" where
  "tailRepair enc um data =
    (if data = [] \<or> endsLine data then []
     else let t = lastLine data
          in newline # (if parseStoreRecord um t = None then enc (residueRecord (length t)) @ [newline] else []))"

datatype AppendOutcome = ReadFails | OpenFails | WriteFails nat | SyncFails | CloseFails | AppendOK

definition appendChunk :: "(StoreRecord \<Rightarrow> string) \<Rightarrow> (string \<Rightarrow> StoreRecord option) \<Rightarrow> StoreRecord \<Rightarrow> string \<Rightarrow> string" where
  "appendChunk enc um r data = tailRepair enc um data @ enc r @ [newline]"

text \<open>How many bytes of the chunk reach the file.\<close>

fun bytesWritten :: "AppendOutcome \<Rightarrow> nat \<Rightarrow> nat" where
  "bytesWritten ReadFails n = 0"
| "bytesWritten OpenFails n = 0"
| "bytesWritten (WriteFails k) n = min k n"
| "bytesWritten SyncFails n = n"
| "bytesWritten CloseFails n = n"
| "bytesWritten AppendOK n = n"

definition appendLocked :: "(StoreRecord \<Rightarrow> string) \<Rightarrow> (string \<Rightarrow> StoreRecord option) \<Rightarrow> AppendOutcome \<Rightarrow> StoreRecord \<Rightarrow> string \<Rightarrow> string \<times> bool" where
  "appendLocked enc um w r data =
    (let chunk = appendChunk enc um r data
     in (data @ take (bytesWritten w (length chunk)) chunk, w = AppendOK))"

section \<open>Lines of a file\<close>

definition unlines :: "string list \<Rightarrow> string" where
  "unlines ls = concat (map (\<lambda>l. l @ [newline]) ls)"

abbreviation plain :: "string \<Rightarrow> bool" where
  "plain l \<equiv> newline \<notin> set l"

lemma text_simps [simp]: "unlines [] = []" "unlines (l # ls) = l @ newline # unlines ls" "unlines (ls @ ms) = unlines ls @ unlines ms"
  by (simp_all add: unlines_def)

lemma split_text: "\<forall>l \<in> set ls. plain l \<Longrightarrow> plain t \<Longrightarrow> splitChar newline (unlines ls @ t) = ls @ [t]"
  by (induction ls) (simp_all add: splitChar_plain splitChar_append)

lemma endsLine_text: "plain t \<Longrightarrow> endsLine (unlines ls @ t) \<longleftrightarrow> t = [] \<and> ls \<noteq> []"
proof (cases "t = []")
  case True
  then show ?thesis by (cases ls rule: rev_cases) (auto simp: endsLine_def)
next
  case False
  then have "last (unlines ls @ t) = last t" "last t \<in> set t" by auto
  moreover assume "plain t"
  ultimately have "last (unlines ls @ t) \<noteq> newline" by metis
  then show ?thesis using False by (simp add: endsLine_def)
qed

lemma lastLine_text: "plain t \<Longrightarrow> lastLine (unlines ls @ t) = t"
proof -
  assume t: "plain t"
  then have all: "takeWhile (\<lambda>c. c \<noteq> newline) (rev t @ u) = rev t @ takeWhile (\<lambda>c. c \<noteq> newline) u" for u
    by (intro takeWhile_append2) auto
  show ?thesis
  proof (cases ls rule: rev_cases)
    case Nil
    have "takeWhile (\<lambda>c. c \<noteq> newline) (rev t) = rev t" using all [of "[]"] by (simp only: append_Nil2 takeWhile.simps)
    with Nil show ?thesis by (simp only: lastLine_def text_simps append_Nil rev_rev_ident)
  next
    case (snoc ms m)
    then show ?thesis using all by (simp add: lastLine_def)
  qed
qed

lemma text_empty [simp]: "unlines ls = [] \<longleftrightarrow> ls = []"
  by (cases ls) auto

lemma replayFile_text:
  assumes "\<forall>l \<in> set ls. plain l" "plain t"
  shows "replayFile um (unlines ls @ t) = (if t = [] then replayLines um True 0 ls else replayLines um False 0 (ls @ [t]))"
  using assms split_text [OF assms] endsLine_text [OF assms(2), of ls]
  by (cases "ls = []") (auto simp: replayFile_def Let_def splitChar_plain endsLine_def)

section \<open>Replaying a longer file\<close>

lemma replayLines_index: "replayLines um t i ls = Inr rs \<Longrightarrow> replayLines um t j ls = Inr rs"
proof (induction ls arbitrary: i j rs)
  case (Cons l ls)
  show ?case
  proof (cases "l = [] \<or> parseStoreRecord um l = None")
    case True
    then have "replayLines um t (i + 1) ls = Inr rs" using Cons.prems by (auto split: if_splits)
    from Cons.IH [OF this, of "j + 1"] True Cons.prems show ?thesis by (auto split: if_splits)
  next
    case False
    then obtain r rs' where "parseStoreRecord um l = Some r" "l \<noteq> []" "replayLines um t (i + 1) ls = Inr rs'" "rs = r # rs'"
      using Cons.prems by (cases "replayLines um t (i + 1) ls") auto
    with Cons.IH [of "i + 1" rs' "j + 1"] show ?thesis by simp
  qed
qed simp

lemma closedBy_append: "ls \<noteq> [] \<Longrightarrow> closedBy um l (ls @ ms) = closedBy um l ls"
  by (cases ls) (auto simp: closedBy_def)

lemma replayLines_append:
  "replayLines um True i ls = Inr rs \<Longrightarrow>
   replayLines um t i (ls @ ms) = map_sum id ((@) rs) (replayLines um t (i + length ls) ms)"
proof (induction ls arbitrary: i rs)
  case Nil
  then show ?case by (cases "replayLines um t i ms") auto
next
  case (Cons l ls)
  show ?case
  proof (cases "l = []")
    case True
    then show ?thesis using Cons.prems Cons.IH [of "i + 1" rs] by simp
  next
    case l: False
    show ?thesis
    proof (cases "parseStoreRecord um l")
      case None
      with Cons.prems l have c: "closedBy um l ls" and rest: "replayLines um True (i + 1) ls = Inr rs"
        by (auto split: if_splits)
      then have "ls \<noteq> []" by (auto simp: closedBy_def)
      then show ?thesis using None l c Cons.IH [OF rest] by (simp add: closedBy_append)
    next
      case (Some r)
      with Cons.prems l obtain rs' where rest: "replayLines um True (i + 1) ls = Inr rs'" and rs: "rs = r # rs'"
        by (cases "replayLines um True (i + 1) ls") auto
      show ?thesis using Some l Cons.IH [OF rest] rs by (simp add: sum.map_comp comp_def)
    qed
  qed
qed

section \<open>What every append preserves\<close>

definition lineOK :: "(StoreRecord \<Rightarrow> string) \<Rightarrow> (string \<Rightarrow> StoreRecord option) \<Rightarrow> StoreRecord \<Rightarrow> bool" where
  "lineOK enc um r \<longleftrightarrow> enc r \<noteq> [] \<and> plain (enc r) \<and> parseStoreRecord um (enc r) = Some r \<and>
     (\<forall>k < length (enc r). parseStoreRecord um (take k (enc r)) = None)"

definition residuesOK :: "(StoreRecord \<Rightarrow> string) \<Rightarrow> (string \<Rightarrow> StoreRecord option) \<Rightarrow> bool" where
  "residuesOK enc um \<longleftrightarrow> (\<forall>n > 0. lineOK enc um (residueRecord n))"

definition isResidue :: "StoreRecord \<Rightarrow> bool" where
  "isResidue r \<longleftrightarrow> rc_type r = storeLineCrashResidue"

definition content :: "StoreRecord list \<Rightarrow> StoreRecord list" where
  "content rs = filter (\<lambda>r. \<not> isResidue r) rs"

lemma content_append [simp]: "content (rs @ ss) = content rs @ content ss"
  by (simp add: content_def)

lemma residue_content [simp]: "isResidue (residueRecord n)" "content [residueRecord n] = []"
  by (simp_all add: isResidue_def content_def residueRecord_def emptyRecord_def)

text \<open>The shapes a file can have between appends: complete lines that replay on their own, and then nothing, a complete
  record without its line break, a fragment, or a fragment with its marker whose line break is missing.\<close>

definition openEnd :: "(string \<Rightarrow> StoreRecord option) \<Rightarrow> string list \<Rightarrow> StoreRecord list \<Rightarrow> bool" where
  "openEnd um P rs \<longleftrightarrow>
     (P = [] \<and> rs = []) \<or>
     (\<exists>t r. P = [t] \<and> t \<noteq> [] \<and> parseStoreRecord um t = Some r \<and> rs = [r]) \<or>
     (\<exists>t. P = [t] \<and> t \<noteq> [] \<and> parseStoreRecord um t = None \<and> rs = []) \<or>
     (\<exists>t m r. P = [t, m] \<and> t \<noteq> [] \<and> m \<noteq> [] \<and> parseStoreRecord um t = None \<and> parseStoreRecord um m = Some r \<and>
        isResidue r \<and> rc_discardedBytes r = int (length t) \<and> rs = [r])"

definition logInv :: "(string \<Rightarrow> StoreRecord option) \<Rightarrow> string \<Rightarrow> StoreRecord list \<Rightarrow> bool" where
  "logInv um f rs \<longleftrightarrow>
     (\<exists>L P rs0 rs1. f = unlines L @ joinStr [newline] P \<and> (\<forall>l \<in> set (L @ P). plain l) \<and>
        replayLines um True 0 L = Inr rs0 \<and> openEnd um P rs1 \<and> rs = rs0 @ rs1)"

lemma logInv_intro:
  "\<lbrakk>f = unlines L @ joinStr [newline] P; \<forall>l \<in> set (L @ P). plain l; replayLines um True 0 L = Inr rs0; openEnd um P rs1;
    rs = rs0 @ rs1\<rbrakk> \<Longrightarrow> logInv um f rs"
  unfolding logInv_def by blast

lemma logInv_cases:
  assumes "logInv um f rs"
  obtains (complete) L where "f = unlines L" "\<forall>l \<in> set L. plain l" "replayLines um True 0 L = Inr rs"
  | (unbroken) L t r rs0 where "f = unlines L @ t" "\<forall>l \<in> set L. plain l" "plain t" "t \<noteq> []" "parseStoreRecord um t = Some r"
      "replayLines um True 0 L = Inr rs0" "rs = rs0 @ [r]"
  | (fragment) L t where "f = unlines L @ t" "\<forall>l \<in> set L. plain l" "plain t" "t \<noteq> []" "parseStoreRecord um t = None"
      "replayLines um True 0 L = Inr rs"
  | (marked) L t m r rs0 where "f = unlines (L @ [t]) @ m" "\<forall>l \<in> set (L @ [t]). plain l" "plain m" "t \<noteq> []" "m \<noteq> []"
      "parseStoreRecord um t = None" "parseStoreRecord um m = Some r" "closedBy um t [m]"
      "replayLines um True 0 L = Inr rs0" "rs = rs0 @ [r]"
proof -
  from assms obtain L P rs0 rs1 where f: "f = unlines L @ joinStr [newline] P" and pl: "\<forall>l \<in> set (L @ P). plain l"
    and L: "replayLines um True 0 L = Inr rs0" and P: "openEnd um P rs1" and rs: "rs = rs0 @ rs1"
    unfolding logInv_def by blast
  from P consider "P = []" "rs1 = []" | t r where "P = [t]" "t \<noteq> []" "parseStoreRecord um t = Some r" "rs1 = [r]"
    | t where "P = [t]" "t \<noteq> []" "parseStoreRecord um t = None" "rs1 = []"
    | t m r where "P = [t, m]" "t \<noteq> []" "m \<noteq> []" "parseStoreRecord um t = None" "parseStoreRecord um m = Some r"
        "isResidue r" "rc_discardedBytes r = int (length t)" "rs1 = [r]"
    unfolding openEnd_def by blast
  then show thesis
  proof cases
    case 1
    then show thesis using complete [of L] f pl L rs by simp
  next
    case (2 t r)
    then show thesis using unbroken [of L t r rs0] f pl L rs by simp
  next
    case (3 t)
    then show thesis using fragment [of L t] f pl L rs by simp
  next
    case (4 t m r)
    then have "closedBy um t [m]" by (simp add: closedBy_def isResidue_def)
    then show thesis using marked [of L t m r rs0] 4 f pl L rs by simp
  qed
qed

lemma logInv_replay:
  assumes "logInv um f rs"
  shows "replayFile um f = Inr rs"
  using assms
proof (cases rule: logInv_cases)
  case (complete L)
  then show ?thesis using replayFile_text [of L "[]" um] by simp
next
  case (unbroken L t r rs0)
  then show ?thesis using replayFile_text [of L t um] replayLines_append [OF unbroken(6), of False "[t]"] by simp
next
  case (fragment L t)
  then show ?thesis using replayFile_text [of L t um] replayLines_append [OF fragment(6), of False "[t]"] by simp
next
  case (marked L t m r rs0)
  then have "replayFile um f = replayLines um False 0 (L @ [t, m])"
    using replayFile_text [of "L @ [t]" m um] by simp
  then show ?thesis using marked replayLines_append [OF marked(9), of False "[t, m]"] by simp
qed

lemma tailRepair_text:
  assumes "plain t"
  shows "tailRepair enc um (unlines L @ t) =
    (if t = [] then []
     else newline # (if parseStoreRecord um t = None then enc (residueRecord (length t)) @ [newline] else []))"
  using endsLine_text [OF assms, of L] lastLine_text [OF assms, of L] by (auto simp: tailRepair_def Let_def)

text \<open>Once the repair is written, the file is complete lines again.\<close>

lemma repair_closes:
  assumes "logInv um f rs" "residuesOK enc um"
  obtains L rs' where "f @ tailRepair enc um f = unlines L" "\<forall>l \<in> set L. plain l" "replayLines um True 0 L = Inr rs'"
    "content rs' = content rs"
  using assms(1)
proof (cases rule: logInv_cases)
  case (complete L)
  then have "tailRepair enc um f = []" using tailRepair_text [of "[]" enc um L] by simp
  with complete that [of L rs] show ?thesis by simp
next
  case (unbroken L t r rs0)
  then have "tailRepair enc um f = [newline]"
    using tailRepair_text [of t enc um L] by simp
  moreover have "replayLines um True 0 (L @ [t]) = Inr rs"
    using unbroken replayLines_append [OF unbroken(6), of True "[t]"] by simp
  ultimately show ?thesis using unbroken that [of "L @ [t]" rs] by simp
next
  case (fragment L t)
  let ?m = "enc (residueRecord (length t))"
  have m: "lineOK enc um (residueRecord (length t))" using assms(2) fragment(4) by (simp add: residuesOK_def)
  have "tailRepair enc um f = newline # ?m @ [newline]"
    using fragment tailRepair_text [of t enc um L] by simp
  moreover have "replayLines um True 0 (L @ [t, ?m]) = Inr (rs @ [residueRecord (length t)])"
    using fragment m replayLines_append [OF fragment(6), of True "[t, ?m]"]
    by (simp add: lineOK_def closedBy_def residueRecord_def emptyRecord_def)
  moreover have "\<forall>l \<in> set (L @ [t, ?m]). plain l" using fragment m by (simp add: lineOK_def)
  ultimately show ?thesis using fragment that [of "L @ [t, ?m]" "rs @ [residueRecord (length t)]"] by simp
next
  case (marked L t m r rs0)
  have f: "f = unlines (L @ [t]) @ m" by (rule marked(1))
  have "tailRepair enc um f = [newline]"
    unfolding f using marked tailRepair_text [of m enc um "L @ [t]"] by simp
  moreover have "replayLines um True 0 (L @ [t, m]) = Inr rs"
    using marked replayLines_append [OF marked(9), of True "[t, m]"] by simp
  ultimately show ?thesis using marked that [of "L @ [t, m]" rs] by simp
qed

lemma fresh_append:
  assumes "\<forall>l \<in> set L. plain l" "replayLines um True 0 L = Inr rs" "lineOK enc um r"
  shows "\<exists>rs'. logInv um (unlines L @ take k (enc r @ [newline])) rs' \<and>
    content rs' = content rs @ (if length (enc r) \<le> k then content [r] else [])"
proof -
  have r: "enc r \<noteq> []" "plain (enc r)" "parseStoreRecord um (enc r) = Some r"
    and pre: "k < length (enc r) \<Longrightarrow> parseStoreRecord um (take k (enc r)) = None"
    using assms(3) by (auto simp: lineOK_def)
  consider "k = 0" | "0 < k" "k < length (enc r)" | "k = length (enc r)" | "length (enc r) < k" by linarith
  then show ?thesis
  proof cases
    case 1
    have "logInv um (unlines L) rs"
      by (rule logInv_intro [where P = "[]" and ?rs1.0 = "[]"]) (use assms in \<open>auto simp: openEnd_def\<close>)
    with 1 r show ?thesis by auto
  next
    case 2
    have "logInv um (unlines L @ take k (enc r)) rs"
      by (rule logInv_intro [where P = "[take k (enc r)]" and ?rs1.0 = "[]"])
        (use assms 2 r pre in \<open>auto simp: openEnd_def dest: in_set_takeD\<close>)
    with 2 show ?thesis by auto
  next
    case 3
    have "logInv um (unlines L @ enc r) (rs @ [r])"
      by (rule logInv_intro [where P = "[enc r]" and ?rs1.0 = "[r]"]) (use assms r in \<open>auto simp: openEnd_def\<close>)
    with 3 show ?thesis by auto
  next
    case 4
    have "logInv um (unlines (L @ [enc r])) (rs @ [r])"
      by (rule logInv_intro [where P = "[]" and ?rs1.0 = "[]"])
        (use assms r replayLines_append [OF assms(2), of True "[enc r]"] in \<open>auto simp: openEnd_def\<close>)
    with 4 show ?thesis by auto
  qed
qed

text \<open>A write that is interrupted inside the repair is harmless only if nothing of it was written or only its last line
  break is missing.\<close>

definition safeCut :: "(StoreRecord \<Rightarrow> string) \<Rightarrow> (string \<Rightarrow> StoreRecord option) \<Rightarrow> string \<Rightarrow> nat \<Rightarrow> bool" where
  "safeCut enc um f k \<longleftrightarrow> k = 0 \<or> length (tailRepair enc um f) \<le> k + 1"

lemma append_step:
  assumes inv: "logInv um f rs" and res: "residuesOK enc um" and r: "lineOK enc um r" and safe: "safeCut enc um f k"
  shows "\<exists>rs'. logInv um (f @ take k (appendChunk enc um r f)) rs' \<and>
    content rs' = content rs @ (if length (tailRepair enc um f) + length (enc r) \<le> k then content [r] else [])"
proof (cases "length (tailRepair enc um f) \<le> k")
  case True
  obtain L rs1 where L: "f @ tailRepair enc um f = unlines L" "\<forall>l \<in> set L. plain l" "replayLines um True 0 L = Inr rs1"
    "content rs1 = content rs"
    using repair_closes [OF inv res] .
  have "f @ take k (appendChunk enc um r f) = unlines L @ take (k - length (tailRepair enc um f)) (enc r @ [newline])"
    using True by (simp add: appendChunk_def flip: L(1))
  then show ?thesis
    using fresh_append [OF L(2,3) r, of "k - length (tailRepair enc um f)"] L(4) True by (auto simp: le_diff_conv2 add.commute)
next
  case False
  have pos: "enc r \<noteq> []" using r by (simp add: lineOK_def)
  show ?thesis
  proof (cases "k = 0")
    case True
    then show ?thesis using inv pos by auto
  next
    case k: False
    with safe False have len: "length (tailRepair enc um f) = k + 1" by (simp add: safeCut_def)
    from inv show ?thesis
    proof (cases rule: logInv_cases)
      case (fragment L t)
      let ?m = "enc (residueRecord (length t))"
      have m: "lineOK enc um (residueRecord (length t))" using res fragment(4) by (simp add: residuesOK_def)
      have rep: "tailRepair enc um f = newline # ?m @ [newline]"
        using fragment tailRepair_text [of t enc um L] by simp
      have tk: "take k (appendChunk enc um r f) = newline # ?m"
      proof -
        have "k = Suc (length ?m)" using len rep by simp
        then show ?thesis by (simp add: appendChunk_def rep)
      qed
      have "logInv um (f @ newline # ?m) (rs @ [residueRecord (length t)])"
        by (rule logInv_intro [where L = L and P = "[t, ?m]" and ?rs1.0 = "[residueRecord (length t)]"])
          (use fragment m in \<open>auto simp: openEnd_def lineOK_def residueRecord_def emptyRecord_def isResidue_def\<close>)
      then show ?thesis using tk pos False by auto
    next
      case (complete L)
      then show ?thesis using len tailRepair_text [of "[]" enc um L] by simp
    next
      case (unbroken L t ra rs0)
      then show ?thesis using len k tailRepair_text [of t enc um L] by simp
    next
      case (marked L t m ra rs0)
      then show ?thesis using len k tailRepair_text [of m enc um "L @ [t]"] by simp
    qed
  qed
qed

section \<open>Runs of appends\<close>

text \<open>A run is a list of records with the outcome of their appends. A reopened store reads the file and changes nothing
  of it, so it may happen between any two of them.\<close>

type_synonym attempts = "(StoreRecord \<times> AppendOutcome) list"

fun logRun :: "(StoreRecord \<Rightarrow> string) \<Rightarrow> (string \<Rightarrow> StoreRecord option) \<Rightarrow> attempts \<Rightarrow> string \<Rightarrow> string" where
  "logRun enc um [] f = f"
| "logRun enc um ((r, w) # ats) f = logRun enc um ats (fst (appendLocked enc um w r f))"

definition written :: "(StoreRecord \<Rightarrow> string) \<Rightarrow> (string \<Rightarrow> StoreRecord option) \<Rightarrow> StoreRecord \<Rightarrow> AppendOutcome \<Rightarrow> string \<Rightarrow> nat" where
  "written enc um r w f = bytesWritten w (length (appendChunk enc um r f))"

text \<open>The records whose text reached the file in full, the ones whose append reported success, and the runs in which no
  repair is cut in its middle.\<close>

fun durable :: "(StoreRecord \<Rightarrow> string) \<Rightarrow> (string \<Rightarrow> StoreRecord option) \<Rightarrow> attempts \<Rightarrow> string \<Rightarrow> StoreRecord list" where
  "durable enc um [] f = []"
| "durable enc um ((r, w) # ats) f =
    (if length (tailRepair enc um f) + length (enc r) \<le> written enc um r w f then [r] else [])
    @ durable enc um ats (fst (appendLocked enc um w r f))"

definition acknowledged :: "attempts \<Rightarrow> StoreRecord list" where
  "acknowledged ats = map fst (filter (\<lambda>(r, w). w = AppendOK) ats)"

fun safeRun :: "(StoreRecord \<Rightarrow> string) \<Rightarrow> (string \<Rightarrow> StoreRecord option) \<Rightarrow> attempts \<Rightarrow> string \<Rightarrow> bool" where
  "safeRun enc um [] f = True"
| "safeRun enc um ((r, w) # ats) f =
    (safeCut enc um f (written enc um r w f) \<and> safeRun enc um ats (fst (appendLocked enc um w r f)))"

lemma appendLocked_file: "fst (appendLocked enc um w r f) = f @ take (written enc um r w f) (appendChunk enc um r f)"
  by (simp add: appendLocked_def written_def Let_def)

lemma logRun_inv:
  assumes "logInv um f rs" "residuesOK enc um" "\<forall>(r, w) \<in> set ats. lineOK enc um r \<and> \<not> isResidue r" "safeRun enc um ats f"
  shows "\<exists>rs'. logInv um (logRun enc um ats f) rs' \<and> content rs' = content rs @ durable enc um ats f"
  using assms
proof (induction ats arbitrary: f rs)
  case Nil
  then show ?case by auto
next
  case (Cons a ats)
  obtain r w where a: "a = (r, w)" by fastforce
  have r: "lineOK enc um r" "content [r] = [r]" using Cons.prems(3) a by (auto simp: content_def)
  obtain rs1 where rs1: "logInv um (fst (appendLocked enc um w r f)) rs1"
    "content rs1 = content rs @ (if length (tailRepair enc um f) + length (enc r) \<le> written enc um r w f then [r] else [])"
    using append_step [OF Cons.prems(1,2) r(1), of "written enc um r w f"] Cons.prems(4) a r(2)
    by (auto simp: appendLocked_file)
  show ?case
    using Cons.IH [OF rs1(1) Cons.prems(2)] Cons.prems(3,4) a rs1(2) by auto
qed

lemma acknowledged_durable: "subseq (acknowledged ats) (durable enc um ats f)"
proof (induction ats arbitrary: f)
  case (Cons a ats)
  obtain r w where a: "a = (r, w)" by fastforce
  show ?case
  proof (cases "w = AppendOK")
    case True
    then show ?thesis using Cons.IH a by (simp add: acknowledged_def written_def appendChunk_def)
  next
    case False
    then show ?thesis using Cons.IH a by (auto simp: acknowledged_def)
  qed
qed (simp add: acknowledged_def)

lemma logInv_empty: "logInv um [] []"
  by (rule logInv_intro [where L = "[]" and P = "[]"]) (auto simp: openEnd_def)

end
