(* ===== verification/Question_Store.thy ===== *)
theory Question_Store
  imports Question_Log
begin

text \<open>
  The question store (\<open>internal/autonomous/questions_store.go\<close>) and its life-cycle events (\<open>question_events.go\<close>): the
  view in memory, the record each operation appends, what the operation changes when the append succeeds, and the
  view a reopened store builds from the file.

  The mutex makes each operation one step. The clock, the id a generator proposes, the bytes it draws when that id
  is taken, and the outcome of each append are arguments, and so are the secret scan of an answer (a table of regular
  expressions), SHA-256 and \<open>strings.ToLower\<close>. The audit entries, events and change notices an operation sends are
  its last result, in the order they are sent. \<open>qs_attempts\<close> is a history of the appends since the store was opened;
  no operation reads it.
\<close>

section \<open>The view\<close>

record QuestionStore =
  qs_file :: string
  qs_questions :: "(string, Question) gomap"
  qs_answers :: "(string, Answer) gomap"
  qs_answerIDs :: "(string, string list) gomap"
  qs_eventEmitted :: "(string, bool) gomap"
  qs_withdrawMeta :: "(string, string \<times> string) gomap"
  qs_sink :: bool
  qs_attempts :: attempts

definition emptyStore :: "string \<Rightarrow> QuestionStore" where
  "emptyStore file = \<lparr>qs_file = file, qs_questions = [], qs_answers = [], qs_answerIDs = [], qs_eventEmitted = [],
     qs_withdrawMeta = [], qs_sink = False, qs_attempts = []\<rparr>"

definition questionEventKey :: "string \<Rightarrow> string \<Rightarrow> string \<Rightarrow> string" where
  "questionEventKey questionID kind answerID = questionID @ CHR 0x00 # kind @ CHR 0x00 # answerID"

definition putQuestion :: "Question \<Rightarrow> QuestionStore \<Rightarrow> QuestionStore" where
  "putQuestion q s = s\<lparr>qs_questions := mapSet (qs_questions s) (qn_id q) q\<rparr>"

definition moveQuestion :: "string \<Rightarrow> QuestionState \<Rightarrow> QuestionStore \<Rightarrow> QuestionStore" where
  "moveQuestion qid st s =
    (case mapGet (qs_questions s) qid of
       None \<Rightarrow> s
     | Some q \<Rightarrow> s\<lparr>qs_questions := mapSet (qs_questions s) qid (q\<lparr>qn_state := st\<rparr>)\<rparr>)"

definition putAnswer :: "Answer \<Rightarrow> QuestionStore \<Rightarrow> QuestionStore" where
  "putAnswer a s =
    moveQuestion (an_questionID a) QuestionAnswered
      (s\<lparr>qs_answers := mapSet (qs_answers s) (an_id a) a,
         qs_answerIDs := mapSet (qs_answerIDs s) (an_questionID a) (mapGetOr [] (qs_answerIDs s) (an_questionID a) @ [an_id a])\<rparr>)"

definition putEmitted :: "string \<Rightarrow> QuestionStore \<Rightarrow> QuestionStore" where
  "putEmitted key s = s\<lparr>qs_eventEmitted := mapSet (qs_eventEmitted s) key True\<rparr>"

definition applyRecord :: "StoreRecord \<Rightarrow> QuestionStore \<Rightarrow> QuestionStore" where
  "applyRecord r s =
    (let t = rc_type r
     in if t = storeLineQuestionRaised
        then (case rc_question r of None \<Rightarrow> s | Some q \<Rightarrow> putQuestion q s)
        else if t = storeLineQuestionUpdated
        then (case rc_question r of
                None \<Rightarrow> s
              | Some q \<Rightarrow> (case mapGet (qs_questions s) (qn_id q) of
                  None \<Rightarrow> s
                | Some have \<Rightarrow> putQuestion (q\<lparr>qn_state := qn_state have\<rparr>) s))
        else if t = storeLineAnswerRecorded
        then (case rc_answer r of None \<Rightarrow> s | Some a \<Rightarrow> putAnswer a s)
        else if t = storeLineQuestionWithdrawn
        then (let s1 = moveQuestion (rc_questionID r) QuestionWithdrawn s
              in if rc_actor r \<noteq> [] \<or> rc_reason r \<noteq> []
                 then s1\<lparr>qs_withdrawMeta := mapSet (qs_withdrawMeta s1) (rc_questionID r) (rc_actor r, rc_reason r)\<rparr> else s1)
        else if t = storeLineQuestionExpired then moveQuestion (rc_questionID r) QuestionExpired s
        else if t = storeLineQuestionEventEmitted
        then putEmitted (questionEventKey (rc_questionID r) (rc_eventKind r) (rc_answerID r)) s
        else s)"

definition NewQuestionStore :: "(string \<Rightarrow> StoreRecord option) \<Rightarrow> string \<Rightarrow> nat + QuestionStore" where
  "NewQuestionStore um file =
    (case replayFile um file of
       Inl line \<Rightarrow> Inl line
     | Inr rs \<Rightarrow> Inr (fold applyRecord rs (emptyStore file)))"

section \<open>Events\<close>

definition KindQuestionAnswered :: string where "KindQuestionAnswered = ''question.answered''"
definition KindQuestionWithdrawn :: string where "KindQuestionWithdrawn = ''question.withdrawn''"

record LifecycleEvent =
  ev_kind :: string
  ev_level :: string
  ev_prdID :: string
  ev_taskID :: string
  ev_questionID :: string
  ev_answerID :: string
  ev_sessionID :: string
  ev_details :: string

definition buildQuestionEventBase :: "Question \<Rightarrow> string \<Rightarrow> LifecycleEvent" where
  "buildQuestionEventBase q kind =
    \<lparr>ev_kind = kind, ev_level = (if qn_taskID q \<noteq> [] then ''task'' else ''prd''), ev_prdID = qn_prdID q, ev_taskID = qn_taskID q,
     ev_questionID = qn_id q, ev_answerID = [], ev_sessionID = qn_sessionID q, ev_details = []\<rparr>"

definition questionEventDetails :: "string list \<Rightarrow> string" where
  "questionEventDetails parts =
    (let s = joinStr '', '' parts in if length s > 512 then take 512 s @ [CHR 0xE2, CHR 0x80, CHR 0xA6] else s)"

definition BuildQuestionAnsweredEvent :: "Question \<Rightarrow> Answer \<Rightarrow> LifecycleEvent" where
  "BuildQuestionAnsweredEvent q a =
    (buildQuestionEventBase q KindQuestionAnswered)\<lparr>ev_answerID := an_id a,
      ev_details := questionEventDetails ([''question '' @ qn_id q @ '' answered'']
        @ (if an_chosenOptionID a \<noteq> [] then [''option '' @ an_chosenOptionID a] else [])
        @ (if an_supersedes a \<noteq> [] then [''supersedes '' @ an_supersedes a] else [])
        @ (if an_actor a \<noteq> [] then [''by '' @ an_actor a] else []))\<rparr>"

definition oneLine :: "string \<Rightarrow> string" where
  "oneLine s = map (\<lambda>c. if c = newline then CHR 0x20 else c) s"

definition BuildQuestionWithdrawnEvent :: "Question \<Rightarrow> string \<Rightarrow> string \<Rightarrow> LifecycleEvent" where
  "BuildQuestionWithdrawnEvent q actor reason =
    (buildQuestionEventBase q KindQuestionWithdrawn)\<lparr>
      ev_details := questionEventDetails ([''question '' @ qn_id q @ '' withdrawn'']
        @ (if actor \<noteq> [] then [''by '' @ oneLine actor] else [])
        @ (if reason \<noteq> [] then [''reason: '' @ oneLine reason] else []))\<rparr>"

datatype Effect = Audited string string | EventFired LifecycleEvent | ChangeNotice string Question

section \<open>Appending\<close>

type_synonym codec = "(StoreRecord \<Rightarrow> string) \<times> (string \<Rightarrow> StoreRecord option)"

definition appendRecord :: "codec \<Rightarrow> AppendOutcome \<Rightarrow> StoreRecord \<Rightarrow> QuestionStore \<Rightarrow> QuestionStore \<times> bool" where
  "appendRecord c w r s =
    (case appendLocked (fst c) (snd c) w r (qs_file s) of (f, ok) \<Rightarrow> (s\<lparr>qs_file := f, qs_attempts := qs_attempts s @ [(r, w)]\<rparr>, ok))"

definition markRecord :: "LifecycleEvent \<Rightarrow> time \<Rightarrow> StoreRecord" where
  "markRecord ev now = (emptyRecord storeLineQuestionEventEmitted)\<lparr>rc_questionID := ev_questionID ev,
     rc_answerID := ev_answerID ev, rc_eventKind := ev_kind ev, rc_at := Some now\<rparr>"

definition MarkEventEmitted :: "codec \<Rightarrow> AppendOutcome \<Rightarrow> time \<Rightarrow> LifecycleEvent \<Rightarrow> QuestionStore \<Rightarrow> QuestionStore \<times> bool" where
  "MarkEventEmitted c w now ev s =
    (case appendRecord c w (markRecord ev now) s of
       (s1, ok) \<Rightarrow> if ok then (putEmitted (questionEventKey (ev_questionID ev) (ev_kind ev) (ev_answerID ev)) s1, True)
                  else (s1, False))"

text \<open>\<open>fireQuestionEvent\<close> and the marker that follows it.\<close>

definition fireAndMark :: "codec \<Rightarrow> AppendOutcome \<Rightarrow> time \<Rightarrow> LifecycleEvent \<Rightarrow> QuestionStore \<Rightarrow> QuestionStore \<times> Effect list" where
  "fireAndMark c w now ev s =
    (if qs_sink s then (fst (MarkEventEmitted c w now ev s), [EventFired ev]) else (s, []))"

section \<open>Ids\<close>

definition unixEpoch :: time where "unixEpoch = 62135596800 * second"

definition unixNano64 :: "time \<Rightarrow> nat" where
  "unixNano64 now = nat ((now - unixEpoch) mod 2 ^ 64)"

definition defaultNewQuestionID :: "time \<Rightarrow> 8 word list \<Rightarrow> string" where
  "defaultNewQuestionID now rnd = ''q-'' @ padHex 16 (unixNano64 now) @ hexEncode rnd"

definition defaultNewAnswerID :: "time \<Rightarrow> 8 word list \<Rightarrow> string" where
  "defaultNewAnswerID now rnd = ''a-'' @ padHex 16 (unixNano64 now) @ hexEncode rnd"

text \<open>The loop of \<open>newUniqueQuestionID\<close> and \<open>newUniqueAnswerID\<close>: append a random byte until the id is free. The fuel is
  the number of ids taken and one more, which is enough since every id tried is longer than the one before.\<close>

fun extendID :: "nat \<Rightarrow> (nat \<Rightarrow> 8 word) \<Rightarrow> nat \<Rightarrow> string set \<Rightarrow> string \<Rightarrow> string" where
  "extendID 0 draw i taken qid = qid"
| "extendID (Suc n) draw i taken qid = (if qid \<in> taken then extendID n draw (i + 1) taken (qid @ hexByte (draw i)) else qid)"

definition uniqueID :: "(nat \<Rightarrow> 8 word) \<Rightarrow> string list \<Rightarrow> string \<Rightarrow> string" where
  "uniqueID draw taken qid = extendID (Suc (length taken)) draw 0 (set taken) qid"

section \<open>Operations\<close>

datatype raiseDedupe = dedupeNone | dedupeSourceLine | dedupeDecisionRecord

record OpInput =
  oi_now :: time
  oi_id :: string
  oi_draw :: "nat \<Rightarrow> 8 word"
  oi_append :: AppendOutcome
  oi_mark :: AppendOutcome

definition sourceLineMatch :: "Question \<Rightarrow> Question \<Rightarrow> bool" where
  "sourceLineMatch q have \<longleftrightarrow> qn_state have = QuestionOpen \<and> qn_sessionID have = qn_sessionID q \<and>
     qn_sourceLineSHA256 have = qn_sourceLineSHA256 q"

definition decisionMatch :: "Question \<Rightarrow> Question \<Rightarrow> bool" where
  "decisionMatch q have \<longleftrightarrow> qn_decisionRecordID have = qn_decisionRecordID q \<and> qn_state have \<in> {QuestionOpen, QuestionAnswered}"

fun oldestID :: "Question list \<Rightarrow> Question option" where
  "oldestID [] = None"
| "oldestID (q # qs) = (case oldestID qs of None \<Rightarrow> Some q | Some p \<Rightarrow> Some (if qn_id p < qn_id q then p else q))"

definition findDuplicate :: "raiseDedupe \<Rightarrow> Question \<Rightarrow> QuestionStore \<Rightarrow> Question option" where
  "findDuplicate dedupe q s =
    (let all = map snd (qs_questions s)
     in case dedupe of
          dedupeNone \<Rightarrow> None
        | dedupeSourceLine \<Rightarrow> if qn_sourceLineSHA256 q = [] then None else find (sourceLineMatch q) all
        | dedupeDecisionRecord \<Rightarrow> if qn_decisionRecordID q = [] then None else oldestID (filter (decisionMatch q) all))"

definition raiseRecord :: "Question \<Rightarrow> StoreRecord" where
  "raiseRecord q = (emptyRecord storeLineQuestionRaised)\<lparr>rc_question := Some q\<rparr>"

definition raise :: "codec \<Rightarrow> OpInput \<Rightarrow> raiseDedupe \<Rightarrow> Question \<Rightarrow> QuestionStore \<Rightarrow>
    QuestionStore \<times> (AnswerError + Question \<times> bool) \<times> Effect list" where
  "raise c oi dedupe q0 s =
    (case ValidateNewQuestion q0 of
       Inl ps \<Rightarrow> (s, Inl (ErrInvalidQuestion ps), [])
     | Inr q1 \<Rightarrow>
        (case findDuplicate dedupe q1 s of
           Some dup \<Rightarrow> (s, Inr (dup, False), [])
         | None \<Rightarrow>
            (let q = q1\<lparr>qn_id := uniqueID (oi_draw oi) (mapKeys (qs_questions s)) (oi_id oi),
                        qn_createdAt := Some (oi_now oi), qn_state := QuestionOpen\<rparr>
             in case appendRecord c (oi_append oi) (raiseRecord q) s of
                  (s1, False) \<Rightarrow> (s1, Inl ErrAppend, [])
                | (s1, True) \<Rightarrow>
                    (putQuestion q s1, Inr (q, True), [Audited ''question_raised'' (qn_id q), ChangeNotice ''raised'' q]))))"

definition currentAnswerID :: "string \<Rightarrow> QuestionStore \<Rightarrow> string" where
  "currentAnswerID qid s = (let ids = mapGetOr [] (qs_answerIDs s) qid in if ids = [] then [] else last ids)"

definition answerRecord :: "Answer \<Rightarrow> StoreRecord" where
  "answerRecord a = (emptyRecord storeLineAnswerRecorded)\<lparr>rc_answer := Some a\<rparr>"

definition AnswerQuestion :: "codec \<Rightarrow> (string \<Rightarrow> string option) \<Rightarrow> (string \<Rightarrow> string) \<Rightarrow> OpInput \<Rightarrow> string \<Rightarrow> Answer \<Rightarrow> QuestionStore \<Rightarrow>
    QuestionStore \<times> (AnswerError + Answer) \<times> Effect list" where
  "AnswerQuestion c scan sha oi qid a0 s =
    (case scan (an_quote a0) of
       Some pat \<Rightarrow> (s, Inl (ErrSecretInAnswer pat), [Audited ''question_answer_refused'' qid])
     | None \<Rightarrow>
        if \<not> validUTF8 (an_quote a0) then (s, Inl ErrQuoteNotUTF8, [])
        else case mapGet (qs_questions s) qid of
               None \<Rightarrow> (s, Inl ErrQuestionNotFound, [])
             | Some q \<Rightarrow>
                (case CheckAnswerAllowed (qn_state q) (currentAnswerID qid s) a0 (qn_options q) of
                   Some e \<Rightarrow> (s, Inl e, [])
                 | None \<Rightarrow>
                    (let a = a0\<lparr>an_questionID := qid, an_id := uniqueID (oi_draw oi) (mapKeys (qs_answers s)) (oi_id oi),
                               an_createdAt := Some (oi_now oi),
                               an_quoteSHA256 := (if an_quote a0 \<noteq> [] then sha (an_quote a0) else an_quoteSHA256 a0)\<rparr>
                     in case appendRecord c (oi_append oi) (answerRecord a) s of
                          (s1, False) \<Rightarrow> (s1, Inl ErrAppend, [])
                        | (s1, True) \<Rightarrow>
                           (case fireAndMark c (oi_mark oi) (oi_now oi) (BuildQuestionAnsweredEvent q a) (putAnswer a s1) of
                              (s2, evs) \<Rightarrow>
                                (s2, Inr a, [Audited (if an_supersedes a \<noteq> [] then ''answer_superseded'' else ''question_answered'') qid]
                                   @ evs @ [ChangeNotice ''answered'' (q\<lparr>qn_state := QuestionAnswered\<rparr>)])))))"

definition stateRecord :: "string \<Rightarrow> string \<Rightarrow> string \<Rightarrow> string \<Rightarrow> time \<Rightarrow> StoreRecord" where
  "stateRecord lineType qid actor reason now = (emptyRecord lineType)\<lparr>rc_questionID := qid, rc_actor := actor, rc_reason := reason, rc_at := Some now\<rparr>"

definition mutateState :: "codec \<Rightarrow> OpInput \<Rightarrow> string \<Rightarrow> string \<Rightarrow> string \<Rightarrow> string \<Rightarrow> QuestionState \<Rightarrow> QuestionStore \<Rightarrow>
    QuestionStore \<times> (AnswerError + Question)" where
  "mutateState c oi qid lineType actor reason st s =
    (case mapGet (qs_questions s) qid of
       None \<Rightarrow> (s, Inl ErrQuestionNotFound)
     | Some q \<Rightarrow>
        if qn_state q \<noteq> QuestionOpen then (s, Inl ErrQuestionNotOpen)
        else case appendRecord c (oi_append oi) (stateRecord lineType qid actor reason (oi_now oi)) s of
               (s1, False) \<Rightarrow> (s1, Inl ErrAppend)
             | (s1, True) \<Rightarrow> (moveQuestion qid st s1, Inr (q\<lparr>qn_state := st\<rparr>)))"

definition Withdraw :: "codec \<Rightarrow> OpInput \<Rightarrow> string \<Rightarrow> string \<Rightarrow> string \<Rightarrow> QuestionStore \<Rightarrow>
    QuestionStore \<times> (AnswerError + Question) \<times> Effect list" where
  "Withdraw c oi qid actor reason s =
    (case mutateState c oi qid storeLineQuestionWithdrawn actor reason QuestionWithdrawn s of
       (s1, Inl e) \<Rightarrow> (s1, Inl e, [])
     | (s1, Inr q) \<Rightarrow>
        (case fireAndMark c (oi_mark oi) (oi_now oi) (BuildQuestionWithdrawnEvent q actor reason) s1 of
           (s2, evs) \<Rightarrow> (s2, Inr q, [Audited ''question_withdrawn'' qid] @ evs @ [ChangeNotice ''withdrawn'' q])))"

definition Expire :: "codec \<Rightarrow> OpInput \<Rightarrow> string \<Rightarrow> string \<Rightarrow> QuestionStore \<Rightarrow> QuestionStore \<times> (AnswerError + Question) \<times> Effect list" where
  "Expire c oi qid reason s =
    (case mutateState c oi qid storeLineQuestionExpired [] reason QuestionExpired s of
       (s1, Inl e) \<Rightarrow> (s1, Inl e, [])
     | (s1, Inr q) \<Rightarrow> (s1, Inr q, [Audited ''question_expired'' qid, ChangeNotice ''expired'' q]))"

record QuestionPatch =
  pt_label :: "string option"
  pt_text :: "string option"
  pt_options :: "QuestionOption list option"
  pt_recommendation :: "QuestionRecommendation option"
  pt_default :: "string option"
  pt_prdID :: "string option"
  pt_taskID :: "string option"
  pt_proposalPath :: "string option"
  pt_registryRowKey :: "string option"
  pt_context :: "string option"

definition orKeep :: "'a option \<Rightarrow> 'a \<Rightarrow> 'a" where
  "orKeep x y = (case x of None \<Rightarrow> y | Some v \<Rightarrow> v)"

definition applyQuestionPatch :: "QuestionPatch \<Rightarrow> Question \<Rightarrow> Question" where
  "applyQuestionPatch p q =
    q\<lparr>qn_label := orKeep (pt_label p) (qn_label q), qn_text := orKeep (pt_text p) (qn_text q),
      qn_options := orKeep (pt_options p) (qn_options q),
      qn_recommendation := (case pt_recommendation p of
         None \<Rightarrow> qn_recommendation q
       | Some r \<Rightarrow> if r = \<lparr>re_optionID = [], re_rationale = []\<rparr> then None else Some r),
      qn_default := orKeep (pt_default p) (qn_default q), qn_prdID := orKeep (pt_prdID p) (qn_prdID q),
      qn_taskID := orKeep (pt_taskID p) (qn_taskID q), qn_proposalPath := orKeep (pt_proposalPath p) (qn_proposalPath q),
      qn_registryRowKey := orKeep (pt_registryRowKey p) (qn_registryRowKey q), qn_context := orKeep (pt_context p) (qn_context q)\<rparr>"

definition changedQuestionFields :: "Question \<Rightarrow> Question \<Rightarrow> string list" where
  "changedQuestionFields a b =
    (if qn_label a \<noteq> qn_label b then [''label''] else []) @ (if qn_text a \<noteq> qn_text b then [''text''] else [])
    @ (if qn_options a \<noteq> qn_options b then [''options''] else [])
    @ (if qn_recommendation a \<noteq> qn_recommendation b then [''recommendation''] else [])
    @ (if qn_default a \<noteq> qn_default b then [''default''] else []) @ (if qn_context a \<noteq> qn_context b then [''context''] else [])
    @ (if qn_prdID a \<noteq> qn_prdID b then [''prd_id''] else []) @ (if qn_taskID a \<noteq> qn_taskID b then [''task_id''] else [])
    @ (if qn_proposalPath a \<noteq> qn_proposalPath b then [''proposal_path''] else [])
    @ (if qn_registryRowKey a \<noteq> qn_registryRowKey b then [''registry_row_key''] else [])"

definition updateRecord :: "Question \<Rightarrow> string \<Rightarrow> string \<Rightarrow> time \<Rightarrow> StoreRecord" where
  "updateRecord q qid actor now = (emptyRecord storeLineQuestionUpdated)\<lparr>rc_question := Some q, rc_questionID := qid, rc_actor := actor, rc_at := Some now\<rparr>"

definition Update :: "codec \<Rightarrow> OpInput \<Rightarrow> string \<Rightarrow> QuestionPatch \<Rightarrow> string \<Rightarrow> QuestionStore \<Rightarrow> QuestionStore \<times> (AnswerError + Question) \<times> Effect list" where
  "Update c oi qid patch actor s =
    (case mapGet (qs_questions s) qid of
       None \<Rightarrow> (s, Inl ErrQuestionNotFound, [])
     | Some q \<Rightarrow>
        if qn_state q \<noteq> QuestionOpen then (s, Inl ErrQuestionNotOpen, [])
        else case ValidateNewQuestion (applyQuestionPatch patch q) of
               Inl ps \<Rightarrow> (s, Inl (ErrInvalidQuestion ps), [])
             | Inr u \<Rightarrow>
                if changedQuestionFields q u = [] then (s, Inr q, [])
                else case appendRecord c (oi_append oi) (updateRecord u qid actor (oi_now oi)) s of
                       (s1, False) \<Rightarrow> (s1, Inl ErrAppend, [])
                     | (s1, True) \<Rightarrow> (s1\<lparr>qs_questions := mapSet (qs_questions s1) qid u\<rparr>, Inr u, [Audited ''question_updated'' qid, ChangeNotice ''updated'' u]))"

section \<open>Queries and the event switch\<close>

definition GetQuestion :: "string \<Rightarrow> QuestionStore \<Rightarrow> Question option" where
  "GetQuestion qid s = mapGet (qs_questions s) qid"

record QuestionFilter =
  qf_state :: "QuestionState option"
  qf_context :: string
  qf_asker :: string
  qf_prdID :: string
  qf_text :: string
  qf_limit :: int

fun containsStr :: "string \<Rightarrow> string \<Rightarrow> bool" where
  "containsStr [] sub = (sub = [])"
| "containsStr (c # s) sub = (hasPrefix (c # s) sub \<or> containsStr s sub)"

definition textHaystack :: "(string \<Rightarrow> string) \<Rightarrow> QuestionStore \<Rightarrow> Question \<Rightarrow> string" where
  "textHaystack lower s q =
    lower (qn_text q @ concat (map (\<lambda>opt. op_label opt @ op_tradeoffs opt) (qn_options q))
      @ concat (map (\<lambda>qid. case mapGet (qs_answers s) qid of None \<Rightarrow> [] | Some a \<Rightarrow> an_quote a) (mapGetOr [] (qs_answerIDs s) (qn_id q))))"

definition filterMatches :: "(string \<Rightarrow> string) \<Rightarrow> QuestionFilter \<Rightarrow> QuestionStore \<Rightarrow> Question \<Rightarrow> bool" where
  "filterMatches lower f s q \<longleftrightarrow>
     (case qf_state f of None \<Rightarrow> True | Some st \<Rightarrow> qn_state q = st) \<and>
     (qf_context f = [] \<or> qn_context q = qf_context f) \<and> (qf_asker f = [] \<or> qn_askedBy q = qf_asker f) \<and>
     (qf_prdID f = [] \<or> qn_prdID q = qf_prdID f) \<and>
     (lower (qf_text f) = [] \<or> containsStr (textHaystack lower s q) (lower (qf_text f)))"

definition newerQuestion :: "Question \<Rightarrow> Question \<Rightarrow> bool" where
  "newerQuestion a b =
    (case (qn_createdAt a, qn_createdAt b) of
       (Some x, Some y) \<Rightarrow> if x \<noteq> y then x > y else qn_id a > qn_id b
     | _ \<Rightarrow> qn_id a > qn_id b)"

definition ListQuestions :: "(string \<Rightarrow> string) \<Rightarrow> QuestionFilter \<Rightarrow> QuestionStore \<Rightarrow> Question list" where
  "ListQuestions lower f s =
    (let limit0 = (if qf_limit f \<le> 0 then 100 else qf_limit f); limit = min limit0 1000
     in take (nat limit) (sortSliceStable newerQuestion (filter (filterMatches lower f s) (map snd (qs_questions s)))))"

record AnswerView =
  av_answer :: Answer
  av_superseded :: bool
  av_supersededBy :: string

fun answerViews :: "(string, Answer) gomap \<Rightarrow> string list \<Rightarrow> AnswerView list" where
  "answerViews as [] = []"
| "answerViews as (qid # later) =
    (case mapGet as qid of
       None \<Rightarrow> answerViews as later
     | Some a \<Rightarrow>
        (case find (\<lambda>l. case mapGet as l of None \<Rightarrow> False | Some la \<Rightarrow> an_supersedes la = an_id a) later of
           None \<Rightarrow> \<lparr>av_answer = a, av_superseded = False, av_supersededBy = []\<rparr>
         | Some l \<Rightarrow> \<lparr>av_answer = a, av_superseded = True, av_supersededBy = l\<rparr>) # answerViews as later)"

definition Answers :: "string \<Rightarrow> QuestionStore \<Rightarrow> AnswerView list option" where
  "Answers qid s = (if \<not> mapHas (qs_questions s) qid then None else Some (answerViews (qs_answers s) (mapGetOr [] (qs_answerIDs s) qid)))"

definition CurrentAnswer :: "string \<Rightarrow> QuestionStore \<Rightarrow> Answer option" where
  "CurrentAnswer qid s = (let ids = mapGetOr [] (qs_answerIDs s) qid in if ids = [] then None else mapGet (qs_answers s) (last ids))"

definition AnswerCount :: "string \<Rightarrow> QuestionStore \<Rightarrow> int" where
  "AnswerCount qid s = int (length (mapGetOr [] (qs_answerIDs s) qid))"

definition pendingEvent :: "QuestionStore \<Rightarrow> string \<times> Question \<Rightarrow> (string \<times> LifecycleEvent) list" where
  "pendingEvent s = (\<lambda>(qid, q).
    (case qn_state q of
       QuestionAnswered \<Rightarrow>
         (let ids = mapGetOr [] (qs_answerIDs s) qid
          in if ids = [] then []
             else if mapHas (qs_eventEmitted s) (questionEventKey qid KindQuestionAnswered (last ids)) then []
             else case mapGet (qs_answers s) (last ids) of None \<Rightarrow> [] | Some a \<Rightarrow> [(qid, BuildQuestionAnsweredEvent q a)])
     | QuestionWithdrawn \<Rightarrow>
         (if mapHas (qs_eventEmitted s) (questionEventKey qid KindQuestionWithdrawn []) then []
          else case mapGetOr ([], []) (qs_withdrawMeta s) qid of (actor, reason) \<Rightarrow> [(qid, BuildQuestionWithdrawnEvent q actor reason)])
     | _ \<Rightarrow> []))"

definition ReconcileEmittedEvents :: "QuestionStore \<Rightarrow> LifecycleEvent list" where
  "ReconcileEmittedEvents s = map snd (sortSliceStable (\<lambda>a b. fst a < fst b) (concat (map (pendingEvent s) (qs_questions s))))"

fun emitAll :: "codec \<Rightarrow> time \<Rightarrow> (LifecycleEvent \<times> AppendOutcome) list \<Rightarrow> QuestionStore \<Rightarrow> QuestionStore \<times> Effect list" where
  "emitAll c now [] s = (s, [])"
| "emitAll c now ((ev, w) # evs) s =
    (case emitAll c now evs (fst (MarkEventEmitted c w now ev s)) of (s2, effs) \<Rightarrow> (s2, EventFired ev # effs))"

definition ApplyEventSwitch :: "codec \<Rightarrow> bool \<Rightarrow> time \<Rightarrow> (nat \<Rightarrow> AppendOutcome) \<Rightarrow> QuestionStore \<Rightarrow> QuestionStore \<times> Effect list" where
  "ApplyEventSwitch c enabled now ws s =
    (if \<not> enabled then (s\<lparr>qs_sink := False\<rparr>, [])
     else let s1 = s\<lparr>qs_sink := True\<rparr>; evs = ReconcileEmittedEvents s1
          in emitAll c now (zip evs (map ws [0..<length evs])) s1)"

end
