(* ===== verification/Question_Properties.thy ===== *)
theory Question_Properties
  imports Question_Store
begin

text \<open>
  What the question store guarantees: a reopened store has exactly the records that reached the file, an operation
  that reports success is among them, and the states of a question and its answers follow their rules in every
  reachable store.
\<close>

section \<open>The view is the fold of the acknowledged records\<close>

definition sameView :: "QuestionStore \<Rightarrow> QuestionStore \<Rightarrow> bool" where
  "sameView s t \<longleftrightarrow> qs_questions s = qs_questions t \<and> qs_answers s = qs_answers t \<and> qs_answerIDs s = qs_answerIDs t \<and>
     qs_eventEmitted s = qs_eventEmitted t"

lemma sameView_refl [simp]: "sameView s s"
  by (simp add: sameView_def)

lemma sameView_sym: "sameView s t \<Longrightarrow> sameView t s"
  by (simp add: sameView_def)

lemma sameView_trans: "sameView s t \<Longrightarrow> sameView t u \<Longrightarrow> sameView s u"
  by (simp add: sameView_def)

lemma moveQuestion_view: "sameView s t \<Longrightarrow> sameView (moveQuestion k st s) (moveQuestion k st t)"
  by (simp add: sameView_def moveQuestion_def split: option.split)

lemma applyRecord_view: "sameView s t \<Longrightarrow> sameView (applyRecord r s) (applyRecord r t)"
  by (auto simp: applyRecord_def sameView_def putQuestion_def putAnswer_def putEmitted_def moveQuestion_def Let_def
      split: option.split)

lemma fold_applyRecord_view: "sameView s t \<Longrightarrow> sameView (fold applyRecord rs s) (fold applyRecord rs t)"
  by (induction rs arbitrary: s t) (auto simp: applyRecord_view)

lemma applyRecord_residue: "isResidue r \<Longrightarrow> applyRecord r s = s"
  by (simp add: isResidue_def applyRecord_def storeLine_defs)

lemma fold_content: "fold applyRecord (content rs) s = fold applyRecord rs s"
  by (induction rs arbitrary: s) (auto simp: content_def applyRecord_residue)

lemma logRun_append: "logRun enc um (as @ bs) f = logRun enc um bs (logRun enc um as f)"
  by (induction enc um as f rule: logRun.induct) auto

lemma acknowledged_append [simp]: "acknowledged (as @ bs) = acknowledged as @ acknowledged bs"
  by (simp add: acknowledged_def)

text \<open>\<open>extends c s s'\<close>: between \<open>s\<close> and \<open>s'\<close> the file grew by the new attempts and the view by the records of those that
  succeeded.\<close>

definition extends :: "codec \<Rightarrow> QuestionStore \<Rightarrow> QuestionStore \<Rightarrow> bool" where
  "extends c s s' \<longleftrightarrow> (\<exists>ats. qs_attempts s' = qs_attempts s @ ats \<and> qs_file s' = logRun (fst c) (snd c) ats (qs_file s) \<and>
     sameView s' (fold applyRecord (acknowledged ats) s))"

lemma extends_refl [simp]: "extends c s s"
  unfolding extends_def by (rule exI [of _ "[]"]) (simp add: acknowledged_def)

lemma extends_trans:
  assumes "extends c s t" "extends c t u"
  shows "extends c s u"
proof -
  obtain as bs where as: "qs_attempts t = qs_attempts s @ as" "qs_file t = logRun (fst c) (snd c) as (qs_file s)"
      "sameView t (fold applyRecord (acknowledged as) s)"
    and bs: "qs_attempts u = qs_attempts t @ bs" "qs_file u = logRun (fst c) (snd c) bs (qs_file t)"
      "sameView u (fold applyRecord (acknowledged bs) t)"
    using assms unfolding extends_def by blast
  have "sameView u (fold applyRecord (acknowledged (as @ bs)) s)"
    using sameView_trans [OF bs(3) fold_applyRecord_view [OF as(3)]] by simp
  then show ?thesis unfolding extends_def using as bs by (intro exI [of _ "as @ bs"]) (simp add: logRun_append)
qed

lemma appendRecord_fields:
  assumes "appendRecord c w r s = (s1, ok)"
  shows "ok = (w = AppendOK)" "qs_attempts s1 = qs_attempts s @ [(r, w)]"
    "qs_file s1 = logRun (fst c) (snd c) [(r, w)] (qs_file s)" "sameView s1 s"
    "qs_questions s1 = qs_questions s" "qs_answers s1 = qs_answers s" "qs_answerIDs s1 = qs_answerIDs s"
    "qs_eventEmitted s1 = qs_eventEmitted s" "qs_sink s1 = qs_sink s" "qs_withdrawMeta s1 = qs_withdrawMeta s"
  using assms by (auto simp: appendRecord_def appendLocked_def Let_def sameView_def)

lemma append_failed_extends: "appendRecord c w r s = (s1, False) \<Longrightarrow> extends c s s1"
  unfolding extends_def using appendRecord_fields [of c w r s s1 False]
  by (intro exI [of _ "[(r, w)]"]) (auto simp: acknowledged_def)

lemma append_done_extends:
  assumes "appendRecord c w r s = (s1, True)" "sameView s2 (applyRecord r s)"
    "qs_attempts s2 = qs_attempts s1" "qs_file s2 = qs_file s1"
  shows "extends c s s2"
  unfolding extends_def using assms appendRecord_fields [OF assms(1)]
  by (intro exI [of _ "[(r, w)]"]) (auto simp: acknowledged_def)

lemma MarkEventEmitted_extends: "extends c s (fst (MarkEventEmitted c w now ev s))"
proof -
  obtain s1 ok where a: "appendRecord c w (markRecord ev now) s = (s1, ok)" by fastforce
  show ?thesis
  proof (cases ok)
    case True
    with a have "appendRecord c w (markRecord ev now) s = (s1, True)" by simp
    from append_done_extends [OF this, of "putEmitted (questionEventKey (ev_questionID ev) (ev_kind ev) (ev_answerID ev)) s1"]
    show ?thesis
      using a True appendRecord_fields(4) [OF a]
      by (simp add: MarkEventEmitted_def applyRecord_def markRecord_def emptyRecord_def storeLine_defs putEmitted_def sameView_def)
  next
    case False
    with a append_failed_extends show ?thesis by (simp add: MarkEventEmitted_def)
  qed
qed

lemma fireAndMark_extends: "extends c s (fst (fireAndMark c w now ev s))"
  by (simp add: fireAndMark_def MarkEventEmitted_extends)

lemma emitAll_extends: "extends c s (fst (emitAll c now evs s))"
proof (induction evs arbitrary: s)
  case (Cons e evs)
  obtain ev w where "e = (ev, w)" by fastforce
  then show ?case
    using extends_trans [OF MarkEventEmitted_extends Cons.IH] by (simp add: case_prod_beta)
qed simp

section \<open>Steps of a store\<close>

datatype StoreOp =
    OpRaise OpInput raiseDedupe Question
  | OpAnswer OpInput string Answer
  | OpWithdraw OpInput string string string
  | OpExpire OpInput string string
  | OpUpdate OpInput string QuestionPatch string
  | OpSwitch bool time "nat \<Rightarrow> AppendOutcome"

fun runStoreOp :: "codec \<Rightarrow> (string \<Rightarrow> string option) \<Rightarrow> (string \<Rightarrow> string) \<Rightarrow> StoreOp \<Rightarrow> QuestionStore \<Rightarrow> QuestionStore" where
  "runStoreOp c scan sha (OpRaise oi dedupe q) s = fst (raise c oi dedupe q s)"
| "runStoreOp c scan sha (OpAnswer oi k a) s = fst (AnswerQuestion c scan sha oi k a s)"
| "runStoreOp c scan sha (OpWithdraw oi k actor reason) s = fst (Withdraw c oi k actor reason s)"
| "runStoreOp c scan sha (OpExpire oi k reason) s = fst (Expire c oi k reason s)"
| "runStoreOp c scan sha (OpUpdate oi k patch actor) s = fst (Update c oi k patch actor s)"
| "runStoreOp c scan sha (OpSwitch on now ws) s = fst (ApplyEventSwitch c on now ws s)"

definition keysOK :: "QuestionStore \<Rightarrow> bool" where
  "keysOK s \<longleftrightarrow> (\<forall>k q. mapGet (qs_questions s) k = Some q \<longrightarrow> qn_id q = k)"

lemma keysOK_get: "keysOK s \<Longrightarrow> mapGet (qs_questions s) k = Some q \<Longrightarrow> qn_id q = k"
  by (simp add: keysOK_def)

lemma raise_extends: "extends c s (fst (raise c oi dd q s))"
proof (cases "ValidateNewQuestion q")
  case (Inr q1)
  show ?thesis
  proof (cases "findDuplicate dd q1 s")
    case None
    let ?q = "q1\<lparr>qn_id := uniqueID (oi_draw oi) (mapKeys (qs_questions s)) (oi_id oi), qn_createdAt := Some (oi_now oi), qn_state := QuestionOpen\<rparr>"
    obtain s1 ok where a: "appendRecord c (oi_append oi) (raiseRecord ?q) s = (s1, ok)" by fastforce
    have r: "fst (raise c oi dd q s) = (if ok then putQuestion ?q s1 else s1)"
      using Inr None a by (simp add: raise_def Let_def)
    show ?thesis
    proof (cases ok)
      case True
      with a have a1: "appendRecord c (oi_append oi) (raiseRecord ?q) s = (s1, True)" by simp
      have "extends c s (putQuestion ?q s1)"
        by (rule append_done_extends [OF a1])
          (use appendRecord_fields [OF a1] in \<open>simp_all add: applyRecord_def raiseRecord_def emptyRecord_def putQuestion_def sameView_def\<close>)
      with r True show ?thesis by simp
    next
      case False
      with a append_failed_extends r show ?thesis by simp
    qed
  qed (simp add: raise_def Inr)
qed (simp add: raise_def)

lemma Answer_extends: "extends c s (fst (AnswerQuestion c scan sha oi k a0 s))"
proof (cases "scan (an_quote a0) = None \<and> validUTF8 (an_quote a0)")
  case ok: True
  show ?thesis
  proof (cases "mapGet (qs_questions s) k")
    case (Some q)
    show ?thesis
    proof (cases "CheckAnswerAllowed (qn_state q) (currentAnswerID k s) a0 (qn_options q)")
      case None
      let ?a = "a0\<lparr>an_questionID := k, an_id := uniqueID (oi_draw oi) (mapKeys (qs_answers s)) (oi_id oi), an_createdAt := Some (oi_now oi),
        an_quoteSHA256 := (if an_quote a0 \<noteq> [] then sha (an_quote a0) else an_quoteSHA256 a0)\<rparr>"
      let ?fire = "fireAndMark c (oi_mark oi) (oi_now oi) (BuildQuestionAnsweredEvent q ?a)"
      obtain s1 fin where a: "appendRecord c (oi_append oi) (answerRecord ?a) s = (s1, fin)" by fastforce
      have r: "fst (AnswerQuestion c scan sha oi k a0 s) = (if fin then fst (?fire (putAnswer ?a s1)) else s1)"
        using ok Some None a by (simp add: AnswerQuestion_def Let_def case_prod_beta)
      show ?thesis
      proof (cases fin)
        case True
        with a have a1: "appendRecord c (oi_append oi) (answerRecord ?a) s = (s1, True)" by simp
        have "extends c s (putAnswer ?a s1)"
          by (rule append_done_extends [OF a1])
            (use appendRecord_fields [OF a1] in \<open>simp_all add: applyRecord_def answerRecord_def emptyRecord_def putAnswer_def moveQuestion_def
              storeLine_defs sameView_def split: option.split\<close>)
        with r True show ?thesis using extends_trans [OF _ fireAndMark_extends] by simp
      next
        case False
        with a append_failed_extends r show ?thesis by simp
      qed
    qed (use ok Some in \<open>simp add: AnswerQuestion_def\<close>)
  qed (use ok in \<open>simp add: AnswerQuestion_def\<close>)
qed (auto simp: AnswerQuestion_def split: option.split)

lemma mutateState_extends:
  assumes "lt = storeLineQuestionWithdrawn \<and> st = QuestionWithdrawn \<or> lt = storeLineQuestionExpired \<and> st = QuestionExpired"
  shows "extends c s (fst (mutateState c oi k lt actor reason st s))"
proof (cases "mapGet (qs_questions s) k")
  case (Some q)
  obtain s1 ok where a: "appendRecord c (oi_append oi) (stateRecord lt k actor reason (oi_now oi)) s = (s1, ok)" by fastforce
  show ?thesis
  proof (cases "qn_state q = QuestionOpen \<and> ok")
    case True
    with a have a1: "appendRecord c (oi_append oi) (stateRecord lt k actor reason (oi_now oi)) s = (s1, True)" by simp
    have "extends c s (moveQuestion k st s1)"
      by (rule append_done_extends [OF a1])
        (use assms appendRecord_fields [OF a1] in \<open>auto simp: applyRecord_def stateRecord_def emptyRecord_def moveQuestion_def
          storeLine_defs sameView_def Let_def split: option.split\<close>)
    with Some True a show ?thesis by (simp add: mutateState_def)
  next
    case False
    with a Some show ?thesis by (auto simp: mutateState_def intro: append_failed_extends)
  qed
qed (simp add: mutateState_def)

lemma Withdraw_extends: "extends c s (fst (Withdraw c oi k actor reason s))"
proof -
  have m: "extends c s (fst (mutateState c oi k storeLineQuestionWithdrawn actor reason QuestionWithdrawn s))"
    by (rule mutateState_extends) simp
  then show ?thesis
    using extends_trans [OF m fireAndMark_extends] by (auto simp: Withdraw_def case_prod_beta split: prod.split sum.split)
qed

lemma Expire_extends: "extends c s (fst (Expire c oi k reason s))"
  using mutateState_extends [of storeLineQuestionExpired QuestionExpired c s oi k "[]" reason]
  by (auto simp: Expire_def split: prod.split sum.split)

lemma ValidateNewQuestion_keeps:
  "ValidateNewQuestion q = Inr u \<Longrightarrow> qn_id u = qn_id q \<and> qn_state u = qn_state q \<and> qn_options u = qn_options q"
  by (auto simp: ValidateNewQuestion_def split: if_splits)

lemma patch_keeps: "qn_id (applyQuestionPatch p q) = qn_id q" "qn_state (applyQuestionPatch p q) = qn_state q"
  by (simp_all add: applyQuestionPatch_def)

lemma Update_extends:
  assumes "keysOK s"
  shows "extends c s (fst (Update c oi k patch actor s))"
proof (cases "mapGet (qs_questions s) k")
  case q: (Some q)
  show ?thesis
  proof (cases "ValidateNewQuestion (applyQuestionPatch patch q)")
    case u: (Inr u)
    obtain s1 ok where a: "appendRecord c (oi_append oi) (updateRecord u k actor (oi_now oi)) s = (s1, ok)" by fastforce
    show ?thesis
    proof (cases "qn_state q = QuestionOpen \<and> changedQuestionFields q u \<noteq> [] \<and> ok")
      case True
      with a have a1: "appendRecord c (oi_append oi) (updateRecord u k actor (oi_now oi)) s = (s1, True)" by simp
      have uk: "qn_id u = k" "qn_state u = qn_state q"
        using ValidateNewQuestion_keeps [OF u] keysOK_get [OF assms q] by (simp_all add: patch_keeps)
      then have same: "u\<lparr>qn_state := qn_state q\<rparr> = u" by simp
      have "applyRecord (updateRecord u k actor (oi_now oi)) s = putQuestion (u\<lparr>qn_state := qn_state q\<rparr>) s"
        using q uk(1) by (simp add: applyRecord_def updateRecord_def emptyRecord_def storeLine_defs)
      then have applied: "applyRecord (updateRecord u k actor (oi_now oi)) s = putQuestion u s" by (simp only: same)
      have "extends c s (s1\<lparr>qs_questions := mapSet (qs_questions s1) k u\<rparr>)"
        by (rule append_done_extends [OF a1])
          (use appendRecord_fields [OF a1] uk in \<open>simp_all add: applied putQuestion_def sameView_def\<close>)
      with q u True a show ?thesis by (simp add: Update_def)
    next
      case False
      with a q u show ?thesis by (auto simp: Update_def intro: append_failed_extends)
    qed
  qed (use q in \<open>simp add: Update_def\<close>)
qed (simp add: Update_def)

lemma extends_sink: "extends c (s\<lparr>qs_sink := b\<rparr>) t \<Longrightarrow> extends c s t"
proof -
  assume "extends c (s\<lparr>qs_sink := b\<rparr>) t"
  moreover have "extends c s (s\<lparr>qs_sink := b\<rparr>)"
    unfolding extends_def by (rule exI [of _ "[]"]) (simp add: acknowledged_def sameView_def)
  ultimately show ?thesis using extends_trans by blast
qed

lemma runStoreOp_extends: "keysOK s \<Longrightarrow> extends c s (runStoreOp c scan sha op s)"
  by (cases op)
    (auto simp: raise_extends Answer_extends Withdraw_extends Expire_extends Update_extends ApplyEventSwitch_def Let_def
      intro: extends_sink [OF emitAll_extends] extends_sink [OF extends_refl])

section \<open>Fresh ids\<close>

lemma extendID_taken:
  assumes "finite T" "extendID n draw i T k \<in> T"
  shows "n < card {x \<in> T. length k \<le> length x}"
  using assms(2)
proof (induction n arbitrary: i k)
  case 0
  then have "k \<in> {x \<in> T. length k \<le> length x}" by simp
  then have "{x \<in> T. length k \<le> length x} \<noteq> {}" by blast
  then show ?case using assms(1) by (simp add: card_gt_0_iff)
next
  case (Suc n)
  then have k: "k \<in> T" and rest: "extendID n draw (i + 1) T (k @ hexByte (draw i)) \<in> T" by (auto split: if_splits)
  let ?A = "{x \<in> T. length (k @ hexByte (draw i)) \<le> length x}" and ?B = "{x \<in> T. length k \<le> length x}"
  have sub: "insert k ?A \<subseteq> ?B" "k \<notin> ?A" using k by (auto simp: hexByte_def)
  then have "Suc (card ?A) \<le> card ?B"
    using assms(1) card_mono [OF _ sub(1)] by (simp add: card_insert_disjoint)
  with Suc.IH [OF rest] show ?case by linarith
qed

lemma uniqueID_fresh: "uniqueID draw taken k \<notin> set taken"
proof
  assume "uniqueID draw taken k \<in> set taken"
  then have "Suc (length taken) < card {x \<in> set taken. length k \<le> length x}"
    unfolding uniqueID_def by (rule extendID_taken [OF finite_set])
  also have "\<dots> \<le> card (set taken)" by (rule card_mono) auto
  also have "\<dots> \<le> length taken" by (rule card_length)
  finally show False by simp
qed

lemma extendID_prefix: "prefix k (extendID n draw i T k)"
proof (induction n arbitrary: i k)
  case (Suc n)
  then show ?case using append_prefixD by (fastforce split: if_splits)
qed simp

lemma uniqueID_not_Nil: "k \<noteq> [] \<Longrightarrow> uniqueID draw taken k \<noteq> []"
  using extendID_prefix [of k "Suc (length taken)" draw 0 "set taken"] by (auto simp: uniqueID_def)

section \<open>The life of a question\<close>

definition idsOf :: "QuestionStore \<Rightarrow> string \<Rightarrow> string list" where
  "idsOf s k = mapGetOr [] (qs_answerIDs s) k"

definition sameLife :: "QuestionStore \<Rightarrow> QuestionStore \<Rightarrow> bool" where
  "sameLife s t \<longleftrightarrow> qs_questions s = qs_questions t \<and> qs_answers s = qs_answers t \<and> qs_answerIDs s = qs_answerIDs t"

text \<open>The specification: a question is raised, its text is updated while it is open, an open question is withdrawn or
  expires, and an answer that the rules allow is added. Nothing else happens to questions and answers.\<close>

inductive lifeStep :: "QuestionStore \<Rightarrow> QuestionStore \<Rightarrow> bool" where
  stutter: "sameLife t s \<Longrightarrow> lifeStep s t"
| raised: "wfQuestion q \<Longrightarrow> qn_state q = QuestionOpen \<Longrightarrow> mapGet (qs_questions s) (qn_id q) = None \<Longrightarrow>
    sameLife t (putQuestion q s) \<Longrightarrow> lifeStep s t"
| updated: "mapGet (qs_questions s) k = Some q \<Longrightarrow> qn_state q = QuestionOpen \<Longrightarrow> wfQuestion u \<Longrightarrow> qn_id u = k \<Longrightarrow>
    qn_state u = QuestionOpen \<Longrightarrow> sameLife t (s\<lparr>qs_questions := mapSet (qs_questions s) k u\<rparr>) \<Longrightarrow> lifeStep s t"
| closed: "mapGet (qs_questions s) k = Some q \<Longrightarrow> qn_state q = QuestionOpen \<Longrightarrow> st = QuestionWithdrawn \<or> st = QuestionExpired \<Longrightarrow>
    sameLife t (moveQuestion k st s) \<Longrightarrow> lifeStep s t"
| answered: "mapGet (qs_questions s) (an_questionID a) = Some q \<Longrightarrow>
    CheckAnswerAllowed (qn_state q) (currentAnswerID (an_questionID a) s) a (qn_options q) = None \<Longrightarrow>
    mapGet (qs_answers s) (an_id a) = None \<Longrightarrow> an_id a \<noteq> [] \<Longrightarrow> sameLife t (putAnswer a s) \<Longrightarrow> lifeStep s t"

lemma ValidateNewQuestion_wf:
  assumes "ValidateNewQuestion q = Inr u"
  shows "wfQuestion u"
proof -
  obtain ps seen where o: "optionProblems 0 [] [] (qn_options q) = (ps, seen)" by fastforce
  have none: "questionProblems q = []"
    and u: "u = q\<lparr>qn_label := (if qn_label q = [] then ''decision'' else qn_label q), qn_risk := effectiveRisk q\<rparr>"
    using assms by (auto simp: ValidateNewQuestion_def split: if_splits)
  from none o have "ps = []" by (auto simp: questionProblems_def)
  note opts = optionProblems_none [OF o [unfolded this]]
  have ctx: "contextProblems u = contextProblems q" unfolding u contextProblems_def Let_def by simp
  have "checkProposalPath (qn_proposalPath q) = []" using none o by (auto simp: questionProblems_def)
  then have path: "\<not> hasPrefix (qn_proposalPath q) ''/'' \<and> ''..'' \<notin> set (splitChar (CHR ''/'') (qn_proposalPath q))"
    by (auto simp: checkProposalPath_def hasPrefix_def split: if_splits)
  show ?thesis
    using none o opts path unfolding wfQuestion_def ctx
    by (auto simp: u questionProblems_def split: if_splits option.splits)
qed

definition opIDs :: "StoreOp \<Rightarrow> bool" where
  "opIDs op \<longleftrightarrow> (case op of OpRaise oi _ _ \<Rightarrow> oi_id oi \<noteq> [] | OpAnswer oi _ _ \<Rightarrow> oi_id oi \<noteq> [] | _ \<Rightarrow> True)"

lemma sameLife_refl [simp]: "sameLife s s"
  by (simp add: sameLife_def)

lemma append_life: "appendRecord c w r s = (s1, ok) \<Longrightarrow> sameLife s1 s"
  using appendRecord_fields [of c w r s s1 ok] by (simp add: sameLife_def)

lemma Mark_life: "sameLife (fst (MarkEventEmitted c w now ev s)) s"
proof -
  obtain s1 ok where a: "appendRecord c w (markRecord ev now) s = (s1, ok)" by fastforce
  then show ?thesis using append_life [OF a] by (simp add: MarkEventEmitted_def putEmitted_def sameLife_def)
qed

lemma fire_life: "sameLife (fst (fireAndMark c w now ev s)) s"
  by (simp add: fireAndMark_def Mark_life)

lemma emitAll_life: "sameLife (fst (emitAll c now evs s)) s"
proof (induction evs arbitrary: s)
  case (Cons e evs)
  obtain ev w where "e = (ev, w)" by fastforce
  then show ?case using Cons.IH [of "fst (MarkEventEmitted c w now ev s)"] Mark_life [of c w now ev s]
    by (simp add: case_prod_beta sameLife_def)
qed simp

lemma life_put:
  assumes "sameLife s1 s"
  shows "sameLife (putQuestion q s1) (putQuestion q s)" "sameLife (moveQuestion k st s1) (moveQuestion k st s)"
    "sameLife (putAnswer a s1) (putAnswer a s)"
    "sameLife (s1\<lparr>qs_questions := mapSet (qs_questions s1) k q\<rparr>) (s\<lparr>qs_questions := mapSet (qs_questions s) k q\<rparr>)"
  using assms by (auto simp: sameLife_def putQuestion_def moveQuestion_def putAnswer_def split: option.split)

lemma sameLife_trans: "sameLife s t \<Longrightarrow> sameLife t u \<Longrightarrow> sameLife s u"
  by (simp add: sameLife_def)

lemma uniqueID_unused: "mapGet m (uniqueID draw (mapKeys m) k) = None"
  using uniqueID_fresh [of draw "mapKeys m" k] mapHas_keys [of m] unfolding mapHas_def by blast

lemma wfQuestion_stamp: "wfQuestion (q\<lparr>qn_id := i, qn_createdAt := t, qn_state := st\<rparr>) = wfQuestion q"
  by (cases q) (simp add: wfQuestion_def contextProblems_def cong: option.case_cong)

lemma wfQuestion_state: "wfQuestion (q\<lparr>qn_state := st\<rparr>) = wfQuestion q"
  by (cases q) (simp add: wfQuestion_def contextProblems_def cong: option.case_cong)

lemma CheckAnswerAllowed_stamp:
  "CheckAnswerAllowed st cur (a\<lparr>an_questionID := k, an_id := i, an_createdAt := t, an_quoteSHA256 := h\<rparr>) opts = CheckAnswerAllowed st cur a opts"
  by (cases a) (simp add: CheckAnswerAllowed_def)

lemma raise_life:
  assumes "oi_id oi \<noteq> []"
  shows "lifeStep s (fst (raise c oi dd q0 s))"
proof (cases "\<exists>q1. ValidateNewQuestion q0 = Inr q1 \<and> findDuplicate dd q1 s = None")
  case True
  then obtain q1 where v: "ValidateNewQuestion q0 = Inr q1" "findDuplicate dd q1 s = None" by blast
  let ?q = "q1\<lparr>qn_id := uniqueID (oi_draw oi) (mapKeys (qs_questions s)) (oi_id oi), qn_createdAt := Some (oi_now oi), qn_state := QuestionOpen\<rparr>"
  obtain s1 ok where a: "appendRecord c (oi_append oi) (raiseRecord ?q) s = (s1, ok)" by fastforce
  have r: "fst (raise c oi dd q0 s) = (if ok then putQuestion ?q s1 else s1)" using v a by (simp add: raise_def Let_def)
  have wf: "wfQuestion ?q" using ValidateNewQuestion_wf [OF v(1)] by (simp only: wfQuestion_stamp)
  have fresh: "mapGet (qs_questions s) (qn_id ?q) = None"
    by (simp add: uniqueID_unused)
  show ?thesis
  proof (cases ok)
    case True
    then show ?thesis
      unfolding r using lifeStep.raised [OF wf _ fresh life_put(1) [OF append_life [OF a]]] by simp
  qed (use r append_life [OF a] lifeStep.stutter in simp)
qed (auto simp: raise_def intro!: lifeStep.stutter split: sum.split option.split)

lemma Answer_life:
  assumes "oi_id oi \<noteq> []"
  shows "lifeStep s (fst (AnswerQuestion c scan sha oi k a0 s))"
proof (cases "\<exists>q. scan (an_quote a0) = None \<and> validUTF8 (an_quote a0) \<and> mapGet (qs_questions s) k = Some q \<and>
    CheckAnswerAllowed (qn_state q) (currentAnswerID k s) a0 (qn_options q) = None")
  case True
  then obtain q where q: "scan (an_quote a0) = None" "validUTF8 (an_quote a0)" "mapGet (qs_questions s) k = Some q"
    "CheckAnswerAllowed (qn_state q) (currentAnswerID k s) a0 (qn_options q) = None" by blast
  let ?a = "a0\<lparr>an_questionID := k, an_id := uniqueID (oi_draw oi) (mapKeys (qs_answers s)) (oi_id oi), an_createdAt := Some (oi_now oi),
    an_quoteSHA256 := (if an_quote a0 \<noteq> [] then sha (an_quote a0) else an_quoteSHA256 a0)\<rparr>"
  let ?fire = "fireAndMark c (oi_mark oi) (oi_now oi) (BuildQuestionAnsweredEvent q ?a)"
  obtain s1 fin where a: "appendRecord c (oi_append oi) (answerRecord ?a) s = (s1, fin)" by fastforce
  have r: "fst (AnswerQuestion c scan sha oi k a0 s) = (if fin then fst (?fire (putAnswer ?a s1)) else s1)"
    using q a by (simp add: AnswerQuestion_def Let_def case_prod_beta)
  have fresh: "mapGet (qs_answers s) (an_id ?a) = None"
    by (simp add: uniqueID_unused)
  have allowed: "CheckAnswerAllowed (qn_state q) (currentAnswerID k s) ?a (qn_options q) = None"
    using q(4) by (simp only: CheckAnswerAllowed_stamp)
  show ?thesis
  proof (cases fin)
    case True
    have "lifeStep s (fst (?fire (putAnswer ?a s1)))"
      by (rule lifeStep.answered [of s ?a q])
        (use q(3) allowed fresh uniqueID_not_Nil [OF assms] sameLife_trans [OF fire_life life_put(3) [OF append_life [OF a]]] in simp_all)
    then show ?thesis using r True by simp
  qed (use r append_life [OF a] lifeStep.stutter in simp)
qed (auto simp: AnswerQuestion_def intro!: lifeStep.stutter split: option.split)

lemma mutate_life:
  assumes "st = QuestionWithdrawn \<or> st = QuestionExpired"
  shows "\<exists>t. lifeStep s t \<and> sameLife (fst (mutateState c oi k lt actor reason st s)) t"
proof (cases "\<exists>q. mapGet (qs_questions s) k = Some q \<and> qn_state q = QuestionOpen")
  case True
  then obtain q where q: "mapGet (qs_questions s) k = Some q" "qn_state q = QuestionOpen" by blast
  obtain s1 ok where a: "appendRecord c (oi_append oi) (stateRecord lt k actor reason (oi_now oi)) s = (s1, ok)" by fastforce
  show ?thesis
  proof (cases ok)
    case True
    then show ?thesis
      using q a life_put(2) [OF append_life [OF a]] lifeStep.closed [OF q assms]
      by (intro exI [of _ "moveQuestion k st s"]) (simp add: mutateState_def)
  next
    case False
    then show ?thesis using q a append_life [OF a] lifeStep.stutter by (intro exI [of _ s]) (simp add: mutateState_def)
  qed
qed (auto simp: mutateState_def intro!: exI [of _ s] lifeStep.stutter split: option.split)

lemma lifeStep_cong: "lifeStep s t \<Longrightarrow> sameLife u t \<Longrightarrow> lifeStep s u"
  by (induction rule: lifeStep.induct) (blast intro: lifeStep.intros sameLife_trans)+

lemma Withdraw_life: "lifeStep s (fst (Withdraw c oi k actor reason s))"
proof -
  let ?m = "mutateState c oi k storeLineQuestionWithdrawn actor reason QuestionWithdrawn s"
  obtain t where t: "lifeStep s t" "sameLife (fst ?m) t" using mutate_life by blast
  have "sameLife (fst (Withdraw c oi k actor reason s)) (fst ?m)"
    using fire_life by (auto simp: Withdraw_def case_prod_beta split: prod.split sum.split)
  with t show ?thesis using lifeStep_cong sameLife_trans by blast
qed

lemma Expire_life: "lifeStep s (fst (Expire c oi k reason s))"
proof -
  let ?m = "mutateState c oi k storeLineQuestionExpired [] reason QuestionExpired s"
  obtain t where t: "lifeStep s t" "sameLife (fst ?m) t" using mutate_life by blast
  have "fst (Expire c oi k reason s) = fst ?m" by (auto simp: Expire_def split: prod.split sum.split)
  with t show ?thesis using lifeStep_cong by simp
qed

lemma Update_life:
  assumes "keysOK s"
  shows "lifeStep s (fst (Update c oi k patch actor s))"
proof (cases "\<exists>q u. mapGet (qs_questions s) k = Some q \<and> qn_state q = QuestionOpen \<and>
    ValidateNewQuestion (applyQuestionPatch patch q) = Inr u \<and> changedQuestionFields q u \<noteq> []")
  case True
  then obtain q u where q: "mapGet (qs_questions s) k = Some q" "qn_state q = QuestionOpen"
    and u: "ValidateNewQuestion (applyQuestionPatch patch q) = Inr u" "changedQuestionFields q u \<noteq> []" by blast
  obtain s1 ok where a: "appendRecord c (oi_append oi) (updateRecord u k actor (oi_now oi)) s = (s1, ok)" by fastforce
  have uk: "qn_id u = k" "qn_state u = QuestionOpen"
    using ValidateNewQuestion_keeps [OF u(1)] keysOK_get [OF assms q(1)] q(2) by (simp_all add: patch_keeps)
  show ?thesis
  proof (cases ok)
    case True
    then show ?thesis
      using q u a lifeStep.updated [OF q ValidateNewQuestion_wf [OF u(1)] uk life_put(4) [OF append_life [OF a]]]
      by (simp add: Update_def)
  next
    case False
    then show ?thesis using q u a append_life [OF a] lifeStep.stutter by (simp add: Update_def)
  qed
qed (auto simp: Update_def intro!: lifeStep.stutter split: option.split sum.split)

lemma runStoreOp_life: "keysOK s \<Longrightarrow> opIDs op \<Longrightarrow> lifeStep s (runStoreOp c scan sha op s)"
proof (cases op)
  case (OpSwitch on now ws)
  have "sameLife (fst (ApplyEventSwitch c on now ws s)) s"
    using emitAll_life [of c now _ "s\<lparr>qs_sink := True\<rparr>"] by (simp add: ApplyEventSwitch_def Let_def sameLife_def)
  then show ?thesis using OpSwitch by (simp add: lifeStep.stutter)
qed (auto simp: opIDs_def raise_life Answer_life Withdraw_life Expire_life Update_life)

section \<open>The invariant of the life\<close>

text \<open>The answers of a question, oldest first: each is stored under its id, belongs to the question, and supersedes the
  one before it; the first supersedes none.\<close>

fun chain :: "(string, Answer) gomap \<Rightarrow> string \<Rightarrow> string \<Rightarrow> string list \<Rightarrow> bool" where
  "chain as k prev [] = True"
| "chain as k prev (i # is) =
    ((case mapGet as i of None \<Rightarrow> False | Some a \<Rightarrow> an_id a = i \<and> an_questionID a = k \<and> an_supersedes a = prev) \<and> chain as k i is)"

definition lifeOK :: "Question \<Rightarrow> string list \<Rightarrow> bool" where
  "lifeOK q ids \<longleftrightarrow> wfQuestion q \<and>
     (case qn_state q of QuestionAnswered \<Rightarrow> ids \<noteq> [] | QuestionOther _ \<Rightarrow> False | _ \<Rightarrow> ids = [])"

definition storeInv :: "QuestionStore \<Rightarrow> bool" where
  "storeInv s \<longleftrightarrow> keysOK s \<and> (\<forall>k q. mapGet (qs_questions s) k = Some q \<longrightarrow> lifeOK q (idsOf s k)) \<and>
     (\<forall>k. mapGet (qs_questions s) k = None \<longrightarrow> idsOf s k = []) \<and>
     (\<forall>k. chain (qs_answers s) k [] (idsOf s k) \<and> distinct (idsOf s k) \<and> [] \<notin> set (idsOf s k))"

lemma chain_snoc:
  "chain as k p (is @ [i]) \<longleftrightarrow> chain as k p is \<and>
    (case mapGet as i of None \<Rightarrow> False | Some a \<Rightarrow> an_id a = i \<and> an_questionID a = k \<and> an_supersedes a = last (p # is))"
  by (induction "is" arbitrary: p) (simp_all cong: option.case_cong)

lemma chain_mem: "chain as k p is \<Longrightarrow> i \<in> set is \<Longrightarrow> mapGet as i \<noteq> None"
  by (induction "is" arbitrary: p) (auto split: option.splits)

lemma chain_fresh: "mapGet as n = None \<Longrightarrow> chain as k p is \<Longrightarrow> chain (mapSet as n a) k p is"
  by (induction "is" arbitrary: p) (auto split: option.splits)

lemma storeInv_cong: "sameLife t s \<Longrightarrow> storeInv t = storeInv s"
  by (simp add: sameLife_def storeInv_def keysOK_def idsOf_def)

lemma lifeOK_state:
  "lifeOK q ids \<Longrightarrow> qn_state q = QuestionOpen \<Longrightarrow> st = QuestionWithdrawn \<or> st = QuestionExpired \<Longrightarrow> lifeOK (q\<lparr>qn_state := st\<rparr>) ids"
  by (auto simp: lifeOK_def wfQuestion_state)

lemma storeInv_questions:
  assumes "storeInv s" "qn_id q = k" "lifeOK q (idsOf s k)"
  shows "storeInv (s\<lparr>qs_questions := mapSet (qs_questions s) k q\<rparr>)"
  using assms by (auto simp: storeInv_def keysOK_def idsOf_def split: if_splits)

lemma storeInv_unasked:
  assumes "storeInv s" "mapGet (qs_questions s) (qn_id q) = None" "wfQuestion q" "qn_state q = QuestionOpen"
  shows "storeInv (putQuestion q s)"
proof -
  have "idsOf s (qn_id q) = []" using assms(1,2) by (simp add: storeInv_def)
  then show ?thesis using storeInv_questions [OF assms(1) refl] assms(3,4) by (simp add: putQuestion_def lifeOK_def)
qed

text \<open>An allowed answer continues the chain.\<close>

lemma storeInv_answer:
  assumes inv: "storeInv s" and q: "mapGet (qs_questions s) k = Some q" and k: "an_questionID a = k"
    and ok: "CheckAnswerAllowed (qn_state q) (currentAnswerID k s) a (qn_options q) = None"
    and new: "mapGet (qs_answers s) (an_id a) = None" "an_id a \<noteq> []"
  shows "storeInv (putAnswer a s)"
proof -
  let ?ids = "idsOf s k" and ?as = "mapSet (qs_answers s) (an_id a) a" and ?t = "putAnswer a s"
  have life: "lifeOK q ?ids" and ch: "chain (qs_answers s) k' [] (idsOf s k')" and ds: "distinct (idsOf s k')" "[] \<notin> set (idsOf s k')"
    and key: "qn_id q = k" for k'
    using inv q by (auto simp: storeInv_def keysOK_def)
  have sup: "an_supersedes a = last ([] # ?ids)"
    using ok life by (auto simp: CheckAnswerAllowed_def lifeOK_def currentAnswerID_def idsOf_def Let_def split: if_splits QuestionState.splits)
  have fresh: "an_id a \<notin> set (idsOf s k')" for k' using chain_mem [OF ch] new(1) by blast
  have ids: "idsOf ?t k' = (if k' = k then ?ids @ [an_id a] else idsOf s k')" for k'
    using q k by (simp add: putAnswer_def moveQuestion_def idsOf_def)
  have qs: "qs_questions ?t = mapSet (qs_questions s) k (q\<lparr>qn_state := QuestionAnswered\<rparr>)" and as: "qs_answers ?t = ?as"
    using q k by (simp_all add: putAnswer_def moveQuestion_def)
  have "chain ?as k' [] (idsOf ?t k') \<and> distinct (idsOf ?t k') \<and> [] \<notin> set (idsOf ?t k')" for k'
    using chain_fresh [OF new(1) ch, of a k'] ds fresh k sup new(2) by (auto simp: ids chain_snoc)
  moreover have "lifeOK (q\<lparr>qn_state := QuestionAnswered\<rparr>) (?ids @ [an_id a])"
    using life by (simp add: lifeOK_def wfQuestion_state)
  ultimately show ?thesis
    using inv key unfolding storeInv_def keysOK_def qs as by (auto simp: ids split: if_splits)
qed

lemma storeInv_step: "lifeStep s t \<Longrightarrow> storeInv s \<Longrightarrow> storeInv t"
proof (induction rule: lifeStep.induct)
  case (stutter t s)
  then show ?case using storeInv_cong by blast
next
  case (raised q s t)
  then show ?case using storeInv_cong storeInv_unasked by blast
next
  case (updated s k q u t)
  have "lifeOK q (idsOf s k)" using updated.prems updated.hyps(1) by (simp add: storeInv_def)
  then have "lifeOK u (idsOf s k)" using updated.hyps by (simp add: lifeOK_def)
  then show ?case using updated storeInv_cong storeInv_questions by blast
next
  case (closed s k q st t)
  have q: "qn_id q = k" "lifeOK q (idsOf s k)" using closed by (auto simp: storeInv_def keysOK_def)
  have "storeInv (moveQuestion k st s)"
    using storeInv_questions [OF closed.prems, of "q\<lparr>qn_state := st\<rparr>" k] lifeOK_state [OF q(2) closed.hyps(2,3)] q closed.hyps(1)
    by (simp add: moveQuestion_def)
  then show ?case using closed storeInv_cong by blast
next
  case (answered s a q t)
  then show ?case using storeInv_cong storeInv_answer [OF answered.prems answered.hyps(1) refl answered.hyps(2-4)] by blast
qed

text \<open>What no step undoes: answers stay as they are, and a question that is no longer open stays as it is.\<close>

definition keeps :: "QuestionStore \<Rightarrow> QuestionStore \<Rightarrow> bool" where
  "keeps s t \<longleftrightarrow> (\<forall>k a. mapGet (qs_answers s) k = Some a \<longrightarrow> mapGet (qs_answers t) k = Some a) \<and>
     (\<forall>k. prefix (idsOf s k) (idsOf t k)) \<and>
     (\<forall>k q. mapGet (qs_questions s) k = Some q \<longrightarrow>
        (if qn_state q = QuestionOpen then mapHas (qs_questions t) k else mapGet (qs_questions t) k = Some q))"

lemma keeps_cong: "sameLife u t \<Longrightarrow> keeps s t \<Longrightarrow> keeps s u"
  by (simp add: sameLife_def keeps_def idsOf_def)

lemma keeps_step: "lifeStep s t \<Longrightarrow> keeps s t"
proof (induction rule: lifeStep.induct)
  case (stutter t s)
  have "keeps s s" by (auto simp: keeps_def mapHas_def)
  then show ?case using keeps_cong stutter by blast
next
  case (raised q s t)
  have "keeps s (putQuestion q s)" using raised.hyps(3) by (auto simp: keeps_def putQuestion_def idsOf_def mapHas_def)
  then show ?case using keeps_cong raised.hyps(4) by blast
next
  case (updated s k q u t)
  have "keeps s (s\<lparr>qs_questions := mapSet (qs_questions s) k u\<rparr>)" using updated.hyps(1,2) by (auto simp: keeps_def idsOf_def mapHas_def)
  then show ?case using keeps_cong updated.hyps(6) by blast
next
  case (closed s k q st t)
  have "keeps s (moveQuestion k st s)" using closed.hyps(1,2) by (auto simp: keeps_def moveQuestion_def idsOf_def mapHas_def)
  then show ?case using keeps_cong closed.hyps(4) by blast
next
  case (answered s a q t)
  have st: "qn_state q = QuestionOpen \<or> qn_state q = QuestionAnswered"
    using answered.hyps(2) by (auto simp: CheckAnswerAllowed_def split: if_splits QuestionState.splits)
  then have same: "qn_state q \<noteq> QuestionOpen \<Longrightarrow> q\<lparr>qn_state := QuestionAnswered\<rparr> = q" by (metis Question.surjective Question.update_convs(17))
  have "keeps s (putAnswer a s)"
    using answered.hyps(1,3) st same by (auto simp: keeps_def putAnswer_def moveQuestion_def idsOf_def mapHas_def)
  then show ?case using keeps_cong answered.hyps(5) by blast
qed

section \<open>Reachable stores\<close>

inductive storeReach :: "codec \<Rightarrow> (string \<Rightarrow> string option) \<Rightarrow> (string \<Rightarrow> string) \<Rightarrow> QuestionStore \<Rightarrow> bool" for c scan sha where
  start: "storeReach c scan sha (emptyStore [])"
| step: "storeReach c scan sha s \<Longrightarrow> opIDs op \<Longrightarrow> storeReach c scan sha (runStoreOp c scan sha op s)"

lemma storeInv_empty: "storeInv (emptyStore f)"
  by (simp add: storeInv_def emptyStore_def keysOK_def idsOf_def mapGetOr_def)

lemma storeInv_keys: "storeInv s \<Longrightarrow> keysOK s"
  by (simp add: storeInv_def)

lemma storeReach_inv: "storeReach c scan sha s \<Longrightarrow> storeInv s \<and> extends c (emptyStore []) s"
proof (induction rule: storeReach.induct)
  case start
  then show ?case by (simp add: storeInv_empty)
next
  case (step s op)
  then have keys: "keysOK s" by (simp add: storeInv_keys)
  show ?case
    using step storeInv_step [OF runStoreOp_life [OF keys step.hyps(2)]] extends_trans [OF _ runStoreOp_extends [OF keys]] by blast
qed

lemma wf_step: "lifeStep s t \<Longrightarrow> wf_map (qs_questions s) \<Longrightarrow> wf_map (qs_questions t)"
  by (induction rule: lifeStep.induct)
    (auto simp: sameLife_def putQuestion_def moveQuestion_def putAnswer_def split: option.splits)

lemma storeReach_wf: "storeReach c scan sha s \<Longrightarrow> wf_map (qs_questions s)"
proof (induction rule: storeReach.induct)
  case start
  then show ?case by (simp add: emptyStore_def)
next
  case (step s op)
  then show ?case using wf_step runStoreOp_life storeInv_keys storeReach_inv by blast
qed

lemma answerViews_chain:
  "chain as k p ids \<Longrightarrow> [] \<notin> set ids \<Longrightarrow>
   map (\<lambda>v. (an_id (av_answer v), av_supersededBy v)) (answerViews as ids) = zip ids (tl ids @ [[]]) \<and>
   (\<forall>v \<in> set (answerViews as ids). av_superseded v \<longleftrightarrow> av_supersededBy v \<noteq> [])"
proof (induction ids arbitrary: p)
  case (Cons i ids)
  then obtain a where a: "mapGet as i = Some a" "an_id a = i" "chain as k i ids" by (auto split: option.splits)
  show ?case
  proof (cases ids)
    case Nil
    then show ?thesis using a by simp
  next
    case more: (Cons j rest)
    with a(3) obtain b where b: "mapGet as j = Some b" "an_supersedes b = i" by (auto split: option.splits)
    have IH: "map (\<lambda>v. (an_id (av_answer v), av_supersededBy v)) (answerViews as ids) = zip ids (tl ids @ [[]]) \<and>
      (\<forall>v \<in> set (answerViews as ids). av_superseded v \<longleftrightarrow> av_supersededBy v \<noteq> [])"
      using Cons.IH [OF a(3)] Cons.prems(2) by simp
    have "answerViews as (i # ids) = \<lparr>av_answer = a, av_superseded = True, av_supersededBy = j\<rparr> # answerViews as ids"
      using a b more by simp
    then show ?thesis using IH a(2) more Cons.prems(2) by auto
  qed
qed simp

end
