(* ===== verification/Burn_Question.thy ===== *)
theory Burn_Question
  imports Burn_Guard Question_Properties
begin

text \<open>
  The questions of the burn guard (\<open>internal/autonomous/burn_guard_question.go\<close>): a rung change may ask the operator a
  question, and the guard keeps at most one of its questions open.

  As in the source, the functions work on an interface with \<open>Raise\<close>, \<open>Withdraw\<close> and \<open>List\<close>; \<open>None\<close> is the nil store. The
  locale \<open>guard_question_store\<close> states what they rely on, \<open>reliable_question_store\<close> adds that a withdrawal of an open
  question succeeds, and both are interpreted on the question store of \<open>Question_Store\<close>.
\<close>

section \<open>The interface\<close>

record 's BurnGuardQuestionStore =
  bq_raise :: "Question \<Rightarrow> 's \<Rightarrow> 's \<times> (AnswerError + Question)"
  bq_withdraw :: "string \<Rightarrow> string \<Rightarrow> string \<Rightarrow> 's \<Rightarrow> 's \<times> (AnswerError + Question)"
  bq_list :: "QuestionFilter \<Rightarrow> 's \<Rightarrow> Question list"

definition BurnGuardQuestionAsker :: string where "BurnGuardQuestionAsker = ''burn-guard''"
definition burnGuardQuestionActor :: string where "burnGuardQuestionActor = ''burn-guard''"
definition BurnGuardQuestionLabel :: string where "BurnGuardQuestionLabel = ''decision''"
definition BurnGuardReasonSuperseded :: string where
  "BurnGuardReasonSuperseded = ''superseded by a newer burn guard rung change''"
definition BurnGuardReasonAskOff :: string where
  "BurnGuardReasonAskOff = ''ask_on_change is off, so the burn guard alerts only''"
definition BurnGuardReasonStaleAtStart :: string where
  "BurnGuardReasonStaleAtStart = ''at start the burn guard no longer applies the rung this question refers to''"

definition BurnGuardQuestion :: "string \<Rightarrow> Question" where
  "BurnGuardQuestion txt =
    \<lparr>qn_id = [], qn_label = BurnGuardQuestionLabel, qn_askedBy = BurnGuardQuestionAsker, qn_askerKind = ''system'', qn_sessionID = [],
     qn_context = ''none'', qn_prdID = [], qn_taskID = [], qn_proposalPath = [], qn_registryRowKey = [], qn_text = trimSpace txt,
     qn_options =
       [\<lparr>op_id = ''keep'', op_label = ''Leave it as is'',
         op_tradeoffs = ''The burn guard stays at this rung and the setting keeps its changed value.''\<rparr>,
        \<lparr>op_id = ''release'', op_label = ''Release'',
         op_tradeoffs = ''This release only records your choice and performs nothing, so the guard keeps the rung until it itself releases it.''\<rparr>],
     qn_recommendation = None, qn_default = ''keep'', qn_risk = ''low'', qn_createdAt = None, qn_state = QuestionOther [], qn_priority = [],
     qn_returnPath = False, qn_blocking = False, qn_source = [], qn_sourceLineSHA256 = [], qn_decisionRecordID = []\<rparr>"

definition openGuardFilter :: QuestionFilter where
  "openGuardFilter = \<lparr>qf_state = Some QuestionOpen, qf_context = [], qf_asker = BurnGuardQuestionAsker, qf_prdID = [], qf_text = [], qf_limit = 100\<rparr>"

definition burnGuardOpenQuestions :: "'s BurnGuardQuestionStore option \<Rightarrow> 's \<Rightarrow> Question list" where
  "burnGuardOpenQuestions store s = (case store of None \<Rightarrow> [] | Some st \<Rightarrow> bq_list st openGuardFilter s)"

fun withdrawBurnGuardQuestions :: "'s BurnGuardQuestionStore \<Rightarrow> Question list \<Rightarrow> string \<Rightarrow> 's \<Rightarrow> 's \<times> Question list" where
  "withdrawBurnGuardQuestions st [] reason s = (s, [])"
| "withdrawBurnGuardQuestions st (q # qs) reason s =
    (case bq_withdraw st (qn_id q) burnGuardQuestionActor reason s of
       (s1, Inl e) \<Rightarrow> withdrawBurnGuardQuestions st qs reason s1
     | (s1, Inr _) \<Rightarrow> (case withdrawBurnGuardQuestions st qs reason s1 of (s2, out) \<Rightarrow> (s2, q # out)))"

definition WithdrawOpenBurnGuardQuestions :: "'s BurnGuardQuestionStore option \<Rightarrow> string \<Rightarrow> 's \<Rightarrow> 's \<times> Question list" where
  "WithdrawOpenBurnGuardQuestions store reason s =
    (case store of
       None \<Rightarrow> (s, [])
     | Some st \<Rightarrow> withdrawBurnGuardQuestions st (burnGuardOpenQuestions (Some st) s) reason s)"

datatype GuardQuestionError = NoQuestionStore | RaiseFailed AnswerError

definition RaiseBurnGuardQuestion :: "'s BurnGuardQuestionStore option \<Rightarrow> string \<Rightarrow> 's \<Rightarrow> 's \<times> (GuardQuestionError + Question)" where
  "RaiseBurnGuardQuestion store txt s =
    (case store of
       None \<Rightarrow> (s, Inl NoQuestionStore)
     | Some st \<Rightarrow>
        (case bq_raise st (BurnGuardQuestion txt) (fst (WithdrawOpenBurnGuardQuestions (Some st) BurnGuardReasonSuperseded s)) of
           (s2, Inl e) \<Rightarrow> (s2, Inl (RaiseFailed e))
         | (s2, Inr q) \<Rightarrow> (s2, Inr q)))"

definition ApplyBurnGuardAskOnChange :: "'s BurnGuardQuestionStore option \<Rightarrow> bool \<Rightarrow> Decision \<Rightarrow> string \<Rightarrow> 's \<Rightarrow> 's" where
  "ApplyBurnGuardAskOnChange store askOnChange d running s =
    (if store = None then s
     else if askOnChange \<and> trimSpace (dc_questionText d) \<noteq> [] then fst (RaiseBurnGuardQuestion store (dc_questionText d @ running) s)
     else if \<not> askOnChange \<and> dc_changed d then fst (WithdrawOpenBurnGuardQuestions store BurnGuardReasonAskOff s)
     else s)"

definition PruneBurnGuardQuestionsAtStart :: "'s BurnGuardQuestionStore option \<Rightarrow> LadderState \<Rightarrow> 's \<Rightarrow> 's \<times> Question list" where
  "PruneBurnGuardQuestionsAtStart store state s =
    (let opn = burnGuardOpenQuestions store s
     in case store of
          None \<Rightarrow> (s, [])
        | Some st \<Rightarrow>
            if opn = [] then (s, [])
            else withdrawBurnGuardQuestions st (if ls_applied state = [] then opn else tl opn) BurnGuardReasonStaleAtStart s)"

section \<open>The contract\<close>

locale guard_question_store =
  fixes st :: "'s BurnGuardQuestionStore"
    and inv :: "'s \<Rightarrow> bool"
    and opened :: "'s \<Rightarrow> string set"
    and others :: "'s \<Rightarrow> string \<Rightarrow> Question option"
  assumes finite_opened: "finite (opened s)"
    and withdraw_law: "inv s \<Longrightarrow> k \<in> opened s \<Longrightarrow> bq_withdraw st k actor reason s = (t, r) \<Longrightarrow>
      inv t \<and> opened t = (case r of Inl _ \<Rightarrow> opened s | Inr _ \<Rightarrow> opened s - {k}) \<and> others t = others s"
    and raise_law: "inv s \<Longrightarrow> bq_raise st (BurnGuardQuestion txt) s = (t, r) \<Longrightarrow>
      inv t \<and> opened t = (case r of Inl _ \<Rightarrow> opened s | Inr q \<Rightarrow> insert (qn_id q) (opened s)) \<and> others t = others s"
    and list_law: "inv s \<Longrightarrow> distinct (map qn_id (bq_list st openGuardFilter s)) \<and> qn_id ` set (bq_list st openGuardFilter s) \<subseteq> opened s \<and>
      (card (opened s) \<le> 100 \<longrightarrow> opened s \<subseteq> qn_id ` set (bq_list st openGuardFilter s))"
begin

lemma withdrawn_exact:
  assumes "inv s" "qn_id ` set qs \<subseteq> opened s" "distinct (map qn_id qs)" "withdrawBurnGuardQuestions st qs reason s = (t, out)"
  shows "inv t \<and> opened t = opened s - qn_id ` set out \<and> set out \<subseteq> set qs \<and> others t = others s"
  using assms
proof (induction qs arbitrary: s t out)
  case (Cons q qs)
  obtain s1 r where w: "bq_withdraw st (qn_id q) burnGuardQuestionActor reason s = (s1, r)" by fastforce
  obtain u us where rest: "withdrawBurnGuardQuestions st qs reason s1 = (u, us)" by fastforce
  have law: "inv s1" "opened s1 = (case r of Inl _ \<Rightarrow> opened s | Inr _ \<Rightarrow> opened s - {qn_id q})" "others s1 = others s"
    using withdraw_law [OF Cons.prems(1) _ w] Cons.prems(2) by auto
  have "qn_id ` set qs \<subseteq> opened s1" using law(2) Cons.prems(2,3) by (cases r) (simp_all add: subset_Diff_insert)
  from Cons.IH [OF law(1) this _ rest] Cons.prems(3)
  have IH: "inv u" "opened u = opened s1 - qn_id ` set us" "set us \<subseteq> set qs" "others u = others s1" by simp_all
  show ?case using Cons.prems(4) w rest law IH by (auto split: sum.splits)
qed simp

lemma open_listed: "inv s \<Longrightarrow> qn_id ` set (burnGuardOpenQuestions (Some st) s) \<subseteq> opened s \<and> distinct (map qn_id (burnGuardOpenQuestions (Some st) s))"
  using list_law by (simp add: burnGuardOpenQuestions_def)

lemma raised_exact:
  assumes "inv s" "WithdrawOpenBurnGuardQuestions (Some st) BurnGuardReasonSuperseded s = (s1, out)"
    "RaiseBurnGuardQuestion (Some st) txt s = (t, r)"
  shows "inv t \<and> others t = others s \<and> opened t = (case r of Inl _ \<Rightarrow> opened s1 | Inr q \<Rightarrow> insert (qn_id q) (opened s1)) \<and>
    opened s1 = opened s - qn_id ` set out"
proof -
  have w: "inv s1" "opened s1 = opened s - qn_id ` set out" "others s1 = others s"
    using withdrawn_exact [OF assms(1), of "burnGuardOpenQuestions (Some st) s"] open_listed [OF assms(1)] assms(2)
    by (simp_all add: WithdrawOpenBurnGuardQuestions_def)
  obtain t' r' where r: "bq_raise st (BurnGuardQuestion txt) s1 = (t', r')" by fastforce
  show ?thesis using raise_law [OF w(1) r] w assms(2,3) r by (auto simp: RaiseBurnGuardQuestion_def split: sum.splits)
qed

end

text \<open>A store whose writes succeed.\<close>

locale reliable_question_store = guard_question_store +
  assumes withdraw_succeeds: "inv s \<Longrightarrow> k \<in> opened s \<Longrightarrow> bq_withdraw st k actor reason s = (t, r) \<Longrightarrow> \<exists>q. r = Inr q"
begin

lemma all_withdrawn:
  assumes "inv s" "qn_id ` set qs \<subseteq> opened s" "distinct (map qn_id qs)" "withdrawBurnGuardQuestions st qs reason s = (t, out)"
  shows "out = qs"
  using assms
proof (induction qs arbitrary: s t out)
  case (Cons q qs)
  obtain s1 r where w: "bq_withdraw st (qn_id q) burnGuardQuestionActor reason s = (s1, r)" by fastforce
  obtain u us where rest: "withdrawBurnGuardQuestions st qs reason s1 = (u, us)" by fastforce
  from withdraw_succeeds [OF Cons.prems(1) _ w] Cons.prems(2) obtain q' where r: "r = Inr q'" by auto
  have law: "inv s1" "opened s1 = opened s - {qn_id q}" using withdraw_law [OF Cons.prems(1) _ w] Cons.prems(2) r by auto
  have "qn_id ` set qs \<subseteq> opened s1" using law(2) Cons.prems(2,3) by (simp add: subset_Diff_insert)
  from Cons.IH [OF law(1) this _ rest] Cons.prems(3,4) w rest r show ?case by simp
qed simp

lemma none_left:
  assumes "inv s" "card (opened s) \<le> 100" "WithdrawOpenBurnGuardQuestions (Some st) reason s = (t, out)"
  shows "inv t \<and> opened t = {} \<and> others t = others s"
proof -
  let ?qs = "burnGuardOpenQuestions (Some st) s"
  have w: "withdrawBurnGuardQuestions st ?qs reason s = (t, out)" using assms(3) by (simp add: WithdrawOpenBurnGuardQuestions_def)
  have listed: "qn_id ` set ?qs \<subseteq> opened s" "distinct (map qn_id ?qs)" using open_listed [OF assms(1)] by simp_all
  have "out = ?qs" by (rule all_withdrawn [OF assms(1) listed w])
  moreover have "opened s \<subseteq> qn_id ` set ?qs" using list_law [OF assms(1)] assms(2) by (simp add: burnGuardOpenQuestions_def)
  ultimately show ?thesis using withdrawn_exact [OF assms(1) listed w] by auto
qed

lemma asked_once:
  assumes "inv s" "card (opened s) \<le> 100" "RaiseBurnGuardQuestion (Some st) txt s = (t, r)"
  shows "inv t \<and> others t = others s \<and> opened t = (case r of Inl _ \<Rightarrow> {} | Inr q \<Rightarrow> {qn_id q})"
proof -
  obtain s1 out where w: "WithdrawOpenBurnGuardQuestions (Some st) BurnGuardReasonSuperseded s = (s1, out)" by fastforce
  show ?thesis using raised_exact [OF assms(1) w assms(3)] none_left [OF assms(1,2) w] by (simp split: sum.split)
qed

lemma pruned:
  assumes "inv s" "card (opened s) \<le> 100" "PruneBurnGuardQuestionsAtStart (Some st) state s = (t, out)"
  shows "inv t \<and> others t = others s \<and>
    opened t = (if ls_applied state = [] \<or> opened s = {} then {} else {qn_id (hd (burnGuardOpenQuestions (Some st) s))})"
proof -
  let ?qs = "burnGuardOpenQuestions (Some st) s"
  have listed: "qn_id ` set ?qs = opened s" "distinct (map qn_id ?qs)"
    using list_law [OF assms(1)] assms(2) by (auto simp: burnGuardOpenQuestions_def)
  show ?thesis
  proof (cases "?qs = []")
    case True
    with assms(1,3) listed show ?thesis by (simp add: PruneBurnGuardQuestionsAtStart_def Let_def)
  next
    case False
    then obtain q qs where qs: "?qs = q # qs" by (cases ?qs) auto
    let ?ws = "if ls_applied state = [] then ?qs else tl ?qs"
    have w: "withdrawBurnGuardQuestions st ?ws BurnGuardReasonStaleAtStart s = (t, out)"
      using assms(3) False by (simp add: PruneBurnGuardQuestionsAtStart_def Let_def)
    have ws: "qn_id ` set ?ws \<subseteq> opened s" "distinct (map qn_id ?ws)" using listed qs by auto
    have out: "out = ?ws" by (rule all_withdrawn [OF assms(1) ws w])
    show ?thesis
      using withdrawn_exact [OF assms(1) ws w] listed qs out by (auto split: if_splits)
  qed
qed

end

section \<open>The question store behind the interface\<close>

text \<open>\<open>gw_inputs\<close> are the clock, the proposed ids and the outcomes of the appends of the operations to come, one per call.\<close>

record GuardWorld =
  gw_store :: QuestionStore
  gw_inputs :: "nat \<Rightarrow> OpInput"
  gw_effects :: "Effect list"

definition advanceWorld :: "GuardWorld \<Rightarrow> QuestionStore \<Rightarrow> Effect list \<Rightarrow> GuardWorld" where
  "advanceWorld w s effs = \<lparr>gw_store = s, gw_inputs = (\<lambda>n. gw_inputs w (Suc n)), gw_effects = gw_effects w @ effs\<rparr>"

definition storeRaise :: "codec \<Rightarrow> Question \<Rightarrow> GuardWorld \<Rightarrow> GuardWorld \<times> (AnswerError + Question)" where
  "storeRaise c q w =
    (case raise c (gw_inputs w 0) dedupeNone q (gw_store w) of
       (s1, r, effs) \<Rightarrow> (advanceWorld w s1 effs, map_sum id fst r))"

definition storeWithdraw :: "codec \<Rightarrow> string \<Rightarrow> string \<Rightarrow> string \<Rightarrow> GuardWorld \<Rightarrow> GuardWorld \<times> (AnswerError + Question)" where
  "storeWithdraw c k actor reason w =
    (case Withdraw c (gw_inputs w 0) k actor reason (gw_store w) of (s1, r, effs) \<Rightarrow> (advanceWorld w s1 effs, r))"

text \<open>\<open>strings.ToLower\<close> is the argument \<open>lower\<close>, but for the empty string.\<close>

definition toLower :: "(string \<Rightarrow> string) \<Rightarrow> string \<Rightarrow> string" where
  "toLower lower s = (if s = [] then [] else lower s)"

definition questionStoreAPI :: "codec \<Rightarrow> (string \<Rightarrow> string) \<Rightarrow> GuardWorld BurnGuardQuestionStore" where
  "questionStoreAPI c lower =
    \<lparr>bq_raise = storeRaise c, bq_withdraw = storeWithdraw c, bq_list = (\<lambda>f w. ListQuestions (toLower lower) f (gw_store w))\<rparr>"

definition isGuardQuestion :: "Question \<Rightarrow> bool" where
  "isGuardQuestion q \<longleftrightarrow> qn_askedBy q = BurnGuardQuestionAsker"

definition openGuard :: "GuardWorld \<Rightarrow> string set" where
  "openGuard w = {k. \<exists>q. mapGet (qs_questions (gw_store w)) k = Some q \<and> qn_state q = QuestionOpen \<and> isGuardQuestion q}"

definition otherQuestions :: "GuardWorld \<Rightarrow> string \<Rightarrow> Question option" where
  "otherQuestions w k = (case mapGet (qs_questions (gw_store w)) k of Some q \<Rightarrow> if isGuardQuestion q then None else Some q | None \<Rightarrow> None)"

definition worldOK :: "GuardWorld \<Rightarrow> bool" where
  "worldOK w \<longleftrightarrow> storeInv (gw_store w) \<and> wf_map (qs_questions (gw_store w)) \<and> (\<forall>n. oi_id (gw_inputs w n) \<noteq> [])"

definition worldReliable :: "GuardWorld \<Rightarrow> bool" where
  "worldReliable w \<longleftrightarrow> worldOK w \<and> (\<forall>n. oi_append (gw_inputs w n) = AppendOK)"

lemma worldOK_step:
  assumes "worldOK w" "lifeStep (gw_store w) s"
  shows "worldOK (advanceWorld w s effs)"
  using assms storeInv_step wf_step by (auto simp: worldOK_def advanceWorld_def)

lemma Withdraw_questions:
  assumes "Withdraw c oi k actor reason s = (t, r, effs)"
  shows "(case r of
      Inl _ \<Rightarrow> qs_questions t = qs_questions s
    | Inr _ \<Rightarrow> \<exists>q. mapGet (qs_questions s) k = Some q \<and> qn_state q = QuestionOpen \<and>
        qs_questions t = mapSet (qs_questions s) k (q\<lparr>qn_state := QuestionWithdrawn\<rparr>)) \<and>
    (oi_append oi = AppendOK \<longrightarrow> (\<exists>q. mapGet (qs_questions s) k = Some q \<and> qn_state q = QuestionOpen) \<longrightarrow> (\<exists>q. r = Inr q))"
proof (cases "\<exists>q. mapGet (qs_questions s) k = Some q \<and> qn_state q = QuestionOpen")
  case True
  then obtain q where q: "mapGet (qs_questions s) k = Some q" "qn_state q = QuestionOpen" by blast
  obtain s1 ok where a: "appendRecord c (oi_append oi) (stateRecord storeLineQuestionWithdrawn k actor reason (oi_now oi)) s = (s1, ok)" by fastforce
  note f = appendRecord_fields [OF a]
  show ?thesis
  proof (cases ok)
    case True
    let ?s2 = "moveQuestion k QuestionWithdrawn s1"
    let ?ev = "BuildQuestionWithdrawnEvent (q\<lparr>qn_state := QuestionWithdrawn\<rparr>) actor reason"
    have "qs_questions t = qs_questions ?s2" "r = Inr (q\<lparr>qn_state := QuestionWithdrawn\<rparr>)"
      using assms q a True fire_life [of c "oi_mark oi" "oi_now oi" ?ev ?s2]
      by (auto simp: Withdraw_def mutateState_def sameLife_def split: prod.splits)
    then show ?thesis using q f by (auto simp: moveQuestion_def)
  next
    case False
    then show ?thesis using assms q a f by (auto simp: Withdraw_def mutateState_def)
  qed
next
  case False
  then show ?thesis using assms by (auto simp: Withdraw_def mutateState_def split: option.splits if_splits)
qed

lemma raise_questions:
  assumes "raise c oi dedupeNone q s = (t, r, effs)"
  shows "case r of
      Inl _ \<Rightarrow> qs_questions t = qs_questions s
    | Inr (u, _) \<Rightarrow> qs_questions t = mapSet (qs_questions s) (qn_id u) u \<and> mapGet (qs_questions s) (qn_id u) = None \<and>
        qn_state u = QuestionOpen \<and> qn_askedBy u = qn_askedBy q"
proof (cases "ValidateNewQuestion q")
  case (Inr q1)
  let ?u = "q1\<lparr>qn_id := uniqueID (oi_draw oi) (mapKeys (qs_questions s)) (oi_id oi), qn_createdAt := Some (oi_now oi), qn_state := QuestionOpen\<rparr>"
  obtain s1 ok where a: "appendRecord c (oi_append oi) (raiseRecord ?u) s = (s1, ok)" by fastforce
  have "qn_askedBy q1 = qn_askedBy q" using Inr by (auto simp: ValidateNewQuestion_def split: if_splits)
  then show ?thesis
    using assms Inr a appendRecord_fields [OF a] uniqueID_unused [of "qs_questions s" "oi_draw oi" "oi_id oi"]
    by (cases ok) (auto simp: raise_def findDuplicate_def Let_def putQuestion_def)
qed (use assms in \<open>auto simp: raise_def\<close>)

lemma world_withdraw:
  assumes "worldOK w" "k \<in> openGuard w" "storeWithdraw c k actor reason w = (t, r)"
  shows "worldOK t \<and> openGuard t = (case r of Inl _ \<Rightarrow> openGuard w | Inr _ \<Rightarrow> openGuard w - {k}) \<and> otherQuestions t = otherQuestions w \<and>
    (oi_append (gw_inputs w 0) = AppendOK \<longrightarrow> (\<exists>q. r = Inr q)) \<and> gw_inputs t = (\<lambda>n. gw_inputs w (Suc n))"
proof -
  obtain s effs where run: "Withdraw c (gw_inputs w 0) k actor reason (gw_store w) = (s, r, effs)" and t: "t = advanceWorld w s effs"
    using assms(3) by (auto simp: storeWithdraw_def split: prod.splits)
  have ok: "worldOK t" using worldOK_step [OF assms(1) Withdraw_life [of "gw_store w" c "gw_inputs w 0" k actor reason]] run t by simp
  obtain q0 where q0: "mapGet (qs_questions (gw_store w)) k = Some q0" "qn_state q0 = QuestionOpen" "isGuardQuestion q0"
    using assms(2) by (auto simp: openGuard_def)
  show ?thesis
  proof (cases r)
    case (Inl e)
    then show ?thesis using Withdraw_questions [OF run] q0 ok t by (auto simp: openGuard_def otherQuestions_def advanceWorld_def fun_eq_iff)
  next
    case (Inr u)
    with Withdraw_questions [OF run] q0 have qs: "qs_questions s = mapSet (qs_questions (gw_store w)) k (q0\<lparr>qn_state := QuestionWithdrawn\<rparr>)" by auto
    have "isGuardQuestion (q0\<lparr>qn_state := QuestionWithdrawn\<rparr>)" using q0(3) by (simp add: isGuardQuestion_def)
    then show ?thesis using Inr q0 ok t qs by (auto simp: openGuard_def otherQuestions_def advanceWorld_def fun_eq_iff)
  qed
qed

lemma world_raise:
  assumes "worldOK w" "storeRaise c (BurnGuardQuestion txt) w = (t, r)"
  shows "worldOK t \<and> openGuard t = (case r of Inl _ \<Rightarrow> openGuard w | Inr q \<Rightarrow> insert (qn_id q) (openGuard w)) \<and>
    otherQuestions t = otherQuestions w \<and> gw_inputs t = (\<lambda>n. gw_inputs w (Suc n))"
proof -
  obtain s r0 effs where run: "raise c (gw_inputs w 0) dedupeNone (BurnGuardQuestion txt) (gw_store w) = (s, r0, effs)"
    and t: "t = advanceWorld w s effs" and r: "r = map_sum id fst r0"
    using assms(2) by (auto simp: storeRaise_def split: prod.splits)
  have ids: "oi_id (gw_inputs w 0) \<noteq> []" using assms(1) by (simp add: worldOK_def)
  have ok: "worldOK t" using worldOK_step [OF assms(1) raise_life [OF ids, of "gw_store w" c dedupeNone "BurnGuardQuestion txt"]] run t by simp
  show ?thesis
  proof (cases r0)
    case (Inl e)
    then show ?thesis using raise_questions [OF run] ok t r by (auto simp: openGuard_def otherQuestions_def advanceWorld_def fun_eq_iff)
  next
    case (Inr ub)
    then obtain u b where ub: "r0 = Inr (u, b)" by (cases ub) auto
    then have qs: "qs_questions s = mapSet (qs_questions (gw_store w)) (qn_id u) u" "mapGet (qs_questions (gw_store w)) (qn_id u) = None"
      "qn_state u = QuestionOpen" "isGuardQuestion u"
      using raise_questions [OF run] by (simp_all add: isGuardQuestion_def BurnGuardQuestion_def)
    then show ?thesis using ub ok t r by (auto simp: openGuard_def otherQuestions_def advanceWorld_def fun_eq_iff)
  qed
qed

lemma openGuard_filter: "lower [] = [] \<Longrightarrow> filterMatches lower openGuardFilter s q \<longleftrightarrow> qn_state q = QuestionOpen \<and> isGuardQuestion q"
  by (simp add: filterMatches_def openGuardFilter_def isGuardQuestion_def BurnGuardQuestionAsker_def)

lemma openGuard_finite: "finite (openGuard w)"
proof (rule finite_subset)
  show "openGuard w \<subseteq> set (mapKeys (qs_questions (gw_store w)))"
    using mapHas_keys [of "qs_questions (gw_store w)"] by (auto simp: openGuard_def mapHas_def)
qed simp

lemma take_ids:
  assumes "distinct (map f xs)" "f ` set xs = S"
  shows "distinct (map f (take n xs)) \<and> f ` set (take n xs) \<subseteq> S \<and> (card S \<le> n \<longrightarrow> S \<subseteq> f ` set (take n xs))"
proof -
  have "card S = length xs" using assms distinct_card [OF assms(1)] by simp
  then have "card S \<le> n \<longrightarrow> take n xs = xs" by simp
  then show ?thesis using assms set_take_subset [of n xs] distinct_take [OF assms(1), of n] by (auto simp: take_map)
qed

lemma world_list:
  assumes "worldOK w" "lower [] = []"
  shows "distinct (map qn_id (ListQuestions lower openGuardFilter (gw_store w))) \<and>
    qn_id ` set (ListQuestions lower openGuardFilter (gw_store w)) \<subseteq> openGuard w \<and>
    (card (openGuard w) \<le> 100 \<longrightarrow> openGuard w \<subseteq> qn_id ` set (ListQuestions lower openGuardFilter (gw_store w)))"
proof -
  let ?m = "qs_questions (gw_store w)"
  let ?f = "filter (filterMatches lower openGuardFilter (gw_store w)) (map snd ?m)"
  let ?all = "sortSliceStable newerQuestion ?f"
  have wf: "wf_map ?m" and keys: "keysOK (gw_store w)" using assms(1) by (auto simp: worldOK_def storeInv_def)
  have key: "qn_id q = k" if "(k, q) \<in> set ?m" for k q using that keys wf_map_mem [OF wf] by (auto simp: keysOK_def)
  have "map qn_id (map snd ?m) = map fst ?m" using key by auto
  then have "distinct (map qn_id (map snd ?m))" using wf unfolding wf_map_def by (simp only:)
  then have "distinct (map qn_id ?f)" by (rule distinct_map_filter)
  then have dist: "distinct (map qn_id ?all)" by simp
  have ids: "qn_id ` set ?all = openGuard w"
  proof -
    have "q \<in> set ?f \<longleftrightarrow> mapGet ?m (qn_id q) = Some q \<and> qn_state q = QuestionOpen \<and> isGuardQuestion q" for q
    proof -
      have "q \<in> snd ` set ?m \<longleftrightarrow> mapGet ?m (qn_id q) = Some q"
      proof
        assume "q \<in> snd ` set ?m"
        then obtain k where k: "(k, q) \<in> set ?m" by auto
        then show "mapGet ?m (qn_id q) = Some q" using wf_map_mem [OF wf] by (simp only: key [OF k])
      next
        assume "mapGet ?m (qn_id q) = Some q"
        then show "q \<in> snd ` set ?m" using mapGet_mem by force
      qed
      then show ?thesis using openGuard_filter [of lower "gw_store w" q, OF assms(2)] by auto
    qed
    then show ?thesis using keys by (auto simp: openGuard_def keysOK_def image_iff) blast
  qed
  have listed: "ListQuestions lower openGuardFilter (gw_store w) = take 100 ?all"
    by (simp add: ListQuestions_def openGuardFilter_def)
  show ?thesis unfolding listed by (rule take_ids [OF dist ids])
qed

text \<open>The question store satisfies both contracts, the second while its appends succeed.\<close>

lemma API_simps [simp]:
  "bq_raise (questionStoreAPI c lower) = storeRaise c" "bq_withdraw (questionStoreAPI c lower) = storeWithdraw c"
  "bq_list (questionStoreAPI c lower) f w = ListQuestions (toLower lower) f (gw_store w)"
  by (simp_all add: questionStoreAPI_def)

lemma toLower_Nil: "toLower lower [] = []"
  by (simp add: toLower_def)

interpretation guard_api: guard_question_store "questionStoreAPI c lower" worldOK openGuard otherQuestions for c lower
proof (unfold_locales, goal_cases)
  case 1
  then show ?case by (rule openGuard_finite)
next
  case (2 s k actor reason t r)
  then show ?case using world_withdraw [OF 2(1,2)] by simp
next
  case (3 s m t r)
  then show ?case using world_raise [OF 3(1)] by simp
next
  case (4 s)
  then show ?case using world_list [of s "toLower lower", OF 4 toLower_Nil] by simp
qed

lemma worldReliable_advance:
  "worldReliable w \<Longrightarrow> worldOK t \<Longrightarrow> gw_inputs t = (\<lambda>n. gw_inputs w (Suc n)) \<Longrightarrow> worldReliable t"
  by (simp add: worldReliable_def)

lemma worldReliable_OK: "worldReliable w \<Longrightarrow> worldOK w \<and> oi_append (gw_inputs w 0) = AppendOK"
  by (simp add: worldReliable_def)

interpretation reliable_api: reliable_question_store "questionStoreAPI c lower" worldReliable openGuard otherQuestions for c lower
proof (unfold_locales, goal_cases)
  case 1
  then show ?case by (rule openGuard_finite)
next
  case (2 s k actor reason t r)
  then have "worldOK s" "storeWithdraw c k actor reason s = (t, r)" by (simp_all add: worldReliable_OK)
  from world_withdraw [OF this(1) 2(2) this(2)] show ?case using worldReliable_advance [OF 2(1)] by blast
next
  case (3 s m t r)
  then have "worldOK s" "storeRaise c (BurnGuardQuestion m) s = (t, r)" by (simp_all add: worldReliable_OK)
  from world_raise [OF this] show ?case using worldReliable_advance [OF 3(1)] by blast
next
  case (4 s)
  then show ?case using guard_api.list_law [of s c lower] worldReliable_OK by blast
next
  case (5 s k actor reason t r)
  then have "worldOK s" "storeWithdraw c k actor reason s = (t, r)" by (simp_all add: worldReliable_OK)
  from world_withdraw [OF this(1) 5(2) this(2)] show ?case using worldReliable_OK [OF 5(1)] by blast
qed

section \<open>An example\<close>

definition sampleWrite :: "AppendOutcome \<Rightarrow> nat \<Rightarrow> OpInput" where
  "sampleWrite o0 n = \<lparr>oi_now = int n, oi_id = ''q-'' @ itoa (int n), oi_draw = (\<lambda>_. 0), oi_append = (if n = 1 then o0 else AppendOK), oi_mark = AppendOK\<rparr>"

definition sampleWorld :: "AppendOutcome \<Rightarrow> GuardWorld" where
  "sampleWorld o0 = \<lparr>gw_store = emptyStore [], gw_inputs = sampleWrite o0, gw_effects = []\<rparr>"

definition sampleDecision :: Decision where
  "sampleDecision = \<lparr>dc_direction = DirectionClimb, dc_rung = RungLowerInflight, dc_level = 1, dc_previous = 0, dc_applied = [RungLowerInflight],
     dc_actions = [], dc_projected = Fin False 0, dc_line = Fin False 0, dc_overBy = Fin False 0, dc_pointsPerHour = Fin False 0, dc_allowedPerHour = Fin False 0,
     dc_changed = True, dc_withdraw = True, dc_alertText = ''climbed'', dc_questionText = ''Lowered the cap. Keep it?'', dc_reason = []\<rparr>"

definition sampleAPI :: "GuardWorld BurnGuardQuestionStore" where
  "sampleAPI = questionStoreAPI (\<lambda>_. ''{}'', \<lambda>_. None) (\<lambda>s. s)"

definition askedOnce :: "AppendOutcome \<Rightarrow> GuardWorld" where
  "askedOnce o0 = ApplyBurnGuardAskOnChange (Some sampleAPI) True sampleDecision [] (sampleWorld o0)"

lemma sampleWorld_reliable: "worldReliable (sampleWorld AppendOK)" "openGuard (sampleWorld o0) = {}"
  using storeInv_empty [of "[]"]
  by (simp_all add: worldReliable_def worldOK_def sampleWorld_def sampleWrite_def openGuard_def) (simp_all add: emptyStore_def)




text \<open>A withdrawal that cannot be written leaves the old question open beside the new one.\<close>

lemma failed_withdrawal_leaves_two:
  "map fst (qs_questions (gw_store (ApplyBurnGuardAskOnChange (Some sampleAPI) True sampleDecision [] (askedOnce (WriteFails 0))))) = [''q-0'', ''q-2''] \<and>
   map (\<lambda>e. qn_state (snd e)) (qs_questions (gw_store (ApplyBurnGuardAskOnChange (Some sampleAPI) True sampleDecision [] (askedOnce (WriteFails 0))))) =
     [QuestionOpen, QuestionOpen]"
  by code_simp



text \<open>At start the questions a former run left open are pruned: none stays open when the ladder applies no rung, and
  otherwise exactly the newest; nobody else's question changes.\<close>

theorem guard_prune_keeps_newest:
  assumes "worldReliable w" "card (openGuard w) \<le> 100" "api = questionStoreAPI c lower"
    "PruneBurnGuardQuestionsAtStart (Some api) state w = (t, out)"
  shows "otherQuestions t = otherQuestions w \<and>
    openGuard t = (if ls_applied state = [] \<or> openGuard w = {} then {} else {qn_id (hd (burnGuardOpenQuestions (Some api) w))})"
  using reliable_api.pruned [OF assms(1,2)] assms(3,4) by simp

theorem guard_prune_keeps_newest_witness:
  "openGuard (fst (PruneBurnGuardQuestionsAtStart (Some sampleAPI) (zeroLadderState\<lparr>ls_applied := [RungLowerInflight]\<rparr>)
     (fst (storeRaise (\<lambda>_. ''{}'', \<lambda>_. None) (BurnGuardQuestion ''Second?'') (sampleWorld AppendOK))))) = {''q-0''} \<and>
   openGuard (fst (PruneBurnGuardQuestionsAtStart (Some sampleAPI) zeroLadderState
     (fst (storeRaise (\<lambda>_. ''{}'', \<lambda>_. None) (BurnGuardQuestion ''Second?'') (sampleWorld AppendOK))))) = {}"
proof -
  let ?c = "(\<lambda>_. ''{}'', \<lambda>_. None) :: codec"
  obtain w r where w: "storeRaise ?c (BurnGuardQuestion ''Second?'') (sampleWorld AppendOK) = (w, r)" by fastforce
  have id0: "map_sum (\<lambda>_. ()) qn_id (snd (storeRaise ?c (BurnGuardQuestion ''Second?'') (sampleWorld AppendOK))) = Inr ''q-0''"
    and hd0: "qn_id (hd (burnGuardOpenQuestions (Some sampleAPI) (fst (storeRaise ?c (BurnGuardQuestion ''Second?'') (sampleWorld AppendOK))))) = ''q-0''"
    by code_simp+
  from reliable_api.raise_law [of "sampleWorld AppendOK" ?c "\<lambda>s. s" "''Second?''" w r] sampleWorld_reliable w id0
  have ok: "worldReliable w" "openGuard w = {''q-0''}" by (auto split: sum.splits)
  have small: "card (openGuard w) \<le> 100" using ok(2) by simp
  obtain t out t' out' where runs: "PruneBurnGuardQuestionsAtStart (Some sampleAPI) (zeroLadderState\<lparr>ls_applied := [RungLowerInflight]\<rparr>) w = (t, out)"
    "PruneBurnGuardQuestionsAtStart (Some sampleAPI) zeroLadderState w = (t', out')" by fastforce
  show ?thesis
    using guard_prune_keeps_newest [OF ok(1) small sampleAPI_def runs(1)] guard_prune_keeps_newest [OF ok(1) small sampleAPI_def runs(2)]
      runs ok(2) hd0 w by (simp add: zeroLadderState_def)
qed

end
