(* ===== verification/Question_Guarantees.thy ===== *)
theory Question_Guarantees
  imports Question_Properties
begin

text \<open>
  The guarantees of the question store: what a reopened log and a reopened store have, the history of a question's
  answers, what no operation undoes, the event switch, validation, and the search for a free id. The hypotheses on the
  JSON codec are shown to hold for a table of lines together with the real text of a residue record.
\<close>

section \<open>The history in the views\<close>




section \<open>A codec\<close>

text \<open>The residue record as \<open>json.Marshal\<close> writes it, and a table of lines for the other records of an example.\<close>

definition residueHead :: string where
  "residueHead = ''{\"type\":\"crash_residue\",\"discarded_bytes\":''"

definition tableEnc :: "(string \<times> StoreRecord) list \<Rightarrow> StoreRecord \<Rightarrow> string" where
  "tableEnc tab r =
    (if isResidue r then residueHead @ itoa (rc_discardedBytes r) @ ''}''
     else case find (\<lambda>e. snd e = r) tab of None \<Rightarrow> [] | Some e \<Rightarrow> fst e)"

definition tableUm :: "(string \<times> StoreRecord) list \<Rightarrow> string \<Rightarrow> StoreRecord option" where
  "tableUm tab line =
    (case mapGet tab line of
       Some r \<Rightarrow> Some r
     | None \<Rightarrow> (case cutPrefix line residueHead of
         None \<Rightarrow> None
       | Some t \<Rightarrow> if t \<noteq> [] \<and> last t = CHR ''}'' then Some (residueRecord (nat (decimal (butlast t)))) else None))"

text \<open>No line of the table begins another one, or compares with the text of a residue.\<close>

fun tableOK :: "(string \<times> StoreRecord) list \<Rightarrow> bool" where
  "tableOK [] = True"
| "tableOK ((l, r) # tab) \<longleftrightarrow> l \<noteq> [] \<and> plain l \<and> recordShapeOK r \<and> \<not> isResidue r \<and> \<not> prefix l residueHead \<and> \<not> prefix residueHead l \<and>
     (\<forall>e \<in> set tab. \<not> prefix l (fst e) \<and> \<not> prefix (fst e) l \<and> snd e \<noteq> r) \<and> tableOK tab"

lemma tableOK_mem:
  "tableOK tab \<Longrightarrow> (l, r) \<in> set tab \<Longrightarrow> l \<noteq> [] \<and> plain l \<and> recordShapeOK r \<and> \<not> isResidue r \<and>
    \<not> prefix l residueHead \<and> \<not> prefix residueHead l"
  by (induction tab rule: tableOK.induct) auto

lemma tableOK_free: "tableOK tab \<Longrightarrow> (l, r) \<in> set tab \<Longrightarrow> (m, s) \<in> set tab \<Longrightarrow> prefix m l \<Longrightarrow> m = l \<and> s = r"
  by (induction tab rule: tableOK.induct) force+

lemma tableOK_rec: "tableOK tab \<Longrightarrow> (l, r) \<in> set tab \<Longrightarrow> find (\<lambda>e. snd e = r) tab = Some (l, r)"
  by (induction tab rule: tableOK.induct) auto

lemma digits_chars: "0 \<le> n \<Longrightarrow> c \<in> set (digits n) \<Longrightarrow> \<exists>d. 0 \<le> d \<and> d < 10 \<and> c = digitChar d"
proof (induction n rule: digits.induct)
  case (1 n)
  show ?case
  proof (cases "n < 10")
    case True
    with 1 show ?thesis by (subst (asm) (2) digits.simps) auto
  next
    case False
    then have "digits n = digits (n div 10) @ [digitChar (n mod 10)]" by (subst digits.simps) simp
    with 1 False show ?thesis by (auto intro: exI [of _ "n mod 10"])
  qed
qed

lemma digits_plain: "0 \<le> n \<Longrightarrow> newline \<notin> set (digits n) \<and> CHR ''}'' \<notin> set (digits n)"
proof -
  assume n: "0 \<le> n"
  have "c \<noteq> newline \<and> c \<noteq> CHR ''}''" if "c \<in> set (digits n)" for c
  proof -
    from digits_chars [OF n that] obtain d where d: "0 \<le> d" "d < 10" "c = digitChar d" by blast
    then have "digitVal c = d" by (simp add: digitVal_digitChar)
    moreover have "digitVal newline = -38" "digitVal (CHR ''}'') = 77" by (simp_all add: digitVal_def newline_def)
    ultimately show ?thesis using d by auto
  qed
  then show ?thesis by blast
qed

lemma residueHead_plain: "newline \<notin> set residueHead"
  by code_simp

lemma tableUm_other:
  assumes "\<And>r. (l, r) \<notin> set tab"
  shows "tableUm tab l = (case cutPrefix l residueHead of None \<Rightarrow> None
    | Some t \<Rightarrow> if t \<noteq> [] \<and> last t = CHR ''}'' then Some (residueRecord (nat (decimal (butlast t)))) else None)"
proof -
  have "mapGet tab l = None" using assms mapGet_mem [of tab l] by (cases "mapGet tab l") auto
  then show ?thesis by (simp add: tableUm_def)
qed

lemma residue_lineOK:
  assumes tab: "tableOK tab" and n: "0 < n"
  shows "lineOK (tableEnc tab) (tableUm tab) (residueRecord n)"
proof -
  let ?d = "itoa (int n)" and ?l = "residueHead @ itoa (int n) @ ''}''"
  have enc: "tableEnc tab (residueRecord n) = ?l" by (simp add: tableEnc_def) (simp add: residueRecord_def)
  have d: "newline \<notin> set ?d" "CHR ''}'' \<notin> set ?d" using digits_plain [of "int n"] by (simp_all add: itoa_def)
  have out: "(take k ?l, r) \<notin> set tab" for k r
  proof
    assume "(take k ?l, r) \<in> set tab"
    then have "\<not> prefix (take k ?l) residueHead" "\<not> prefix residueHead (take k ?l)" using tableOK_mem [OF tab] by blast+
    moreover have "prefix (take k ?l) ?l" "prefix residueHead ?l" by (rule take_is_prefix, simp)
    ultimately show False using prefix_same_cases by blast
  qed
  have "tableUm tab (take k ?l) = None" if k: "k < length ?l" for k
  proof (cases "length residueHead \<le> k")
    case True
    define t where "t = take (k - length residueHead) (?d @ ''}'')"
    have tk: "take k ?l = residueHead @ t" using True by (simp add: t_def)
    have "t = take (k - length residueHead) ?d" using k True by (auto simp: t_def)
    then have "t = [] \<or> last t \<noteq> CHR ''}''" using d(2) by (metis in_set_takeD last_in_set)
    then show ?thesis unfolding tableUm_other [OF out] unfolding tk by auto
  next
    case False
    then have "length (take k ?l) < length residueHead" by simp
    then have "cutPrefix (take k ?l) residueHead = None" unfolding cutPrefix_def hasPrefix_cases by (auto dest: arg_cong [of _ _ length])
    then show ?thesis unfolding tableUm_other [OF out] by (simp only: option.case)
  qed
  then have "parseStoreRecord (tableUm tab) (take k ?l) = None" if "k < length ?l" for k using that by (simp add: parseStoreRecord_def)
  moreover have "tableUm tab ?l = Some (residueRecord n)"
    using tableUm_other [of ?l tab] out [of "length ?l"] decimal_digits [of "int n"] by (simp add: itoa_def)
  moreover have "recordShapeOK (residueRecord n)"
    using n by (simp add: recordShapeOK_def residueRecord_def emptyRecord_def storeLine_defs Let_def)
  ultimately show ?thesis
    using d(1) residueHead_plain by (simp add: lineOK_def enc parseStoreRecord_def newline_def)
qed

lemma table_residuesOK: "tableOK tab \<Longrightarrow> residuesOK (tableEnc tab) (tableUm tab)"
  by (simp add: residuesOK_def residue_lineOK)

lemma table_lineOK:
  assumes tab: "tableOK tab" and r: "(l, r) \<in> set tab"
  shows "lineOK (tableEnc tab) (tableUm tab) r"
proof -
  note ok = tableOK_mem [OF tab r]
  have enc: "tableEnc tab r = l" using tableOK_rec [OF tab r] ok by (simp add: tableEnc_def)
  have "mapGet tab l = Some r"
  proof (cases "mapGet tab l")
    case None
    with r show ?thesis by (force simp: mapGet_def map_of_eq_None_iff)
  next
    case (Some s)
    from tableOK_free [OF tab r mapGet_mem [OF this]] Some show ?thesis by simp
  qed
  then have um: "tableUm tab l = Some r" by (simp add: tableUm_def)
  have "tableUm tab (take k l) = None" if k: "k < length l" for k
  proof -
    have "(take k l, s) \<notin> set tab" for s using tableOK_free [OF tab r, of "take k l" s] k take_is_prefix [of k l] by auto
    moreover have "\<not> hasPrefix (take k l) residueHead" using ok take_is_prefix [of k l] by (metis hasPrefix_cases prefix_def prefix_order.trans)
    ultimately show ?thesis using tableUm_other [of "take k l" tab] by (simp add: cutPrefix_def)
  qed
  then show ?thesis using ok um by (simp add: lineOK_def enc parseStoreRecord_def)
qed

section \<open>An example\<close>

definition sampleAsk :: Question where
  "sampleAsk = \<lparr>qn_id = [], qn_label = [], qn_askedBy = ''worker'', qn_askerKind = ''session'', qn_sessionID = ''s1'', qn_context = ''none'',
     qn_prdID = [], qn_taskID = [], qn_proposalPath = [], qn_registryRowKey = [], qn_text = ''Which backend?'',
     qn_options = [\<lparr>op_id = ''a'', op_label = ''first'', op_tradeoffs = []\<rparr>, \<lparr>op_id = ''b'', op_label = ''second'', op_tradeoffs = []\<rparr>],
     qn_recommendation = Some \<lparr>re_optionID = ''b'', re_rationale = []\<rparr>, qn_default = ''hold'', qn_risk = [], qn_createdAt = None,
     qn_state = QuestionOpen, qn_priority = [], qn_returnPath = True, qn_blocking = False, qn_source = [], qn_sourceLineSHA256 = [],
     qn_decisionRecordID = []\<rparr>"

definition sampleQuestion :: Question where
  "sampleQuestion = sampleAsk\<lparr>qn_id := ''q-1'', qn_label := ''decision'', qn_risk := ''normal'', qn_createdAt := Some 7\<rparr>"

definition sampleAnswer :: "string \<Rightarrow> string \<Rightarrow> Answer" where
  "sampleAnswer i old = \<lparr>an_id = i, an_questionID = ''q-1'', an_actor = ''op'', an_surface = [], an_chosenOptionID = ''b'', an_quote = [],
     an_quoteSHA256 = [], an_supersedes = old, an_sourceMessageID = [], an_createdAt = Some 7\<rparr>"

definition sampleMark :: StoreRecord where
  "sampleMark = (emptyRecord storeLineQuestionEventEmitted)\<lparr>rc_questionID := ''q-1'', rc_answerID := ''a-2'',
     rc_eventKind := KindQuestionAnswered, rc_at := Some 9\<rparr>"

definition sampleTable :: "(string \<times> StoreRecord) list" where
  "sampleTable =
    [(''{\"type\":\"question_raised\",\"question\":{\"id\":\"q-1\"}}'', raiseRecord sampleQuestion),
     (''{\"type\":\"answer_recorded\",\"answer\":{\"id\":\"a-1\"}}'', answerRecord (sampleAnswer ''a-1'' [])),
     (''{\"type\":\"answer_recorded\",\"answer\":{\"id\":\"a-2\"}}'', answerRecord (sampleAnswer ''a-2'' ''a-1'')),
     (''{\"type\":\"question_event_emitted\",\"question_id\":\"q-1\"}'', sampleMark)]"

definition sampleCodec :: codec where
  "sampleCodec = (tableEnc sampleTable, tableUm sampleTable)"

definition sampleInput :: "string \<Rightarrow> AppendOutcome \<Rightarrow> OpInput" where
  "sampleInput i w = \<lparr>oi_now = 7, oi_id = i, oi_draw = (\<lambda>_. 0), oi_append = w, oi_mark = AppendOK\<rparr>"

definition sampleScan :: "string \<Rightarrow> string option" where "sampleScan s = None"
definition sampleSHA :: "string \<Rightarrow> string" where "sampleSHA s = ''0''"

text \<open>A raise that is interrupted, the raise again, an answer and its correction: nothing of this sends an event.\<close>

definition sampleOps :: "StoreOp list" where
  "sampleOps =
    [OpRaise (sampleInput ''q-1'' (WriteFails 5)) dedupeNone sampleAsk, OpRaise (sampleInput ''q-1'' AppendOK) dedupeNone sampleAsk,
     OpAnswer (sampleInput ''a-1'' AppendOK) ''q-1'' (sampleAnswer [] []),
     OpAnswer (sampleInput ''a-2'' AppendOK) ''q-1'' (sampleAnswer [] ''a-1'')]"

definition sampleStore :: QuestionStore where
  "sampleStore = fold (runStoreOp sampleCodec sampleScan sampleSHA) sampleOps (emptyStore [])"

lemma sampleTable_OK: "tableOK sampleTable"
  by code_simp

lemma sample_residuesOK: "residuesOK (fst sampleCodec) (snd sampleCodec)"
  using table_residuesOK [OF sampleTable_OK] by (simp add: sampleCodec_def)

lemma sample_lineOK: "r \<in> snd ` set sampleTable \<Longrightarrow> lineOK (fst sampleCodec) (snd sampleCodec) r \<and> \<not> isResidue r"
  using table_lineOK [OF sampleTable_OK] tableOK_mem [OF sampleTable_OK] by (auto simp: sampleCodec_def)

lemma sample_attempts:
  "qs_attempts sampleStore =
    [(raiseRecord sampleQuestion, WriteFails 5), (raiseRecord sampleQuestion, AppendOK),
     (answerRecord (sampleAnswer ''a-1'' []), AppendOK), (answerRecord (sampleAnswer ''a-2'' ''a-1''), AppendOK)]"
  by code_simp

lemma storeReach_fold: "storeReach c scan sha s \<Longrightarrow> list_all opIDs ops \<Longrightarrow> storeReach c scan sha (fold (runStoreOp c scan sha) ops s)"
  by (induction ops arbitrary: s) (auto intro: storeReach.step)

lemma sample_reach: "storeReach sampleCodec sampleScan sampleSHA sampleStore"
  unfolding sampleStore_def by (intro storeReach_fold storeReach.start) (simp add: sampleOps_def opIDs_def sampleInput_def)

lemma sample_records: "\<forall>(r, w) \<in> set (qs_attempts sampleStore). lineOK (fst sampleCodec) (snd sampleCodec) r \<and> \<not> isResidue r"
  unfolding sample_attempts using sample_lineOK by (auto simp: sampleTable_def)

definition sampleCut :: attempts where
  "sampleCut = [(raiseRecord sampleQuestion, WriteFails 5), (raiseRecord sampleQuestion, AppendOK),
     (answerRecord (sampleAnswer ''a-1'' []), SyncFails), (answerRecord (sampleAnswer ''a-1'' []), AppendOK)]"

lemma sampleCut_records: "\<forall>(r, w) \<in> set sampleCut. lineOK (fst sampleCodec) (snd sampleCodec) r \<and> \<not> isResidue r"
  unfolding sampleCut_def using sample_lineOK by (auto simp: sampleTable_def)

lemma sampleCut_run:
  "safeRun (fst sampleCodec) (snd sampleCodec) sampleCut []"
  "durable (fst sampleCodec) (snd sampleCodec) sampleCut [] =
    [raiseRecord sampleQuestion, answerRecord (sampleAnswer ''a-1'' []), answerRecord (sampleAnswer ''a-1'' [])]"
  by code_simp+

lemma sample_run:
  "safeRun (fst sampleCodec) (snd sampleCodec) (qs_attempts sampleStore) []"
  "durable (fst sampleCodec) (snd sampleCodec) (qs_attempts sampleStore) [] = acknowledged (qs_attempts sampleStore)"
  unfolding sample_attempts by code_simp+


lemma sample_pending: "map ev_answerID (ReconcileEmittedEvents sampleStore) = [''a-2'']"
  by code_simp

section \<open>The log\<close>

text \<open>C21. Runs of appends to the question log, with any outcome of their system calls but a cut in the middle of a
  repair: the file opens again, what is read back is exactly the records whose text reached the file in full, in order,
  and every record whose append reported success is among them.\<close>

theorem question_log_durable:
  assumes "residuesOK enc um" "\<forall>(r, w) \<in> set ats. lineOK enc um r \<and> \<not> isResidue r" "safeRun enc um ats []"
  shows "\<exists>rs. replayFile um (logRun enc um ats []) = Inr rs \<and> content rs = durable enc um ats [] \<and>
    subseq (acknowledged ats) (content rs)"
proof -
  obtain rs where rs: "logInv um (logRun enc um ats []) rs" "content rs = content [] @ durable enc um ats []"
    using logRun_inv [OF logInv_empty assms] by blast
  then have "content rs = durable enc um ats []" by (simp add: content_def)
  then show ?thesis using logInv_replay [OF rs(1)] acknowledged_durable [of ats enc um "[]"] by auto
qed

theorem question_log_durable_witness:
  "\<exists>rs. replayFile (snd sampleCodec) (logRun (fst sampleCodec) (snd sampleCodec) sampleCut []) = Inr rs \<and>
    content rs = [raiseRecord sampleQuestion, answerRecord (sampleAnswer ''a-1'' []), answerRecord (sampleAnswer ''a-1'' [])] \<and>
    subseq (acknowledged sampleCut) (content rs)"
  using question_log_durable [OF sample_residuesOK sampleCut_records sampleCut_run(1)] sampleCut_run(2) by simp

text \<open>C22. What two interrupted appends can do: the first leaves a fragment, the second is cut after the line break of its
  repair, and the file then ends with a line break, so the next append repairs nothing and succeeds. The acknowledged record makes
  the file unreadable from then on: the store does not open again.\<close>

theorem double_crash:
  assumes "lineOK enc um r1" "lineOK enc um r3" "\<not> isResidue r3" "0 < j" "j < length (enc r1)"
  shows "replayFile um (logRun enc um [(r1, WriteFails j), (r2, WriteFails 1), (r3, AppendOK)] []) = Inl 1"
proof -
  let ?t = "take j (enc r1)"
  have t: "?t \<noteq> []" "plain ?t" "parseStoreRecord um ?t = None"
    using assms by (auto simp: lineOK_def dest: in_set_takeD)
  have f1: "fst (appendLocked enc um (WriteFails j) r1 []) = ?t"
    using assms(5) by (simp add: appendLocked_def appendChunk_def tailRepair_def Let_def)
  have rep: "tailRepair enc um ?t = newline # enc (residueRecord (length ?t)) @ [newline]"
    using t tailRepair_text [of ?t enc um "[]"] by simp
  have f2: "fst (appendLocked enc um (WriteFails 1) r2 ?t) = unlines [?t]"
    by (simp add: appendLocked_def appendChunk_def rep Let_def)
  have f3: "fst (appendLocked enc um AppendOK r3 (unlines [?t])) = unlines [?t, enc r3]"
    using tailRepair_text [of "[]" enc um "[?t]"] by (simp add: appendLocked_def appendChunk_def Let_def)
  have r3: "enc r3 \<noteq> []" "plain (enc r3)" "parseStoreRecord um (enc r3) = Some r3" using assms(2) by (auto simp: lineOK_def)
  have "replayFile um (unlines [?t, enc r3]) = replayLines um True 0 [?t, enc r3]"
    using replayFile_text [of "[?t, enc r3]" "[]" um] t r3 by simp
  also have "\<dots> = Inl 1" using t r3 assms(3) by (simp add: closedBy_def isResidue_def)
  finally show ?thesis by (simp only: logRun.simps f1 f2 f3)
qed

theorem double_crash_witness:
  "replayFile (snd sampleCodec) (logRun (fst sampleCodec) (snd sampleCodec)
     [(raiseRecord sampleQuestion, WriteFails 5), (raiseRecord sampleQuestion, WriteFails 1), (raiseRecord sampleQuestion, AppendOK)] []) = Inl 1"
proof -
  have r: "lineOK (fst sampleCodec) (snd sampleCodec) (raiseRecord sampleQuestion)" "\<not> isResidue (raiseRecord sampleQuestion)"
    using sample_lineOK by (auto simp: sampleTable_def)
  moreover have "5 < length (fst sampleCodec (raiseRecord sampleQuestion))" by code_simp
  ultimately show ?thesis using double_crash [OF r(1) r(1) r(2), of 5 "raiseRecord sampleQuestion"] by simp
qed

section \<open>The store\<close>

text \<open>C23. A store that is reopened after any operations (whatever their appends did, except a cut inside a repair) has
  the view of the records that reached the file; when those are the ones whose append reported success, it is the view
  the running store had: questions, answers, their order, and the events already sent.\<close>

theorem question_store_reopens:
  assumes reach: "storeReach c scan sha s" and res: "residuesOK (fst c) (snd c)"
    and ok: "\<forall>(r, w) \<in> set (qs_attempts s). lineOK (fst c) (snd c) r \<and> \<not> isResidue r"
    and safe: "safeRun (fst c) (snd c) (qs_attempts s) []"
  shows "\<exists>t. NewQuestionStore (snd c) (qs_file s) = Inr t \<and>
    sameView t (fold applyRecord (durable (fst c) (snd c) (qs_attempts s) []) (emptyStore [])) \<and>
    (durable (fst c) (snd c) (qs_attempts s) [] = acknowledged (qs_attempts s) \<longrightarrow> sameView t s)"
proof -
  let ?um = "snd c" and ?d = "durable (fst c) (snd c) (qs_attempts s) []"
  have disk: "qs_file s = logRun (fst c) ?um (qs_attempts s) []"
    and view: "sameView s (fold applyRecord (acknowledged (qs_attempts s)) (emptyStore []))"
    using storeReach_inv [OF reach] by (auto simp: extends_def emptyStore_def)
  obtain rs where rs: "logInv ?um (qs_file s) rs" "content rs = content [] @ ?d"
    using logRun_inv [OF logInv_empty res ok safe] disk by auto
  let ?t = "fold applyRecord rs (emptyStore (qs_file s))"
  have start: "sameView (emptyStore f) (emptyStore g)" for f g by (simp add: sameView_def emptyStore_def)
  have t: "sameView ?t (fold applyRecord ?d (emptyStore []))"
    using fold_applyRecord_view [OF start] rs(2) fold_content [of rs "emptyStore []"] by (simp add: content_def)
  have "NewQuestionStore ?um (qs_file s) = Inr ?t" using logInv_replay [OF rs(1)] by (simp add: NewQuestionStore_def)
  moreover have "?d = acknowledged (qs_attempts s) \<longrightarrow> sameView ?t s"
    using t sameView_trans [OF _ sameView_sym [OF view]] by auto
  ultimately show ?thesis using t by blast
qed

theorem question_store_reopens_witness:
  "\<exists>t. NewQuestionStore (snd sampleCodec) (qs_file sampleStore) = Inr t \<and> sameView t sampleStore"
  using question_store_reopens [OF sample_reach sample_residuesOK sample_records sample_run(1)] sample_run(2) by blast



text \<open>C25. What no operation undoes: a recorded answer is never changed or removed, the answers of a question only grow
  at the end, and a question that is answered, withdrawn or expired is never edited again (a question stays in the
  store, and an answered one only gains answers).\<close>

theorem answers_are_final:
  assumes "storeReach c scan sha s" "opIDs op"
  shows "keeps s (runStoreOp c scan sha op s)"
  using keeps_step runStoreOp_life storeInv_keys storeReach_inv [OF assms(1)] assms(2) by blast

theorem answers_are_final_witness:
  "keeps sampleStore (runStoreOp sampleCodec sampleScan sampleSHA (OpAnswer (sampleInput ''a-3'' AppendOK) ''q-1'' (sampleAnswer [] ''a-2'')) sampleStore)"
  by (rule answers_are_final [OF sample_reach]) (simp add: opIDs_def sampleInput_def)

section \<open>Events\<close>

definition eventKey :: "LifecycleEvent \<Rightarrow> string" where
  "eventKey ev = questionEventKey (ev_questionID ev) (ev_kind ev) (ev_answerID ev)"

lemma Mark_fields:
  "qs_withdrawMeta (fst (MarkEventEmitted c w now ev s)) = qs_withdrawMeta s"
  "mapHas (qs_eventEmitted (fst (MarkEventEmitted c w now ev s))) k \<longleftrightarrow>
    mapHas (qs_eventEmitted s) k \<or> (w = AppendOK \<and> k = eventKey ev)"
proof -
  obtain s1 ok where a: "appendRecord c w (markRecord ev now) s = (s1, ok)" by fastforce
  show "qs_withdrawMeta (fst (MarkEventEmitted c w now ev s)) = qs_withdrawMeta s"
    "mapHas (qs_eventEmitted (fst (MarkEventEmitted c w now ev s))) k \<longleftrightarrow>
    mapHas (qs_eventEmitted s) k \<or> (w = AppendOK \<and> k = eventKey ev)"
    using a appendRecord_fields [OF a] by (auto simp: MarkEventEmitted_def putEmitted_def eventKey_def)
qed

lemma emitAll_sent: "snd (emitAll c now evs s) = map (\<lambda>e. EventFired (fst e)) evs"
  by (induction evs arbitrary: s) (auto simp: case_prod_beta)

lemma emitAll_meta: "qs_withdrawMeta (fst (emitAll c now evs s)) = qs_withdrawMeta s"
  by (induction evs arbitrary: s) (auto simp: case_prod_beta Mark_fields(1))

lemma emitAll_emitted:
  "mapHas (qs_eventEmitted (fst (emitAll c now evs s))) k \<longleftrightarrow>
    mapHas (qs_eventEmitted s) k \<or> k \<in> eventKey ` {ev. (ev, AppendOK) \<in> set evs}"
  by (induction evs arbitrary: s) (auto simp: case_prod_beta Mark_fields(2))

lemma pendingEvent_later:
  assumes "qn_id q = k" "qs_answers t = qs_answers s" "qs_answerIDs t = qs_answerIDs s" "qs_withdrawMeta t = qs_withdrawMeta s"
    and named: "\<And>i a. i \<in> set (mapGetOr [] (qs_answerIDs s) k) \<Longrightarrow> mapGet (qs_answers s) i = Some a \<Longrightarrow> an_id a = i"
    and more: "\<And>x. mapHas (qs_eventEmitted s) x \<Longrightarrow> mapHas (qs_eventEmitted t) x"
  shows "pendingEvent t (k, q) = filter (\<lambda>e. \<not> mapHas (qs_eventEmitted t) (eventKey (snd e))) (pendingEvent s (k, q))"
proof (cases "qn_state q")
  case QuestionAnswered
  let ?ids = "mapGetOr [] (qs_answerIDs s) k"
  have "eventKey (BuildQuestionAnsweredEvent q a) = questionEventKey k KindQuestionAnswered (an_id a)" for a
    using assms(1) by (simp add: eventKey_def BuildQuestionAnsweredEvent_def buildQuestionEventBase_def)
  moreover have "an_id a = last ?ids" if "?ids \<noteq> []" "mapGet (qs_answers s) (last ?ids) = Some a" for a using named that by simp
  ultimately show ?thesis
    using QuestionAnswered assms(2,3) more [of "questionEventKey k KindQuestionAnswered (last ?ids)"]
    by (simp add: pendingEvent_def Let_def split: option.split)
next
  case QuestionWithdrawn
  have "eventKey (BuildQuestionWithdrawnEvent q x y) = questionEventKey k KindQuestionWithdrawn []" for x y
    using assms(1) by (simp add: eventKey_def BuildQuestionWithdrawnEvent_def buildQuestionEventBase_def)
  then show ?thesis using QuestionWithdrawn assms(4) more by (auto simp: pendingEvent_def case_prod_beta)
qed (simp_all add: pendingEvent_def)

lemma pending_sink: "pendingEvent (s\<lparr>qs_sink := b\<rparr>) = pendingEvent s"
  by (simp add: pendingEvent_def Let_def cong: QuestionState.case_cong option.case_cong prod.case_cong if_cong)

lemma chain_named: "chain as k p ids \<Longrightarrow> i \<in> set ids \<Longrightarrow> mapGet as i = Some a \<Longrightarrow> an_id a = i"
  by (induction ids arbitrary: p) (auto split: option.splits)

lemma reach_named:
  "storeReach c scan sha s \<Longrightarrow> i \<in> set (mapGetOr [] (qs_answerIDs s) k) \<Longrightarrow> mapGet (qs_answers s) i = Some a \<Longrightarrow> an_id a = i"
  using chain_named [of "qs_answers s" k "[]" "idsOf s k" i a] storeReach_inv [of c scan sha s] by (simp add: storeInv_def idsOf_def)

lemma pendingEvent_unsent:
  assumes "storeReach c scan sha s" "qn_id q = k" "e \<in> set (pendingEvent s (k, q))"
  shows "\<not> mapHas (qs_eventEmitted s) (eventKey (snd e))"
proof -
  have eq: "pendingEvent s (k, q) = filter (\<lambda>e. \<not> mapHas (qs_eventEmitted s) (eventKey (snd e))) (pendingEvent s (k, q))"
    by (rule pendingEvent_later [OF assms(2) refl refl refl reach_named [OF assms(1)]])
  show ?thesis using assms(3) by (subst (asm) eq) simp
qed

interpretation event_order: strict_weak_order "\<lambda>a b :: string \<times> LifecycleEvent. fst a < fst b"
  using swo_lessByKey [of "fst :: string \<times> LifecycleEvent \<Rightarrow> string"] by (simp add: lessByKey_def [abs_def])

text \<open>Switching the events on sends every event that has no marker, each once, and leaves exactly those to be sent
  again whose marker could not be written: none when every append succeeds.\<close>

theorem event_switch_drains:
  assumes "storeReach c scan sha s" "evs = ReconcileEmittedEvents s" "zip evs (map ws [0..<length evs]) = tried"
  shows "snd (ApplyEventSwitch c True now ws s) = map EventFired evs \<and>
    ReconcileEmittedEvents (fst (ApplyEventSwitch c True now ws s)) = filter (\<lambda>ev. eventKey ev \<notin> eventKey ` {e. (e, AppendOK) \<in> set tried}) evs \<and>
    ((\<forall>n. ws n = AppendOK) \<longrightarrow> ReconcileEmittedEvents (fst (ApplyEventSwitch c True now ws s)) = [])"
proof -
  let ?s = "s\<lparr>qs_sink := True\<rparr>" and ?marked = "eventKey ` {e. (e, AppendOK) \<in> set tried}"
  let ?t = "fst (emitAll c now tried ?s)"
  have "ReconcileEmittedEvents ?s = evs" using assms(2) by (simp add: ReconcileEmittedEvents_def pending_sink)
  then have run: "ApplyEventSwitch c True now ws s = emitAll c now tried ?s" using assms(3) by (simp add: ApplyEventSwitch_def Let_def)
  have "map fst tried = evs" using assms(3) by auto
  then have sent: "snd (emitAll c now tried ?s) = map EventFired evs" by (auto simp: emitAll_sent)
  have life: "sameLife ?t s" using emitAll_life [of c now tried ?s] by (simp add: sameLife_def)
  have emitted: "mapHas (qs_eventEmitted ?t) x \<longleftrightarrow> mapHas (qs_eventEmitted s) x \<or> x \<in> ?marked" for x
    using emitAll_emitted [of c now tried ?s x] by simp
  have "pendingEvent ?t (k, q) = filter (\<lambda>e. eventKey (snd e) \<notin> ?marked) (pendingEvent s (k, q))" if "(k, q) \<in> set (qs_questions s)" for k q
  proof -
    have k: "qn_id q = k"
      using that wf_map_mem [OF storeReach_wf [OF assms(1)]] storeInv_keys storeReach_inv [OF assms(1)] by (auto simp: keysOK_def)
    have "pendingEvent ?t (k, q) = filter (\<lambda>e. \<not> mapHas (qs_eventEmitted ?t) (eventKey (snd e))) (pendingEvent s (k, q))"
      using life emitAll_meta [of c now tried ?s] emitted by (intro pendingEvent_later [OF k _ _ _ reach_named [OF assms(1)]]) (auto simp: sameLife_def)
    also have "\<dots> = filter (\<lambda>e. eventKey (snd e) \<notin> ?marked) (pendingEvent s (k, q))"
      using pendingEvent_unsent [OF assms(1) k] by (intro filter_cong) (auto simp: emitted)
    finally show ?thesis .
  qed
  then have "concat (map (pendingEvent ?t) (qs_questions s)) = concat (map (\<lambda>x. filter (\<lambda>e. eventKey (snd e) \<notin> ?marked) (pendingEvent s x)) (qs_questions s))"
    by (intro arg_cong [of _ _ concat] map_cong) auto
  then have "concat (map (pendingEvent ?t) (qs_questions ?t)) = filter (\<lambda>e. eventKey (snd e) \<notin> ?marked) (concat (map (pendingEvent s) (qs_questions s)))"
    using life by (simp add: sameLife_def filter_concat comp_def)
  then have left: "ReconcileEmittedEvents ?t = filter (\<lambda>ev. eventKey ev \<notin> ?marked) evs"
    using assms(2) by (simp add: ReconcileEmittedEvents_def event_order.filter_sort [symmetric] filter_map comp_def)
  have "filter (\<lambda>ev. eventKey ev \<notin> ?marked) evs = []" if "\<forall>n. ws n = AppendOK"
  proof -
    have "map ws [0..<length evs] = replicate (length evs) AppendOK" using that by (intro nth_equalityI) auto
    then show ?thesis using assms(3) by (auto simp: filter_empty_conv zip_replicate2)
  qed
  then show ?thesis using run sent left by simp
qed

theorem event_switch_drains_witness:
  "ReconcileEmittedEvents (fst (ApplyEventSwitch sampleCodec True 9 (\<lambda>_. AppendOK) sampleStore)) = [] \<and>
   snd (ApplyEventSwitch sampleCodec True 9 (\<lambda>_. AppendOK) sampleStore) = map EventFired (ReconcileEmittedEvents sampleStore)"
  using event_switch_drains [OF sample_reach refl refl, of 9 "\<lambda>_. AppendOK"] by blast

section \<open>Validation and ids\<close>

lemma default_label: "labelProblems ''decision'' = []"
  by code_simp

text \<open>A question that passes validation is well formed, whatever was asked for, and the validated question passes
  again unchanged.\<close>

theorem validated_question_type:
  assumes "ValidateNewQuestion q = Inr u"
  shows "wfQuestion u \<and> ValidateNewQuestion u = Inr u"
proof -
  have q: "questionProblems q = []" and u: "u = q\<lparr>qn_label := (if qn_label q = [] then ''decision'' else qn_label q), qn_risk := effectiveRisk q\<rparr>"
    using assms by (auto simp: ValidateNewQuestion_def split: if_splits)
  have same: "sourceProblems u = sourceProblems q" "contextProblems u = contextProblems q" "effectiveRisk u = effectiveRisk q"
    unfolding u by (simp_all only: sourceProblems_def contextProblems_def effectiveRisk_def Question.simps) auto
  have fields: "qn_options u = qn_options q" "qn_priority u = qn_priority q" "qn_returnPath u = qn_returnPath q"
    "qn_sessionID u = qn_sessionID q" "qn_decisionRecordID u = qn_decisionRecordID q" "qn_text u = qn_text q"
    "qn_default u = qn_default q" "qn_recommendation u = qn_recommendation q" "qn_proposalPath u = qn_proposalPath q"
    unfolding u by simp_all
  have "labelProblems (qn_label u) = []"
    using q default_label unfolding u by (simp add: questionProblems_def case_prod_beta)
  then have "questionProblems u = []"
    using q unfolding questionProblems_def same fields case_prod_beta append_is_Nil_conv by blast
  moreover have "u\<lparr>qn_label := (if qn_label u = [] then ''decision'' else qn_label u), qn_risk := effectiveRisk u\<rparr> = u"
    using q unfolding u by (auto simp: effectiveRisk_def questionProblems_def split: prod.splits)
  ultimately show ?thesis using ValidateNewQuestion_wf [OF assms] by (simp add: ValidateNewQuestion_def)
qed

theorem validated_question_type_witness:
  "wfQuestion (sampleAsk\<lparr>qn_label := ''decision'', qn_risk := ''normal''\<rparr>)"
proof -
  have "ValidateNewQuestion sampleAsk = Inr (sampleAsk\<lparr>qn_label := ''decision'', qn_risk := ''normal''\<rparr>)" by code_simp
  from validated_question_type [OF this] show ?thesis by blast
qed

lemma extendID_stop: "extendID n draw i T k \<notin> T \<Longrightarrow> extendID (n + m) draw i T k = extendID n draw i T k"
proof (induction n arbitrary: i k)
  case 0
  then show ?case by (cases m) auto
qed auto

text \<open>The search for a free id ends: after at most one round for each id taken it holds an id that is not taken,
  which extends the proposed one, and more rounds change nothing.\<close>

theorem unique_id_terminates:
  "uniqueID draw taken k \<notin> set taken \<and> prefix k (uniqueID draw taken k) \<and>
   extendID (Suc (length taken) + m) draw 0 (set taken) k = uniqueID draw taken k"
  using uniqueID_fresh [of draw taken k] extendID_prefix [of k "Suc (length taken)" draw 0 "set taken"]
    extendID_stop [of "Suc (length taken)" draw 0 "set taken" k m]
  by (simp add: uniqueID_def)

end
