(* ===== verification/Automation_Graph.thy ===== *)
theory Automation_Graph
  imports Go_Float Pipeline_DAG
begin

text \<open>
  \<open>internal/autonomous/automation.go\<close>: an Automation is a graph of members (PRDs, nested Automations, forks and joins)
  that one or more cursors move through. Here are its data, the successor relation, the cycle and reachability checks
  and the structural validation that every stored Automation has passed.

  A field that no modelled code reads is left out. The checks of the budget policies, of the decision assistant and of the
  automatic tags, which look at single settings and not at the graph, are the argument \<open>settings\<close>. Error messages
  are values of a datatype. The code ranges over a Go map of the three outcome edges of a member, in no fixed order, so which of
  several edge errors it reports is open; the model takes the order on_complete, on_blocked, on_failed.
\<close>

section \<open>Data\<close>

datatype AutomationStatus =
  AutomationDraft | AutomationActive | AutomationPaused | AutomationCompleted | AutomationBlocked | AutomationCancelled | AutomationOther string

datatype MemberStatus =
  MemberPending | MemberRunning | MemberCompleted | MemberBlocked | MemberFailed | MemberSkipped | MemberCancelled | MemberOther string

definition MemberKindPRD :: string where "MemberKindPRD = ''prd''"
definition MemberKindAutomation :: string where "MemberKindAutomation = ''automation''"
definition MemberKindFork :: string where "MemberKindFork = ''fork''"
definition MemberKindJoin :: string where "MemberKindJoin = ''join''"
definition BranchAllMustSucceed :: string where "BranchAllMustSucceed = ''all_must_succeed''"
definition BranchAnyOneIsEnough :: string where "BranchAnyOneIsEnough = ''any_one_is_enough''"
definition BranchContinueAnyway :: string where "BranchContinueAnyway = ''continue_anyway''"

lemmas memberKind_defs = MemberKindPRD_def MemberKindAutomation_def MemberKindFork_def MemberKindJoin_def
lemmas branchRule_defs = BranchAllMustSucceed_def BranchAnyOneIsEnough_def BranchContinueAnyway_def

lemma memberKinds_differ [simp]:
  "MemberKindPRD \<noteq> MemberKindAutomation" "MemberKindPRD \<noteq> MemberKindFork" "MemberKindPRD \<noteq> MemberKindJoin"
  "MemberKindAutomation \<noteq> MemberKindPRD" "MemberKindAutomation \<noteq> MemberKindFork" "MemberKindAutomation \<noteq> MemberKindJoin"
  "MemberKindFork \<noteq> MemberKindPRD" "MemberKindFork \<noteq> MemberKindAutomation" "MemberKindFork \<noteq> MemberKindJoin"
  "MemberKindJoin \<noteq> MemberKindPRD" "MemberKindJoin \<noteq> MemberKindAutomation" "MemberKindJoin \<noteq> MemberKindFork"
  by (simp_all add: memberKind_defs)

record AutomationMember =
  mb_id :: string
  mb_prdID :: string
  mb_onComplete :: string
  mb_onBlocked :: string
  mb_onFailed :: string
  mb_kind :: string
  mb_automationID :: string
  mb_forkMembers :: "string list"
  mb_joinMembers :: "string list"
  mb_onBranchFailure :: string
  mb_status :: MemberStatus
  mb_startedAt :: "time option"
  mb_finishedAt :: "time option"
  mb_outcome :: string
  mb_edgeTaken :: string
  mb_estimatedCostUSD :: float64
  mb_addedAt :: time
  mb_addedBy :: string
  mb_stage :: string

record BudgetState =
  bs_action :: string
  bs_breachedAt :: time
  bs_reason :: string
  bs_scope :: string
  bs_spentUSD :: float64
  bs_ceilingUSD :: float64
  bs_window :: string
  bs_resumeAt :: "time option"
  bs_resetKnown :: bool
  bs_resetSource :: string

record MergedMemberDecision =
  md_member :: string
  md_prdID :: string
  md_branch :: string
  md_defaultBranch :: string
  md_commit :: string
  md_policy :: string
  md_outcome :: string

datatype DecisionNote = NoteText string | NoteCompleted string string | NoteRewired string string string string

record AutoDecision =
  ad_at :: time
  ad_kind :: string
  ad_actor :: string
  ad_note :: DecisionNote
  ad_mergedMember :: "MergedMemberDecision option"

record Automation =
  au_id :: string
  au_name :: string
  au_status :: AutomationStatus
  au_entryMemberID :: string
  au_currentMemberID :: string
  au_activeCursors :: "string list"
  au_members :: "AutomationMember list"
  au_budgetState :: "BudgetState option"
  au_startedAt :: "time option"
  au_finishedAt :: "time option"
  au_idleSince :: "time option"
  au_decisions :: "AutoDecision list"
  au_version :: int
  au_createdAt :: time
  au_updatedAt :: time

definition memberKind :: "AutomationMember \<Rightarrow> string" where
  "memberKind m = (if mb_kind m = [] then MemberKindPRD else mb_kind m)"

definition automationIsLinear :: "Automation \<Rightarrow> bool" where
  "automationIsLinear a = list_all (\<lambda>m. memberKind m \<notin> {MemberKindFork, MemberKindJoin, MemberKindAutomation}) (au_members a)"

definition sortedUniqueStrings :: "string list \<Rightarrow> string list" where
  "sortedUniqueStrings xs = remdups_adj (sort xs)"

definition normalizeActiveCursors :: "Automation \<Rightarrow> Automation" where
  "normalizeActiveCursors a =
    (if automationIsLinear a
     then a\<lparr>au_activeCursors := (if au_currentMemberID a \<noteq> [] then [au_currentMemberID a] else [])\<rparr>
     else a\<lparr>au_activeCursors := sortedUniqueStrings (au_activeCursors a)\<rparr>)"

section \<open>The successor relation\<close>

definition outcomeEdges :: "AutomationMember \<Rightarrow> string list" where
  "outcomeEdges m = filter (\<lambda>t. t \<noteq> []) [mb_onComplete m, mb_onBlocked m, mb_onFailed m]"

definition pairedJoins :: "AutomationMember list \<Rightarrow> (string, string) gomap" where
  "pairedJoins ms =
    fold (\<lambda>m pj. if memberKind m = MemberKindJoin then fold (\<lambda>b pj'. mapSet pj' b (mb_id m)) (mb_joinMembers m) pj else pj) ms []"

definition memberNext :: "(string, string) gomap \<Rightarrow> AutomationMember \<Rightarrow> string list" where
  "memberNext pj m =
    outcomeEdges m @ (if memberKind m = MemberKindFork then mb_forkMembers m else [])
    @ (case mapGet pj (mb_id m) of None \<Rightarrow> [] | Some j \<Rightarrow> [j])"

definition automationSuccessors :: "Automation \<Rightarrow> (string, string list) gomap" where
  "automationSuccessors a =
    (let pj = pairedJoins (au_members a)
     in fold (\<lambda>m out. mapSet out (mb_id m) (memberNext pj m)) (au_members a) [])"

section \<open>The cycle check\<close>

text \<open>The three-colour search from the entry member. It answers \<open>None\<close> when its fuel runs out, which the fuel that
  \<open>automationHasCycle\<close> gives it never does; else the colours, the path and the cycle, if there is one.\<close>

type_synonym cycleState = "(string, Color) gomap \<times> string list"

definition nodeColor :: "(string, Color) gomap \<Rightarrow> string \<Rightarrow> Color" where
  "nodeColor cs x = mapGetOr White cs x"

fun cycleLoop :: "(string \<Rightarrow> cycleState \<Rightarrow> (cycleState \<times> string list option) option) \<Rightarrow> string \<Rightarrow> string list
    \<Rightarrow> cycleState \<Rightarrow> (cycleState \<times> string list option) option" where
  "cycleLoop visit u [] (cs, path) = Some ((mapSet cs u Black, butlast path), None)"
| "cycleLoop visit u (v # vs) (cs, path) =
    (case nodeColor cs v of
       Gray \<Rightarrow> Some ((cs, path), Some (dropWhile (\<lambda>x. x \<noteq> v) path))
     | White \<Rightarrow> (case visit v (cs, path) of
         None \<Rightarrow> None
       | Some (st, Some c) \<Rightarrow> Some (st, Some c)
       | Some (st, None) \<Rightarrow> cycleLoop visit u vs st)
     | Black \<Rightarrow> cycleLoop visit u vs (cs, path))"

primrec cycleFrom :: "nat \<Rightarrow> (string, string list) gomap \<Rightarrow> string \<Rightarrow> cycleState \<Rightarrow> (cycleState \<times> string list option) option" where
  "cycleFrom 0 succ u st = None"
| "cycleFrom (Suc n) succ u st =
    cycleLoop (cycleFrom n succ) u (mapGetOr [] succ u) (mapSet (fst st) u Gray, snd st @ [u])"

definition graphNodes :: "Automation \<Rightarrow> string list" where
  "graphNodes a = au_entryMemberID a # concat (map snd (automationSuccessors a))"

definition automationHasCycle :: "Automation \<Rightarrow> string list option option" where
  "automationHasCycle a =
    map_option snd (cycleFrom (Suc (length (graphNodes a))) (automationSuccessors a) (au_entryMemberID a) ([], []))"

section \<open>Reachability\<close>

text \<open>The inner loop marks the successors that are new and pushes them.\<close>

fun pushNew :: "string list \<Rightarrow> string list \<times> string list \<Rightarrow> string list \<times> string list" where
  "pushNew [] (reached, stack) = (reached, stack)"
| "pushNew (v # vs) (reached, stack) = (if v \<in> set reached then pushNew vs (reached, stack) else pushNew vs (v # reached, v # stack))"

definition succTargets :: "(string, string list) gomap \<Rightarrow> string set" where
  "succTargets succ = set (concat (map snd succ))"

lemma pushNew_measure:
  assumes "set vs \<subseteq> T" "finite T" "pushNew vs (reached, stack) = (r', s')"
  shows "2 * card (T - set r') + length s' \<le> 2 * card (T - set reached) + length stack"
  using assms(1,3)
proof (induction vs "(reached, stack)" arbitrary: reached stack rule: pushNew.induct)
  case (2 v vs reached stack)
  show ?case
  proof (cases "v \<in> set reached")
    case False
    have "card (T - set (v # reached)) < card (T - set reached)"
      using 2(3) False assms(2) by (intro psubset_card_mono) auto
    with 2(2) [OF False] 2(3,4) False show ?thesis by simp
  qed (use 2 in simp)
qed simp

lemma mapGetOr_targets: "set (mapGetOr [] succ x) \<subseteq> succTargets succ"
  using mapGet_mem [of succ x] by (cases "mapGet succ x") (force simp: mapGetOr_def succTargets_def)+

function reachLoop :: "(string, string list) gomap \<Rightarrow> string list \<Rightarrow> string list \<Rightarrow> string list" where
  "reachLoop succ reached [] = reached"
| "reachLoop succ reached (x # stack) =
    (case pushNew (mapGetOr [] succ x) (reached, stack) of (reached', stack') \<Rightarrow> reachLoop succ reached' stack')"
  by pat_completeness auto
termination
proof (relation "measure (\<lambda>(succ, reached, stack). 2 * card (succTargets succ - set reached) + length stack)", goal_cases)
  case (2 succ reached x stack reached' stack')
  then have "pushNew (mapGetOr [] succ x) (reached, stack) = (reached', stack')" by simp
  from pushNew_measure [OF mapGetOr_targets _ this] show ?case by (simp add: succTargets_def)
qed simp

definition automationUnreachable :: "Automation \<Rightarrow> string list" where
  "automationUnreachable a =
    (if au_entryMemberID a = [] then []
     else let reached = reachLoop (automationSuccessors a) [au_entryMemberID a] [au_entryMemberID a]
          in sort (filter (\<lambda>i. i \<notin> set reached) (map mb_id (au_members a))))"

section \<open>Validation\<close>

datatype AutomationError =
    BlankName | UnknownStatus string | EmptyMemberID | UnknownKind string string | ForkMembersOnly string | JoinFieldsOnly string
  | AutomationIDOnly string | NegativeCost string | CostOnly string | KindWithPRD string | NeedsAutomationID string | NestsItself string
  | UnknownBranchRule string | EmptyPRDID string | DuplicateMember string | DuplicatePRD string | NoEntry | EntryUnknown string
  | EntryIsJoin string | EdgeToSelf string | EdgeUnknown string string | EdgeToJoin string string | BadSettings string
  | CursorUnknown string | CursorTwice string | TooFewBranches string | ForkWithEdges string | JoinWithEdges string
  | BranchTwice string string | BranchUnknown string string | BranchKind string string | BranchWithEdges string string
  | BranchClaimed string string | ForkUnpaired string | JoinUnpaired string | CycleFound "string list" | Unreachable "string list"

definition orElse :: "'e option \<Rightarrow> 'e option \<Rightarrow> 'e option" where
  "orElse x y = (case x of None \<Rightarrow> y | Some _ \<Rightarrow> x)"

fun firstError :: "('a \<Rightarrow> 'e option) \<Rightarrow> 'a list \<Rightarrow> 'e option" where
  "firstError f [] = None"
| "firstError f (x # xs) = orElse (f x) (firstError f xs)"

lemma orElse_None [simp]: "orElse x y = None \<longleftrightarrow> x = None \<and> y = None"
  by (simp add: orElse_def split: option.split)

lemma firstError_None [simp]: "firstError f xs = None \<longleftrightarrow> (\<forall>x \<in> set xs. f x = None)"
  by (induction xs) auto

definition validateMemberKind :: "Automation \<Rightarrow> AutomationMember \<Rightarrow> AutomationError option" where
  "validateMemberKind a m =
    (let k = memberKind m; zero = Fin False 0
     in if mb_kind m \<notin> {[], MemberKindPRD, MemberKindAutomation, MemberKindFork, MemberKindJoin} then Some (UnknownKind (mb_id m) (mb_kind m))
        else if k \<noteq> MemberKindFork \<and> mb_forkMembers m \<noteq> [] then Some (ForkMembersOnly (mb_id m))
        else if k \<noteq> MemberKindJoin \<and> (mb_joinMembers m \<noteq> [] \<or> mb_onBranchFailure m \<noteq> []) then Some (JoinFieldsOnly (mb_id m))
        else if k \<noteq> MemberKindAutomation \<and> mb_automationID m \<noteq> [] then Some (AutomationIDOnly (mb_id m))
        else if fless (mb_estimatedCostUSD m) zero then Some (NegativeCost (mb_id m))
        else if k \<noteq> MemberKindPRD \<and> \<not> feq (mb_estimatedCostUSD m) zero then Some (CostOnly (mb_id m))
        else if k \<noteq> MemberKindPRD \<and> mb_prdID m \<noteq> [] then Some (KindWithPRD (mb_id m))
        else if k = MemberKindAutomation \<and> trimSpace (mb_automationID m) = [] then Some (NeedsAutomationID (mb_id m))
        else if k = MemberKindAutomation \<and> mb_automationID m = au_id a then Some (NestsItself (mb_id m))
        else if k = MemberKindJoin \<and> mb_onBranchFailure m \<notin> {[], BranchAllMustSucceed, BranchAnyOneIsEnough, BranchContinueAnyway}
        then Some (UnknownBranchRule (mb_id m))
        else None)"

text \<open>The first loop: kinds, and ids and PRDs that repeat.\<close>

fun validateMembers :: "Automation \<Rightarrow> string list \<Rightarrow> string list \<Rightarrow> AutomationMember list \<Rightarrow> AutomationError option" where
  "validateMembers a ids prds [] = None"
| "validateMembers a ids prds (m # ms) =
    (if trimSpace (mb_id m) = [] then Some EmptyMemberID
     else case validateMemberKind a m of
            Some e \<Rightarrow> Some e
          | None \<Rightarrow>
              if memberKind m = MemberKindPRD \<and> trimSpace (mb_prdID m) = [] then Some (EmptyPRDID (mb_id m))
              else if mb_id m \<in> set ids then Some (DuplicateMember (mb_id m))
              else if memberKind m = MemberKindPRD \<and> mb_prdID m \<in> set prds then Some (DuplicatePRD (mb_prdID m))
              else validateMembers a (mb_id m # ids) (if memberKind m = MemberKindPRD then mb_prdID m # prds else prds) ms)"

definition memberByID :: "Automation \<Rightarrow> string \<Rightarrow> AutomationMember option" where
  "memberByID a i = find (\<lambda>m. mb_id m = i) (au_members a)"

definition validateEntry :: "Automation \<Rightarrow> AutomationError option" where
  "validateEntry a =
    (if au_entryMemberID a = [] then (if au_members a \<noteq> [] then Some NoEntry else None)
     else case memberByID a (au_entryMemberID a) of
            None \<Rightarrow> Some (EntryUnknown (au_entryMemberID a))
          | Some e \<Rightarrow> if memberKind e = MemberKindJoin then Some (EntryIsJoin (au_entryMemberID a)) else None)"

definition validateEdge :: "Automation \<Rightarrow> AutomationMember \<Rightarrow> string \<Rightarrow> AutomationError option" where
  "validateEdge a m target =
    (if target = mb_id m then Some (EdgeToSelf (mb_id m))
     else case memberByID a target of
            None \<Rightarrow> Some (EdgeUnknown (mb_id m) target)
          | Some t \<Rightarrow> if memberKind t = MemberKindJoin then Some (EdgeToJoin (mb_id m) target) else None)"

definition validateEdges :: "Automation \<Rightarrow> AutomationError option" where
  "validateEdges a = firstError (\<lambda>m. firstError (validateEdge a m) (outcomeEdges m)) (au_members a)"

fun validateCursors :: "Automation \<Rightarrow> string list \<Rightarrow> string list \<Rightarrow> AutomationError option" where
  "validateCursors a seen [] = None"
| "validateCursors a seen (c # cs) =
    (if memberByID a c = None then Some (CursorUnknown c)
     else if c \<in> set seen then Some (CursorTwice c)
     else validateCursors a (c # seen) cs)"

section \<open>Fork and join pairing\<close>

fun checkBranchSet :: "Automation \<Rightarrow> AutomationMember \<Rightarrow> string list \<Rightarrow> string list \<Rightarrow> (string, string) gomap
    \<Rightarrow> AutomationError + (string, string) gomap" where
  "checkBranchSet a m seen [] claims = Inr claims"
| "checkBranchSet a m seen (b # bs) claims =
    (if b \<in> set seen then Inl (BranchTwice (mb_id m) b)
     else case memberByID a b of
            None \<Rightarrow> Inl (BranchUnknown (mb_id m) b)
          | Some t \<Rightarrow>
              if memberKind t \<noteq> MemberKindPRD \<and> memberKind t \<noteq> MemberKindAutomation then Inl (BranchKind (mb_id m) b)
              else if mb_onComplete t \<noteq> [] \<or> mb_onBlocked t \<noteq> [] \<or> mb_onFailed t \<noteq> [] then Inl (BranchWithEdges (mb_id m) b)
              else case mapGet claims b of
                     Some prev \<Rightarrow> Inl (BranchClaimed b prev)
                   | None \<Rightarrow> checkBranchSet a m (b # seen) bs (mapSet claims b (mb_id m)))"

definition sameMemberSet :: "string list \<Rightarrow> string list \<Rightarrow> bool" where
  "sameMemberSet x y \<longleftrightarrow> length x = length y \<and> list_all (\<lambda>v. v \<in> set y) x"

fun validateBranches :: "Automation \<Rightarrow> (string, string) gomap \<Rightarrow> (string, string) gomap \<Rightarrow> AutomationMember list \<Rightarrow> AutomationError option" where
  "validateBranches a forkClaims joinClaims [] = None"
| "validateBranches a forkClaims joinClaims (m # ms) =
    (if memberKind m = MemberKindFork
     then if length (mb_forkMembers m) < 2 then Some (TooFewBranches (mb_id m))
          else if mb_onComplete m \<noteq> [] \<or> mb_onBlocked m \<noteq> [] \<or> mb_onFailed m \<noteq> [] then Some (ForkWithEdges (mb_id m))
          else (case checkBranchSet a m [] (mb_forkMembers m) forkClaims of
                  Inl e \<Rightarrow> Some e
                | Inr claims \<Rightarrow> validateBranches a claims joinClaims ms)
     else if memberKind m = MemberKindJoin
     then if length (mb_joinMembers m) < 2 then Some (TooFewBranches (mb_id m))
          else if mb_onBlocked m \<noteq> [] \<or> mb_onFailed m \<noteq> [] then Some (JoinWithEdges (mb_id m))
          else (case checkBranchSet a m [] (mb_joinMembers m) joinClaims of
                  Inl e \<Rightarrow> Some e
                | Inr claims \<Rightarrow> validateBranches a forkClaims claims ms)
     else validateBranches a forkClaims joinClaims ms)"

definition joinsOf :: "Automation \<Rightarrow> AutomationMember \<Rightarrow> AutomationMember list" where
  "joinsOf a f = filter (\<lambda>j. memberKind j = MemberKindJoin \<and> sameMemberSet (mb_joinMembers j) (mb_forkMembers f)) (au_members a)"

definition forksOf :: "Automation \<Rightarrow> AutomationMember \<Rightarrow> AutomationMember list" where
  "forksOf a j = filter (\<lambda>f. memberKind f = MemberKindFork \<and> sameMemberSet (mb_forkMembers f) (mb_joinMembers j)) (au_members a)"

definition validateForkJoinPairing :: "Automation \<Rightarrow> AutomationError option" where
  "validateForkJoinPairing a =
    orElse (validateBranches a [] [] (au_members a))
      (orElse
        (firstError (\<lambda>f. if memberKind f = MemberKindFork \<and> length (joinsOf a f) \<noteq> 1 then Some (ForkUnpaired (mb_id f)) else None) (au_members a))
        (firstError (\<lambda>j. if memberKind j = MemberKindJoin \<and> length (forksOf a j) \<noteq> 1 then Some (JoinUnpaired (mb_id j)) else None) (au_members a)))"

definition validateShape :: "Automation \<Rightarrow> AutomationError option" where
  "validateShape a =
    (if au_members a = [] then None
     else orElse (validateForkJoinPairing a)
       (case automationHasCycle a of
          Some (Some cycle) \<Rightarrow> Some (CycleFound cycle)
        | _ \<Rightarrow>
          let unreachable = automationUnreachable a
          in if unreachable \<noteq> [] \<and> au_status a \<noteq> AutomationDraft then Some (Unreachable unreachable) else None))"

definition validateAutomation :: "(Automation \<Rightarrow> string option) \<Rightarrow> Automation \<Rightarrow> AutomationError option" where
  "validateAutomation settings a =
    (if trimSpace (au_name a) = [] then Some BlankName
     else case au_status a of
            AutomationOther s \<Rightarrow> Some (UnknownStatus s)
          | _ \<Rightarrow>
            orElse (validateMembers a [] [] (au_members a))
              (orElse (validateEntry a)
                (orElse (validateEdges a)
                  (orElse (map_option BadSettings (settings a))
                    (orElse (if automationIsLinear a then None else validateCursors a [] (au_activeCursors a))
                      (validateShape a))))))"

end
