(* ===== verification/Automation_Step.thy ===== *)
theory Automation_Step
  imports Automation_Graph
begin

text \<open>
  \<open>internal/autonomous/automation_advance.go\<close> and the gate of \<open>automation_budget_gate.go\<close>: the step the coordinator applies
  to an Automation when a member ends. It follows outcome edges, fires forks, decides joins, and completes, blocks,
  pauses or holds the Automation.

  The step is a function of the Automation, the input and a snapshot of the members' live facts, as in the source. The
  source updates the Automation in place through pointers to its members; here a member is updated by its id, the
  first one that has it, which is the pointer \<open>automationMember\<close> returns. Entering a fork can fire its join at once and
  enter the next member, so \<open>follow\<close> calls itself; its fuel bounds the depth, and it answers \<open>None\<close> when the fuel runs
  out. The audit payloads and the quoted text of a completion are values of datatypes.
\<close>

section \<open>Inputs and effects\<close>

definition coordinatorActor :: string where "coordinatorActor = ''automation''"
definition edgeOnComplete :: string where "edgeOnComplete = ''on_complete''"
definition edgeOnBlocked :: string where "edgeOnBlocked = ''on_blocked''"
definition edgeOnFailed :: string where "edgeOnFailed = ''on_failed''"
definition BudgetKindCeiling :: string where "BudgetKindCeiling = ''ceiling''"
definition BudgetActionPaused :: string where "BudgetActionPaused = ''paused''"
definition BudgetActionBlocked :: string where "BudgetActionBlocked = ''blocked''"
definition BudgetActionHeld :: string where "BudgetActionHeld = ''held''"

record mergedMemberNote =
  mn_prdID :: string
  mn_branch :: string
  mn_base :: string
  mn_commit :: string
  mn_policy :: string
  mn_merged :: bool
  mn_cancelled :: bool
  mn_note :: string

record endOutcome =
  eo_edge :: string
  eo_memStatus :: MemberStatus
  eo_outcome :: string
  eo_success :: bool
  eo_direct :: string
  eo_revert :: bool
  eo_note :: string
  eo_merged :: "mergedMemberNote option"

definition plainEnd :: "string \<Rightarrow> MemberStatus \<Rightarrow> string \<Rightarrow> bool \<Rightarrow> endOutcome" where
  "plainEnd edge st outcome success = \<lparr>eo_edge = edge, eo_memStatus = st, eo_outcome = outcome, eo_success = success,
     eo_direct = [], eo_revert = False, eo_note = [], eo_merged = None\<rparr>"

definition prdEnd :: "string \<Rightarrow> endOutcome option" where
  "prdEnd s =
    (if s = ''completed'' then Some (plainEnd edgeOnComplete MemberCompleted s True)
     else if s = ''blocked'' then Some (plainEnd edgeOnBlocked MemberBlocked s False)
     else if s = ''failed'' then Some (plainEnd edgeOnFailed MemberFailed s False)
     else if s \<in> {''cancelled'', ''archived'', ''rejected''}
     then Some ((plainEnd [] MemberBlocked s False)\<lparr>eo_direct := ''member cancelled outside the Automation''\<rparr>)
     else if s = ''approved'' then Some ((plainEnd [] MemberBlocked s False)\<lparr>eo_direct := ''member run errored'', eo_revert := True\<rparr>)
     else None)"

definition childEnd :: "AutomationStatus \<Rightarrow> endOutcome option" where
  "childEnd s =
    (case s of
       AutomationCompleted \<Rightarrow> Some (plainEnd edgeOnComplete MemberCompleted ''completed'' True)
     | AutomationBlocked \<Rightarrow> Some (plainEnd edgeOnBlocked MemberBlocked ''blocked'' False)
     | AutomationCancelled \<Rightarrow> Some (plainEnd edgeOnFailed MemberFailed ''cancelled'' False)
     | _ \<Rightarrow> None)"

record BudgetPolicy =
  bp_window :: string
  bp_onBreach :: string

definition EffectiveOnBreach :: "BudgetPolicy \<Rightarrow> string" where
  "EffectiveOnBreach p = (if bp_onBreach p = [] then ''pause'' else bp_onBreach p)"

record BudgetVerdict =
  bv_gate :: bool
  bv_kind :: string
  bv_reason :: string
  bv_scope :: string
  bv_policy :: "BudgetPolicy option"
  bv_assistantOnBreach :: string
  bv_spentUSD :: float64
  bv_ceilingUSD :: float64
  bv_resetAt :: "time option"
  bv_resetKnown :: bool
  bv_resetSource :: string

definition zeroVerdict :: BudgetVerdict where
  "zeroVerdict = \<lparr>bv_gate = False, bv_kind = [], bv_reason = [], bv_scope = [], bv_policy = None, bv_assistantOnBreach = [],
     bv_spentUSD = Fin False 0, bv_ceilingUSD = Fin False 0, bv_resetAt = None, bv_resetKnown = False, bv_resetSource = []\<rparr>"

record memberInfo =
  mi_name :: string
  mi_prdStatus :: string
  mi_verdict :: BudgetVerdict

type_synonym snapshot = "(string, memberInfo) gomap"

definition snapOf :: "snapshot \<Rightarrow> string \<Rightarrow> memberInfo" where
  "snapOf snap i = mapGetOr \<lparr>mi_name = [], mi_prdStatus = [], mi_verdict = zeroVerdict\<rparr> snap i"

record stepInput =
  si_memberID :: string
  si_end :: endOutcome
  si_reeval :: bool
  si_startPending :: bool
  si_now :: time
  si_breachChoice :: string

record memberStart =
  ms_memberID :: string
  ms_kind :: string
  ms_prdID :: string
  ms_childID :: string
  ms_name :: string
  ms_resume :: bool
  ms_branch :: bool

record StepDetails =
  sd_from :: string
  sd_edge :: string
  sd_outcome :: string

datatype AuditEntry =
    AuditMergedMember string mergedMemberNote
  | AuditAdvance string string string string
  | AuditCompleted "StepDetails option"
  | AuditFork string string "string list" "(string \<times> string) list"
  | AuditJoin string string "string list" "string list" "string list"
  | AuditJoinBlocked string string "string list" string

record budgetEffect =
  be_action :: string
  be_verdict :: BudgetVerdict
  be_reason :: string
  be_changed :: bool
  be_memberID :: string

record stepEffects =
  ef_details :: "StepDetails option"
  ef_starts :: "memberStart list"
  ef_audits :: "AuditEntry list"
  ef_notes :: "(string \<times> DecisionNote) list"
  ef_touched :: "string list"
  ef_blocked :: string
  ef_budget :: "budgetEffect option"
  ef_completed :: bool
  ef_mergedAdvance :: "(string \<times> string \<times> string \<times> string) option"

definition noEffects :: stepEffects where
  "noEffects = \<lparr>ef_details = None, ef_starts = [], ef_audits = [], ef_notes = [], ef_touched = [], ef_blocked = [], ef_budget = None,
     ef_completed = False, ef_mergedAdvance = None\<rparr>"

record stepper =
  sp_a :: Automation
  sp_snap :: snapshot
  sp_eff :: stepEffects
  sp_now :: time
  sp_advNote :: DecisionNote
  sp_idle :: bool
  sp_breachChoice :: string

section \<open>Members and cursors\<close>

definition automationMember :: "Automation \<Rightarrow> string \<Rightarrow> AutomationMember option" where
  "automationMember a i = (if i = [] then None else memberByID a i)"

fun updateFirst :: "('a \<Rightarrow> bool) \<Rightarrow> ('a \<Rightarrow> 'a) \<Rightarrow> 'a list \<Rightarrow> 'a list" where
  "updateFirst P f [] = []"
| "updateFirst P f (x # xs) = (if P x then f x # xs else x # updateFirst P f xs)"

definition setMember :: "string \<Rightarrow> (AutomationMember \<Rightarrow> AutomationMember) \<Rightarrow> Automation \<Rightarrow> Automation" where
  "setMember i f a = a\<lparr>au_members := updateFirst (\<lambda>m. mb_id m = i) f (au_members a)\<rparr>"

definition isLiveCursor :: "Automation \<Rightarrow> string \<Rightarrow> bool" where
  "isLiveCursor a i = (if automationIsLinear a then au_currentMemberID a = i else i \<in> set (au_activeCursors a))"

definition liveCursorIDs :: "Automation \<Rightarrow> string list" where
  "liveCursorIDs a =
    (if automationIsLinear a then (if au_currentMemberID a = [] then [] else [au_currentMemberID a])
     else sortedUniqueStrings (au_activeCursors a))"

definition addCursor :: "string \<Rightarrow> Automation \<Rightarrow> Automation" where
  "addCursor i a = (if automationIsLinear a then a\<lparr>au_currentMemberID := i\<rparr> else a\<lparr>au_activeCursors := au_activeCursors a @ [i]\<rparr>)"

definition dropCursor :: "string \<Rightarrow> Automation \<Rightarrow> Automation" where
  "dropCursor i a = (if automationIsLinear a then a else a\<lparr>au_activeCursors := filter (\<lambda>c. c \<noteq> i) (au_activeCursors a)\<rparr>)"

definition cursorsRemain :: "Automation \<Rightarrow> bool" where
  "cursorsRemain a \<longleftrightarrow> \<not> automationIsLinear a \<and>
     (au_activeCursors a \<noteq> [] \<or> list_ex (\<lambda>m. memberKind m = MemberKindJoin \<and> mb_status m = MemberRunning) (au_members a))"

definition joinOf :: "Automation \<Rightarrow> string \<Rightarrow> AutomationMember option" where
  "joinOf a i = find (\<lambda>m. memberKind m = MemberKindJoin \<and> i \<in> set (mb_joinMembers m)) (au_members a)"

definition joinFor :: "Automation \<Rightarrow> AutomationMember \<Rightarrow> AutomationMember option" where
  "joinFor a f = find (\<lambda>m. memberKind m = MemberKindJoin \<and> sameMemberSet (mb_joinMembers m) (mb_forkMembers f)) (au_members a)"

definition edgeTarget :: "AutomationMember \<Rightarrow> string \<Rightarrow> string" where
  "edgeTarget m edge =
    (if edge = edgeOnComplete then mb_onComplete m else if edge = edgeOnBlocked then mb_onBlocked m
     else if edge = edgeOnFailed then mb_onFailed m else [])"

definition gateMode :: "string \<Rightarrow> string" where
  "gateMode s = (if s = ''approved'' then ''run'' else if s = ''paused'' then ''resume'' else [])"

fun firstCursor :: "string list \<Rightarrow> string" where
  "firstCursor [] = []"
| "firstCursor (i # is) = fold min is i"

definition memberUnstarted :: "AutomationMember \<Rightarrow> bool" where
  "memberUnstarted m \<longleftrightarrow> mb_status m = MemberPending \<or> mb_status m = MemberOther []"

section \<open>Records of a step\<close>

definition trimDecisions :: "AutoDecision list \<Rightarrow> AutoDecision list" where
  "trimDecisions ds = drop (length ds - 200) ds"

definition addDecision :: "time \<Rightarrow> string \<Rightarrow> DecisionNote \<Rightarrow> MergedMemberDecision option \<Rightarrow> Automation \<Rightarrow> Automation" where
  "addDecision now kind note mm a =
    a\<lparr>au_decisions := trimDecisions (au_decisions a @ [\<lparr>ad_at = now, ad_kind = kind, ad_actor = coordinatorActor, ad_note = note, ad_mergedMember = mm\<rparr>])\<rparr>"

definition onA :: "(Automation \<Rightarrow> Automation) \<Rightarrow> stepper \<Rightarrow> stepper" where
  "onA f st = st\<lparr>sp_a := f (sp_a st)\<rparr>"

definition onEff :: "(stepEffects \<Rightarrow> stepEffects) \<Rightarrow> stepper \<Rightarrow> stepper" where
  "onEff f st = st\<lparr>sp_eff := f (sp_eff st)\<rparr>"

definition decision :: "string \<Rightarrow> string \<Rightarrow> stepper \<Rightarrow> stepper" where
  "decision kind note st = onA (addDecision (sp_now st) kind (NoteText note) None) st"

definition audit :: "AuditEntry \<Rightarrow> stepper \<Rightarrow> stepper" where
  "audit e = onEff (\<lambda>ef. ef\<lparr>ef_audits := ef_audits ef @ [e]\<rparr>)"

definition memberName :: "stepper \<Rightarrow> AutomationMember \<Rightarrow> string" where
  "memberName st m =
    (case mapGet (sp_snap st) (mb_id m) of
       Some info \<Rightarrow> if mi_name info \<noteq> [] then mi_name info else if mb_prdID m \<noteq> [] then mb_prdID m else mb_id m
     | None \<Rightarrow> if mb_prdID m \<noteq> [] then mb_prdID m else mb_id m)"

definition block :: "string \<Rightarrow> stepper \<Rightarrow> stepper" where
  "block reason st =
    onEff (\<lambda>ef. ef\<lparr>ef_blocked := reason\<rparr>) (onA (\<lambda>a. a\<lparr>au_status := AutomationBlocked, au_idleSince := Some (sp_now st)\<rparr>) st)"

definition complete :: "string \<Rightarrow> stepper \<Rightarrow> stepper" where
  "complete name st =
    (let st1 = onA (\<lambda>a. a\<lparr>au_status := AutomationCompleted, au_finishedAt := Some (sp_now st), au_currentMemberID := [], au_activeCursors := []\<rparr>) st;
         st2 = (onEff (\<lambda>ef. ef\<lparr>ef_completed := True\<rparr>) st1)\<lparr>sp_advNote := NoteCompleted (au_name (sp_a st)) name\<rparr>
     in audit (AuditCompleted (ef_details (sp_eff st))) st2)"

definition finish :: "AutomationMember \<Rightarrow> endOutcome \<Rightarrow> stepper \<Rightarrow> stepper" where
  "finish m e st =
    (let f = (\<lambda>x. x\<lparr>mb_status := eo_memStatus e, mb_finishedAt := Some (sp_now st), mb_outcome := eo_outcome e, mb_edgeTaken := eo_edge e\<rparr>);
         st1 = onA (\<lambda>a. (dropCursor (mb_id m) (setMember (mb_id m) f a))\<lparr>au_idleSince := None\<rparr>) st
     in onEff (\<lambda>ef. ef\<lparr>ef_details := Some \<lparr>sd_from = mb_id m, sd_edge = eo_edge e, sd_outcome = eo_outcome e\<rparr>,
                      ef_touched := ef_touched ef @ (if mb_prdID m \<noteq> [] then [mb_prdID m] else [])\<rparr>) st1)"

section \<open>The budget gate\<close>

definition newBudgetState :: "BudgetVerdict \<Rightarrow> string \<Rightarrow> string \<Rightarrow> time \<Rightarrow> BudgetState" where
  "newBudgetState v action reason now =
    \<lparr>bs_action = action, bs_breachedAt = now, bs_reason = reason, bs_scope = bv_scope v, bs_spentUSD = bv_spentUSD v, bs_ceilingUSD = bv_ceilingUSD v,
     bs_window = (case bv_policy v of None \<Rightarrow> [] | Some p \<Rightarrow> bp_window p), bs_resumeAt = bv_resetAt v, bs_resetKnown = bv_resetKnown v,
     bs_resetSource = bv_resetSource v\<rparr>"

definition budgetEpisodeOpen :: "Automation \<Rightarrow> bool" where
  "budgetEpisodeOpen a \<longleftrightarrow>
     (case au_budgetState a of
        None \<Rightarrow> False
      | Some bs \<Rightarrow> (au_status a = AutomationPaused \<and> bs_action bs = BudgetActionPaused) \<or>
                  (au_status a = AutomationBlocked \<and> bs_action bs = BudgetActionBlocked))"

definition budgetNoChange :: "Automation \<Rightarrow> BudgetVerdict \<Rightarrow> bool" where
  "budgetNoChange a v \<longleftrightarrow> au_status a = AutomationActive \<and>
     (case au_budgetState a of None \<Rightarrow> False | Some bs \<Rightarrow> bs_action bs = BudgetActionHeld) \<and> bv_gate v \<and> bv_kind v \<noteq> BudgetKindCeiling"

definition breachChoice :: "BudgetVerdict \<Rightarrow> string" where
  "breachChoice v =
    (if bv_assistantOnBreach v \<in> {''pause'', ''block''} then bv_assistantOnBreach v
     else case bv_policy v of None \<Rightarrow> ''pause'' | Some p \<Rightarrow> EffectiveOnBreach p)"

definition breachAction :: "BudgetVerdict \<Rightarrow> bool \<Rightarrow> string \<times> string" where
  "breachAction v noWait =
    (if noWait
     then (BudgetActionBlocked, bv_reason v @ ''; the Automation was paused for this budget and is still over it at the resume time, so it is blocked until the operator decides: raise the ceiling or resume it'')
     else if bv_resetKnown v \<and> bv_resetAt v \<noteq> None \<and> breachChoice v = ''pause'' then (BudgetActionPaused, bv_reason v)
     else if breachChoice v = ''block''
     then (BudgetActionBlocked, bv_reason v @ ''; on_breach is block, so the Automation is blocked until the operator decides: raise the ceiling or resume it'')
     else (BudgetActionBlocked, bv_reason v @ ''; the reset time is not known, so the Automation is blocked until the operator decides: raise the ceiling, wait for the window or resume it''))"

definition pauseNote :: "BudgetVerdict \<Rightarrow> string" where
  "pauseNote v = bv_reason v @ ''; paused until the window resets at '' @ (case bv_resetAt v of None \<Rightarrow> [] | Some t \<Rightarrow> rfc3339 t)"

definition applyBudgetGate :: "AutomationMember option \<Rightarrow> BudgetVerdict \<Rightarrow> time \<Rightarrow> bool \<Rightarrow> Automation \<Rightarrow> Automation \<times> budgetEffect" where
  "applyBudgetGate mem v now noWait a0 =
    (let a = (case mem of None \<Rightarrow> a0 | Some m \<Rightarrow> if isLiveCursor a0 (mb_id m) then a0 else addCursor (mb_id m) a0);
         mid = (case mem of None \<Rightarrow> [] | Some m \<Rightarrow> mb_id m);
         eff = (\<lambda>act reason changed. \<lparr>be_action = act, be_verdict = v, be_reason = reason, be_changed = changed, be_memberID = mid\<rparr>)
     in if bv_kind v \<noteq> BudgetKindCeiling
        then if (case au_budgetState a of None \<Rightarrow> False | Some bs \<Rightarrow> bs_action bs = BudgetActionHeld)
             then (a, eff BudgetActionHeld (bv_reason v) False)
             else (addDecision now ''budget_hold'' (NoteText (bv_reason v @ ''; the member starts when the budget allows it'')) None
                     (a\<lparr>au_budgetState := Some (newBudgetState v BudgetActionHeld (bv_reason v) now), au_idleSince := Some now\<rparr>),
                   eff BudgetActionHeld (bv_reason v) True)
        else (case breachAction v noWait of (act, reason) \<Rightarrow>
          if (case au_budgetState a of None \<Rightarrow> False | Some bs \<Rightarrow> bs_action bs = act) \<and> budgetEpisodeOpen a
          then (a, eff act reason False)
          else let a1 = a\<lparr>au_budgetState := Some (newBudgetState v act reason now), au_idleSince := Some now\<rparr>
               in if act = BudgetActionPaused
                  then (addDecision now ''budget_pause'' (NoteText (pauseNote v)) None (a1\<lparr>au_status := AutomationPaused\<rparr>), eff act reason True)
                  else (a1\<lparr>au_status := AutomationBlocked\<rparr>, eff act reason True)))"

definition budgetGate :: "AutomationMember \<Rightarrow> BudgetVerdict \<Rightarrow> stepper \<Rightarrow> stepper" where
  "budgetGate next v st =
    (case applyBudgetGate (Some next) (v\<lparr>bv_assistantOnBreach := sp_breachChoice st\<rparr>) (sp_now st) False (sp_a st) of (a, be) \<Rightarrow>
       onEff (\<lambda>ef. ef\<lparr>ef_budget := Some be, ef_blocked := (if be_action be = BudgetActionBlocked then be_reason be else ef_blocked ef)\<rparr>)
         (st\<lparr>sp_a := a\<rparr>))"

section \<open>Starting members\<close>

definition startMember :: "AutomationMember \<Rightarrow> stepper \<Rightarrow> stepper" where
  "startMember next st =
    onA (\<lambda>a. addCursor (mb_id next) (setMember (mb_id next) (\<lambda>m. m\<lparr>mb_status := MemberRunning, mb_startedAt := Some (sp_now st)\<rparr>) a)) st"

definition addStart :: "memberStart \<Rightarrow> stepper \<Rightarrow> stepper" where
  "addStart s = onEff (\<lambda>ef. ef\<lparr>ef_starts := ef_starts ef @ [s]\<rparr>)"

definition startPRD :: "AutomationMember \<Rightarrow> bool \<Rightarrow> bool \<Rightarrow> stepper \<Rightarrow> stepper" where
  "startPRD next resume branch st =
    onEff (\<lambda>ef. ef\<lparr>ef_notes := ef_notes ef @ [(mb_prdID next, if branch then NoteText ''fork branch started'' else sp_advNote st)]\<rparr>)
      (addStart \<lparr>ms_memberID = mb_id next, ms_kind = MemberKindPRD, ms_prdID = mb_prdID next, ms_childID = [],
                ms_name = memberName st next, ms_resume = resume, ms_branch = branch\<rparr>
        (startMember next st))"

definition startNested :: "AutomationMember \<Rightarrow> bool \<Rightarrow> stepper \<Rightarrow> stepper" where
  "startNested next branch st =
    addStart \<lparr>ms_memberID = mb_id next, ms_kind = MemberKindAutomation, ms_prdID = [], ms_childID = mb_automationID next,
              ms_name = memberName st next, ms_resume = False, ms_branch = branch\<rparr>
      (startMember next st)"

section \<open>Paths and joins\<close>

definition pathEnded :: "bool \<Rightarrow> string \<Rightarrow> string \<Rightarrow> stepper \<Rightarrow> stepper" where
  "pathEnded success name reason st =
    (if cursorsRemain (sp_a st) then decision ''advance'' (reason @ ''; other cursors are still live'') st
     else if \<not> success then block reason st
     else complete name st)"

definition moved :: "string \<Rightarrow> string \<Rightarrow> AutomationMember \<Rightarrow> endOutcome \<Rightarrow> stepper \<Rightarrow> stepper" where
  "moved fromID fromName next e st =
    audit (AuditAdvance fromID (mb_id next) (eo_edge e) (eo_outcome e))
      (st\<lparr>sp_advNote := NoteText (fromName @ '' -> '' @ memberName st next @ '' via '' @ eo_edge e @ '' (member '' @ eo_outcome e @ '')'')\<rparr>)"

definition joinRule :: "AutomationMember \<Rightarrow> string" where
  "joinRule j = (if mb_onBranchFailure j = [] then BranchAllMustSucceed else mb_onBranchFailure j)"

text \<open>The loop over the sorted branches: won, pending and failed ones.\<close>

fun classifyLoop :: "Automation \<Rightarrow> string list \<Rightarrow> string list \<times> string list \<times> string list \<Rightarrow> string list \<times> string list \<times> string list" where
  "classifyLoop a [] r = r"
| "classifyLoop a (b # bs) (won, pending, failed) =
    classifyLoop a bs
      (case automationMember a b of
         None \<Rightarrow> (won, pending, failed @ [b])
       | Some m \<Rightarrow>
           if mb_status m = MemberCompleted then (won @ [b], pending, failed)
           else if mb_status m = MemberRunning \<or> mb_status m = MemberPending then (won, pending @ [b], failed)
           else (won, pending, failed @ [b]))"

definition classifyBranches :: "Automation \<Rightarrow> AutomationMember \<Rightarrow> string list \<times> string list \<times> string list" where
  "classifyBranches a j = classifyLoop a (sort (mb_joinMembers j)) ([], [], [])"

definition endMember :: "string \<Rightarrow> MemberStatus \<Rightarrow> string \<Rightarrow> string \<Rightarrow> stepper \<Rightarrow> stepper" where
  "endMember i status outcome edge st =
    onA (setMember i (\<lambda>m. m\<lparr>mb_status := status, mb_outcome := outcome, mb_finishedAt := Some (sp_now st), mb_edgeTaken := edge\<rparr>)) st"

definition cutBranch :: "string \<Rightarrow> stepper \<Rightarrow> stepper" where
  "cutBranch i st =
    (case automationMember (sp_a st) i of
       None \<Rightarrow> st
     | Some b \<Rightarrow> endMember i (if mb_status b = MemberRunning then MemberCancelled else MemberSkipped) ''join-fired'' [] (onA (dropCursor i) st))"

definition blockJoin :: "AutomationMember \<Rightarrow> string \<Rightarrow> string list \<Rightarrow> string \<Rightarrow> stepper \<Rightarrow> stepper" where
  "blockJoin j rule failed reason st =
    block reason (audit (AuditJoinBlocked (mb_id j) rule failed reason) (endMember (mb_id j) MemberBlocked ''not-satisfied'' [] st))"

text \<open>What \<open>follow\<close> takes: the member whose edge is taken, the target, the end, the label of the member and the
  reason of a path that ends.\<close>

type_synonym follower = "AutomationMember \<Rightarrow> string \<Rightarrow> endOutcome \<Rightarrow> string \<Rightarrow> string \<Rightarrow> stepper \<Rightarrow> stepper option"

definition joinedEnd :: endOutcome where
  "joinedEnd = plainEnd edgeOnComplete (MemberOther []) ''joined'' True"

definition fireJoin :: "follower \<Rightarrow> AutomationMember \<Rightarrow> string \<Rightarrow> string list \<Rightarrow> string list \<Rightarrow> string list \<Rightarrow> stepper \<Rightarrow> stepper option" where
  "fireJoin k j rule won failed pending st =
    (let st1 = endMember (mb_id j) MemberCompleted ''joined'' edgeOnComplete (fold cutBranch pending st);
         st2 = audit (AuditJoin (mb_id j) rule won failed pending) st1;
         st3 = decision ''join'' (''join '' @ mb_id j @ '' fired ('' @ rule @ ''): '' @ itoa (int (length won)) @ '' succeeded, ''
                 @ itoa (int (length failed)) @ '' non-success, '' @ itoa (int (length pending)) @ '' not awaited'') st2
     in k j (mb_onComplete j) joinedEnd (''join '' @ mb_id j) [] st3)"

definition evalJoin :: "follower \<Rightarrow> string \<Rightarrow> stepper \<Rightarrow> stepper option" where
  "evalJoin k joinID st =
    (case automationMember (sp_a st) joinID of
       None \<Rightarrow> Some st
     | Some j \<Rightarrow>
         if mb_status j \<noteq> MemberRunning then Some st
         else case classifyBranches (sp_a st) j of (won, pending, failed) \<Rightarrow>
           let rule = joinRule j
           in if rule = BranchAnyOneIsEnough
              then if won \<noteq> [] then fireJoin k j rule won failed pending st
                   else if pending = [] then Some (blockJoin j rule failed (''join '' @ mb_id j @ '': no branch succeeded'') st)
                   else Some st
              else if rule = BranchContinueAnyway
              then if pending = [] then fireJoin k j rule won failed [] st else Some st
              else if pending \<noteq> [] then Some st
              else if failed = [] then fireJoin k j rule won [] [] st
              else Some (blockJoin j rule failed
                     (''join '' @ mb_id j @ '': not all branches succeeded (non-success: '' @ joinStr '' '' failed @ '')'') st))"

section \<open>Firing a fork\<close>

text \<open>The loop over the sorted branches. It stops, with the Automation blocked, at a branch that is no member.\<close>

definition startBranch :: "AutomationMember \<Rightarrow> stepper \<Rightarrow> stepper \<times> string" where
  "startBranch b st =
    (if memberKind b = MemberKindAutomation then (startNested b True st, ''started'')
     else let info = snapOf (sp_snap st) (mb_id b); mode = gateMode (mi_prdStatus info)
          in if mode = []
             then (decision ''branch'' (''branch '' @ mb_id b @ '' not started: '' @ mi_name info @ '' is '' @ mi_prdStatus info)
                     (endMember (mb_id b) MemberFailed ''gate-denied'' [] st), ''gate-denied'')
             else (startPRD b (mode = ''resume'') True st, ''started''))"

fun forkLoop :: "AutomationMember \<Rightarrow> string list \<Rightarrow> (string \<times> string) list \<Rightarrow> stepper \<Rightarrow> bool \<times> (string \<times> string) list \<times> stepper" where
  "forkLoop fork [] results st = (True, results, st)"
| "forkLoop fork (i # is) results st =
    (case automationMember (sp_a st) i of
       None \<Rightarrow> (False, results, block (''fork '' @ mb_id fork @ '' names unknown branch member '' @ i) st)
     | Some b \<Rightarrow> (case startBranch b st of (st', r) \<Rightarrow> forkLoop fork is (mapSet results i r) st'))"

definition fireFork :: "follower \<Rightarrow> AutomationMember \<Rightarrow> stepper \<Rightarrow> stepper option" where
  "fireFork k fork st =
    (let st1 = endMember (mb_id fork) MemberCompleted ''forked'' [] st
     in case joinFor (sp_a st1) fork of
          None \<Rightarrow> Some (block (''fork '' @ mb_id fork @ '' has no paired join'') st1)
        | Some join \<Rightarrow>
            let st2 = onA (setMember (mb_id join) (\<lambda>m. m\<lparr>mb_status := MemberRunning, mb_startedAt := Some (sp_now st)\<rparr>)) st1;
                branches = sort (mb_forkMembers fork)
            in case forkLoop fork branches [] st2 of
                 (False, _, st3) \<Rightarrow> Some st3
               | (True, results, st3) \<Rightarrow>
                   evalJoin k (mb_id join)
                     (decision ''fork'' (''fork '' @ mb_id fork @ '' fired over '' @ itoa (int (length branches)) @ '' branches'')
                       (audit (AuditFork (mb_id fork) (mb_id join) branches results) st3)))"

section \<open>Entering a member\<close>

definition clearHold :: "Automation \<Rightarrow> Automation" where
  "clearHold a = (if au_budgetState a \<noteq> None then a\<lparr>au_budgetState := None, au_idleSince := None\<rparr> else a)"

definition enterKind :: "follower \<Rightarrow> AutomationMember \<Rightarrow> stepper \<Rightarrow> stepper option" where
  "enterKind k next st =
    (if memberKind next = MemberKindPRD
     then let info = snapOf (sp_snap st) (mb_id next); mode = gateMode (mi_prdStatus info)
          in Some (if mode = [] then block (''next member '' @ mi_name info @ '' is '' @ mi_prdStatus info) (onA (addCursor (mb_id next)) st)
                   else startPRD next (mode = ''resume'') False st)
     else if memberKind next = MemberKindAutomation then Some (startNested next False st)
     else if memberKind next = MemberKindFork then fireFork k next st
     else Some (block (''member '' @ mb_id next @ '' is a join; a join is reached only through its fork'') st))"

definition enter :: "follower \<Rightarrow> AutomationMember \<Rightarrow> stepper \<Rightarrow> stepper option" where
  "enter k next st =
    (if au_status (sp_a st) = AutomationPaused then Some ((onA (addCursor (mb_id next)) st)\<lparr>sp_idle := True\<rparr>)
     else if memberKind next \<noteq> MemberKindJoin
     then let v = mi_verdict (snapOf (sp_snap st) (mb_id next))
          in if bv_gate v then Some (budgetGate next v st) else enterKind k next (onA clearHold st)
     else enterKind k next st)"

definition followWith :: "follower \<Rightarrow> follower" where
  "followWith k m target e fromName reason st =
    (if target = [] then Some (pathEnded (eo_success e) fromName reason st)
     else case automationMember (sp_a st) target of
            None \<Rightarrow> Some (block (eo_edge e @ '' edge names unknown member '' @ target) st)
          | Some next \<Rightarrow> enter k next (moved (mb_id m) fromName next e st))"

primrec follow :: "nat \<Rightarrow> follower" where
  "follow 0 = (\<lambda>m target e fromName reason st. None)"
| "follow (Suc n) = followWith (follow n)"

definition followEdge :: "nat \<Rightarrow> AutomationMember \<Rightarrow> endOutcome \<Rightarrow> stepper \<Rightarrow> stepper option" where
  "followEdge n m e st =
    (let name = memberName st m
     in follow n m (edgeTarget m (eo_edge e)) e name (''member '' @ name @ '' '' @ eo_outcome e @ '' and has no '' @ eo_edge e @ '' edge'') st)"

section \<open>The step\<close>

definition finalize :: "stepper \<Rightarrow> stepper" where
  "finalize st =
    (let st1 = (if automationIsLinear (sp_a st) then st else onA (\<lambda>a. a\<lparr>au_currentMemberID := firstCursor (au_activeCursors a)\<rparr>) st);
         st2 = (if ef_blocked (sp_eff st1) \<noteq> [] then decision ''blocked'' (ef_blocked (sp_eff st1)) st1
                else if sp_advNote st1 \<noteq> NoteText [] then onA (addDecision (sp_now st1) ''advance'' (sp_advNote st1) None) st1
                else st1)
     in if sp_idle st2 \<and> ef_blocked (sp_eff st2) = [] \<and> \<not> ef_completed (sp_eff st2)
        then onA (\<lambda>a. a\<lparr>au_idleSince := Some (sp_now st2)\<rparr>) st2 else st2)"

definition newStepper :: "Automation \<Rightarrow> snapshot \<Rightarrow> time \<Rightarrow> string \<Rightarrow> stepper" where
  "newStepper a snap now choice =
    \<lparr>sp_a = a, sp_snap = snap, sp_eff = noEffects, sp_now = now, sp_advNote = NoteText [], sp_idle = False, sp_breachChoice = choice\<rparr>"

definition MergedMemberAdvanced :: string where "MergedMemberAdvanced = ''advanced''"
definition MergedMemberBlocked :: string where "MergedMemberBlocked = ''blocked''"

definition decisionMergedMember :: "string \<Rightarrow> string \<Rightarrow> mergedMemberNote \<Rightarrow> stepper \<Rightarrow> stepper" where
  "decisionMergedMember memberID outcome n st =
    onA (addDecision (sp_now st) ''merged_member'' (NoteText (mn_note n))
      (Some \<lparr>md_member = memberID, md_prdID = mn_prdID n, md_branch = mn_branch n, md_defaultBranch = mn_base n, md_commit = mn_commit n,
             md_policy = mn_policy n, md_outcome = outcome\<rparr>)) st"

definition noteMerged :: "AutomationMember \<Rightarrow> endOutcome \<Rightarrow> stepper \<Rightarrow> stepper" where
  "noteMerged mem e st =
    (case eo_merged e of
       None \<Rightarrow> st
     | Some n \<Rightarrow>
         let outcome = (if joinOf (sp_a st) (mb_id mem) = None \<and> eo_direct e \<noteq> [] then MergedMemberBlocked else MergedMemberAdvanced);
             st1 = decisionMergedMember (mb_id mem) outcome n st;
             st2 = (if outcome = MergedMemberAdvanced \<and> mn_cancelled n
                    then onEff (\<lambda>ef. ef\<lparr>ef_mergedAdvance := Some (memberName st mem, mn_branch n, mn_base n, mn_commit n)\<rparr>) st1 else st1)
         in audit (AuditMergedMember (mb_id mem) n) st2)"

datatype StepResult = StaleStep | Stepped Automation stepEffects

definition stepDone :: "stepper \<Rightarrow> StepResult" where
  "stepDone st = (let st' = finalize st in Stepped (sp_a st') (sp_eff st'))"

definition stepJoinReeval :: "nat \<Rightarrow> Automation \<Rightarrow> stepInput \<Rightarrow> snapshot \<Rightarrow> StepResult option" where
  "stepJoinReeval n a inp snap =
    (case automationMember a (si_memberID inp) of
       None \<Rightarrow> Some StaleStep
     | Some j \<Rightarrow>
         if memberKind j \<noteq> MemberKindJoin \<or> mb_status j \<noteq> MemberRunning then Some StaleStep
         else map_option (\<lambda>st. if map_option mb_status (automationMember (sp_a st) (mb_id j)) = Some MemberRunning then StaleStep else stepDone st)
                (evalJoin (follow n) (mb_id j) (newStepper a snap (si_now inp) [])))"

definition stepStartPending :: "nat \<Rightarrow> Automation \<Rightarrow> stepInput \<Rightarrow> snapshot \<Rightarrow> StepResult option" where
  "stepStartPending n a inp snap =
    (case automationMember a (si_memberID inp) of
       None \<Rightarrow> Some StaleStep
     | Some mem \<Rightarrow>
         if au_status a \<noteq> AutomationActive \<or> \<not> isLiveCursor a (mb_id mem) \<or> \<not> memberUnstarted mem then Some StaleStep
         else if memberKind mem \<noteq> MemberKindAutomation \<and> memberKind mem \<noteq> MemberKindFork then Some StaleStep
         else if budgetNoChange a (mi_verdict (snapOf snap (mb_id mem))) then Some StaleStep
         else let st = onA (dropCursor (mb_id mem)) (newStepper a snap (si_now inp) []);
                  st1 = st\<lparr>sp_advNote := NoteText (''started '' @ memberName st mem)\<rparr>
              in map_option
                   (\<lambda>st2. stepDone
                     (if memberKind mem = MemberKindFork \<and> map_option mb_status (automationMember (sp_a st2) (mb_id mem)) = Some MemberCompleted
                      then onA (dropCursor (mb_id mem)) st2 else st2))
                   (enter (follow n) mem st1))"

definition stepEnd :: "nat \<Rightarrow> Automation \<Rightarrow> stepInput \<Rightarrow> snapshot \<Rightarrow> StepResult option" where
  "stepEnd n a inp snap =
    (case automationMember a (si_memberID inp) of
       None \<Rightarrow> Some StaleStep
     | Some mem \<Rightarrow>
         if \<not> isLiveCursor a (mb_id mem) then Some StaleStep
         else if eo_revert (si_end inp) \<and> mb_status mem \<noteq> MemberRunning then Some StaleStep
         else let e = si_end inp;
                  st = noteMerged mem e (newStepper a snap (si_now inp) (si_breachChoice inp))
              in map_option stepDone
                   (case joinOf a (mb_id mem) of
                      Some join \<Rightarrow>
                        let e' = e\<lparr>eo_edge := []\<rparr>;
                            note = (if eo_note e' = [] then ''branch '' @ memberName st mem @ '' ended '' @ eo_outcome e' else eo_note e')
                        in evalJoin (follow n) (mb_id join) (decision ''branch'' note (finish mem e' st))
                    | None \<Rightarrow>
                        if eo_direct e \<noteq> [] then Some (block (eo_direct e) (finish mem e st))
                        else followEdge n mem e (finish mem e st)))"

definition step :: "nat \<Rightarrow> Automation \<Rightarrow> stepInput \<Rightarrow> snapshot \<Rightarrow> StepResult option" where
  "step n a inp snap =
    (if si_reeval inp then stepJoinReeval n a inp snap
     else if si_startPending inp then stepStartPending n a inp snap
     else stepEnd n a inp snap)"

definition memberByPRD :: "Automation \<Rightarrow> string \<Rightarrow> AutomationMember option" where
  "memberByPRD a prd = find (\<lambda>m. memberKind m = MemberKindPRD \<and> mb_prdID m = prd) (au_members a)"

definition memberByChild :: "Automation \<Rightarrow> string \<Rightarrow> AutomationMember option" where
  "memberByChild a child = find (\<lambda>m. memberKind m = MemberKindAutomation \<and> mb_automationID m = child) (au_members a)"

definition prdMembersOnly :: "AutomationMember list \<Rightarrow> AutomationMember list" where
  "prdMembersOnly ms = filter (\<lambda>m. memberKind m = MemberKindPRD) ms"

end
