(* ===== verification/Automation_Control.thy ===== *)
theory Automation_Control
  imports Automation_Step
begin

text \<open>
  The operations around the step, each as the change it makes to the stored record: activation and the retry of a pending
  start (\<open>automation_coordinator.go\<close>, \<open>automation_reconcile.go\<close>), and the operator's pause, resume, cancel, skip, remove and
  rewire (\<open>automation_control.go\<close>). The store applies each one atomically under the Automation's lock and version; the
  version check is not modelled, and the normalisation the store applies to every new record is \<open>normalizeActiveCursors\<close>. What
  is read of the PRDs, the child Automations and the budget is an argument.
\<close>

datatype ControlError =
    DraftFirst | WrongStatus AutomationStatus | NotDraft AutomationStatus | NoEntryMember | NoActiveMember | ManyBranches "string list"
  | NotActiveBranch string "string list" | BadEdge string | StaleBranch string | BudgetRefused BudgetVerdict | NoCancelChoice
  | NoCanceller | MemberUnknown string | HasEdges string | IsEntry string | InFlight string | AlreadyStarted string MemberStatus
  | IsForkOrJoin string | IsBranch string string | TargetUnknown string string | TargetStarted string string MemberStatus

section \<open>Guards\<close>

definition checkControlStatus :: "Automation \<Rightarrow> AutomationStatus list \<Rightarrow> ControlError option" where
  "checkControlStatus a allowed =
    (if au_status a \<in> set allowed then None else if au_status a = AutomationDraft then Some DraftFirst else Some (WrongStatus (au_status a)))"

definition orActor :: "string \<Rightarrow> string" where
  "orActor actor = (if actor = [] then ''operator'' else actor)"

definition controlNote :: "string \<Rightarrow> string \<Rightarrow> time \<Rightarrow> DecisionNote \<Rightarrow> Automation \<Rightarrow> Automation" where
  "controlNote kind actor now note a =
    a\<lparr>au_decisions := trimDecisions (au_decisions a @ [\<lparr>ad_at = now, ad_kind = kind, ad_actor = actor, ad_note = note, ad_mergedMember = None\<rparr>])\<rparr>"

definition guarded :: "ControlError option \<Rightarrow> 'a \<Rightarrow> ControlError + 'a" where
  "guarded e x = (case e of None \<Rightarrow> Inr x | Some err \<Rightarrow> Inl err)"

section \<open>Activation\<close>

definition activate :: "nat \<Rightarrow> string \<Rightarrow> snapshot \<Rightarrow> time \<Rightarrow> Automation \<Rightarrow> (ControlError + Automation \<times> stepEffects) option" where
  "activate n actor0 snap now a =
    (if au_status a \<noteq> AutomationDraft then Some (Inl (NotDraft (au_status a)))
     else if automationMember a (au_entryMemberID a) = None then Some (Inl NoEntryMember)
     else let actor = orActor actor0;
              a1 = controlNote ''activate'' actor now (NoteText (''activated by '' @ actor)) (a\<lparr>au_status := AutomationActive, au_startedAt := Some now\<rparr>)
          in case automationMember a1 (au_entryMemberID a1) of
               None \<Rightarrow> Some (Inl NoEntryMember)
             | Some entry \<Rightarrow> map_option (\<lambda>st. let st' = finalize st in Inr (sp_a st', sp_eff st')) (enter (follow n) entry (newStepper a1 snap now [])))"

section \<open>The retry of a pending start\<close>

datatype RetryResult = RetryGated Automation budgetEffect | RetryBlocked Automation string | RetryStart Automation memberStart

definition retryPendingStart :: "string \<Rightarrow> string \<Rightarrow> string \<Rightarrow> BudgetVerdict \<Rightarrow> time \<Rightarrow> Automation \<Rightarrow> RetryResult option" where
  "retryPendingStart memID name status v now a =
    (let mode = gateMode status;
         reason = (if mode = [] then ''next member '' @ name @ '' is '' @ status else []);
         verdict = (if reason = [] then v else zeroVerdict)
     in if bv_gate verdict \<and> budgetNoChange a verdict then None
        else case automationMember a memID of
          None \<Rightarrow> None
        | Some cur \<Rightarrow>
            if au_status a \<noteq> AutomationActive \<or> \<not> isLiveCursor a memID \<or> \<not> memberUnstarted cur then None
            else if reason = [] \<and> bv_gate verdict
            then (case applyBudgetGate (Some cur) verdict now False a of (a1, be) \<Rightarrow>
                    Some (RetryGated (if be_action be = BudgetActionBlocked then addDecision now ''blocked'' (NoteText (be_reason be)) None a1 else a1) be))
            else if reason \<noteq> []
            then Some (RetryBlocked (addDecision now ''blocked'' (NoteText reason) None (a\<lparr>au_status := AutomationBlocked, au_idleSince := Some now\<rparr>)) reason)
            else Some (RetryStart
                   (addDecision now ''advance'' (NoteText (''restart: retried start of '' @ name)) None
                     ((setMember memID (\<lambda>m. m\<lparr>mb_status := MemberRunning, mb_startedAt := Some now\<rparr>) a)\<lparr>au_idleSince := None, au_budgetState := None\<rparr>))
                   \<lparr>ms_memberID = memID, ms_kind = MemberKindPRD, ms_prdID = mb_prdID cur, ms_childID = [], ms_name = name,
                    ms_resume = (mode = ''resume''), ms_branch = False\<rparr>))"

text \<open>\<open>startPending\<close> sends a PRD to the retry, a nested Automation or a fork to a step, and leaves anything else alone.\<close>

datatype PendingStart = PendingNothing | PendingRetry | PendingStep

definition startPending :: "Automation \<Rightarrow> AutomationMember \<Rightarrow> PendingStart" where
  "startPending a mem =
    (if au_status a \<noteq> AutomationActive then PendingNothing
     else if memberKind mem = MemberKindPRD then PendingRetry
     else if memberKind mem = MemberKindAutomation \<or> memberKind mem = MemberKindFork then PendingStep
     else PendingNothing)"

section \<open>Pause and resume\<close>

definition PauseAutomation :: "string \<Rightarrow> time \<Rightarrow> Automation \<Rightarrow> ControlError + Automation" where
  "PauseAutomation actor0 now a =
    (let actor = orActor actor0
     in guarded (checkControlStatus a [AutomationActive])
          (controlNote ''automation_pause'' actor now (NoteText (''paused by '' @ actor @ ''; in-flight members keep running''))
            (a\<lparr>au_status := AutomationPaused\<rparr>)))"

definition resumableStatuses :: "Automation \<Rightarrow> AutomationStatus list" where
  "resumableStatuses a =
    (if budgetEpisodeOpen a \<and> au_status a = AutomationBlocked then [AutomationPaused, AutomationBlocked] else [AutomationPaused])"

text \<open>\<open>verdictFor\<close> stands for the budget's evaluation of a member, or of the whole Automation.\<close>

fun refusalLoop :: "(AutomationMember option \<Rightarrow> BudgetVerdict) \<Rightarrow> Automation \<Rightarrow> string list \<Rightarrow> bool \<Rightarrow> bool \<times> BudgetVerdict option" where
  "refusalLoop verdictFor a [] waiting = (waiting, None)"
| "refusalLoop verdictFor a (i # is) waiting =
    (case automationMember a i of
       None \<Rightarrow> refusalLoop verdictFor a is waiting
     | Some mem \<Rightarrow>
         if \<not> memberUnstarted mem then refusalLoop verdictFor a is waiting
         else let v = verdictFor (Some mem)
              in if bv_gate v \<and> bv_kind v = BudgetKindCeiling then (True, Some v) else refusalLoop verdictFor a is True)"

definition budgetRefusal :: "(AutomationMember option \<Rightarrow> BudgetVerdict) \<Rightarrow> Automation \<Rightarrow> BudgetVerdict option" where
  "budgetRefusal verdictFor a =
    (case refusalLoop verdictFor a (liveCursorIDs a) False of
       (_, Some v) \<Rightarrow> Some v
     | (True, None) \<Rightarrow> None
     | (False, None) \<Rightarrow> let v = verdictFor None in if bv_gate v \<and> bv_kind v = BudgetKindCeiling then Some v else None)"

definition ResumeAutomation :: "(AutomationMember option \<Rightarrow> BudgetVerdict) \<Rightarrow> string \<Rightarrow> time \<Rightarrow> Automation \<Rightarrow> ControlError + Automation" where
  "ResumeAutomation verdictFor actor0 now a =
    (let actor = orActor actor0
     in case checkControlStatus a (resumableStatuses a) of
          Some e \<Rightarrow> Inl e
        | None \<Rightarrow>
            (case (if budgetEpisodeOpen a then budgetRefusal verdictFor a else None) of
               Some v \<Rightarrow> Inl (BudgetRefused v)
             | None \<Rightarrow>
                 Inr (controlNote ''automation_resume'' actor now (NoteText (''resumed by '' @ actor))
                   (a\<lparr>au_status := AutomationActive, au_budgetState := None,
                      au_idleSince := (if budgetEpisodeOpen a then None else au_idleSince a)\<rparr>))))"

section \<open>Cancel\<close>

definition cancelMember :: "bool \<Rightarrow> time \<Rightarrow> AutomationMember \<Rightarrow> AutomationMember" where
  "cancelMember inFlight now m =
    (if mb_status m = MemberRunning
     then if inFlight then m\<lparr>mb_status := MemberCancelled, mb_outcome := ''cancelled'', mb_finishedAt := Some now, mb_edgeTaken := []\<rparr> else m
     else if memberUnstarted m
     then m\<lparr>mb_status := MemberCancelled, mb_outcome := ''automation-cancelled'', mb_finishedAt := Some now, mb_edgeTaken := []\<rparr>
     else m)"

definition inFlightMembers :: "Automation \<Rightarrow> AutomationMember list" where
  "inFlightMembers a = filter (\<lambda>m. mb_status m = MemberRunning) (au_members a)"

record CancelEnds =
  ce_prds :: "string list"
  ce_children :: "string list"
  ce_inFlight :: "string list"

definition cancelEnds :: "bool \<Rightarrow> Automation \<Rightarrow> CancelEnds" where
  "cancelEnds inFlight a =
    \<lparr>ce_prds = (if inFlight then map mb_prdID (filter (\<lambda>m. memberKind m = MemberKindPRD) (inFlightMembers a)) else []),
     ce_children = (if inFlight then map mb_automationID (filter (\<lambda>m. memberKind m = MemberKindAutomation) (inFlightMembers a)) else []),
     ce_inFlight = map mb_id (inFlightMembers a)\<rparr>"

definition cancelAutomation :: "bool \<Rightarrow> string \<Rightarrow> bool \<Rightarrow> bool \<Rightarrow> time \<Rightarrow> Automation \<Rightarrow> ControlError + Automation \<times> CancelEnds" where
  "cancelAutomation hasCanceller actor0 requested inFlight now a =
    (if \<not> requested then Inl NoCancelChoice
     else case checkControlStatus a [AutomationActive, AutomationPaused, AutomationBlocked] of
       Some e \<Rightarrow> Inl e
     | None \<Rightarrow>
         if inFlight \<and> \<not> hasCanceller \<and> list_ex (\<lambda>m. memberKind m = MemberKindPRD) (inFlightMembers a) then Inl NoCanceller
         else let actor = orActor actor0;
                  a1 = a\<lparr>au_members := map (cancelMember inFlight now) (au_members a)\<rparr>;
                  a2 = (if inFlight then (if automationIsLinear a1 then a1\<lparr>au_currentMemberID := []\<rparr> else a1\<lparr>au_activeCursors := []\<rparr>) else a1);
                  a3 = a2\<lparr>au_status := AutomationCancelled, au_finishedAt := Some now, au_idleSince := None\<rparr>;
                  note = ''cancelled by '' @ actor @ '' with cancel_in_flight='' @ (if inFlight then ''true'' else ''false'') @ ''; ''
                    @ itoa (int (length (inFlightMembers a))) @ '' member(s) were in flight''
              in Inr (controlNote ''automation_cancel'' actor now (NoteText note) a3, cancelEnds inFlight a))"

section \<open>Skip\<close>

definition resolveBranch :: "Automation \<Rightarrow> string \<Rightarrow> ControlError + string" where
  "resolveBranch a memberID =
    (let cursors = liveCursorIDs a
     in if cursors = [] then Inl NoActiveMember
        else if memberID = [] then (if length cursors = 1 then Inr (hd cursors) else Inl (ManyBranches cursors))
        else if memberID \<in> set cursors then Inr memberID else Inl (NotActiveBranch memberID cursors))"

definition skipEnd :: "string \<Rightarrow> endOutcome" where
  "skipEnd edge = plainEnd edge MemberSkipped ''skipped'' (edge = edgeOnComplete)"

definition skipInput :: "string \<Rightarrow> string \<Rightarrow> time \<Rightarrow> stepInput" where
  "skipInput target edge now =
    \<lparr>si_memberID = target, si_end = skipEnd edge, si_reeval = False, si_startPending = False, si_now = now, si_breachChoice = []\<rparr>"

definition SkipMember :: "nat \<Rightarrow> string \<Rightarrow> string \<Rightarrow> string \<Rightarrow> snapshot \<Rightarrow> time \<Rightarrow> Automation \<Rightarrow> (ControlError + Automation \<times> stepEffects) option" where
  "SkipMember n memberID edge0 actor0 snap now a =
    (let actor = orActor actor0; edge = (if edge0 = [] then edgeOnComplete else edge0)
     in if edge \<notin> {edgeOnComplete, edgeOnBlocked, edgeOnFailed} then Some (Inl (BadEdge edge))
        else case checkControlStatus a [AutomationActive, AutomationPaused] of
          Some e \<Rightarrow> Some (Inl e)
        | None \<Rightarrow>
            (case resolveBranch a memberID of
               Inl e \<Rightarrow> Some (Inl e)
             | Inr target \<Rightarrow>
                 map_option
                   (\<lambda>r. case r of
                      StaleStep \<Rightarrow> Inl (StaleBranch target)
                    | Stepped a1 eff \<Rightarrow>
                        Inr (controlNote ''automation_skip_member'' actor now (NoteText (''skipped member '' @ target @ '' via '' @ edge))
                               (setMember target (\<lambda>m. m\<lparr>mb_edgeTaken := edge\<rparr>) a1), eff))
                   (step n a (skipInput target edge now) snap)))"

section \<open>Editing a running Automation\<close>

definition checkRemovable :: "Automation \<Rightarrow> string \<Rightarrow> ControlError option" where
  "checkRemovable a memberID =
    (case automationMember a memberID of
       None \<Rightarrow> Some (MemberUnknown memberID)
     | Some mem \<Rightarrow>
         if mb_onComplete mem \<noteq> [] \<or> mb_onBlocked mem \<noteq> [] \<or> mb_onFailed mem \<noteq> [] then Some (HasEdges memberID)
         else if memberID = au_entryMemberID a then Some (IsEntry memberID)
         else if isLiveCursor a memberID \<or> mb_status mem = MemberRunning then Some (InFlight memberID)
         else if \<not> memberUnstarted mem then Some (AlreadyStarted memberID (mb_status mem))
         else if memberKind mem = MemberKindFork \<or> memberKind mem = MemberKindJoin then Some (IsForkOrJoin memberID)
         else firstError (\<lambda>m. if memberID \<in> set (mb_forkMembers m @ mb_joinMembers m) then Some (IsBranch memberID (mb_id m)) else None) (au_members a))"

definition clearEdges :: "string \<Rightarrow> AutomationMember \<Rightarrow> AutomationMember" where
  "clearEdges i m =
    m\<lparr>mb_onComplete := (if mb_onComplete m = i then [] else mb_onComplete m), mb_onBlocked := (if mb_onBlocked m = i then [] else mb_onBlocked m),
      mb_onFailed := (if mb_onFailed m = i then [] else mb_onFailed m)\<rparr>"

definition RemoveMember :: "string \<Rightarrow> string \<Rightarrow> time \<Rightarrow> Automation \<Rightarrow> ControlError + Automation" where
  "RemoveMember memberID actor0 now a =
    (case checkControlStatus a [AutomationActive, AutomationPaused] of
       Some e \<Rightarrow> Inl e
     | None \<Rightarrow>
         guarded (checkRemovable a memberID)
           (controlNote ''automation_remove_member'' (orActor actor0) now (NoteText (''removed member '' @ memberID))
             (a\<lparr>au_members := map (clearEdges memberID) (filter (\<lambda>m. mb_id m \<noteq> memberID) (au_members a))\<rparr>)))"

definition checkReorderable :: "Automation \<Rightarrow> string \<Rightarrow> string \<Rightarrow> string \<Rightarrow> string \<Rightarrow> ControlError option" where
  "checkReorderable a memberID onC onB onF =
    (case automationMember a memberID of
       None \<Rightarrow> Some (MemberUnknown memberID)
     | Some mem \<Rightarrow>
         if isLiveCursor a memberID \<or> mb_status mem = MemberRunning then Some (InFlight memberID)
         else if \<not> memberUnstarted mem then Some (AlreadyStarted memberID (mb_status mem))
         else firstError
           (\<lambda>(name, old, target).
              if target = [] \<or> target = old then None
              else case automationMember a target of
                     None \<Rightarrow> Some (TargetUnknown name target)
                   | Some nx \<Rightarrow> if \<not> memberUnstarted nx then Some (TargetStarted name target (mb_status nx)) else None)
           [(edgeOnComplete, mb_onComplete mem, onC), (edgeOnBlocked, mb_onBlocked mem, onB), (edgeOnFailed, mb_onFailed mem, onF)])"

definition ReorderEdges :: "string \<Rightarrow> string \<Rightarrow> string \<Rightarrow> string \<Rightarrow> string \<Rightarrow> time \<Rightarrow> Automation \<Rightarrow> ControlError + Automation" where
  "ReorderEdges memberID onC onB onF actor0 now a =
    (case checkControlStatus a [AutomationActive, AutomationPaused] of
       Some e \<Rightarrow> Inl e
     | None \<Rightarrow>
         guarded (checkReorderable a memberID onC onB onF)
           (controlNote ''automation_reorder_edges'' (orActor actor0) now (NoteRewired memberID onC onB onF)
             (setMember memberID (\<lambda>m. m\<lparr>mb_onComplete := onC, mb_onBlocked := onB, mb_onFailed := onF\<rparr>) a)))"

end
