(* ===== verification/Automation_Store.thy ===== *)
theory Automation_Store
  imports Automation_Control Question_Types
begin

text \<open>
  \<open>internal/autonomous/automation_store.go\<close> and the cross-Automation checks of \<open>automation.go\<close>: the store of Automations with
  its index from PRDs to the Automation that owns them, its file, and the operations \<open>Create\<close>, \<open>Update\<close> and \<open>Delete\<close>.

  The code checks a new version of an Automation against the store, and writes it later, without holding the store's lock in
  between; only the writes of one Automation exclude each other. \<open>createCheck\<close> and \<open>updateCheck\<close> are the first half,
  \<open>createCommit\<close> and \<open>updateCommit\<close> the second, and an operation nobody interleaves with is one after the other.

  Arguments stand for what is read from outside: the PRDs (\<open>lookupPRD\<close>), the checks of single settings (\<open>settings\<close>), the
  clock, the random bytes of new ids, and how far a rewrite of the file got. A copy made by a JSON round trip is the value itself.
\<close>

section \<open>Ownership and nesting\<close>

record PRDInfo =
  pi_isTemplate :: bool
  pi_parentPRDID :: string

datatype 'e StoreError =
    Invalid AutomationError | StageColon string string | StageNewline string string | StageTooLong string int
  | PRDNotFound string | PRDTemplate string | PRDChild string | PRDOwned string string
  | ChildNotFound string string | ChildOwned string string string | NestingCycle string "string list"
  | NotFound string | VersionMismatch int | MutateFailed 'e | NotDeletable AutomationStatus | PersistFailed

definition terminal :: "Automation \<Rightarrow> bool" where
  "terminal a \<longleftrightarrow> au_status a = AutomationCompleted \<or> au_status a = AutomationCancelled"

definition checkMemberPRD :: "(string \<Rightarrow> PRDInfo option) \<Rightarrow> (string \<Rightarrow> string) \<Rightarrow> string \<Rightarrow> AutomationMember \<Rightarrow> 'e StoreError option" where
  "checkMemberPRD lookupPRD ownerOf self m =
    (if memberKind m \<noteq> MemberKindPRD then None
     else case lookupPRD (mb_prdID m) of
            None \<Rightarrow> Some (PRDNotFound (mb_prdID m))
          | Some prd \<Rightarrow>
              if pi_isTemplate prd then Some (PRDTemplate (mb_prdID m))
              else if pi_parentPRDID prd \<noteq> [] then Some (PRDChild (mb_prdID m))
              else if ownerOf (mb_prdID m) \<noteq> [] \<and> ownerOf (mb_prdID m) \<noteq> self then Some (PRDOwned (mb_prdID m) (ownerOf (mb_prdID m)))
              else None)"

definition validateAutomationOwnership :: "(string \<Rightarrow> PRDInfo option) \<Rightarrow> (string \<Rightarrow> string) \<Rightarrow> Automation \<Rightarrow> 'e StoreError option" where
  "validateAutomationOwnership lookupPRD ownerOf a =
    (if terminal a then None else firstError (checkMemberPRD lookupPRD ownerOf (au_id a)) (au_members a))"

text \<open>The recursive \<open>walk\<close> of \<open>nestedPathToSelf\<close>, with the visited set threaded through. A fuel above the number of stored
  Automations is enough, since each call below the first enters an Automation not visited before.\<close>

fun walkLoop :: "(Automation \<Rightarrow> string list \<Rightarrow> (string list option \<times> string list) option) \<Rightarrow> (string \<Rightarrow> Automation option) \<Rightarrow> string
    \<Rightarrow> string list \<Rightarrow> AutomationMember list \<Rightarrow> string list \<Rightarrow> (string list option \<times> string list) option" where
  "walkLoop visit lookup self path [] seen = Some (None, seen)"
| "walkLoop visit lookup self path (m # ms) seen =
    (if memberKind m \<noteq> MemberKindAutomation then walkLoop visit lookup self path ms seen
     else if mb_automationID m = self then Some (Some (path @ [self]), seen)
     else case lookup (mb_automationID m) of
            None \<Rightarrow> walkLoop visit lookup self path ms seen
          | Some nxt \<Rightarrow> (case visit nxt seen of
                None \<Rightarrow> None
              | Some (Some found, seen') \<Rightarrow> Some (Some found, seen')
              | Some (None, seen') \<Rightarrow> walkLoop visit lookup self path ms seen'))"

primrec walk :: "nat \<Rightarrow> (string \<Rightarrow> Automation option) \<Rightarrow> string \<Rightarrow> string list \<Rightarrow> Automation \<Rightarrow> string list \<Rightarrow> (string list option \<times> string list) option" where
  "walk 0 lookup self path cur seen = None"
| "walk (Suc n) lookup self path cur seen =
    (if au_id cur = self then Some (Some (path @ [au_id cur]), seen)
     else if au_id cur \<in> set seen then Some (None, seen)
     else walkLoop (walk n lookup self (path @ [au_id cur])) lookup self (path @ [au_id cur]) (au_members cur) (au_id cur # seen))"

definition nestedPathToSelf :: "nat \<Rightarrow> string \<Rightarrow> Automation \<Rightarrow> (string \<Rightarrow> Automation option) \<Rightarrow> string list option option" where
  "nestedPathToSelf n self child lookup = map_option fst (walk n lookup self [] child [])"

definition checkNested :: "nat \<Rightarrow> (string \<Rightarrow> Automation option) \<Rightarrow> (string \<Rightarrow> string) \<Rightarrow> string \<Rightarrow> AutomationMember \<Rightarrow> 'e StoreError option option" where
  "checkNested n lookup ownerOf self m =
    (if memberKind m \<noteq> MemberKindAutomation then Some None
     else case lookup (mb_automationID m) of
            None \<Rightarrow> Some (Some (ChildNotFound (mb_id m) (mb_automationID m)))
          | Some child \<Rightarrow>
              let owner = ownerOf (mb_automationID m)
              in if owner \<noteq> [] \<and> owner \<noteq> self then Some (Some (ChildOwned (mb_id m) (mb_automationID m) owner))
                 else map_option (map_option (NestingCycle (mb_id m))) (nestedPathToSelf n self child lookup))"

fun nestingLoop :: "nat \<Rightarrow> (string \<Rightarrow> Automation option) \<Rightarrow> (string \<Rightarrow> string) \<Rightarrow> string \<Rightarrow> AutomationMember list \<Rightarrow> 'e StoreError option option" where
  "nestingLoop n lookup ownerOf self [] = Some None"
| "nestingLoop n lookup ownerOf self (m # ms) =
    (case checkNested n lookup ownerOf self m of Some None \<Rightarrow> nestingLoop n lookup ownerOf self ms | r \<Rightarrow> r)"

definition validateAutomationNesting :: "nat \<Rightarrow> (string \<Rightarrow> Automation option) \<Rightarrow> (string \<Rightarrow> string) \<Rightarrow> Automation \<Rightarrow> 'e StoreError option option" where
  "validateAutomationNesting n lookup ownerOf a = (if terminal a then Some None else nestingLoop n lookup ownerOf (au_id a) (au_members a))"

section \<open>The store\<close>

text \<open>The file is the list of its complete lines, and whether a line cut in the middle follows them.\<close>

record AutomationStore =
  as_automations :: "(string, Automation) gomap"
  as_owner :: "(string, string) gomap"
  as_file :: "Automation list \<times> bool"

definition claims :: "Automation \<Rightarrow> string list" where
  "claims a = (if terminal a then [] else filter (\<lambda>p. p \<noteq> []) (map mb_prdID (au_members a)))"

definition claimAll :: "Automation \<Rightarrow> (string, string) gomap \<Rightarrow> (string, string) gomap" where
  "claimAll a = fold (\<lambda>p ow. mapSet ow p (au_id a)) (claims a)"

definition rebuildIndexLocked :: "AutomationStore \<Rightarrow> AutomationStore" where
  "rebuildIndexLocked s = s\<lparr>as_owner := fold (\<lambda>e. claimAll (snd e)) (as_automations s) []\<rparr>"

definition OwnerOf :: "AutomationStore \<Rightarrow> string \<Rightarrow> string" where
  "OwnerOf s p = mapGetOr [] (as_owner s) p"

definition nestedIDs :: "Automation \<Rightarrow> string list" where
  "nestedIDs a = map mb_automationID (filter (\<lambda>m. memberKind m = MemberKindAutomation) (au_members a))"

definition nestingOwnerOf :: "AutomationStore \<Rightarrow> string \<Rightarrow> string" where
  "nestingOwnerOf s child =
    (case find (\<lambda>e. \<not> terminal (snd e) \<and> child \<in> set (nestedIDs (snd e))) (as_automations s) of
       None \<Rightarrow> [] | Some e \<Rightarrow> au_id (snd e))"

definition asGet :: "AutomationStore \<Rightarrow> string \<Rightarrow> Automation option" where
  "asGet s i = mapGet (as_automations s) i"

definition asList :: "AutomationStore \<Rightarrow> Automation list" where
  "asList s = sortSliceStable (\<lambda>a b. au_createdAt a > au_createdAt b) (map snd (as_automations s))"

text \<open>Reading the file at start. A line that does not decode is an error.\<close>

definition loadedCursors :: "Automation \<Rightarrow> Automation" where
  "loadedCursors a = a\<lparr>au_activeCursors := sortedUniqueStrings
     (if au_activeCursors a = [] \<and> au_currentMemberID a \<noteq> [] then [au_currentMemberID a] else au_activeCursors a)\<rparr>"

definition NewAutomationStore :: "Automation list \<times> bool \<Rightarrow> AutomationStore option" where
  "NewAutomationStore f =
    (if snd f then None
     else Some (rebuildIndexLocked \<lparr>as_automations = fold (\<lambda>a m. mapSet m (au_id a) (loadedCursors a)) (fst f) [], as_owner = [], as_file = f\<rparr>))"

text \<open>\<open>writeJSONL\<close> truncates the file and writes line after line: it may fail to open the file, or stop after some lines.\<close>

datatype PersistOutcome = PersistDone | OpenFailed | StoppedAfter nat bool

definition persistFile :: "PersistOutcome \<Rightarrow> AutomationStore \<Rightarrow> Automation list \<times> bool" where
  "persistFile out s =
    (case out of
       PersistDone \<Rightarrow> (map snd (as_automations s), False)
     | OpenFailed \<Rightarrow> as_file s
     | StoppedAfter k torn \<Rightarrow> (take k (map snd (as_automations s)), torn))"

section \<open>Stages\<close>

definition normalizeMemberStages :: "Automation \<Rightarrow> Automation" where
  "normalizeMemberStages a = a\<lparr>au_members := map (\<lambda>m. m\<lparr>mb_stage := trimSpace (mb_stage m)\<rparr>) (au_members a)\<rparr>"

definition checkStage :: "AutomationMember \<Rightarrow> 'e StoreError option" where
  "checkStage m =
    (let stage = trimSpace (mb_stage m)
     in if CHR '':'' \<in> set stage then Some (StageColon (mb_id m) stage)
        else if char_of (10 :: nat) \<in> set stage \<or> char_of (13 :: nat) \<in> set stage then Some (StageNewline (mb_id m) stage)
        else if utf8len stage > 64 then Some (StageTooLong (mb_id m) (utf8len stage))
        else None)"

definition validateMemberStages :: "Automation \<Rightarrow> 'e StoreError option" where
  "validateMemberStages a = firstError checkStage (au_members a)"

section \<open>The checks of a write\<close>

definition canonical :: "Automation \<Rightarrow> Automation" where
  "canonical a = normalizeActiveCursors (normalizeMemberStages a)"

definition checkStored :: "nat \<Rightarrow> (Automation \<Rightarrow> string option) \<Rightarrow> (string \<Rightarrow> PRDInfo option) \<Rightarrow> AutomationStore \<Rightarrow> Automation \<Rightarrow> 'e StoreError option option" where
  "checkStored n settings lookupPRD s a =
    (case orElse (map_option Invalid (validateAutomation settings a))
            (orElse (validateMemberStages a) (validateAutomationOwnership lookupPRD (OwnerOf s) a)) of
       Some e \<Rightarrow> Some (Some e)
     | None \<Rightarrow> validateAutomationNesting n (asGet s) (nestingOwnerOf s) a)"

section \<open>Create\<close>

type_synonym draw = "8 word \<times> 8 word \<times> 8 word \<times> 8 word"

definition newAutomationID :: "draw \<Rightarrow> string" where
  "newAutomationID d = (case d of (a, b, c, e) \<Rightarrow> hexEncode [a, b, c, e])"

text \<open>The loop that draws an id until one is free; None when the given draws do not reach one.\<close>

fun freeID :: "AutomationStore \<Rightarrow> draw list \<Rightarrow> (string \<times> draw list) option" where
  "freeID s [] = None"
| "freeID s (d # ds) = (if asGet s (newAutomationID d) \<noteq> None then freeID s ds else Some (newAutomationID d, ds))"

fun fillMembers :: "time \<Rightarrow> draw list \<Rightarrow> AutomationMember list \<Rightarrow> AutomationMember list option" where
  "fillMembers now ds [] = Some []"
| "fillMembers now ds (m # ms) =
    (let m1 = m\<lparr>mb_addedAt := (if mb_addedAt m = zeroTime then now else mb_addedAt m),
                mb_addedBy := (if mb_addedBy m = [] then ''operator'' else mb_addedBy m)\<rparr>
     in if mb_id m = []
        then (case ds of [] \<Rightarrow> None | d # ds' \<Rightarrow> map_option ((#) (m1\<lparr>mb_id := newAutomationID d\<rparr>)) (fillMembers now ds' ms))
        else map_option ((#) m1) (fillMembers now ds ms))"

definition newDraft :: "time \<Rightarrow> string \<Rightarrow> AutomationMember list \<Rightarrow> Automation \<Rightarrow> Automation" where
  "newDraft now i ms a =
    canonical (a\<lparr>au_id := i, au_members := ms, au_status := AutomationDraft, au_version := 1, au_createdAt := now, au_updatedAt := now,
                au_entryMemberID := (case ms of [] \<Rightarrow> au_entryMemberID a | m # _ \<Rightarrow> if au_entryMemberID a = [] then mb_id m else au_entryMemberID a)\<rparr>)"

definition createCheck :: "nat \<Rightarrow> (Automation \<Rightarrow> string option) \<Rightarrow> (string \<Rightarrow> PRDInfo option) \<Rightarrow> draw list \<Rightarrow> time \<Rightarrow> Automation \<Rightarrow> AutomationStore
    \<Rightarrow> ('e StoreError + Automation) option" where
  "createCheck n settings lookupPRD ds now a s =
    (case (if au_id a = [] then freeID s ds else Some (au_id a, ds)) of
       None \<Rightarrow> None
     | Some (i, ds') \<Rightarrow>
         (case fillMembers now ds' (au_members a) of
            None \<Rightarrow> None
          | Some ms \<Rightarrow>
              let a1 = newDraft now i ms a
              in map_option (\<lambda>r. case r of Some e \<Rightarrow> Inl e | None \<Rightarrow> Inr a1) (checkStored n settings lookupPRD s a1)))"

definition createCommit :: "PersistOutcome \<Rightarrow> Automation \<Rightarrow> AutomationStore \<Rightarrow> ('e StoreError + Automation) \<times> AutomationStore" where
  "createCommit out a s =
    (let s1 = s\<lparr>as_automations := mapSet (as_automations s) (au_id a) a, as_owner := claimAll a (as_owner s)\<rparr>;
         f = persistFile out s1
     in if out = PersistDone then (Inr a, s1\<lparr>as_file := f\<rparr>)
        else (Inl PersistFailed, s1\<lparr>as_automations := mapDelete (as_automations s1) (au_id a), as_owner := as_owner s, as_file := f\<rparr>))"

definition asCreate :: "nat \<Rightarrow> (Automation \<Rightarrow> string option) \<Rightarrow> (string \<Rightarrow> PRDInfo option) \<Rightarrow> draw list \<Rightarrow> time \<Rightarrow> PersistOutcome \<Rightarrow> Automation \<Rightarrow> AutomationStore
    \<Rightarrow> (('e StoreError + Automation) \<times> AutomationStore) option" where
  "asCreate n settings lookupPRD ds now out a s =
    map_option (\<lambda>r. case r of Inl e \<Rightarrow> (Inl e, s) | Inr a1 \<Rightarrow> createCommit out a1 s) (createCheck n settings lookupPRD ds now a s)"

section \<open>Update and delete\<close>

definition updateCheck :: "nat \<Rightarrow> (Automation \<Rightarrow> string option) \<Rightarrow> (string \<Rightarrow> PRDInfo option) \<Rightarrow> string \<Rightarrow> int \<Rightarrow> (Automation \<Rightarrow> 'e + Automation) \<Rightarrow> AutomationStore
    \<Rightarrow> ('e StoreError + Automation \<times> Automation) option" where
  "updateCheck n settings lookupPRD i expectedVersion mutate s =
    (case asGet s i of
       None \<Rightarrow> Some (Inl (NotFound i))
     | Some existing \<Rightarrow>
         if expectedVersion > 0 \<and> au_version existing \<noteq> expectedVersion then Some (Inl (VersionMismatch (au_version existing)))
         else case mutate existing of
                Inl e \<Rightarrow> Some (Inl (MutateFailed e))
              | Inr a \<Rightarrow>
                  let clone = canonical (a\<lparr>au_id := i\<rparr>)
                  in map_option (\<lambda>r. case r of Some e \<Rightarrow> Inl e | None \<Rightarrow> Inr (existing, clone)) (checkStored n settings lookupPRD s clone))"

definition updateCommit :: "PersistOutcome \<Rightarrow> time \<Rightarrow> Automation \<Rightarrow> Automation \<Rightarrow> AutomationStore \<Rightarrow> ('e StoreError + Automation) \<times> AutomationStore" where
  "updateCommit out now existing clone s =
    (let a = clone\<lparr>au_version := au_version existing + 1, au_updatedAt := now\<rparr>;
         s1 = rebuildIndexLocked (s\<lparr>as_automations := mapSet (as_automations s) (au_id a) a\<rparr>);
         f = persistFile out s1
     in if out = PersistDone then (Inr a, s1\<lparr>as_file := f\<rparr>)
        else (Inl PersistFailed, s1\<lparr>as_automations := mapSet (as_automations s1) (au_id a) existing, as_owner := as_owner s, as_file := f\<rparr>))"

definition asUpdate :: "nat \<Rightarrow> (Automation \<Rightarrow> string option) \<Rightarrow> (string \<Rightarrow> PRDInfo option) \<Rightarrow> string \<Rightarrow> int \<Rightarrow> (Automation \<Rightarrow> 'e + Automation) \<Rightarrow> time \<Rightarrow> PersistOutcome \<Rightarrow> AutomationStore
    \<Rightarrow> (('e StoreError + Automation) \<times> AutomationStore) option" where
  "asUpdate n settings lookupPRD i expectedVersion mutate now out s =
    map_option (\<lambda>r. case r of Inl e \<Rightarrow> (Inl e, s) | Inr (existing, clone) \<Rightarrow> updateCommit out now existing clone s)
      (updateCheck n settings lookupPRD i expectedVersion mutate s)"

definition asDelete :: "string \<Rightarrow> PersistOutcome \<Rightarrow> AutomationStore \<Rightarrow> 'e StoreError option \<times> AutomationStore" where
  "asDelete i out s =
    (case asGet s i of
       None \<Rightarrow> (Some (NotFound i), s)
     | Some a \<Rightarrow>
         if au_status a \<noteq> AutomationDraft \<and> \<not> terminal a then (Some (NotDeletable (au_status a)), s)
         else let s1 = rebuildIndexLocked (s\<lparr>as_automations := mapDelete (as_automations s) i\<rparr>);
                  f = persistFile out s1
              in if out = PersistDone then (None, s1\<lparr>as_file := f\<rparr>)
                 else (Some PersistFailed, s1\<lparr>as_automations := mapSet (as_automations s1) i a, as_owner := as_owner s, as_file := f\<rparr>))"

end
