(* ===== verification/Automation_Nesting.thy ===== *)
theory Automation_Nesting
  imports Automation_Store
begin

text \<open>
  The nesting check is exact: the walk over nested Automations returns, finds a chain back to the Automation exactly when there
  is one, and a store whose nesting has no cycle keeps none when it takes an Automation that passed the check.
\<close>

section \<open>The nesting relation\<close>

definition nestRel :: "(string \<Rightarrow> Automation option) \<Rightarrow> (string \<times> string) set" where
  "nestRel lookup = {(i, c). \<exists>x. lookup i = Some x \<and> c \<in> set (nestedIDs x)}"

definition keyedLookup :: "(string \<Rightarrow> Automation option) \<Rightarrow> bool" where
  "keyedLookup lookup \<longleftrightarrow> (\<forall>i x. lookup i = Some x \<longrightarrow> au_id x = i)"

lemma nestedIDs_mem: "c \<in> set (nestedIDs x) \<longleftrightarrow> (\<exists>m\<in>set (au_members x). memberKind m = MemberKindAutomation \<and> mb_automationID m = c)"
  by (auto simp: nestedIDs_def)

text \<open>Adding edges out of one node to an acyclic relation, none of whose targets reaches the node.\<close>

lemma rtrancl_out_edges: "(c, i) \<in> (R \<union> {i} \<times> N)\<^sup>* \<Longrightarrow> (c, i) \<in> R\<^sup>*"
  by (induction rule: converse_rtrancl_induct) (auto intro: converse_rtrancl_into_rtrancl)

lemma acyclic_out_edges:
  assumes "finite N" "acyclic R" "\<And>c. c \<in> N \<Longrightarrow> (c, i) \<notin> R\<^sup>*"
  shows "acyclic (R \<union> {i} \<times> N)"
  using assms
proof (induction N)
  case (insert c N)
  then have "acyclic (R \<union> {i} \<times> N)" by simp
  moreover have "(c, i) \<notin> (R \<union> {i} \<times> N)\<^sup>*" using rtrancl_out_edges [of c i R N] insert.prems(2) by blast
  moreover have "R \<union> {i} \<times> insert c N = insert (i, c) (R \<union> {i} \<times> N)" by auto
  ultimately show ?case by (simp add: acyclic_insert)
qed simp

lemma nestRel_update:
  assumes "acyclic (nestRel lookup)" "\<And>c. c \<in> set (nestedIDs a) \<Longrightarrow> (c, i) \<notin> (nestRel lookup)\<^sup>*"
  shows "acyclic (nestRel (lookup(i := Some a)))"
proof -
  have "nestRel (lookup(i := Some a)) \<subseteq> nestRel lookup \<union> {i} \<times> set (nestedIDs a)"
    by (auto simp: nestRel_def split: if_splits)
  moreover have "acyclic (nestRel lookup \<union> {i} \<times> set (nestedIDs a))" using assms by (intro acyclic_out_edges) auto
  ultimately show ?thesis by (rule acyclic_subset [rotated])
qed

section \<open>The walk\<close>

definition closedIn :: "(string \<Rightarrow> Automation option) \<Rightarrow> string \<Rightarrow> string set \<Rightarrow> string \<Rightarrow> bool" where
  "closedIn lookup self S c \<longleftrightarrow> c \<noteq> self \<and> (lookup c = None \<or> c \<in> S)"

definition walked :: "(string \<Rightarrow> Automation option) \<Rightarrow> string \<Rightarrow> string list \<Rightarrow> string list \<Rightarrow> bool" where
  "walked lookup self seen seen' \<longleftrightarrow> set seen \<subseteq> set seen' \<and>
    (\<forall>i\<in>set seen' - set seen. i \<noteq> self \<and> (\<forall>c. (i, c) \<in> nestRel lookup \<longrightarrow> closedIn lookup self (set seen') c))"

definition chainTo :: "(string \<Rightarrow> Automation option) \<Rightarrow> string \<Rightarrow> string \<Rightarrow> string list \<Rightarrow> bool" where
  "chainTo lookup i self q \<longleftrightarrow> q \<noteq> [] \<and> hd q = i \<and> last q = self \<and> successively (\<lambda>x y. (x, y) \<in> nestRel lookup) q"

definition walkResult :: "(string \<Rightarrow> Automation option) \<Rightarrow> string \<Rightarrow> string list \<Rightarrow> string \<Rightarrow> string list \<Rightarrow> string list option \<times> string list \<Rightarrow> bool" where
  "walkResult lookup self path i seen r \<longleftrightarrow>
    (case r of (None, seen') \<Rightarrow> walked lookup self seen seen' \<and> i \<noteq> self \<and> i \<in> set seen'
       | (Some p, _) \<Rightarrow> \<exists>q. p = path @ q \<and> chainTo lookup i self q)"

lemma walked_refl: "walked lookup self s s"
  by (simp add: walked_def)

lemma walked_trans:
  assumes "walked lookup self s t" "walked lookup self t u"
  shows "walked lookup self s u"
proof -
  have "closedIn lookup self (set u) c" if "i \<in> set u - set s" "(i, c) \<in> nestRel lookup" for i c
    using that assms by (cases "i \<in> set t") (auto simp: walked_def closedIn_def)
  moreover have "i \<noteq> self" if "i \<in> set u - set s" for i
    using that assms by (cases "i \<in> set t") (auto simp: walked_def)
  ultimately show ?thesis using assms by (auto simp: walked_def)
qed

lemma chainTo_Cons:
  assumes "chainTo lookup c self q" "(i, c) \<in> nestRel lookup"
  shows "chainTo lookup i self (i # q)"
  using assms by (cases q) (auto simp: chainTo_def)

lemma chainTo_reach: "chainTo lookup i self q \<Longrightarrow> (i, self) \<in> (nestRel lookup)\<^sup>*"
proof (induction q arbitrary: i)
  case (Cons x q)
  show ?case
  proof (cases q)
    case (Cons y ys)
    with Cons.prems have "chainTo lookup y self q" "(x, y) \<in> nestRel lookup" "x = i" by (auto simp: chainTo_def)
    with Cons.IH show ?thesis by (auto intro: converse_rtrancl_into_rtrancl)
  qed (use Cons.prems in \<open>auto simp: chainTo_def\<close>)
qed (simp add: chainTo_def)

text \<open>What the loop over the members needs from the recursive call, and what it gives.\<close>

definition loopResult :: "(string \<Rightarrow> Automation option) \<Rightarrow> string \<Rightarrow> string list \<Rightarrow> string \<Rightarrow> AutomationMember list \<Rightarrow> string list
    \<Rightarrow> string list option \<times> string list \<Rightarrow> bool" where
  "loopResult lookup self path i ms seen r \<longleftrightarrow>
    (case r of (None, seen') \<Rightarrow> walked lookup self seen seen' \<and>
          (\<forall>m\<in>set ms. memberKind m = MemberKindAutomation \<longrightarrow> closedIn lookup self (set seen') (mb_automationID m))
       | (Some p, _) \<Rightarrow> \<exists>c q. (i, c) \<in> nestRel lookup \<and> p = path @ q \<and> chainTo lookup c self q)"

lemma loopResult_Cons:
  assumes "loopResult lookup self path i ms s r" "walked lookup self seen s"
    and "\<And>t. walked lookup self s t \<Longrightarrow> memberKind m = MemberKindAutomation \<Longrightarrow> closedIn lookup self (set t) (mb_automationID m)"
  shows "loopResult lookup self path i (m # ms) seen r"
proof (cases r)
  case (Pair a t)
  show ?thesis
  proof (cases a)
    case None
    with Pair assms(1) have "walked lookup self s t" by (simp add: loopResult_def)
    with assms walked_trans [OF assms(2) this] None Pair show ?thesis by (simp add: loopResult_def)
  qed (use assms(1) Pair in \<open>simp add: loopResult_def\<close>)
qed

lemma walkLoop_result:
  assumes K: "keyedLookup lookup"
    and i: "lookup i = Some x" "set ms \<subseteq> set (au_members x)"
    and visit: "\<And>nxt s. lookup (au_id nxt) = Some nxt \<Longrightarrow> set seen \<subseteq> set s \<Longrightarrow>
       \<exists>r. visit nxt s = Some r \<and> walkResult lookup self path (au_id nxt) s r"
  shows "\<exists>r. walkLoop visit lookup self path ms seen = Some r \<and> loopResult lookup self path i ms seen r"
  using i(2) visit
proof (induction ms arbitrary: seen)
  case Nil
  then show ?case by (simp add: walked_refl loopResult_def)
next
  case (Cons m ms)
  note visit = Cons.prems(2)
  have sub: "set ms \<subseteq> set (au_members x)" and m: "m \<in> set (au_members x)" using Cons.prems(1) by auto
  have rest: "\<exists>r. walkLoop visit lookup self path ms s = Some r \<and> loopResult lookup self path i ms s r" if "set seen \<subseteq> set s" for s
    by (rule Cons.IH [OF sub]) (use visit that in blast)
  obtain r0 where r0: "walkLoop visit lookup self path ms seen = Some r0" "loopResult lookup self path i ms seen r0" using rest [of seen] by auto
  show ?case
  proof (cases "memberKind m = MemberKindAutomation")
    case False
    then show ?thesis using r0 loopResult_Cons [OF r0(2) walked_refl, of m] by simp
  next
    case kind: True
    let ?c = "mb_automationID m"
    have edge: "(i, ?c) \<in> nestRel lookup" using i(1) m kind by (auto simp: nestRel_def nestedIDs_mem)
    consider "?c = self" | "?c \<noteq> self" "lookup ?c = None" | nxt where "?c \<noteq> self" "lookup ?c = Some nxt" by (cases "lookup ?c") auto
    then show ?thesis
    proof cases
      case 1
      have "chainTo lookup self self [self]" by (simp add: chainTo_def)
      with 1 kind edge show ?thesis by (auto simp: loopResult_def)
    next
      case 2
      then have "closedIn lookup self (set t) ?c" for t by (simp add: closedIn_def)
      then show ?thesis using r0 loopResult_Cons [OF r0(2) walked_refl, of m] kind 2 by simp
    next
      case 3
      then have id: "au_id nxt = ?c" using K by (simp add: keyedLookup_def)
      with 3 visit [of nxt seen] obtain r where r: "visit nxt seen = Some r" "walkResult lookup self path ?c seen r" by auto
      show ?thesis
      proof (cases "fst r")
        case None
        then obtain s where s: "r = (None, s)" by (cases r) auto
        with r(2) have w: "walked lookup self seen s" "?c \<noteq> self" "?c \<in> set s" by (auto simp: walkResult_def)
        then have "set seen \<subseteq> set s" by (simp add: walked_def)
        from rest [OF this] obtain r' where r': "walkLoop visit lookup self path ms s = Some r'" "loopResult lookup self path i ms s r'" by blast
        have "closedIn lookup self (set t) ?c" if "walked lookup self s t" for t
          using that w by (auto simp: walked_def closedIn_def)
        with loopResult_Cons [OF r'(2) w(1), of m] kind 3 r(1) s r'(1) show ?thesis by simp
      next
        case (Some p)
        then obtain s where s: "r = (Some p, s)" by (cases r) auto
        with r kind 3 edge show ?thesis by (auto simp: walkResult_def loopResult_def)
      qed
    qed
  qed
qed

lemma walk_result:
  assumes K: "keyedLookup lookup" and fin: "finite {i. lookup i \<noteq> None}"
  shows "lookup (au_id cur) = Some cur \<Longrightarrow> card ({i. lookup i \<noteq> None} - set seen) < n \<Longrightarrow>
    \<exists>r. walk n lookup self path cur seen = Some r \<and> walkResult lookup self path (au_id cur) seen r"
proof (induction n arbitrary: cur seen path)
  case (Suc n)
  let ?D = "{i. lookup i \<noteq> None}" and ?i = "au_id cur" and ?p = "path @ [au_id cur]"
  consider "?i = self" | "?i \<noteq> self" "?i \<in> set seen" | "?i \<noteq> self" "?i \<notin> set seen" by blast
  then show ?case
  proof cases
    case 3
    have smaller: "card (?D - set s) < n" if "set (?i # seen) \<subseteq> set s" for s
    proof -
      have "card (?D - set s) \<le> card (?D - set seen - {?i})" using that fin by (intro card_mono) auto
      moreover have "card (?D - set seen - {?i}) < card (?D - set seen)"
        using fin Suc.prems(1) 3(2) by (intro card_Diff1_less) auto
      ultimately show ?thesis using Suc.prems(2) by linarith
    qed
    have "\<exists>r. walk n lookup self ?p nxt s = Some r \<and> walkResult lookup self ?p (au_id nxt) s r"
      if "lookup (au_id nxt) = Some nxt" "set (?i # seen) \<subseteq> set s" for nxt s
      using Suc.IH [OF that(1) smaller [OF that(2)]] .
    from walkLoop_result [OF K Suc.prems(1) order_refl this] obtain r where
      r: "walkLoop (walk n lookup self ?p) lookup self ?p (au_members cur) (?i # seen) = Some r"
      "loopResult lookup self ?p ?i (au_members cur) (?i # seen) r"
      by blast
    have "walkResult lookup self path ?i seen r"
    proof (cases "fst r")
      case None
      then obtain s where s: "r = (None, s)" by (cases r) auto
      with r(2) have w: "walked lookup self (?i # seen) s"
        and m: "\<And>c. (?i, c) \<in> nestRel lookup \<Longrightarrow> closedIn lookup self (set s) c"
        using Suc.prems(1) by (auto simp: nestRel_def nestedIDs_mem loopResult_def)
      then have "walked lookup self seen s" using 3(1) by (auto simp: walked_def)
      with w s 3(1) show ?thesis by (auto simp: walkResult_def walked_def)
    next
      case (Some p)
      with r(2) obtain c q where "(?i, c) \<in> nestRel lookup" "p = ?p @ q" "chainTo lookup c self q" by (cases r) (auto simp: loopResult_def)
      with chainTo_Cons [of lookup c self q ?i] Some show ?thesis by (cases r) (auto simp: walkResult_def)
    qed
    with r(1) 3 show ?thesis by auto
  qed (auto simp: walkResult_def chainTo_def walked_refl)
qed simp

lemma walked_avoids:
  assumes "walked lookup self [] S" "i \<in> set S" "i \<noteq> self" "(i, x) \<in> (nestRel lookup)\<^sup>*"
  shows "closedIn lookup self (set S) x"
  using assms(4)
proof (induction rule: rtrancl_induct)
  case base
  then show ?case using assms(2,3) by (simp add: closedIn_def)
next
  case (step x y)
  then have "x \<in> set S" by (auto simp: closedIn_def nestRel_def)
  with assms(1) step(2) show ?case by (auto simp: walked_def)
qed

lemma nestedPath_exact:
  assumes "keyedLookup lookup" "finite {i. lookup i \<noteq> None}" "lookup (au_id child) = Some child" "card {i. lookup i \<noteq> None} < n"
  shows "\<exists>r. nestedPathToSelf n self child lookup = Some r \<and>
    (case r of None \<Rightarrow> (au_id child, self) \<notin> (nestRel lookup)\<^sup>* | Some p \<Rightarrow> chainTo lookup (au_id child) self p)"
proof -
  obtain r where r: "walk n lookup self [] child [] = Some r" "walkResult lookup self [] (au_id child) [] r"
    using walk_result [OF assms(1-3), of "[]" n self "[]"] assms(4) by auto
  show ?thesis
  proof (cases "fst r")
    case None
    with r obtain S where S: "r = (None, S)" "walked lookup self [] S" "au_id child \<noteq> self" "au_id child \<in> set S"
      by (cases r) (auto simp: walkResult_def)
    from walked_avoids [OF S(2,4,3), of self] have "(au_id child, self) \<notin> (nestRel lookup)\<^sup>*" by (auto simp: closedIn_def)
    with r(1) None show ?thesis by (simp add: nestedPathToSelf_def)
  next
    case (Some p)
    with r show ?thesis by (cases r) (auto simp: walkResult_def nestedPathToSelf_def)
  qed
qed

end
