(* ===== verification/Automation_Reach.thy ===== *)
theory Automation_Reach
  imports Automation_Step
begin

text \<open>
  The graph of an Automation: the cycle check and the reachability check are exact, and what a validated Automation's
  graph looks like. The search of \<open>automationHasCycle\<close> colours nodes as the pipeline's search does, so that search's
  invariants carry over; the path it keeps is the gray nodes in order.
\<close>

section \<open>The cycle check\<close>

definition edgesOf :: "(string, string list) gomap \<Rightarrow> (string \<times> string) set" where
  "edgesOf succ = {(x, y). y \<in> succs succ x}"

definition grayNodes :: "(string, Color) gomap \<Rightarrow> string set" where
  "grayNodes cs = {x. nodeColor cs x = Gray}"

definition sameSearch :: "(dfsState \<times> (string \<times> string) option) option \<Rightarrow> (cycleState \<times> string list option) option \<Rightarrow> bool" where
  "sameSearch d c \<longleftrightarrow> (case d of
     None \<Rightarrow> c = None
   | Some (st, None) \<Rightarrow> (\<exists>path. c = Some ((df_color st, path), None))
   | Some (st, Some _) \<Rightarrow> (\<exists>s cy. c = Some (s, Some cy)))"

lemma nodeColor_colorOf: "nodeColor (df_color st) v = colorOf st v"
  by (simp add: nodeColor_def colorOf_def)

lemma nodeColor_set [simp]: "nodeColor (mapSet cs u c) x = (if x = u then c else nodeColor cs x)"
  by (simp add: nodeColor_def)

lemma df_color_set [simp]: "df_color (setColor u c st) = mapSet (df_color st) u c" "df_color (setParent v u st) = df_color st"
  by (simp_all add: setColor_def setParent_def)

lemma cycleLoop_same:
  assumes "\<And>v st path. sameSearch (visit v st) (visit' v (df_color st, path))"
  shows "sameSearch (dfsLoop visit u vs st) (cycleLoop visit' u vs (df_color st, path))"
proof (induction vs arbitrary: st path)
  case Nil
  then show ?case by (simp add: sameSearch_def)
next
  case (Cons v vs)
  show ?case
  proof (cases "colorOf st v")
    case White
    have same: "sameSearch (visit v (setParent v u st)) (visit' v (df_color st, path))"
      using assms [of v "setParent v u st" path] by simp
    show ?thesis
    proof (cases "visit v (setParent v u st)")
      case None
      with same White show ?thesis by (simp add: sameSearch_def nodeColor_colorOf)
    next
      case (Some r)
      obtain st' b where r: "r = (st', b)" by (cases r)
      show ?thesis
      proof (cases b)
        case None
        with same Some r obtain path' where "visit' v (df_color st, path) = Some ((df_color st', path'), None)"
          by (auto simp: sameSearch_def)
        with Some r None White Cons.IH [of st' path'] show ?thesis by (simp add: nodeColor_colorOf)
      next
        case b: (Some p)
        with same Some r obtain s cy where "visit' v (df_color st, path) = Some (s, Some cy)"
          by (auto simp: sameSearch_def)
        with Some r b White show ?thesis by (simp add: sameSearch_def nodeColor_colorOf)
      qed
    qed
  qed (use Cons in \<open>simp_all add: nodeColor_colorOf, simp add: sameSearch_def\<close>)
qed

lemma cycleFrom_same: "sameSearch (dfs n succ u st) (cycleFrom n succ u (df_color st, path))"
proof (induction n arbitrary: u st path)
  case 0
  then show ?case by (simp add: sameSearch_def)
next
  case (Suc n)
  have "sameSearch (dfsLoop (dfs n succ) u (mapGetOr [] succ u) (setColor u Gray st))
          (cycleLoop (cycleFrom n succ) u (mapGetOr [] succ u) (df_color (setColor u Gray st), path @ [u]))"
    by (rule cycleLoop_same) (rule Suc.IH)
  then show ?case by simp
qed

text \<open>The path is the gray nodes, linked by edges; a gray successor closes a cycle with its tail.\<close>

definition pathOK :: "(string, string list) gomap \<Rightarrow> cycleState \<Rightarrow> bool" where
  "pathOK succ s \<longleftrightarrow> distinct (snd s) \<and> successively (\<lambda>x y. y \<in> succs succ x) (snd s) \<and> grayNodes (fst s) = set (snd s)"

definition searchedPath :: "(string, string list) gomap \<Rightarrow> string list \<Rightarrow> cycleState \<times> string list option \<Rightarrow> bool" where
  "searchedPath succ path r \<longleftrightarrow> (case r of (s, None) \<Rightarrow> snd s = path \<and> pathOK succ s | (s, Some c) \<Rightarrow> isCycle succ c)"

lemma closing_cycle:
  assumes "pathOK succ (cs, path @ [u])" "nodeColor cs v = Gray" "v \<in> succs succ u"
  shows "isCycle succ (dropWhile (\<lambda>x. x \<noteq> v) (path @ [u]))"
proof -
  let ?p = "path @ [u]"
  have "v \<in> set ?p" using assms(1,2) by (auto simp: pathOK_def grayNodes_def)
  then have ne: "dropWhile (\<lambda>x. x \<noteq> v) ?p \<noteq> []" by (metis (mono_tags, lifting) dropWhile_eq_Nil_conv)
  have split: "?p = takeWhile (\<lambda>x. x \<noteq> v) ?p @ dropWhile (\<lambda>x. x \<noteq> v) ?p" by simp
  have "successively (\<lambda>x y. y \<in> succs succ x) (dropWhile (\<lambda>x. x \<noteq> v) ?p)"
    using assms(1) split unfolding pathOK_def by (metis snd_conv successively_append_iff)
  moreover have "hd (dropWhile (\<lambda>x. x \<noteq> v) ?p) = v" using hd_dropWhile [OF ne] by simp
  moreover have "last (dropWhile (\<lambda>x. x \<noteq> v) ?p) = u" using split ne by (metis last_appendR last_snoc)
  moreover have "distinct (dropWhile (\<lambda>x. x \<noteq> v) ?p)" using assms(1) by (auto simp: pathOK_def simp del: dropWhile_append)
  ultimately show ?thesis using assms(3) ne by (simp add: isCycle_def)
qed

lemma cycleLoop_path:
  assumes visit: "\<And>v s r. nodeColor (fst s) v = White \<Longrightarrow> pathOK succ s \<Longrightarrow> snd s = path @ [u] \<Longrightarrow> v \<in> succs succ u \<Longrightarrow>
      visit v s = Some r \<Longrightarrow> searchedPath succ (path @ [u]) r"
    and "pathOK succ (cs, path @ [u])" "set vs \<subseteq> succs succ u" "cycleLoop visit u vs (cs, path @ [u]) = Some r"
  shows "searchedPath succ path r"
  using assms(2-)
proof (induction vs arbitrary: cs)
  case Nil
  then have "r = ((mapSet cs u Black, path), None)" by simp
  moreover have "grayNodes (mapSet cs u Black) = set path"
    using Nil(1) by (auto simp: pathOK_def grayNodes_def)
  ultimately show ?case using Nil(1) by (simp add: searchedPath_def pathOK_def successively_append_iff)
next
  case (Cons v vs)
  have v: "v \<in> succs succ u" using Cons.prems(2) by simp
  show ?case
  proof (cases "nodeColor cs v")
    case White
    with Cons.prems(3) obtain s b where s: "visit v (cs, path @ [u]) = Some (s, b)" by (auto split: option.splits)
    have V: "searchedPath succ (path @ [u]) (s, b)"
      by (rule visit [OF _ Cons.prems(1) _ v s]) (simp_all add: White)
    show ?thesis
    proof (cases b)
      case None
      with V have p: "s = (fst s, path @ [u])" "pathOK succ (fst s, path @ [u])"
        by (auto simp: searchedPath_def prod_eq_iff) (metis prod.collapse)
      have "cycleLoop visit u vs (fst s, path @ [u]) = Some r"
        using Cons.prems(3) White s None p(1) by simp
      from Cons.IH [OF p(2) _ this] Cons.prems(2) show ?thesis by simp
    qed (use Cons.prems(3) White s V in \<open>auto simp: searchedPath_def\<close>)
  next
    case Gray
    with closing_cycle [OF Cons.prems(1) Gray v] Cons.prems(3) show ?thesis by (auto simp: searchedPath_def simp del: dropWhile_append)
  next
    case Black
    with Cons show ?thesis by simp
  qed
qed

lemma cycleFrom_path:
  "nodeColor (fst s) u = White \<Longrightarrow> pathOK succ s \<Longrightarrow> (snd s \<noteq> [] \<longrightarrow> u \<in> succs succ (last (snd s))) \<Longrightarrow> cycleFrom n succ u s = Some r
   \<Longrightarrow> searchedPath succ (snd s) r"
proof (induction n arbitrary: u s r)
  case (Suc n)
  have "u \<notin> grayNodes (fst s)" using Suc.prems(1) by (simp add: grayNodes_def)
  then have "u \<notin> set (snd s)" using Suc.prems(2) by (simp add: pathOK_def)
  then have p: "pathOK succ (mapSet (fst s) u Gray, snd s @ [u])"
    using Suc.prems(2,3) by (auto simp: pathOK_def grayNodes_def successively_append_iff)
  show ?case
  proof (rule cycleLoop_path [OF _ p])
    show "cycleLoop (cycleFrom n succ) u (mapGetOr [] succ u) (mapSet (fst s) u Gray, snd s @ [u]) = Some r"
      using Suc.prems(4) by simp
    show "searchedPath succ (snd s @ [u]) r'" if "nodeColor (fst s') v = White" "pathOK succ s'" "snd s' = snd s @ [u]"
      "v \<in> succs succ u" "cycleFrom n succ v s' = Some r'" for v s' r'
      using Suc.IH [OF that(1,2) _ that(5)] that(3,4) by simp
  qed (simp add: succs_def)
qed simp

text \<open>From a node that was coloured black in a calm state no cycle is reachable.\<close>

lemma calm_no_cycle:
  assumes "calm succ st" "u \<in> colored st Black" "(u, x) \<in> (edgesOf succ)\<^sup>*"
  shows "(x, x) \<notin> (edgesOf succ)\<^sup>+"
proof
  assume cyc: "(x, x) \<in> (edgesOf succ)\<^sup>+"
  obtain f :: "string \<Rightarrow> nat" where f: "\<forall>x\<in>colored st Black. \<forall>y\<in>succs succ x. y \<in> colored st Black \<and> f y < f x"
    using assms(1) unfolding calm_def by blast
  have down: "y \<in> colored st Black \<and> f y < f z" if "(z, y) \<in> (edgesOf succ)\<^sup>+" "z \<in> colored st Black" for y z
    using that by (induction rule: trancl_induct) (use f in \<open>auto simp: edgesOf_def intro: less_trans\<close>)
  have "x \<in> colored st Black" using assms(3,2) down by (metis rtranclD)
  with down [OF cyc] show False by simp
qed

lemma isCycle_trancl: "isCycle succ c \<Longrightarrow> (hd c, hd c) \<in> (edgesOf succ)\<^sup>+"
proof -
  assume c: "isCycle succ c"
  have walk: "(hd c, last c) \<in> (edgesOf succ)\<^sup>*" if "successively (\<lambda>x y. y \<in> succs succ x) c" "c \<noteq> []" for c
    using that
  proof (induction c rule: induct_list012)
    case (3 x y zs)
    then have "(x, y) \<in> edgesOf succ" "(y, last (y # zs)) \<in> (edgesOf succ)\<^sup>*" by (auto simp: edgesOf_def)
    then show ?case by (simp add: converse_rtrancl_into_rtrancl)
  qed simp_all
  from c have "(hd c, last c) \<in> (edgesOf succ)\<^sup>*" "(last c, hd c) \<in> edgesOf succ"
    using walk [of c] by (auto simp: isCycle_def edgesOf_def)
  then show ?thesis by (meson rtrancl_into_trancl1)
qed

lemma automationHasCycle_view:
  obtains r where "automationHasCycle a = Some r"
    and "case r of Some c \<Rightarrow> isCycle (automationSuccessors a) c
       | None \<Rightarrow> \<forall>x. (au_entryMemberID a, x) \<in> (edgesOf (automationSuccessors a))\<^sup>* \<longrightarrow> (x, x) \<notin> (edgesOf (automationSuccessors a))\<^sup>+"
proof -
  let ?N = "set (graphNodes a)" and ?adj = "automationSuccessors a" and ?st = "\<lparr>df_color = [], df_parent = []\<rparr> :: dfsState"
    and ?u = "au_entryMemberID a" and ?n = "Suc (length (graphNodes a))"
  have nodes: "succs ?adj x \<subseteq> ?N" for x
    using mapGetOr_targets [of ?adj x] by (auto simp: succs_def succTargets_def graphNodes_def)
  have u: "?u \<in> ?N" by (simp add: graphNodes_def)
  have white: "colorOf ?st x = White" for x by (simp add: colorOf_def mapGetOr_def)
  have calm0: "calm ?adj ?st" "on_stack ?adj ?N ?st []" by (simp_all add: calm_def on_stack_def colored_def white)
  have "whiteCount ?N ?st \<le> ?n"
    using card_length [of "graphNodes a"] by (simp add: whiteCount_def colored_def white)
  from dfs_total [OF nodes _ u white this] obtain st' c where d: "dfs ?n ?adj ?u ?st = Some (st', c)" by auto
  have V: "visited ?adj ?N ?st [] ?u (st', c)"
    using dfs_visited [OF nodes u white calm0 _ d] by simp
  have same: "sameSearch (Some (st', c)) (cycleFrom ?n ?adj ?u ([], []))"
    using cycleFrom_same [of ?n ?adj ?u ?st "[]"] d by simp
  then obtain s r where r: "cycleFrom ?n ?adj ?u ([], []) = Some (s, r)" "r = None \<longrightarrow> c = None"
    by (auto simp: sameSearch_def split: option.splits)
  have "searchedPath ?adj [] (s, r)"
    using cycleFrom_path [OF _ _ _ r(1)] by (simp add: nodeColor_def mapGetOr_def pathOK_def grayNodes_def)
  moreover have "\<forall>x. (?u, x) \<in> (edgesOf ?adj)\<^sup>* \<longrightarrow> (x, x) \<notin> (edgesOf ?adj)\<^sup>+" if "r = None"
    using V r(2) that calm_no_cycle [of ?adj st' ?u] by (simp add: visited_def)
  ultimately show ?thesis using that [of r] r(1) by (cases r) (auto simp: automationHasCycle_def searchedPath_def)
qed

section \<open>The reachability check\<close>

lemma pushNew_sets:
  "pushNew vs (reached, stack) = (r', s') \<Longrightarrow>
   set r' = set reached \<union> set vs \<and> set s' \<union> set reached = set r' \<union> set stack \<and> set stack \<subseteq> set s' \<and> set s' \<subseteq> set stack \<union> set vs"
proof (induction vs "(reached, stack)" arbitrary: reached stack rule: pushNew.induct)
  case (2 v vs reached stack)
  then show ?case by (cases "v \<in> set reached") auto
qed auto

lemma reachLoop_sets:
  assumes "set stack \<subseteq> set reached" "\<forall>x\<in>set reached - set stack. succs succ x \<subseteq> set reached"
  shows "set reached \<subseteq> set (reachLoop succ reached stack) \<and>
    (\<forall>x\<in>set (reachLoop succ reached stack). succs succ x \<subseteq> set (reachLoop succ reached stack)) \<and>
    set (reachLoop succ reached stack) \<subseteq> (edgesOf succ)\<^sup>* `` set reached"
  using assms
proof (induction succ reached stack rule: reachLoop.induct)
  case (2 succ reached x stack)
  obtain r' s' where p: "pushNew (mapGetOr [] succ x) (reached, stack) = (r', s')" by (metis surj_pair)
  note sets = pushNew_sets [OF p]
  have new: "set r' = set reached \<union> succs succ x" using sets by (simp add: succs_def)
  have "set s' \<subseteq> set r'" using sets 2(2) by auto
  moreover have "succs succ y \<subseteq> set r'" if "y \<in> set r' - set s'" for y
  proof -
    have "y \<in> set reached" "y \<notin> set stack" using that sets by blast+
    then show ?thesis using 2(3) new by (cases "y = x") auto
  qed
  ultimately have IH: "set r' \<subseteq> set (reachLoop succ r' s')"
    "\<forall>y\<in>set (reachLoop succ r' s'). succs succ y \<subseteq> set (reachLoop succ r' s')"
    "set (reachLoop succ r' s') \<subseteq> (edgesOf succ)\<^sup>* `` set r'"
    using 2(1) [OF p [symmetric]] by simp_all
  have "(edgesOf succ)\<^sup>* `` set r' \<subseteq> (edgesOf succ)\<^sup>* `` set reached"
  proof
    fix z assume "z \<in> (edgesOf succ)\<^sup>* `` set r'"
    then obtain y where y: "y \<in> set r'" "(y, z) \<in> (edgesOf succ)\<^sup>*" by auto
    show "z \<in> (edgesOf succ)\<^sup>* `` set reached"
    proof (cases "y \<in> set reached")
      case False
      then have "(x, y) \<in> edgesOf succ" using y(1) new by (auto simp: edgesOf_def)
      with y(2) have "(x, z) \<in> (edgesOf succ)\<^sup>*" by (simp add: converse_rtrancl_into_rtrancl)
      moreover have "x \<in> set reached" using 2(2) by simp
      ultimately show ?thesis by auto
    qed (use y in auto)
  qed
  with IH p new show ?case by auto
qed auto

lemma reachLoop_exact: "set (reachLoop succ [e] [e]) = {x. (e, x) \<in> (edgesOf succ)\<^sup>*}"
proof -
  let ?R = "set (reachLoop succ [e] [e])"
  have R: "e \<in> ?R" "\<forall>x\<in>?R. succs succ x \<subseteq> ?R" "?R \<subseteq> (edgesOf succ)\<^sup>* `` {e}"
    using reachLoop_sets [of "[e]" "[e]" succ] by auto
  have "x \<in> ?R" if "(e, x) \<in> (edgesOf succ)\<^sup>*" for x
    using that by (induction rule: rtrancl_induct) (use R(1,2) in \<open>auto simp: edgesOf_def simp del: reachLoop.simps\<close>)
  with R(3) show ?thesis by auto
qed

section \<open>The edges of the graph\<close>

abbreviation succRel :: "Automation \<Rightarrow> (string \<times> string) set" where
  "succRel a \<equiv> edgesOf (automationSuccessors a)"

lemma fold_mapSet_other: "k \<notin> g ` set ms \<Longrightarrow> mapGet (fold (\<lambda>m out. mapSet out (g m) (h m)) ms out) k = mapGet out k"
  by (induction ms arbitrary: out) auto

lemma fold_mapSet_mem:
  "distinct (map g ms) \<Longrightarrow> m \<in> set ms \<Longrightarrow> mapGet (fold (\<lambda>m out. mapSet out (g m) (h m)) ms out) (g m) = Some (h m)"
proof (induction ms arbitrary: out)
  case (Cons x ms)
  show ?case
  proof (cases "m = x")
    case True
    then show ?thesis using Cons.prems(1) fold_mapSet_other [of "g x" g ms h "mapSet out (g x) (h x)"] by simp
  qed (use Cons in auto)
qed simp

lemma succRel_member:
  assumes "distinct (map mb_id (au_members a))" "m \<in> set (au_members a)"
  shows "(mb_id m, y) \<in> succRel a \<longleftrightarrow> y \<in> set (memberNext (pairedJoins (au_members a)) m)"
proof -
  have "mapGet (automationSuccessors a) (mb_id m) = Some (memberNext (pairedJoins (au_members a)) m)"
    unfolding automationSuccessors_def Let_def using assms by (rule fold_mapSet_mem)
  then show ?thesis by (simp add: edgesOf_def succs_def mapGetOr_def)
qed

lemma fold_claim: "mapGet (fold (\<lambda>b pj'. mapSet pj' b v) bs pj) x = (if x \<in> set bs then Some v else mapGet pj x)"
  by (induction bs arbitrary: pj) auto

lemma pairedJoins_mem:
  assumes "\<And>j'. j' \<in> set ms \<Longrightarrow> memberKind j' = MemberKindJoin \<Longrightarrow> b \<in> set (mb_joinMembers j') \<Longrightarrow> mb_id j' = i"
    and "(\<exists>j\<in>set ms. memberKind j = MemberKindJoin \<and> b \<in> set (mb_joinMembers j)) \<or> mapGet pj b = Some i"
  shows "mapGet (fold (\<lambda>m pj. if memberKind m = MemberKindJoin then fold (\<lambda>b pj'. mapSet pj' b (mb_id m)) (mb_joinMembers m) pj else pj) ms pj) b
      = Some i"
  using assms
proof (induction ms arbitrary: pj)
  case (Cons m ms)
  let ?pj = "if memberKind m = MemberKindJoin then fold (\<lambda>b pj'. mapSet pj' b (mb_id m)) (mb_joinMembers m) pj else pj"
  have "(\<exists>j\<in>set ms. memberKind j = MemberKindJoin \<and> b \<in> set (mb_joinMembers j)) \<or> mapGet ?pj b = Some i"
    using Cons.prems by (auto simp: fold_claim)
  from Cons.IH [OF Cons.prems(1) this] show ?case by simp
qed simp

end
