(* ===== verification/Automation_Sound.thy ===== *)
theory Automation_Sound
  imports Automation_Reach
begin

text \<open>
  What a validated Automation promises the advance step: \<open>sound\<close>. Every fork has one join over the same branches, every branch
  belongs to one join and has no edges of its own, an outcome edge ends at a member that is no join, and the graph has
  no cycle. One thing the step needs is not checked by the validation, that no outcome edge names a fork branch; it
  is the predicate \<open>edgesAvoidBranches\<close>.
\<close>

definition branchIDs :: "Automation \<Rightarrow> string set" where
  "branchIDs a = (\<Union>j \<in> {j \<in> set (au_members a). memberKind j = MemberKindJoin}. set (mb_joinMembers j))"

definition edgesAvoidBranches :: "Automation \<Rightarrow> bool" where
  "edgesAvoidBranches a \<longleftrightarrow> (\<forall>m\<in>set (au_members a). \<forall>t\<in>set (outcomeEdges m). t \<notin> branchIDs a)"

definition entrants :: "Automation \<Rightarrow> string set" where
  "entrants a = mb_id ` {m \<in> set (au_members a). memberKind m \<noteq> MemberKindJoin} - branchIDs a"

definition branchMember :: "Automation \<Rightarrow> string \<Rightarrow> bool" where
  "branchMember a b \<longleftrightarrow>
     (\<exists>t. memberByID a b = Some t \<and> (memberKind t = MemberKindPRD \<or> memberKind t = MemberKindAutomation) \<and> outcomeEdges t = [])"

definition sound :: "Automation \<Rightarrow> bool" where
  "sound a \<longleftrightarrow>
     distinct (map mb_id (au_members a)) \<and> [] \<notin> mb_id ` set (au_members a) \<and> acyclic (succRel a) \<and>
     (\<forall>m\<in>set (au_members a). memberKind m \<in> {MemberKindPRD, MemberKindAutomation, MemberKindFork, MemberKindJoin}) \<and>
     (\<forall>m\<in>set (au_members a). set (outcomeEdges m) \<subseteq> entrants a) \<and>
     (\<forall>f\<in>set (au_members a). memberKind f = MemberKindFork \<longrightarrow>
        (\<exists>j\<in>set (au_members a). memberKind j = MemberKindJoin \<and> joinFor a f = Some j \<and> set (mb_joinMembers j) = set (mb_forkMembers f)
           \<and> distinct (mb_forkMembers f))) \<and>
     (\<forall>j\<in>set (au_members a). memberKind j = MemberKindJoin \<longrightarrow> distinct (mb_joinMembers j) \<and> 2 \<le> length (mb_joinMembers j) \<and>
        (\<forall>b\<in>set (mb_joinMembers j). joinOf a b = Some j \<and> branchMember a b))"

section \<open>What each check leaves\<close>

lemma trimSpace_Nil [simp]: "trimSpace [] = []"
  by (simp add: trimSpace_def trimFront.simps [of _ "[]"] spaceLen_def)

lemma validateMembers_None:
  "validateMembers a ids prds ms = None \<Longrightarrow>
   distinct (map mb_id ms) \<and> mb_id ` set ms \<inter> set ids = {} \<and> [] \<notin> mb_id ` set ms \<and> (\<forall>m\<in>set ms. validateMemberKind a m = None)"
proof (induction ms arbitrary: ids prds)
  case (Cons m ms)
  from Cons.prems have m: "trimSpace (mb_id m) \<noteq> []" "validateMemberKind a m = None" "mb_id m \<notin> set ids"
    "validateMembers a (mb_id m # ids) (if memberKind m = MemberKindPRD then mb_prdID m # prds else prds) ms = None"
    by (auto split: if_splits option.splits)
  from m(1) have "mb_id m \<noteq> []" by auto
  with Cons.IH [OF m(4)] m show ?case by auto
qed simp

lemma validateMemberKind_kind:
  "validateMemberKind a m = None \<Longrightarrow> memberKind m \<in> {MemberKindPRD, MemberKindAutomation, MemberKindFork, MemberKindJoin}"
  by (auto simp: validateMemberKind_def memberKind_def Let_def split: if_splits)

lemma memberByID_SomeD: "memberByID a i = Some m \<Longrightarrow> m \<in> set (au_members a) \<and> mb_id m = i"
  by (auto simp: memberByID_def find_Some_iff)

lemma memberByID_mem: "distinct (map mb_id (au_members a)) \<Longrightarrow> m \<in> set (au_members a) \<Longrightarrow> memberByID a (mb_id m) = Some m"
proof -
  assume d: "distinct (map mb_id (au_members a))" and m: "m \<in> set (au_members a)"
  obtain m' where m': "memberByID a (mb_id m) = Some m'"
    using m by (cases "memberByID a (mb_id m)") (auto simp: memberByID_def find_None_iff)
  from memberByID_SomeD [OF this] d m have "m' = m" by (auto simp: distinct_map inj_on_def)
  with m' show ?thesis by simp
qed

lemma validateEdges_None:
  "validateEdges a = None \<Longrightarrow> m \<in> set (au_members a) \<Longrightarrow> t \<in> set (outcomeEdges m) \<Longrightarrow>
   \<exists>n. memberByID a t = Some n \<and> memberKind n \<noteq> MemberKindJoin"
proof -
  assume "validateEdges a = None" "m \<in> set (au_members a)" "t \<in> set (outcomeEdges m)"
  then have "validateEdge a m t = None" by (simp add: validateEdges_def)
  then show ?thesis by (auto simp: validateEdge_def split: if_splits option.splits)
qed

lemma checkBranchSet_Inr:
  "checkBranchSet a m seen bs claims = Inr claims' \<Longrightarrow>
   distinct bs \<and> set bs \<inter> set seen = {} \<and> (\<forall>b\<in>set bs. branchMember a b \<and> mapGet claims b = None) \<and>
   (\<forall>x. mapGet claims' x = (if x \<in> set bs then Some (mb_id m) else mapGet claims x))"
proof (induction bs arbitrary: seen claims)
  case (Cons b bs)
  from Cons.prems obtain t where b: "b \<notin> set seen" "memberByID a b = Some t"
      "memberKind t = MemberKindPRD \<or> memberKind t = MemberKindAutomation"
      "outcomeEdges t = []" "mapGet claims b = None"
    and rest: "checkBranchSet a m (b # seen) bs (mapSet claims b (mb_id m)) = Inr claims'"
    by (auto simp: outcomeEdges_def split: if_splits option.splits)
  from Cons.IH [OF rest] b show ?case by (auto simp: branchMember_def split: if_splits)
qed simp

lemma validateBranches_None:
  "validateBranches a fc jc ms = None \<Longrightarrow>
   (\<forall>f\<in>set ms. memberKind f = MemberKindFork \<longrightarrow> distinct (mb_forkMembers f)) \<and>
   (\<forall>j\<in>set ms. memberKind j = MemberKindJoin \<longrightarrow> distinct (mb_joinMembers j) \<and> 2 \<le> length (mb_joinMembers j) \<and>
      (\<forall>b\<in>set (mb_joinMembers j). branchMember a b \<and> mapGet jc b = None)) \<and>
   (\<forall>j\<in>set ms. \<forall>j'\<in>set ms. memberKind j = MemberKindJoin \<longrightarrow> memberKind j' = MemberKindJoin \<longrightarrow>
      set (mb_joinMembers j) \<inter> set (mb_joinMembers j') \<noteq> {} \<longrightarrow> j = j')"
proof (induction a fc jc ms rule: validateBranches.induct)
  case (2 a fc jc m ms)
  show ?case
  proof (cases "memberKind m = MemberKindFork")
    case True
    with 2(4) obtain claims where c: "checkBranchSet a m [] (mb_forkMembers m) fc = Inr claims" "validateBranches a claims jc ms = None"
      by (auto split: if_splits sum.splits)
    from 2(1) [OF True _ _ c(1,2)] 2(4) True checkBranchSet_Inr [OF c(1)] show ?thesis
      by (auto split: if_splits)
  next
    case nf: False
    show ?thesis
    proof (cases "memberKind m = MemberKindJoin")
      case True
      with nf 2(4) obtain claims where c: "checkBranchSet a m [] (mb_joinMembers m) jc = Inr claims" "validateBranches a fc claims ms = None"
          "2 \<le> length (mb_joinMembers m)"
        by (auto split: if_splits sum.splits)
      note IH = 2(2) [OF nf True _ _ c(1,2)]
      note m = checkBranchSet_Inr [OF c(1)]
      from IH 2(4) nf True show ?thesis
        using m c(3) by (auto split: if_splits)
    next
      case False
      with nf 2(3) [OF nf False] 2(4) show ?thesis by auto
    qed
  qed
qed simp

lemma sameMemberSet_set:
  assumes "sameMemberSet x y" "distinct x"
  shows "set x = set y"
proof -
  have sub: "set x \<subseteq> set y" using assms(1) by (auto simp: sameMemberSet_def list_all_iff)
  have "card (set y) \<le> card (set x)"
    using assms card_length [of y] by (simp add: sameMemberSet_def distinct_card)
  with sub show ?thesis by (simp add: card_seteq)
qed

lemma find_filter: "length (filter P xs) = 1 \<Longrightarrow> \<exists>x. find P xs = Some x \<and> P x \<and> x \<in> set xs"
  by (induction xs) (auto split: if_splits)

lemma succRel_key: "(x, y) \<in> succRel a \<Longrightarrow> x \<in> mb_id ` set (au_members a)"
proof (rule ccontr)
  assume xy: "(x, y) \<in> succRel a" and "x \<notin> mb_id ` set (au_members a)"
  from fold_mapSet_other [OF this(2), of "memberNext (pairedJoins (au_members a))" "[]"]
  have "mapGet (automationSuccessors a) x = None" by (simp add: automationSuccessors_def)
  with xy show False by (simp add: edgesOf_def succs_def mapGetOr_def)
qed

section \<open>Validation gives soundness\<close>

lemma sort_Nil_iff: "sort xs = [] \<longleftrightarrow> xs = []"
  by (metis length_0_conv length_sort)

lemma validateShape_acyclic:
  assumes "validateShape a = None" "validateEntry a = None" "au_status a \<noteq> AutomationDraft"
  shows "acyclic (succRel a)"
proof (rule acyclicI, intro allI notI)
  fix x assume cyc: "(x, x) \<in> (succRel a)\<^sup>+"
  then have x: "x \<in> mb_id ` set (au_members a)" using succRel_key by (meson tranclD)
  then have ne: "au_members a \<noteq> []" by auto
  obtain r where r: "automationHasCycle a = Some r"
    "case r of Some c \<Rightarrow> isCycle (automationSuccessors a) c
       | None \<Rightarrow> \<forall>x. (au_entryMemberID a, x) \<in> (succRel a)\<^sup>* \<longrightarrow> (x, x) \<notin> (succRel a)\<^sup>+"
    by (rule automationHasCycle_view)
  have none: "r = None" "automationUnreachable a = []"
    using assms(1,3) ne r(1) by (auto simp: validateShape_def Let_def split: option.splits if_splits)
  have "au_entryMemberID a \<noteq> []" using assms(2) ne by (auto simp: validateEntry_def split: if_splits)
  then have "filter (\<lambda>i. (au_entryMemberID a, i) \<notin> (succRel a)\<^sup>*) (map mb_id (au_members a)) = []"
    using none(2) by (simp add: automationUnreachable_def Let_def reachLoop_exact sort_Nil_iff del: reachLoop.simps)
  then have "(au_entryMemberID a, x) \<in> (succRel a)\<^sup>*" using x by (auto simp: filter_empty_conv)
  with r(2) none(1) cyc show False by simp
qed

lemma pairing_facts:
  assumes "validateForkJoinPairing a = None"
  shows "\<And>f. f \<in> set (au_members a) \<Longrightarrow> memberKind f = MemberKindFork \<Longrightarrow>
      \<exists>j\<in>set (au_members a). memberKind j = MemberKindJoin \<and> joinFor a f = Some j \<and> set (mb_joinMembers j) = set (mb_forkMembers f)
        \<and> distinct (mb_forkMembers f)"
    and "\<And>j. j \<in> set (au_members a) \<Longrightarrow> memberKind j = MemberKindJoin \<Longrightarrow> distinct (mb_joinMembers j) \<and> 2 \<le> length (mb_joinMembers j)
      \<and> (\<forall>b\<in>set (mb_joinMembers j). joinOf a b = Some j \<and> branchMember a b)"
proof -
  have B: "validateBranches a [] [] (au_members a) = None" using assms by (simp add: validateForkJoinPairing_def)
  note B = validateBranches_None [OF B]
  show "\<exists>j\<in>set (au_members a). memberKind j = MemberKindJoin \<and> joinFor a f = Some j \<and> set (mb_joinMembers j) = set (mb_forkMembers f)
        \<and> distinct (mb_forkMembers f)" if f: "f \<in> set (au_members a)" "memberKind f = MemberKindFork" for f
  proof -
    have "length (joinsOf a f) = 1" using assms f by (auto simp: validateForkJoinPairing_def split: if_splits)
    then obtain j where j: "joinFor a f = Some j" "memberKind j = MemberKindJoin" "sameMemberSet (mb_joinMembers j) (mb_forkMembers f)"
      "j \<in> set (au_members a)"
      using find_filter unfolding joinsOf_def joinFor_def by blast
    with B f sameMemberSet_set show ?thesis by blast
  qed
  show "distinct (mb_joinMembers j) \<and> 2 \<le> length (mb_joinMembers j) \<and> (\<forall>b\<in>set (mb_joinMembers j). joinOf a b = Some j \<and> branchMember a b)"
    if j: "j \<in> set (au_members a)" "memberKind j = MemberKindJoin" for j
  proof -
    have "joinOf a b = Some j" if b: "b \<in> set (mb_joinMembers j)" for b
    proof (cases "joinOf a b")
      case None
      with j b show ?thesis by (auto simp: joinOf_def find_None_iff)
    next
      case (Some j')
      then have "j' \<in> set (au_members a)" "memberKind j' = MemberKindJoin" "b \<in> set (mb_joinMembers j')"
        by (auto simp: joinOf_def find_Some_iff)
      with B j b have "j' = j" by blast
      with Some show ?thesis by simp
    qed
    with B j show ?thesis by blast
  qed
qed

theorem validated_sound:
  assumes "validateAutomation settings a = None" "au_status a \<noteq> AutomationDraft" "edgesAvoidBranches a"
  shows "sound a"
proof (cases "au_members a = []")
  case True
  moreover have "acyclic (succRel a)"
  proof -
    have "succRel a = {}" using succRel_key [of _ _ a] True by auto
    then show ?thesis by (simp add: acyclic_def)
  qed
  ultimately show ?thesis by (simp add: sound_def)
next
  case False
  have v: "validateMembers a [] [] (au_members a) = None" "validateEntry a = None" "validateEdges a = None" "validateShape a = None"
    using assms(1) by (auto simp: validateAutomation_def split: if_splits AutomationStatus.splits)
  then have p: "validateForkJoinPairing a = None" using False by (simp add: validateShape_def)
  note M = validateMembers_None [OF v(1)]
  have "set (outcomeEdges m) \<subseteq> entrants a" if "m \<in> set (au_members a)" for m
    using validateEdges_None [OF v(3) that] assms(3) that memberByID_SomeD by (fastforce simp: entrants_def edgesAvoidBranches_def)
  moreover have "acyclic (succRel a)" using validateShape_acyclic v assms(2) by blast
  moreover have "\<forall>m\<in>set (au_members a). memberKind m \<in> {MemberKindPRD, MemberKindAutomation, MemberKindFork, MemberKindJoin}"
    using M validateMemberKind_kind by blast
  moreover have "distinct (map mb_id (au_members a))" "[] \<notin> mb_id ` set (au_members a)" using M by simp_all
  ultimately show ?thesis
    unfolding sound_def by (intro conjI ballI impI pairing_facts [OF p]) blast+
qed

end
