(* ===== verification/Automation_Store_Inv.thy ===== *)
theory Automation_Store_Inv
  imports Automation_Nesting Automation_Sound
begin

text \<open>
  The invariant of the Automation store: Automations are filed under their ids and well formed, the index says exactly which
  Automation owns a PRD, a child has at most one parent that is not over, and the nesting has no cycle. Each operation keeps
  it, whatever becomes of its write to the file.
\<close>

section \<open>The index\<close>

lemma mapGet_claimAll: "mapGet (claimAll a ow) p = (if p \<in> set (claims a) then Some (au_id a) else mapGet ow p)"
proof -
  have "mapGet (fold (\<lambda>p ow. mapSet ow p (au_id a)) ps ow) p = (if p \<in> set ps then Some (au_id a) else mapGet ow p)" for ps
    by (induction ps arbitrary: ow) auto
  then show ?thesis by (simp add: claimAll_def)
qed

lemma fold_claims_None:
  "mapGet (fold (\<lambda>e. claimAll (snd e)) m ow) p = None \<longleftrightarrow> mapGet ow p = None \<and> (\<forall>e\<in>set m. p \<notin> set (claims (snd e)))"
  by (induction m arbitrary: ow) (auto simp: mapGet_claimAll)

lemma fold_claims_Some:
  "mapGet (fold (\<lambda>e. claimAll (snd e)) m ow) p = Some i \<Longrightarrow> mapGet ow p = Some i \<or> (\<exists>e\<in>set m. au_id (snd e) = i \<and> p \<in> set (claims (snd e)))"
proof (induction m arbitrary: ow)
  case (Cons e m)
  have "mapGet (fold (\<lambda>e. claimAll (snd e)) m (claimAll (snd e) ow)) p = Some i" using Cons.prems by simp
  from Cons.IH [OF this] show ?case by (auto simp: mapGet_claimAll split: if_splits)
qed simp

definition exactOwners :: "(string \<Rightarrow> Automation option) \<Rightarrow> (string, string) gomap \<Rightarrow> bool" where
  "exactOwners lookup ow \<longleftrightarrow> (\<forall>p i. mapGet ow p = Some i \<longleftrightarrow> (\<exists>a. lookup i = Some a \<and> p \<in> set (claims a)))"

definition soleClaims :: "(string \<Rightarrow> Automation option) \<Rightarrow> bool" where
  "soleClaims lookup \<longleftrightarrow> (\<forall>i j a b p. lookup i = Some a \<longrightarrow> lookup j = Some b \<longrightarrow> p \<in> set (claims a) \<longrightarrow> p \<in> set (claims b) \<longrightarrow> i = j)"

definition soleParents :: "(string \<Rightarrow> Automation option) \<Rightarrow> bool" where
  "soleParents lookup \<longleftrightarrow> (\<forall>i j a b c. lookup i = Some a \<longrightarrow> lookup j = Some b \<longrightarrow> \<not> terminal a \<longrightarrow> \<not> terminal b \<longrightarrow>
     c \<in> set (nestedIDs a) \<longrightarrow> c \<in> set (nestedIDs b) \<longrightarrow> i = j)"

lemma exactOwners_sole: "exactOwners lookup ow \<Longrightarrow> soleClaims lookup"
  by (auto simp: exactOwners_def soleClaims_def) (metis option.inject)

lemma asGet_mem: "wf_map (as_automations s) \<Longrightarrow> (i, a) \<in> set (as_automations s) \<longleftrightarrow> asGet s i = Some a"
  by (simp add: asGet_def wf_map_mem)

lemma rebuild_exact:
  assumes wf: "wf_map (as_automations s)" and K: "keyedLookup (asGet s)" and sole: "soleClaims (asGet s)"
  shows "exactOwners (asGet s) (as_owner (rebuildIndexLocked s))"
proof -
  let ?ow = "as_owner (rebuildIndexLocked s)"
  have sound: "\<exists>a. asGet s i = Some a \<and> p \<in> set (claims a)" if "mapGet ?ow p = Some i" for p i
  proof -
    from that fold_claims_Some [of "as_automations s" "[]" p i] obtain e where
      "e \<in> set (as_automations s)" "au_id (snd e) = i" "p \<in> set (claims (snd e))" by (auto simp: rebuildIndexLocked_def)
    with K asGet_mem [OF wf, of "fst e" "snd e"] show ?thesis by (auto simp: keyedLookup_def)
  qed
  moreover have "mapGet ?ow p = Some i" if a: "asGet s i = Some a" "p \<in> set (claims a)" for p i a
  proof -
    have "(i, a) \<in> set (as_automations s)" using asGet_mem [OF wf] a(1) by simp
    then have "\<not> (\<forall>e\<in>set (as_automations s). p \<notin> set (claims (snd e)))" using a(2) by force
    then have "mapGet ?ow p \<noteq> None" by (simp add: rebuildIndexLocked_def fold_claims_None)
    then obtain j where "mapGet ?ow p = Some j" by auto
    with sound [OF this] a sole show ?thesis by (auto simp: soleClaims_def)
  qed
  ultimately show ?thesis by (auto simp: exactOwners_def)
qed

section \<open>The invariant\<close>

definition wellFormed :: "Automation \<Rightarrow> bool" where
  "wellFormed a \<longleftrightarrow> validateAutomation (\<lambda>_. None) a = None"

definition rulesInv :: "AutomationStore \<Rightarrow> bool" where
  "rulesInv s \<longleftrightarrow> wf_map (as_automations s) \<and> (\<forall>i a. asGet s i = Some a \<longrightarrow> au_id a = i \<and> i \<noteq> [] \<and> wellFormed a) \<and>
     exactOwners (asGet s) (as_owner s) \<and> soleParents (asGet s) \<and> acyclic (nestRel (asGet s))"

lemma rulesInv_keyed: "rulesInv s \<Longrightarrow> keyedLookup (asGet s)"
  by (auto simp: rulesInv_def keyedLookup_def)

lemma rulesInv_cong:
  assumes "rulesInv s" "asGet s' = asGet s" "wf_map (as_automations s')" "as_owner s' = as_owner s"
  shows "rulesInv s'"
  using assms by (simp add: rulesInv_def)

lemma asGet_set: "asGet (s\<lparr>as_automations := mapSet (as_automations s) i a\<rparr>) = (asGet s)(i := Some a)"
  by (auto simp: asGet_def)

lemma asGet_del: "asGet (s\<lparr>as_automations := mapDelete (as_automations s) i\<rparr>) = (asGet s)(i := None)"
  by (auto simp: asGet_def)

lemma asGet_rebuild [simp]: "asGet (rebuildIndexLocked s) = asGet s" "as_automations (rebuildIndexLocked s) = as_automations s"
  by (auto simp: asGet_def rebuildIndexLocked_def)

lemma asGet_other [simp]: "asGet (s\<lparr>as_owner := ow\<rparr>) = asGet s" "asGet (s\<lparr>as_file := f\<rparr>) = asGet s"
  by (auto simp: asGet_def)

lemma rebuild_cong [simp]:
  "as_owner (rebuildIndexLocked (s\<lparr>as_file := f\<rparr>)) = as_owner (rebuildIndexLocked s)"
  by (simp add: rebuildIndexLocked_def)

lemma asGet_finite: "finite {i. asGet s i \<noteq> None}" "card {i. asGet s i \<noteq> None} \<le> length (as_automations s)"
proof -
  have eq: "{i. asGet s i \<noteq> None} = set (mapKeys (as_automations s))" by (auto simp: asGet_def mapHas_keys [symmetric] mapHas_def)
  show "finite {i. asGet s i \<noteq> None}" unfolding eq by simp
  show "card {i. asGet s i \<noteq> None} \<le> length (as_automations s)"
    unfolding eq using card_length [of "mapKeys (as_automations s)"] by (simp add: mapKeys_def)
qed

section \<open>What the checks give\<close>

lemma validate_structure: "validateAutomation settings a = None \<Longrightarrow> wellFormed a"
  by (auto simp: wellFormed_def validateAutomation_def split: if_splits AutomationStatus.splits)

lemma validateMemberKind_prd:
  "validateMemberKind a m = None \<Longrightarrow> mb_prdID m \<noteq> [] \<Longrightarrow> memberKind m = MemberKindPRD"
  by (auto simp: validateMemberKind_def Let_def split: if_splits)

lemma wellFormed_claims:
  assumes "wellFormed a" "p \<in> set (claims a)"
  obtains m where "m \<in> set (au_members a)" "memberKind m = MemberKindPRD" "mb_prdID m = p" "p \<noteq> []"
proof -
  from assms(2) obtain m where m: "m \<in> set (au_members a)" "mb_prdID m = p" "p \<noteq> []" by (auto simp: claims_def split: if_splits)
  have "validateMembers a [] [] (au_members a) = None"
    using assms(1) by (auto simp: wellFormed_def validateAutomation_def split: if_splits AutomationStatus.splits)
  from validateMembers_None [OF this] m(1) have "validateMemberKind a m = None" by simp
  from validateMemberKind_prd [OF this] m have "memberKind m = MemberKindPRD" by simp
  from that [OF m(1) this m(2,3)] show thesis .
qed

definition freeFor :: "AutomationStore \<Rightarrow> Automation \<Rightarrow> bool" where
  "freeFor s a \<longleftrightarrow> (\<forall>p\<in>set (claims a). mapGet (as_owner s) p = None \<or> mapGet (as_owner s) p = Some (au_id a)) \<and>
     (\<not> terminal a \<longrightarrow> (\<forall>c\<in>set (nestedIDs a). asGet s c \<noteq> None \<and> (c, au_id a) \<notin> (nestRel (asGet s))\<^sup>* \<and>
        (\<forall>j b. asGet s j = Some b \<longrightarrow> \<not> terminal b \<longrightarrow> c \<in> set (nestedIDs b) \<longrightarrow> j = au_id a)))"

lemma nestingOwner_Nil:
  assumes "rulesInv s" "nestingOwnerOf s c = [] \<or> nestingOwnerOf s c = i" "asGet s j = Some b" "\<not> terminal b" "c \<in> set (nestedIDs b)"
  shows "j = i"
proof -
  have wf: "wf_map (as_automations s)" using assms(1) by (simp add: rulesInv_def)
  have "(j, b) \<in> set (as_automations s)" using asGet_mem [OF wf] assms(3) by simp
  then obtain e where e: "find (\<lambda>e. \<not> terminal (snd e) \<and> c \<in> set (nestedIDs (snd e))) (as_automations s) = Some e"
    using assms(4,5) by (cases "find (\<lambda>e. \<not> terminal (snd e) \<and> c \<in> set (nestedIDs (snd e))) (as_automations s)") (auto simp: find_None_iff)
  then have m: "e \<in> set (as_automations s)" "\<not> terminal (snd e)" "c \<in> set (nestedIDs (snd e))" by (auto simp: find_Some_iff)
  then have "asGet s (fst e) = Some (snd e)" using asGet_mem [OF wf, of "fst e" "snd e"] by simp
  moreover from this have "au_id (snd e) = fst e" "fst e \<noteq> []" using assms(1) by (auto simp: rulesInv_def)
  moreover have "nestingOwnerOf s c = au_id (snd e)" using e by (simp add: nestingOwnerOf_def)
  ultimately show ?thesis using assms m by (auto simp: rulesInv_def soleParents_def)
qed

lemma nestingLoop_None:
  "nestingLoop n lookup ownerOf self ms = Some (None :: 'e StoreError option) \<longleftrightarrow>
    (\<forall>m\<in>set ms. checkNested n lookup ownerOf self m = Some (None :: 'e StoreError option))"
  by (induction ms) (auto split: option.splits)

lemma checkNested_returns:
  assumes "rulesInv s" "length (as_automations s) < n"
  shows "checkNested n (asGet s) ownerOf self m \<noteq> None"
proof (cases "asGet s (mb_automationID m)")
  case (Some child)
  then have "asGet s (au_id child) = Some child" using rulesInv_keyed [OF assms(1)] by (simp add: keyedLookup_def)
  then have "nestedPathToSelf n self child (asGet s) \<noteq> None"
    using nestedPath_exact [OF rulesInv_keyed [OF assms(1)] asGet_finite(1) _ le_less_trans [OF asGet_finite(2) assms(2)]] by blast
  with Some show ?thesis by (auto simp: checkNested_def Let_def)
qed (auto simp: checkNested_def)

lemma nestingLoop_returns:
  assumes "rulesInv s" "length (as_automations s) < n"
  shows "nestingLoop n (asGet s) ownerOf self ms \<noteq> None"
  using checkNested_returns [OF assms] by (induction ms) (auto split: option.splits)

lemma checkStored_returns:
  assumes "rulesInv s" "length (as_automations s) < n"
  shows "\<exists>r. checkStored n settings lookupPRD s a = Some r"
  using nestingLoop_returns [OF assms] by (auto simp: checkStored_def validateAutomationNesting_def split: option.splits)

lemma checkStored_free:
  assumes I: "rulesInv s" and n: "length (as_automations s) < n" and ok: "checkStored n settings lookupPRD s a = Some None"
  shows "wellFormed a" "freeFor s a"
proof -
  have v: "validateAutomation settings a = None"
    and own: "validateAutomationOwnership lookupPRD (OwnerOf s) a = (None :: 'a StoreError option)"
    and nest: "validateAutomationNesting n (asGet s) (nestingOwnerOf s) a = Some (None :: 'a StoreError option)"
    using ok by (auto simp: checkStored_def split: option.splits)
  show wf: "wellFormed a" using v by (rule validate_structure)
  have "mapGet (as_owner s) p = None \<or> mapGet (as_owner s) p = Some (au_id a)" if p: "p \<in> set (claims a)" for p
  proof -
    obtain m where m: "m \<in> set (au_members a)" "memberKind m = MemberKindPRD" "mb_prdID m = p" using wellFormed_claims [OF wf p] .
    have "\<not> terminal a" using p by (auto simp: claims_def)
    then have "checkMemberPRD lookupPRD (OwnerOf s) (au_id a) m = (None :: 'a StoreError option)"
      using own m(1) by (simp add: validateAutomationOwnership_def)
    then have "OwnerOf s p = [] \<or> OwnerOf s p = au_id a" using m by (auto simp: checkMemberPRD_def split: option.splits if_splits)
    moreover have "mapGet (as_owner s) p \<noteq> Some []" using I by (auto simp: rulesInv_def exactOwners_def)
    ultimately show ?thesis by (auto simp: OwnerOf_def mapGetOr_def split: option.splits)
  qed
  moreover have "asGet s c \<noteq> None \<and> (c, au_id a) \<notin> (nestRel (asGet s))\<^sup>* \<and>
      (\<forall>j b. asGet s j = Some b \<longrightarrow> \<not> terminal b \<longrightarrow> c \<in> set (nestedIDs b) \<longrightarrow> j = au_id a)"
    if t: "\<not> terminal a" and c: "c \<in> set (nestedIDs a)" for c
  proof -
    obtain m where m: "m \<in> set (au_members a)" "memberKind m = MemberKindAutomation" "mb_automationID m = c"
      using c by (auto simp: nestedIDs_mem)
    have ck: "checkNested n (asGet s) (nestingOwnerOf s) (au_id a) m = Some (None :: 'a StoreError option)"
      using nest t m(1) by (simp add: validateAutomationNesting_def nestingLoop_None)
    then obtain child where child: "asGet s c = Some child" using m by (auto simp: checkNested_def split: option.splits)
    then have id: "au_id child = c" using I by (simp add: rulesInv_def)
    have "nestingOwnerOf s c = [] \<or> nestingOwnerOf s c = au_id a" "nestedPathToSelf n (au_id a) child (asGet s) = Some None"
      using ck m child by (auto simp: checkNested_def Let_def split: if_splits)
    with nestedPath_exact [OF rulesInv_keyed [OF I] asGet_finite(1) _ le_less_trans [OF asGet_finite(2) n], of child "au_id a"]
      child id nestingOwner_Nil [OF I, of c "au_id a"] show ?thesis by auto
  qed
  ultimately show "freeFor s a" by (auto simp: freeFor_def)
qed

section \<open>Writes keep the invariant\<close>

lemma free_sole:
  assumes "rulesInv s" "freeFor s a" "au_id a = i"
  shows "soleClaims ((asGet s)(i := Some a))" "soleParents ((asGet s)(i := Some a))"
proof -
  have ex: "exactOwners (asGet s) (as_owner s)" and sp: "soleParents (asGet s)" using assms(1) by (auto simp: rulesInv_def)
  note sc = exactOwners_sole [OF ex]
  have mine: "j = i" if "asGet s j = Some b" "p \<in> set (claims b)" "p \<in> set (claims a)" for j b p
  proof -
    have "mapGet (as_owner s) p = Some j" using ex that(1,2) by (auto simp: exactOwners_def)
    moreover have "mapGet (as_owner s) p = None \<or> mapGet (as_owner s) p = Some i" using that(3) assms(2,3) by (simp add: freeFor_def)
    ultimately show ?thesis by simp
  qed
  then show "soleClaims ((asGet s)(i := Some a))" using sc unfolding soleClaims_def fun_upd_apply by (metis option.inject)
  have mine: "j = i" if "asGet s j = Some b" "\<not> terminal b" "\<not> terminal a" "c \<in> set (nestedIDs b)" "c \<in> set (nestedIDs a)" for j b c
    using that assms(2,3) by (simp add: freeFor_def)
  then show "soleParents ((asGet s)(i := Some a))" using sp unfolding soleParents_def fun_upd_apply by (metis option.inject)
qed

lemma free_acyclic:
  assumes "rulesInv s" "freeFor s a" "au_id a = i" "terminal a \<Longrightarrow> \<exists>x. asGet s i = Some x \<and> set (nestedIDs a) \<subseteq> set (nestedIDs x)"
  shows "acyclic (nestRel ((asGet s)(i := Some a)))"
proof (cases "terminal a")
  case False
  then show ?thesis using assms by (intro nestRel_update) (auto simp: rulesInv_def freeFor_def)
next
  case True
  then have "nestRel ((asGet s)(i := Some a)) \<subseteq> nestRel (asGet s)" using assms(4) by (auto simp: nestRel_def split: if_splits)
  with assms(1) show ?thesis by (auto simp: rulesInv_def intro: acyclic_subset)
qed

lemma write_inv:
  assumes I: "rulesInv s" and a: "wellFormed a" "freeFor s a" "au_id a = i" "i \<noteq> []"
    and t: "terminal a \<Longrightarrow> \<exists>x. asGet s i = Some x \<and> set (nestedIDs a) \<subseteq> set (nestedIDs x)"
    and s': "asGet s' = (asGet s)(i := Some a)" "wf_map (as_automations s')" "exactOwners (asGet s') (as_owner s')"
  shows "rulesInv s'"
  using I a s' free_sole(2) [OF I a(2,3)] free_acyclic [OF I a(2,3) t] by (auto simp: rulesInv_def)

lemma delete_inv:
  assumes I: "rulesInv s"
  shows "rulesInv (rebuildIndexLocked (s\<lparr>as_automations := mapDelete (as_automations s) i\<rparr>))" (is "rulesInv (rebuildIndexLocked ?s)")
proof -
  have g: "asGet ?s = (asGet s)(i := None)" by (rule asGet_del)
  have wf: "wf_map (as_automations ?s)" and K: "keyedLookup (asGet ?s)" using I by (auto simp: rulesInv_def g keyedLookup_def)
  have "soleClaims (asGet ?s)"
    using exactOwners_sole [of "asGet s" "as_owner s"] I by (auto simp: rulesInv_def g soleClaims_def split: if_splits)
  then have "exactOwners (asGet ?s) (as_owner (rebuildIndexLocked ?s))" using wf K by (intro rebuild_exact)
  moreover have "nestRel (asGet ?s) \<subseteq> nestRel (asGet s)" by (auto simp: nestRel_def g split: if_splits)
  then have "acyclic (nestRel (asGet ?s))" using I by (auto simp: rulesInv_def intro: acyclic_subset)
  ultimately show ?thesis using I wf by (auto simp: rulesInv_def g soleParents_def split: if_splits)
qed

end
