(* ===== verification/Automation_Store_Ops.thy ===== *)
theory Automation_Store_Ops
  imports Automation_Store_Inv
begin

text \<open>
  What each operation of the Automation store does: the checks return when the fuel is above the number of stored Automations,
  a refused or failed operation leaves the Automations and the index as they were, and every operation keeps the invariant.
\<close>

section \<open>Version and time do not matter to the checks\<close>

definition stamped :: "int \<Rightarrow> time \<Rightarrow> Automation \<Rightarrow> Automation" where
  "stamped v t a = a\<lparr>au_version := v, au_updatedAt := t\<rparr>"

lemma stamped_fields [simp]:
  "au_id (stamped v t a) = au_id a" "au_name (stamped v t a) = au_name a" "au_status (stamped v t a) = au_status a"
  "au_members (stamped v t a) = au_members a" "au_entryMemberID (stamped v t a) = au_entryMemberID a"
  "au_activeCursors (stamped v t a) = au_activeCursors a" "au_currentMemberID (stamped v t a) = au_currentMemberID a"
  "au_version (stamped v t a) = v"
  by (simp_all add: stamped_def)

lemma stamped_member [simp]: "memberByID (stamped v t a) = memberByID a"
  by (simp add: memberByID_def fun_eq_iff)

lemma stamped_kind [simp]: "validateMemberKind (stamped v t a) = validateMemberKind a"
  by (rule ext) (simp only: validateMemberKind_def stamped_fields)

lemma stamped_members [simp]: "validateMembers (stamped v t a) ids prds ms = validateMembers a ids prds ms"
  by (induction ms arbitrary: ids prds) (simp_all split: option.split)

lemma stamped_cursors [simp]: "validateCursors (stamped v t a) seen cs = validateCursors a seen cs"
  by (induction cs arbitrary: seen) simp_all

lemma stamped_branchSet [simp]: "checkBranchSet (stamped v t a) m seen bs cl = checkBranchSet a m seen bs cl"
  by (induction bs arbitrary: seen cl) (simp_all split: option.split)

lemma stamped_branches [simp]: "validateBranches (stamped v t a) fc jc ms = validateBranches a fc jc ms"
  by (induction ms arbitrary: fc jc) (simp_all split: sum.split)

lemma stamped_graph [simp]:
  "automationSuccessors (stamped v t a) = automationSuccessors a" "automationIsLinear (stamped v t a) = automationIsLinear a"
  "graphNodes (stamped v t a) = graphNodes a"
  by (simp_all add: automationSuccessors_def automationIsLinear_def graphNodes_def)

lemma stamped_checks [simp]:
  "automationHasCycle (stamped v t a) = automationHasCycle a" "automationUnreachable (stamped v t a) = automationUnreachable a"
  "validateEntry (stamped v t a) = validateEntry a" "validateEdges (stamped v t a) = validateEdges a"
  unfolding automationHasCycle_def automationUnreachable_def validateEntry_def validateEdges_def validateEdge_def [abs_def]
    stamped_fields stamped_member stamped_graph
  by (rule refl)+

lemma stamped_shape [simp]: "validateShape (stamped v t a) = validateShape a"
  unfolding validateShape_def validateForkJoinPairing_def joinsOf_def forksOf_def stamped_fields stamped_checks stamped_branches ..

lemma stamped_valid [simp]: "wellFormed (stamped v t a) = wellFormed a"
  by (simp add: wellFormed_def validateAutomation_def split: AutomationStatus.split)

lemma stamped_claims [simp]:
  "terminal (stamped v t a) = terminal a" "claims (stamped v t a) = claims a" "nestedIDs (stamped v t a) = nestedIDs a"
  by (simp_all add: terminal_def claims_def nestedIDs_def)

lemma stamped_free [simp]: "freeFor s (stamped v t a) = freeFor s a"
  by (simp add: freeFor_def)

lemma canonical_fields [simp]:
  "au_id (canonical a) = au_id a" "au_status (canonical a) = au_status a" "terminal (canonical a) = terminal a"
  by (auto simp: canonical_def normalizeActiveCursors_def normalizeMemberStages_def terminal_def)

lemma canonical_members: "au_members (canonical a) = map (\<lambda>m. m\<lparr>mb_stage := trimSpace (mb_stage m)\<rparr>) (au_members a)"
  by (auto simp: canonical_def normalizeActiveCursors_def normalizeMemberStages_def)

lemma canonical_nested [simp]: "nestedIDs (canonical a) = nestedIDs a"
  by (simp add: nestedIDs_def canonical_members filter_map o_def memberKind_def)

section \<open>Create\<close>

lemma newAutomationID_not_Nil [simp]: "newAutomationID d \<noteq> []"
  by (auto simp: newAutomationID_def hexEncode_def hexByte_def split: prod.splits)

lemma freeID_free: "freeID s ds = Some (i, ds') \<Longrightarrow> asGet s i = None \<and> i \<noteq> []"
  by (induction ds) (auto split: if_splits)

lemma createCheck_result:
  assumes "createCheck n settings lookupPRD ds now a s = Some (Inr a1 :: 'e StoreError + Automation)"
  shows "checkStored n settings lookupPRD s a1 = Some (None :: 'e StoreError option)" "au_status a1 = AutomationDraft"
    "au_id a = [] \<Longrightarrow> asGet s (au_id a1) = None \<and> au_id a1 \<noteq> []"
proof -
  obtain i ds' ms where r: "(if au_id a = [] then freeID s ds else Some (au_id a, ds)) = Some (i, ds')"
      "a1 = newDraft now i ms a" "checkStored n settings lookupPRD s a1 = Some (None :: 'e StoreError option)"
    using assms by (auto simp: createCheck_def Let_def split: option.splits prod.splits)
  show "checkStored n settings lookupPRD s a1 = Some (None :: 'e StoreError option)" by (rule r(3))
  show "au_status a1 = AutomationDraft" using r(2) by (simp add: newDraft_def)
  show "asGet s (au_id a1) = None \<and> au_id a1 \<noteq> []" if "au_id a = []"
    using r(1,2) that freeID_free [of s ds i ds'] by (simp add: newDraft_def)
qed

lemma mapDelete_set: "mapGet m k = None \<Longrightarrow> mapDelete (mapSet m k v) k = m"
  by (induction m) (auto simp: mapGet_def mapDelete_def mapSet_def split: if_splits)

lemma mapSet_back: "mapGet m k = Some v \<Longrightarrow> mapSet (mapSet m k w) k v = m"
  by (induction m) (auto simp: mapGet_def mapSet_def split: if_splits)

lemma createCommit_inv:
  assumes I: "rulesInv s" and a: "wellFormed a" "freeFor s a" "au_status a = AutomationDraft" "asGet s (au_id a) = None" "au_id a \<noteq> []"
  shows "rulesInv (snd (createCommit out a s))"
proof (cases "out = PersistDone")
  case True
  let ?s = "s\<lparr>as_automations := mapSet (as_automations s) (au_id a) a, as_owner := claimAll a (as_owner s)\<rparr>"
  have g: "asGet ?s = (asGet s)(au_id a := Some a)" by (auto simp: asGet_def)
  have ex: "exactOwners (asGet s) (as_owner s)" using I by (simp add: rulesInv_def)
  have no: "mapGet (as_owner s) p \<noteq> Some (au_id a)" for p using ex a(4) by (simp add: exactOwners_def)
  have none: "p \<notin> set (claims b)" if b: "asGet s i = Some b" "p \<in> set (claims a)" for p i b
  proof
    assume "p \<in> set (claims b)"
    with ex b(1) have "mapGet (as_owner s) p = Some i" by (auto simp: exactOwners_def)
    moreover have "mapGet (as_owner s) p = None" using a(2) b(2) no [of p] by (auto simp: freeFor_def)
    ultimately show False by simp
  qed
  have "mapGet (as_owner ?s) p = Some i \<longleftrightarrow> (\<exists>b. asGet ?s i = Some b \<and> p \<in> set (claims b))" for p i
    unfolding g using ex none [of i _ p] no [of p] by (cases "i = au_id a") (auto simp: mapGet_claimAll exactOwners_def)
  then have "exactOwners (asGet ?s) (as_owner ?s)" by (simp add: exactOwners_def)
  moreover have "wf_map (as_automations ?s)" using I by (simp add: rulesInv_def)
  moreover have "\<not> terminal a" using a(3) by (simp add: terminal_def)
  ultimately have "rulesInv ?s" using a(5) by (intro write_inv [OF I a(1,2) refl _ _ g]) auto
  then show ?thesis using True
    by (auto simp: createCommit_def Let_def intro: rulesInv_cong [of ?s] simp: rulesInv_def)
next
  case False
  have "mapDelete (mapSet (as_automations s) (au_id a) a) (au_id a) = as_automations s" using a(4) by (simp add: mapDelete_set asGet_def)
  with False I show ?thesis by (intro rulesInv_cong [OF I]) (auto simp: createCommit_def Let_def rulesInv_def asGet_def fun_eq_iff)
qed

section \<open>Update\<close>

definition keepsNesting :: "(Automation \<Rightarrow> 'e + Automation) \<Rightarrow> bool" where
  "keepsNesting mutate \<longleftrightarrow> (\<forall>x b. mutate x = Inr b \<longrightarrow> terminal b \<longrightarrow> set (nestedIDs b) \<subseteq> set (nestedIDs x))"

lemma nestedIDs_rename [simp]: "nestedIDs (b\<lparr>au_id := i\<rparr>) = nestedIDs b" "terminal (b\<lparr>au_id := i\<rparr>) = terminal b"
  by (simp_all add: nestedIDs_def terminal_def)

lemma updateCheck_result:
  assumes "updateCheck n settings lookupPRD i v mutate s = Some (Inr (x, b) :: 'e StoreError + Automation \<times> Automation)"
  shows "asGet s i = Some x" "au_id b = i" "checkStored n settings lookupPRD s b = Some (None :: 'e StoreError option)"
    "v > 0 \<Longrightarrow> au_version x = v" "keepsNesting mutate \<Longrightarrow> terminal b \<Longrightarrow> set (nestedIDs b) \<subseteq> set (nestedIDs x)"
    "\<exists>c. mutate x = Inr c \<and> b = canonical (c\<lparr>au_id := i\<rparr>)"
proof -
  obtain c where r: "asGet s i = Some x" "\<not> (v > 0 \<and> au_version x \<noteq> v)" "mutate x = Inr c" "b = canonical (c\<lparr>au_id := i\<rparr>)"
    "checkStored n settings lookupPRD s b = Some (None :: 'e StoreError option)"
    using assms by (auto simp: updateCheck_def Let_def split: option.splits if_splits sum.splits)
  then show "asGet s i = Some x" "au_id b = i" "checkStored n settings lookupPRD s b = Some (None :: 'e StoreError option)"
    "v > 0 \<Longrightarrow> au_version x = v" "\<exists>c. mutate x = Inr c \<and> b = canonical (c\<lparr>au_id := i\<rparr>)" by auto
  show "set (nestedIDs b) \<subseteq> set (nestedIDs x)" if "keepsNesting mutate" "terminal b" using r(3,4) that by (auto simp: keepsNesting_def)
qed

lemma updateCommit_inv:
  assumes I: "rulesInv s" and b: "wellFormed b" "freeFor s b" "au_id b = i" "asGet s i = Some x"
    and t: "terminal b \<Longrightarrow> set (nestedIDs b) \<subseteq> set (nestedIDs x)"
  shows "rulesInv (snd (updateCommit out now x b s))"
proof (cases "out = PersistDone")
  case True
  let ?a = "stamped (au_version x + 1) now b"
  let ?s = "s\<lparr>as_automations := mapSet (as_automations s) i ?a\<rparr>"
  have g: "asGet ?s = (asGet s)(i := Some ?a)" by (auto simp: asGet_def)
  have wf: "wf_map (as_automations ?s)" using I by (simp add: rulesInv_def)
  have K: "keyedLookup (asGet ?s)" using rulesInv_keyed [OF I] b(3) by (auto simp: g keyedLookup_def)
  have "exactOwners (asGet ?s) (as_owner (rebuildIndexLocked ?s))"
    using free_sole(1) [OF I, of ?a i] b by (intro rebuild_exact wf K) (simp add: g)
  moreover have "i \<noteq> []" using I b(4) by (auto simp: rulesInv_def)
  ultimately have "rulesInv (rebuildIndexLocked ?s)"
    using b t wf by (intro write_inv [OF I, of ?a i]) (auto simp: g)
  then have "rulesInv ((rebuildIndexLocked ?s)\<lparr>as_file := f\<rparr>)" for f by (simp add: rulesInv_def)
  with True b(3) show ?thesis by (simp add: updateCommit_def Let_def stamped_def)
next
  case False
  have "mapSet (mapSet (as_automations s) i w) i x = as_automations s" for w using b(4) by (simp add: mapSet_back asGet_def)
  with False I b(3) show ?thesis by (intro rulesInv_cong [OF I]) (auto simp: updateCommit_def Let_def rulesInv_def asGet_def fun_eq_iff)
qed

section \<open>Operations\<close>

lemma asCreate_inv:
  assumes "rulesInv s" "length (as_automations s) < n" "au_id a = []"
    "asCreate n settings lookupPRD ds now out a s = Some (r :: 'e StoreError + Automation, s')"
  shows "rulesInv s'"
proof -
  obtain c where c: "createCheck n settings lookupPRD ds now a s = Some (c :: 'e StoreError + Automation)"
    "(r, s') = (case c of Inl e \<Rightarrow> (Inl e, s) | Inr a1 \<Rightarrow> createCommit out a1 s)"
    using assms(4) by (auto simp: asCreate_def)
  show ?thesis
  proof (cases c)
    case (Inr a1)
    note C = createCheck_result [OF c(1) [unfolded Inr]]
    note F = checkStored_free [OF assms(1,2) C(1)]
    have "s' = snd (createCommit out a1 s :: ('e StoreError + Automation) \<times> AutomationStore)" using c(2) Inr by (metis snd_conv sum.case(2))
    with createCommit_inv [OF assms(1) F C(2)] C(3) assms(3) show ?thesis by simp
  qed (use c(2) assms(1) in simp)
qed

lemma asUpdate_inv:
  assumes "rulesInv s" "length (as_automations s) < n" "keepsNesting mutate"
    "asUpdate n settings lookupPRD i v mutate now out s = Some (r :: 'e StoreError + Automation, s')"
  shows "rulesInv s'"
proof -
  obtain c where c: "updateCheck n settings lookupPRD i v mutate s = Some (c :: 'e StoreError + Automation \<times> Automation)"
    "(r, s') = (case c of Inl e \<Rightarrow> (Inl e, s) | Inr (x, b) \<Rightarrow> updateCommit out now x b s)"
    using assms(4) by (auto simp: asUpdate_def)
  show ?thesis
  proof (cases c)
    case (Inr xb)
    obtain x b where xb: "xb = (x, b)" by (cases xb)
    note U = updateCheck_result [OF c(1) [unfolded Inr xb]]
    note F = checkStored_free [OF assms(1,2) U(3)]
    have "s' = snd (updateCommit out now x b s :: ('e StoreError + Automation) \<times> AutomationStore)"
      using c(2) Inr xb by (metis (no_types, lifting) snd_conv sum.case(2) old.prod.case)
    with updateCommit_inv [OF assms(1) F U(2,1) U(5) [OF assms(3)]] show ?thesis by simp
  qed (use c(2) assms(1) in simp)
qed

lemma asDelete_inv:
  assumes "rulesInv s" "asDelete i out s = (r :: 'e StoreError option, s')"
  shows "rulesInv s'"
proof -
  consider "s' = s" | a where "asGet s i = Some a" "out = PersistDone"
      "s' = (rebuildIndexLocked (s\<lparr>as_automations := mapDelete (as_automations s) i\<rparr>))\<lparr>as_file := as_file s'\<rparr>"
    | a where "asGet s i = Some a" "as_automations s' = mapSet (mapDelete (as_automations s) i) i a" "as_owner s' = as_owner s"
    using assms(2) by (auto simp: asDelete_def Let_def split: option.splits if_splits)
  then show ?thesis
  proof cases
    case 2
    from delete_inv [OF assms(1), of i] show ?thesis by (subst 2(3)) (simp add: rulesInv_def)
  next
    case 3
    then have "asGet s' = asGet s" by (auto simp: asGet_def fun_eq_iff)
    moreover have "wf_map (as_automations s')" using assms(1) 3(2) by (simp add: rulesInv_def)
    ultimately show ?thesis using rulesInv_cong [OF assms(1)] 3(3) by blast
  qed (use assms(1) in simp)
qed

lemma asUpdate_returns:
  assumes "rulesInv s" "length (as_automations s) < n"
  shows "\<exists>r s'. asUpdate n settings lookupPRD i v mutate now out s = Some (r, s')"
proof -
  have "updateCheck n settings lookupPRD i v mutate s \<noteq> None"
    using checkStored_returns [OF assms] by (auto simp: updateCheck_def Let_def split: option.splits sum.splits)
  then obtain c where "updateCheck n settings lookupPRD i v mutate s = Some c" by blast
  then show ?thesis by (simp add: asUpdate_def)
qed

end
