(* ===== verification/Automation_Token.thy ===== *)
theory Automation_Token
  imports Automation_Sound
begin

text \<open>
  The run of a sound Automation as one token: it is at one member, inside one fork region whose join waits, or gone.
  \<open>tokAt\<close> says what holds in each of the three phases, and the lemmas here carry it through every operation of a step. The
  graph is a fixed Automation \<open>g\<close>; a state \<open>a\<close> of it differs in statuses, cursors and records only (\<open>sameShape\<close>).
\<close>

section \<open>Shape and statuses\<close>

definition bare :: "AutomationMember \<Rightarrow> AutomationMember" where
  "bare m = m\<lparr>mb_status := MemberPending, mb_startedAt := None, mb_finishedAt := None, mb_outcome := [], mb_edgeTaken := []\<rparr>"

definition sameShape :: "Automation \<Rightarrow> Automation \<Rightarrow> bool" where
  "sameShape g a \<longleftrightarrow> map bare (au_members a) = map bare (au_members g)"

definition memStatus :: "Automation \<Rightarrow> string \<Rightarrow> MemberStatus option" where
  "memStatus a i = map_option mb_status (memberByID a i)"

definition unstarted :: "Automation \<Rightarrow> string set" where
  "unstarted a = {i. memStatus a i = Some MemberPending \<or> memStatus a i = Some (MemberOther [])}"

definition runningIDs :: "Automation \<Rightarrow> string set" where
  "runningIDs a = {i. memStatus a i = Some MemberRunning}"

lemma bare_fields [simp]:
  "mb_id (bare m) = mb_id m" "mb_prdID (bare m) = mb_prdID m" "mb_onComplete (bare m) = mb_onComplete m"
  "mb_onBlocked (bare m) = mb_onBlocked m" "mb_onFailed (bare m) = mb_onFailed m" "mb_kind (bare m) = mb_kind m"
  "mb_automationID (bare m) = mb_automationID m" "mb_forkMembers (bare m) = mb_forkMembers m"
  "mb_joinMembers (bare m) = mb_joinMembers m" "mb_onBranchFailure (bare m) = mb_onBranchFailure m"
  by (simp_all add: bare_def)

lemma bare_derived [simp]:
  "memberKind (bare m) = memberKind m" "outcomeEdges (bare m) = outcomeEdges m" "joinRule (bare m) = joinRule m"
  by (simp_all add: memberKind_def outcomeEdges_def joinRule_def)

lemma bare_eqD:
  assumes "bare m = bare m0"
  shows "mb_id m = mb_id m0" "mb_onComplete m = mb_onComplete m0" "memberKind m = memberKind m0" "mb_forkMembers m = mb_forkMembers m0"
    "mb_joinMembers m = mb_joinMembers m0" "outcomeEdges m = outcomeEdges m0" "joinRule m = joinRule m0"
  using assms by (metis bare_fields bare_derived)+

lemma sameShape_refl [simp]: "sameShape a a"
  by (simp add: sameShape_def)

lemma sameShape_trans [trans]: "sameShape a b \<Longrightarrow> sameShape b c \<Longrightarrow> sameShape a c"
  by (simp add: sameShape_def)

lemma find_map: "find P (map f xs) = map_option f (find (\<lambda>x. P (f x)) xs)"
  by (induction xs) auto

lemma find_bare:
  assumes "\<And>m. P (bare m) = P m" "map bare ms = map bare ms'"
  shows "map_option bare (find P ms) = map_option bare (find P ms')"
  using assms(2) find_map [of P bare ms] find_map [of P bare ms'] by (simp add: assms(1))

lemma shape_memberByID: "sameShape g a \<Longrightarrow> map_option bare (memberByID a i) = map_option bare (memberByID g i)"
  unfolding memberByID_def sameShape_def by (rule find_bare) simp_all

lemma shape_joinOf: "sameShape g a \<Longrightarrow> map_option bare (joinOf a i) = map_option bare (joinOf g i)"
  unfolding joinOf_def sameShape_def by (rule find_bare) simp_all

lemma shape_joinFor:
  assumes "sameShape g a" "bare f = bare f0"
  shows "map_option bare (joinFor a f) = map_option bare (joinFor g f0)"
proof -
  have "mb_forkMembers f = mb_forkMembers f0" using assms(2) by (rule bare_eqD)
  then show ?thesis using assms(1) unfolding joinFor_def sameShape_def by simp (rule find_bare, simp_all)
qed

lemma shape_linear: "sameShape g a \<Longrightarrow> automationIsLinear a = automationIsLinear g"
proof -
  have "automationIsLinear a = list_all (\<lambda>m. memberKind m \<notin> {MemberKindFork, MemberKindJoin, MemberKindAutomation}) (map bare (au_members a))" for a
    by (simp add: automationIsLinear_def list.pred_map comp_def)
  then show "sameShape g a \<Longrightarrow> ?thesis" by (simp add: sameShape_def)
qed

lemma memStatus_None: "sameShape g a \<Longrightarrow> memStatus a i = None \<longleftrightarrow> memberByID g i = None"
  using shape_memberByID [of g a i] by (auto simp: memStatus_def)

lemma find_updateFirst:
  assumes "\<And>m. mb_id (f m) = mb_id m"
  shows "find (\<lambda>m. mb_id m = x) (updateFirst (\<lambda>m. mb_id m = i) f ms)
    = (if x = i then map_option f (find (\<lambda>m. mb_id m = i) ms) else find (\<lambda>m. mb_id m = x) ms)"
  by (induction ms) (auto simp: assms)

lemma memberByID_setMember:
  assumes "\<And>m. mb_id (f m) = mb_id m"
  shows "memberByID (setMember i f a) x = (if x = i then map_option f (memberByID a i) else memberByID a x)"
  using find_updateFirst [OF assms] by (simp add: memberByID_def setMember_def)

lemma memStatus_setMember:
  assumes "\<And>m. mb_id (f m) = mb_id m" "\<And>m. mb_status (f m) = s"
  shows "memStatus (setMember i f a) x = (if x = i \<and> memStatus a i \<noteq> None then Some s else memStatus a x)"
  by (cases "memberByID a i") (auto simp: memStatus_def memberByID_setMember assms)

lemma sameShape_setMember [simp]:
  assumes "\<And>m. bare (f m) = bare m"
  shows "sameShape g (setMember i f a) = sameShape g a"
proof -
  have "map bare (updateFirst P f ms) = map bare ms" for P ms
    by (induction ms) (auto simp: assms)
  then show ?thesis by (simp add: sameShape_def setMember_def)
qed

text \<open>A change that leaves the members alone leaves all of this alone.\<close>

lemma same_members:
  assumes "au_members a = au_members b"
  shows "memStatus a = memStatus b" "memberByID a = memberByID b" "automationMember a = automationMember b"
    "sameShape g a = sameShape g b" "automationIsLinear a = automationIsLinear b"
  using assms by (auto simp: fun_eq_iff memStatus_def memberByID_def automationMember_def sameShape_def automationIsLinear_def)

section \<open>What the records of a step leave alone\<close>

lemma onA_simps [simp]:
  "sp_a (onA f st) = f (sp_a st)" "sp_eff (onA f st) = sp_eff st" "sp_now (onA f st) = sp_now st" "sp_snap (onA f st) = sp_snap st"
  "sp_a (onEff h st) = sp_a st" "sp_eff (onEff h st) = h (sp_eff st)" "sp_now (onEff h st) = sp_now st" "sp_snap (onEff h st) = sp_snap st"
  by (simp_all add: onA_def onEff_def)

lemma addDecision_simps [simp]:
  "au_members (addDecision t k n mm a) = au_members a" "au_activeCursors (addDecision t k n mm a) = au_activeCursors a"
  "au_currentMemberID (addDecision t k n mm a) = au_currentMemberID a" "au_status (addDecision t k n mm a) = au_status a"
  "au_budgetState (addDecision t k n mm a) = au_budgetState a"
  by (simp_all add: addDecision_def)

lemma addDecision_members [simp]:
  "memStatus (addDecision t k n mm a) = memStatus a" "memberByID (addDecision t k n mm a) = memberByID a"
  "sameShape g (addDecision t k n mm a) = sameShape g a"
  by (simp_all add: addDecision_def same_members [of "a\<lparr>au_decisions := _\<rparr>" a])

lemma field_members [simp]:
  "memStatus (a\<lparr>au_status := s\<rparr>) = memStatus a" "memStatus (a\<lparr>au_idleSince := t\<rparr>) = memStatus a" "memStatus (a\<lparr>au_budgetState := b\<rparr>) = memStatus a"
  "memStatus (a\<lparr>au_currentMemberID := i\<rparr>) = memStatus a" "memStatus (a\<lparr>au_activeCursors := cs\<rparr>) = memStatus a" "memStatus (a\<lparr>au_finishedAt := t\<rparr>) = memStatus a"
  "sameShape g (a\<lparr>au_status := s\<rparr>) = sameShape g a" "sameShape g (a\<lparr>au_idleSince := t\<rparr>) = sameShape g a"
  "sameShape g (a\<lparr>au_budgetState := b\<rparr>) = sameShape g a" "sameShape g (a\<lparr>au_currentMemberID := i\<rparr>) = sameShape g a"
  "sameShape g (a\<lparr>au_activeCursors := cs\<rparr>) = sameShape g a" "sameShape g (a\<lparr>au_finishedAt := t\<rparr>) = sameShape g a"
  by (simp_all add: fun_eq_iff memStatus_def memberByID_def sameShape_def)

lemma decision_simps [simp]: "sp_eff (decision k n st) = sp_eff st" "sp_a (decision k n st) = addDecision (sp_now st) k (NoteText n) None (sp_a st)"
    "sp_snap (decision k n st) = sp_snap st"
  by (simp_all add: decision_def)

lemma audit_simps [simp]: "sp_a (audit e st) = sp_a st" "ef_starts (sp_eff (audit e st)) = ef_starts (sp_eff st)" "sp_snap (audit e st) = sp_snap st"
  by (simp_all add: audit_def)

lemma endMember_simps [simp]:
  "sp_eff (endMember i s o' e st) = sp_eff st" "sp_snap (endMember i s o' e st) = sp_snap st"
  "au_status (sp_a (endMember i s o' e st)) = au_status (sp_a st)" "au_activeCursors (sp_a (endMember i s o' e st)) = au_activeCursors (sp_a st)"
  "au_currentMemberID (sp_a (endMember i s o' e st)) = au_currentMemberID (sp_a st)"
  "au_budgetState (sp_a (endMember i s o' e st)) = au_budgetState (sp_a st)" "sameShape g (sp_a (endMember i s o' e st)) = sameShape g (sp_a st)"
  "memStatus (sp_a (endMember i s o' e st)) x = (if x = i \<and> memStatus (sp_a st) i \<noteq> None then Some s else memStatus (sp_a st) x)"
  by (simp_all add: endMember_def bare_def memStatus_def memberByID_setMember) (auto simp: setMember_def)

lemma block_simps [simp]:
  "ef_starts (sp_eff (block r st)) = ef_starts (sp_eff st)" "au_status (sp_a (block r st)) = AutomationBlocked"
  "au_activeCursors (sp_a (block r st)) = au_activeCursors (sp_a st)" "au_currentMemberID (sp_a (block r st)) = au_currentMemberID (sp_a st)"
  "memStatus (sp_a (block r st)) = memStatus (sp_a st)" "sameShape g (sp_a (block r st)) = sameShape g (sp_a st)"
  "au_budgetState (sp_a (block r st)) = au_budgetState (sp_a st)"
  by (simp_all add: block_def)

lemma complete_simps [simp]:
  "ef_starts (sp_eff (complete n st)) = ef_starts (sp_eff st)" "au_status (sp_a (complete n st)) = AutomationCompleted"
  "au_activeCursors (sp_a (complete n st)) = []" "memStatus (sp_a (complete n st)) = memStatus (sp_a st)"
  "sameShape g (sp_a (complete n st)) = sameShape g (sp_a st)" "au_budgetState (sp_a (complete n st)) = au_budgetState (sp_a st)"
  by (simp_all add: complete_def Let_def)

lemma moved_simps [simp]: "sp_a (moved i n m e st) = sp_a st" "ef_starts (sp_eff (moved i n m e st)) = ef_starts (sp_eff st)" "sp_snap (moved i n m e st) = sp_snap st"
  by (simp_all add: moved_def)

section \<open>Cursors and starts\<close>

lemma addCursor_simps [simp]:
  "memStatus (addCursor i a) = memStatus a" "sameShape g (addCursor i a) = sameShape g a" "au_status (addCursor i a) = au_status a"
  "automationIsLinear (addCursor i a) = automationIsLinear a" "au_members (addCursor i a) = au_members a"
  "au_budgetState (addCursor i a) = au_budgetState a"
  by (simp_all add: addCursor_def automationIsLinear_def)

lemma dropCursor_simps [simp]:
  "memStatus (dropCursor i a) = memStatus a" "sameShape g (dropCursor i a) = sameShape g a" "au_status (dropCursor i a) = au_status a"
  "automationIsLinear (dropCursor i a) = automationIsLinear a" "au_members (dropCursor i a) = au_members a"
  "au_budgetState (dropCursor i a) = au_budgetState a"
  by (simp_all add: dropCursor_def automationIsLinear_def)

lemma setMember_fields [simp]:
  "au_status (setMember i f a) = au_status a" "au_activeCursors (setMember i f a) = au_activeCursors a"
  "au_currentMemberID (setMember i f a) = au_currentMemberID a" "au_budgetState (setMember i f a) = au_budgetState a"
  by (simp_all add: setMember_def)

lemma startMember_simps [simp]:
  "sp_eff (startMember m st) = sp_eff st" "sp_snap (startMember m st) = sp_snap st" "au_status (sp_a (startMember m st)) = au_status (sp_a st)"
  "sameShape g (sp_a (startMember m st)) = sameShape g (sp_a st)" "au_budgetState (sp_a (startMember m st)) = au_budgetState (sp_a st)"
  "memStatus (sp_a (startMember m st)) x = (if x = mb_id m \<and> memStatus (sp_a st) x \<noteq> None then Some MemberRunning else memStatus (sp_a st) x)"
  by (simp_all add: startMember_def bare_def memStatus_def memberByID_setMember) auto

lemma startMember_cursors:
  assumes "sameShape g (sp_a st)"
  shows "\<not> automationIsLinear g \<Longrightarrow> au_activeCursors (sp_a (startMember m st)) = au_activeCursors (sp_a st) @ [mb_id m]"
    and "automationIsLinear g \<Longrightarrow> au_currentMemberID (sp_a (startMember m st)) = mb_id m"
proof -
  have "sameShape g (setMember (mb_id m) (\<lambda>m. m\<lparr>mb_status := MemberRunning, mb_startedAt := Some (sp_now st)\<rparr>) (sp_a st))"
    using assms by (simp add: bare_def)
  from shape_linear [OF this]
  show "\<not> automationIsLinear g \<Longrightarrow> au_activeCursors (sp_a (startMember m st)) = au_activeCursors (sp_a st) @ [mb_id m]"
    and "automationIsLinear g \<Longrightarrow> au_currentMemberID (sp_a (startMember m st)) = mb_id m"
    by (simp_all add: startMember_def addCursor_def)
qed

lemma start_simps [simp]:
  "sp_a (startPRD m r b st) = sp_a (startMember m st)" "sp_a (startNested m b st) = sp_a (startMember m st)"
  "map ms_memberID (ef_starts (sp_eff (startPRD m r b st))) = map ms_memberID (ef_starts (sp_eff st)) @ [mb_id m]"
  "map ms_memberID (ef_starts (sp_eff (startNested m b st))) = map ms_memberID (ef_starts (sp_eff st)) @ [mb_id m]"
  "sp_snap (startPRD m r b st) = sp_snap st" "sp_snap (startNested m b st) = sp_snap st"
  by (simp_all add: startPRD_def startNested_def addStart_def)

section \<open>The graph\<close>

definition below :: "Automation \<Rightarrow> string \<Rightarrow> string set" where
  "below g i = {x. (i, x) \<in> (succRel g)\<^sup>+}"

definition workIDs :: "Automation \<Rightarrow> string set" where
  "workIDs g = {i. \<exists>m. memberByID g i = Some m \<and> (memberKind m = MemberKindPRD \<or> memberKind m = MemberKindAutomation)}"

definition isJoin :: "Automation \<Rightarrow> string \<Rightarrow> AutomationMember \<Rightarrow> bool" where
  "isJoin g i j \<longleftrightarrow> memberByID g i = Some j \<and> memberKind j = MemberKindJoin"

lemma below_trans: "y \<in> below g x \<Longrightarrow> below g y \<subseteq> below g x"
  by (auto simp: below_def)

lemma below_irrefl: "sound g \<Longrightarrow> i \<notin> below g i"
  by (auto simp: sound_def below_def acyclic_def)

lemma succ_below: "(i, x) \<in> succRel g \<Longrightarrow> x \<in> below g i"
  by (auto simp: below_def)

lemma sound_byID: "sound g \<Longrightarrow> m \<in> set (au_members g) \<Longrightarrow> memberByID g (mb_id m) = Some m"
  by (simp add: sound_def memberByID_mem)

lemma sound_not_Nil: "sound g \<Longrightarrow> memberByID g i = Some m \<Longrightarrow> i \<noteq> []"
  unfolding sound_def by (metis imageI memberByID_SomeD)

lemma sound_edge:
  assumes "sound g" "memberByID g i = Some m" "t \<in> set (outcomeEdges m)"
  shows "t \<in> entrants g" "t \<in> below g i"
proof -
  have m: "m \<in> set (au_members g)" "mb_id m = i" using memberByID_SomeD [OF assms(2)] by auto
  show "t \<in> entrants g" using assms m by (auto simp: sound_def)
  show "t \<in> below g i"
    using succRel_member [of g m t] assms m by (auto simp: sound_def memberNext_def intro: succ_below)
qed

lemma sound_join:
  assumes "sound g" "isJoin g i j"
  shows "distinct (mb_joinMembers j)" "mb_joinMembers j \<noteq> []"
    and "\<And>b. b \<in> set (mb_joinMembers j) \<Longrightarrow> joinOf g b = Some j \<and> b \<in> workIDs g \<and> i \<in> below g b \<and> b \<in> branchIDs g"
proof -
  have j: "j \<in> set (au_members g)" "mb_id j = i" "memberKind j = MemberKindJoin"
    using assms(2) memberByID_SomeD by (auto simp: isJoin_def)
  with assms(1) have J: "distinct (mb_joinMembers j)" "2 \<le> length (mb_joinMembers j)"
      "\<forall>b\<in>set (mb_joinMembers j). joinOf g b = Some j \<and> branchMember g b"
    unfolding sound_def by blast+
  then show "distinct (mb_joinMembers j)" "mb_joinMembers j \<noteq> []" by auto
  show "joinOf g b = Some j \<and> b \<in> workIDs g \<and> i \<in> below g b \<and> b \<in> branchIDs g" if b: "b \<in> set (mb_joinMembers j)" for b
  proof -
    obtain t where t: "memberByID g b = Some t" "memberKind t = MemberKindPRD \<or> memberKind t = MemberKindAutomation"
      using J(3) b by (auto simp: branchMember_def)
    have "mb_id j' = i" if "j' \<in> set (au_members g)" "memberKind j' = MemberKindJoin" "b \<in> set (mb_joinMembers j')" for j'
    proof -
      have "joinOf g b = Some j'" using assms(1) that unfolding sound_def by blast
      with J(3) b j show ?thesis by simp
    qed
    then have "mapGet (pairedJoins (au_members g)) b = Some i"
      unfolding pairedJoins_def using j b by (intro pairedJoins_mem) auto
    then have "(b, i) \<in> succRel g"
      using succRel_member [of g t i] memberByID_SomeD [OF t(1)] assms(1) by (auto simp: sound_def memberNext_def)
    with J(3) b j t show ?thesis by (auto simp: workIDs_def branchIDs_def intro: succ_below)
  qed
qed

lemma sound_fork:
  assumes "sound g" "memberByID g i = Some f" "memberKind f = MemberKindFork"
  obtains j where "joinFor g f = Some j" "isJoin g (mb_id j) j" "set (mb_joinMembers j) = set (mb_forkMembers f)"
    "distinct (mb_forkMembers f)" "set (mb_forkMembers f) \<subseteq> below g i" "mb_id j \<in> below g i"
proof -
  have f: "f \<in> set (au_members g)" "mb_id f = i" using memberByID_SomeD [OF assms(2)] by auto
  with assms obtain j where j: "j \<in> set (au_members g)" "memberKind j = MemberKindJoin" "joinFor g f = Some j"
      "set (mb_joinMembers j) = set (mb_forkMembers f)" "distinct (mb_forkMembers f)"
    unfolding sound_def by blast
  then have ij: "isJoin g (mb_id j) j" using sound_byID [OF assms(1)] by (simp add: isJoin_def)
  have sub: "set (mb_forkMembers f) \<subseteq> below g i"
    using succRel_member [of g f] assms f by (auto simp: sound_def memberNext_def intro: succ_below)
  moreover have "mb_id j \<in> below g i"
  proof -
    obtain b where b: "b \<in> set (mb_joinMembers j)" using sound_join(2) [OF assms(1) ij] by (cases "mb_joinMembers j") auto
    with sub j(4) have "b \<in> below g i" by auto
    with sound_join(3) [OF assms(1) ij b] below_trans [of b g i] show ?thesis by auto
  qed
  ultimately show ?thesis using that j ij by blast
qed

lemma look:
  assumes "sameShape g a" "memberByID a i = Some m"
  obtains m0 where "memberByID g i = Some m0" "bare m = bare m0"
  using shape_memberByID [OF assms(1), of i] assms(2) by (cases "memberByID g i") auto

lemma look':
  assumes "sameShape g a" "memberByID g i = Some m0"
  obtains m where "memberByID a i = Some m" "bare m = bare m0" "memStatus a i = Some (mb_status m)"
  using shape_memberByID [OF assms(1), of i] assms(2) by (cases "memberByID a i") (auto simp: memStatus_def)

lemma automationMember_eq: "sound g \<Longrightarrow> sameShape g a \<Longrightarrow> automationMember a i = memberByID a i"
  using sound_not_Nil [of g i] look [of g a i] by (cases "memberByID a i") (auto simp: automationMember_def)

section \<open>The depth of a path\<close>

definition depth :: "Automation \<Rightarrow> string \<Rightarrow> nat" where
  "depth g t = (if t = [] then 0 else card (insert t (below g t)))"

lemma finite_below: "finite (below g t)"
proof -
  have "below g t \<subseteq> succTargets (automationSuccessors g)"
  proof
    fix x assume "x \<in> below g t"
    then obtain y where "(y, x) \<in> succRel g" by (auto simp: below_def elim: tranclE)
    with mapGetOr_targets [of "automationSuccessors g" y] show "x \<in> succTargets (automationSuccessors g)"
      by (auto simp: edgesOf_def succs_def)
  qed
  then show ?thesis by (rule finite_subset) (simp add: succTargets_def)
qed

lemma depth_below:
  assumes "sound g" "t \<in> below g f" "f \<noteq> []"
  shows "depth g t < depth g f"
proof (cases "t = []")
  case False
  have sub: "insert t (below g t) \<subseteq> below g f" using assms(2) below_trans [OF assms(2)] by auto
  have "card (insert t (below g t)) \<le> card (below g f)" by (rule card_mono [OF finite_below sub])
  also have "\<dots> < card (insert f (below g f))" using below_irrefl [OF assms(1), of f] finite_below by (simp add: card_insert_if)
  finally show ?thesis using False assms(3) by (simp add: depth_def)
qed (use assms(3) finite_below [of g f] in \<open>simp add: depth_def card_gt_0_iff\<close>)

lemma depth_Nil: "depth g [] = 0"
  by (simp add: depth_def)

lemma depth_pos: "t \<noteq> [] \<Longrightarrow> 0 < depth g t"
  using finite_below [of g t] by (simp add: depth_def card_gt_0_iff)

lemma sound_target: "sound g \<Longrightarrow> (i, x) \<in> succRel g \<Longrightarrow> x \<in> mb_id ` set (au_members g)"
proof -
  assume s: "sound g" and e: "(i, x) \<in> succRel g"
  obtain m where m: "m \<in> set (au_members g)" "mb_id m = i" using succRel_key [OF e] by auto
  have byid: "memberByID g i = Some m" using sound_byID [OF s m(1)] m(2) by simp
  have "x \<in> set (memberNext (pairedJoins (au_members g)) m)"
    using succRel_member [of g m x] s e m by (simp add: sound_def)
  then consider "x \<in> set (outcomeEdges m)" | "memberKind m = MemberKindFork" "x \<in> set (mb_forkMembers m)"
    | "mapGet (pairedJoins (au_members g)) i = Some x"
    using m(2) by (auto simp: memberNext_def split: if_splits option.splits)
  then show ?thesis
  proof cases
    case 1
    then show ?thesis using sound_edge(1) [OF s byid] by (auto simp: entrants_def)
  next
    case 2
    obtain j where "isJoin g (mb_id j) j" "set (mb_joinMembers j) = set (mb_forkMembers m)"
      using sound_fork [OF s byid 2(1)] by metis
    with 2(2) have "x \<in> workIDs g" using sound_join(3) [OF s] by blast
    then show ?thesis using memberByID_SomeD by (fastforce simp: workIDs_def)
  next
    case 3
    have "(\<exists>j\<in>set ms. x = mb_id j) \<or> mapGet pj i = Some x"
      if "mapGet (fold (\<lambda>m pj. if memberKind m = MemberKindJoin then fold (\<lambda>b pj'. mapSet pj' b (mb_id m)) (mb_joinMembers m) pj else pj) ms pj) i = Some x"
      for ms pj
      using that
    proof (induction ms arbitrary: pj)
      case (Cons m ms)
      show ?case using Cons.IH [OF Cons.prems [simplified fold_simps comp_apply]] by (auto simp: fold_claim split: if_splits)
    qed simp
    with 3 show ?thesis by (fastforce simp: pairedJoins_def)
  qed
qed

lemma depth_le: "sound g \<Longrightarrow> t = [] \<or> t \<in> mb_id ` set (au_members g) \<Longrightarrow> depth g t \<le> length (au_members g)"
proof (cases "t = []")
  case False
  assume s: "sound g" and "t = [] \<or> t \<in> mb_id ` set (au_members g)"
  with False have t: "t \<in> mb_id ` set (au_members g)" by simp
  have "below g t \<subseteq> mb_id ` set (au_members g)" using sound_target [OF s] by (auto simp: below_def elim: tranclE)
  with t have "card (insert t (below g t)) \<le> card (mb_id ` set (au_members g))" by (intro card_mono) auto
  also have "\<dots> \<le> length (au_members g)" by (metis card_image_le card_length finite_set le_trans)
  finally show ?thesis by (simp add: depth_def)
qed (simp add: depth_def)

section \<open>The phases\<close>

datatype phase = At string | Region string | Over | Gone

definition live :: "Automation \<Rightarrow> bool" where
  "live a \<longleftrightarrow> au_status a = AutomationActive \<or> au_status a = AutomationPaused"

definition budgetBlocked :: "Automation \<Rightarrow> bool" where
  "budgetBlocked a \<longleftrightarrow> (case au_budgetState a of None \<Rightarrow> False | Some bs \<Rightarrow> bs_action bs = BudgetActionBlocked)"

definition noCursor :: "Automation \<Rightarrow> Automation \<Rightarrow> bool" where
  "noCursor g a \<longleftrightarrow> automationIsLinear g \<or> au_activeCursors a = []"

definition cursorAt :: "Automation \<Rightarrow> Automation \<Rightarrow> string \<Rightarrow> bool" where
  "cursorAt g a c \<longleftrightarrow> (if automationIsLinear g then au_currentMemberID a = c else au_activeCursors a = [c])"

text \<open>The join \<open>j\<close> waits: its running branches are the cursors, and every branch was started or refused.\<close>

definition waiting :: "Automation \<Rightarrow> Automation \<Rightarrow> string \<Rightarrow> AutomationMember \<Rightarrow> bool" where
  "waiting g a i j \<longleftrightarrow> isJoin g i j \<and> live a \<and> \<not> budgetBlocked a \<and> distinct (au_activeCursors a) \<and> set (au_activeCursors a) \<subseteq> set (mb_joinMembers j)
     \<and> runningIDs a = insert i (set (au_activeCursors a)) \<and> set (mb_joinMembers j) \<inter> unstarted a = {} \<and> below g i \<subseteq> unstarted a"

definition noneWon :: "Automation \<Rightarrow> AutomationMember \<Rightarrow> bool" where
  "noneWon a j \<longleftrightarrow> (\<forall>b\<in>set (mb_joinMembers j). memStatus a b \<noteq> Some MemberCompleted)"

primrec tokAt :: "Automation \<Rightarrow> Automation \<Rightarrow> phase \<Rightarrow> bool" where
  "tokAt g a (At c) \<longleftrightarrow> au_status a \<noteq> AutomationCompleted \<and> (live a \<longrightarrow> \<not> budgetBlocked a) \<and> c \<in> entrants g \<and> cursorAt g a c \<and> below g c \<subseteq> unstarted a
     \<and> (runningIDs a = {} \<and> c \<in> unstarted a \<or> runningIDs a = {c} \<and> c \<in> workIDs g)"
| "tokAt g a (Region i) \<longleftrightarrow> (\<exists>j. waiting g a i j \<and> au_activeCursors a \<noteq> [] \<and> (joinRule j = BranchAnyOneIsEnough \<longrightarrow> noneWon a j))"
| "tokAt g a Over \<longleftrightarrow> runningIDs a = {} \<and> noCursor g a \<and> \<not> live a \<and> \<not> budgetBlocked a"
| "tokAt g a Gone \<longleftrightarrow> au_status a = AutomationCancelled"

text \<open>Before an edge is followed to \<open>t\<close> and after: \<open>U\<close> is what was unstarted when the step began, and \<open>V\<close> what may run after it.\<close>

abbreviation startIDs :: "stepper \<Rightarrow> string list" where
  "startIDs st \<equiv> map ms_memberID (ef_starts (sp_eff st))"

definition ready :: "Automation \<Rightarrow> string set \<Rightarrow> string set \<Rightarrow> string \<Rightarrow> stepper \<Rightarrow> bool" where
  "ready g U V t st \<longleftrightarrow> sameShape g (sp_a st) \<and> (t = [] \<or> t \<in> entrants g \<and> insert t (below g t) \<subseteq> unstarted (sp_a st))
     \<and> runningIDs (sp_a st) = {} \<and> noCursor g (sp_a st) \<and> live (sp_a st) \<and> \<not> budgetBlocked (sp_a st) \<and> unstarted (sp_a st) \<subseteq> U \<and> U \<subseteq> V \<and> startIDs st = []"

definition settled :: "Automation \<Rightarrow> string set \<Rightarrow> string set \<Rightarrow> stepper \<Rightarrow> bool" where
  "settled g U V st \<longleftrightarrow> sameShape g (sp_a st) \<and> (\<exists>p. tokAt g (sp_a st) p) \<and> unstarted (sp_a st) \<subseteq> U \<and> runningIDs (sp_a st) \<subseteq> V \<and> distinct (startIDs st)
     \<and> set (startIDs st) = runningIDs (sp_a st) \<inter> U \<inter> workIDs g"

definition follows :: "Automation \<Rightarrow> string set \<Rightarrow> string set \<Rightarrow> nat \<Rightarrow> follower \<Rightarrow> bool" where
  "follows g U V n k \<longleftrightarrow> (\<forall>m t e nm rs st. ready g U V t st \<and> depth g t < n \<longrightarrow> (\<exists>st'. k m t e nm rs st = Some st' \<and> settled g U V st'))"

lemma member_status:
  assumes "sound g" "sameShape g a" "m \<in> set (au_members a)"
  shows "memStatus a (mb_id m) = Some (mb_status m)"
proof -
  have "map mb_id (map bare (au_members a)) = map mb_id (map bare (au_members g))" using assms(2) by (simp add: sameShape_def)
  then have "distinct (map mb_id (au_members a))" using assms(1) by (simp add: sound_def comp_def)
  from memberByID_mem [OF this assms(3)] show ?thesis by (simp add: memStatus_def)
qed

lemma over_settled:
  "sameShape g (sp_a st) \<Longrightarrow> runningIDs (sp_a st) = {} \<Longrightarrow> noCursor g (sp_a st) \<Longrightarrow> \<not> live (sp_a st) \<Longrightarrow> \<not> budgetBlocked (sp_a st)
   \<Longrightarrow> unstarted (sp_a st) \<subseteq> U \<Longrightarrow> startIDs st = [] \<Longrightarrow> settled g U V st"
  unfolding settled_def by (auto intro!: exI [of _ Over])

lemma live_block [simp]: "\<not> live (sp_a (block r st))" "\<not> live (sp_a (complete n st))"
  by (simp_all add: live_def)

lemma budgetBlocked_cong: "au_budgetState a = au_budgetState b \<Longrightarrow> budgetBlocked a = budgetBlocked b"
  by (simp add: budgetBlocked_def)

lemma budgetBlocked_simps [simp]:
  "budgetBlocked (sp_a (block r st)) = budgetBlocked (sp_a st)" "budgetBlocked (sp_a (complete n st)) = budgetBlocked (sp_a st)"
  "budgetBlocked (sp_a (endMember i s o' e st)) = budgetBlocked (sp_a st)" "budgetBlocked (addDecision t k nt mm a) = budgetBlocked a"
  "budgetBlocked (sp_a (startMember m st)) = budgetBlocked (sp_a st)" "budgetBlocked (addCursor c a) = budgetBlocked a"
  "budgetBlocked (dropCursor c a) = budgetBlocked a" "budgetBlocked (setMember c f a) = budgetBlocked a"
  by (simp_all add: budgetBlocked_def)

lemma sets_cong:
  assumes "memStatus a = memStatus b"
  shows "runningIDs a = runningIDs b" "unstarted a = unstarted b" "noneWon a = noneWon b"
  using assms by (simp_all add: runningIDs_def unstarted_def noneWon_def fun_eq_iff)

lemma pathEnded_settled:
  assumes "sound g" "ready g U V [] st"
  shows "settled g U V (pathEnded success name reason st)"
proof -
  let ?a = "sp_a st"
  note R = assms(2) [unfolded ready_def]
  have "\<not> cursorsRemain ?a"
  proof
    assume c: "cursorsRemain ?a"
    then have "\<not> automationIsLinear g" using R shape_linear [of g ?a] by (auto simp: cursorsRemain_def)
    with c R obtain m where "m \<in> set (au_members ?a)" "mb_status m = MemberRunning"
      by (auto simp: cursorsRemain_def noCursor_def list_ex_iff)
    with member_status [OF assms(1), of ?a m] R have "mb_id m \<in> runningIDs ?a" by (simp add: runningIDs_def)
    with R show False by simp
  qed
  then show ?thesis
    unfolding pathEnded_def using R sets_cong [of "sp_a (block reason st)" ?a] sets_cong [of "sp_a (complete name st)" ?a]
    by (auto intro!: over_settled simp: noCursor_def)
qed

section \<open>Deciding a join\<close>

lemma classifyLoop_filter:
  assumes "\<And>b. automationMember a b = memberByID a b"
  shows "classifyLoop a bs (w, p, f) =
    (w @ filter (\<lambda>b. memStatus a b = Some MemberCompleted) bs,
     p @ filter (\<lambda>b. memStatus a b = Some MemberRunning \<or> memStatus a b = Some MemberPending) bs,
     f @ filter (\<lambda>b. memStatus a b \<notin> {Some MemberCompleted, Some MemberRunning, Some MemberPending}) bs)"
proof (induction bs arbitrary: w p f)
  case (Cons b bs)
  then show ?case by (cases "memberByID a b") (auto simp: assms memStatus_def)
qed simp

lemma cutBranch_facts:
  assumes "sound g" "sameShape g (sp_a st)" "memStatus (sp_a st) b \<noteq> None" "\<not> automationIsLinear g"
  shows "sameShape g (sp_a (cutBranch b st))" "au_status (sp_a (cutBranch b st)) = au_status (sp_a st)" "sp_eff (cutBranch b st) = sp_eff st"
    "au_budgetState (sp_a (cutBranch b st)) = au_budgetState (sp_a st)"
    "au_activeCursors (sp_a (cutBranch b st)) = filter (\<lambda>c. c \<noteq> b) (au_activeCursors (sp_a st))"
    "runningIDs (sp_a (cutBranch b st)) = runningIDs (sp_a st) - {b}" "unstarted (sp_a (cutBranch b st)) = unstarted (sp_a st) - {b}"
    "memStatus (sp_a (cutBranch b st)) x = None \<longleftrightarrow> memStatus (sp_a st) x = None"
proof -
  obtain m where m: "automationMember (sp_a st) b = Some m"
    using assms(3) automationMember_eq [OF assms(1,2), of b] by (auto simp: memStatus_def)
  let ?s = "if mb_status m = MemberRunning then MemberCancelled else MemberSkipped"
  have cut: "cutBranch b st = endMember b ?s ''join-fired'' [] (onA (dropCursor b) st)" using m by (simp add: cutBranch_def)
  have stat: "memStatus (sp_a (cutBranch b st)) x = (if x = b then Some ?s else memStatus (sp_a st) x)" for x
    using assms(3) by (simp add: cut)
  show "sameShape g (sp_a (cutBranch b st))" "au_status (sp_a (cutBranch b st)) = au_status (sp_a st)" "sp_eff (cutBranch b st) = sp_eff st"
    "au_budgetState (sp_a (cutBranch b st)) = au_budgetState (sp_a st)"
    using assms(2) by (simp_all add: cut)
  show "au_activeCursors (sp_a (cutBranch b st)) = filter (\<lambda>c. c \<noteq> b) (au_activeCursors (sp_a st))"
    using shape_linear [OF assms(2)] assms(4) by (simp add: cut dropCursor_def)
  show "runningIDs (sp_a (cutBranch b st)) = runningIDs (sp_a st) - {b}" "unstarted (sp_a (cutBranch b st)) = unstarted (sp_a st) - {b}"
    "memStatus (sp_a (cutBranch b st)) x = None \<longleftrightarrow> memStatus (sp_a st) x = None"
    using assms(3) by (auto simp: runningIDs_def unstarted_def stat)
qed

lemma cutBranches_facts:
  assumes "sound g" "\<not> automationIsLinear g" "sameShape g (sp_a st)" "\<forall>b\<in>set bs. memStatus (sp_a st) b \<noteq> None"
  shows "sameShape g (sp_a (fold cutBranch bs st)) \<and> au_status (sp_a (fold cutBranch bs st)) = au_status (sp_a st)
    \<and> sp_eff (fold cutBranch bs st) = sp_eff st \<and> au_budgetState (sp_a (fold cutBranch bs st)) = au_budgetState (sp_a st)
    \<and> au_activeCursors (sp_a (fold cutBranch bs st)) = filter (\<lambda>c. c \<notin> set bs) (au_activeCursors (sp_a st))
    \<and> runningIDs (sp_a (fold cutBranch bs st)) = runningIDs (sp_a st) - set bs \<and> unstarted (sp_a (fold cutBranch bs st)) = unstarted (sp_a st) - set bs
    \<and> (\<forall>x. memStatus (sp_a (fold cutBranch bs st)) x = None \<longleftrightarrow> memStatus (sp_a st) x = None)"
  using assms(3-)
proof (induction bs arbitrary: st)
  case (Cons b bs)
  have b: "memStatus (sp_a st) b \<noteq> None" using Cons.prems(2) by simp
  note C = cutBranch_facts [OF assms(1) Cons.prems(1) b assms(2)]
  have "\<forall>x\<in>set bs. memStatus (sp_a (cutBranch b st)) x \<noteq> None" using Cons.prems(2) C(8) by simp
  from Cons.IH [OF C(1) this] C show ?case by (auto simp: conj_commute)
qed simp

lemma join_not_linear: "isJoin g i j \<Longrightarrow> \<not> automationIsLinear g"
  using memberByID_SomeD [of g i j] by (auto simp: isJoin_def automationIsLinear_def list_all_iff)

lemma branch_not_below: "sound g \<Longrightarrow> isJoin g i j \<Longrightarrow> b \<in> set (mb_joinMembers j) \<Longrightarrow> b \<noteq> i \<and> b \<notin> below g i"
  using sound_join(3) [of g i j b] below_irrefl [of g b] below_trans [of b g i] below_trans [of i g b] by auto

lemma endMember_sets:
  assumes "memStatus (sp_a st) i \<noteq> None" "s \<noteq> MemberRunning" "s \<noteq> MemberPending" "s \<noteq> MemberOther []"
  shows "runningIDs (sp_a (endMember i s o' e st)) = runningIDs (sp_a st) - {i}" "unstarted (sp_a (endMember i s o' e st)) = unstarted (sp_a st) - {i}"
  using assms by (auto simp: runningIDs_def unstarted_def)

lemma fireJoin_settled:
  assumes "sound g" "follows g U V n k" "waiting g (sp_a st) i j" "sameShape g (sp_a st)" "unstarted (sp_a st) \<subseteq> U"
    and "startIDs st = []" "bare j' = bare j" "set pending \<subseteq> set (mb_joinMembers j)" "set (au_activeCursors (sp_a st)) \<subseteq> set pending"
    and "depth g i \<le> n" "U \<subseteq> V"
  shows "\<exists>st'. fireJoin k j' rule won failed pending st = Some st' \<and> settled g U V st'"
proof -
  note W = assms(3) [unfolded waiting_def]
  have J: "isJoin g i j" "memberByID g i = Some j" "\<not> automationIsLinear g"
    using W join_not_linear by (auto simp: isJoin_def)
  have id': "mb_id j' = i" using memberByID_SomeD [OF J(2)] bare_eqD(1) [OF assms(7)] by simp
  have mem: "\<forall>b\<in>set pending. memStatus (sp_a st) b \<noteq> None"
  proof
    fix b assume "b \<in> set pending"
    then have "b \<in> workIDs g" using assms(8) sound_join(3) [OF assms(1) J(1)] by auto
    then show "memStatus (sp_a st) b \<noteq> None" using memStatus_None [OF assms(4)] by (auto simp: workIDs_def)
  qed
  let ?st1 = "fold cutBranch pending st"
  note C = cutBranches_facts [OF assms(1) J(3) assms(4) mem]
  have i: "memStatus (sp_a ?st1) i \<noteq> None" using C memStatus_None [OF assms(4), of i] J(2) by simp
  let ?st2 = "endMember i MemberCompleted ''joined'' edgeOnComplete ?st1"
  have sets: "runningIDs (sp_a ?st2) = {}" "unstarted (sp_a ?st2) = unstarted (sp_a st) - set pending - {i}"
    using endMember_sets [OF i, of MemberCompleted] C W assms(9) by auto
  have cur: "au_activeCursors (sp_a ?st2) = []" using C assms(9) by (auto simp: filter_empty_conv)
  let ?t = "mb_onComplete j"
  have tgt: "?t = [] \<or> ?t \<in> entrants g \<and> ?t \<in> below g i"
    using sound_edge [OF assms(1) J(2)] by (auto simp: outcomeEdges_def)
  have clean: "below g i \<subseteq> unstarted (sp_a ?st2)"
    using W sets(2) branch_not_below [OF assms(1) J(1)] assms(8) below_irrefl [OF assms(1), of i] by blast
  have t: "?t = [] \<or> ?t \<in> entrants g \<and> insert ?t (below g ?t) \<subseteq> unstarted (sp_a ?st2)"
    using tgt clean below_trans [of ?t g i] by auto
  have d: "depth g ?t < n"
    using tgt depth_below [OF assms(1), of ?t i] depth_pos [OF sound_not_Nil [OF assms(1) J(2)], of g]
      sound_not_Nil [OF assms(1) J(2)] assms(10)
    by (cases "?t = []") (auto simp: depth_Nil)
  have "ready g U V ?t (decision d x (audit y ?st2))" for d x y
    using t sets cur C W assms(5,6,11) sets_cong [of "sp_a (decision d x (audit y ?st2))" "sp_a ?st2"]
      budgetBlocked_cong [of "sp_a ?st1" "sp_a st"]
    by (auto simp: ready_def noCursor_def live_def)
  with assms(2) d show ?thesis unfolding fireJoin_def Let_def follows_def id' bare_eqD(2) [OF assms(7)] by blast
qed

text \<open>A join that waits, in a step: what has been started is its running branches.\<close>

definition atJoin :: "Automation \<Rightarrow> string set \<Rightarrow> string set \<Rightarrow> string \<Rightarrow> AutomationMember \<Rightarrow> stepper \<Rightarrow> bool" where
  "atJoin g U V i j st \<longleftrightarrow> sameShape g (sp_a st) \<and> waiting g (sp_a st) i j \<and> unstarted (sp_a st) \<subseteq> U \<and> runningIDs (sp_a st) \<subseteq> V \<and> U \<subseteq> V \<and> distinct (startIDs st)
     \<and> set (startIDs st) = set (au_activeCursors (sp_a st)) \<inter> U \<and> (startIDs st \<noteq> [] \<longrightarrow> noneWon (sp_a st) j)"

lemma region_settled:
  assumes "sound g" "atJoin g U V i j st" "au_activeCursors (sp_a st) \<noteq> []" "joinRule j = BranchAnyOneIsEnough \<longrightarrow> noneWon (sp_a st) j"
  shows "settled g U V st"
proof -
  note A = assms(2) [unfolded atJoin_def waiting_def]
  have "i \<notin> workIDs g" using A by (auto simp: isJoin_def workIDs_def)
  moreover have "set (au_activeCursors (sp_a st)) \<subseteq> workIDs g"
  proof -
    have "isJoin g i j" "set (au_activeCursors (sp_a st)) \<subseteq> set (mb_joinMembers j)" using A by simp_all
    with sound_join(3) [OF assms(1), of i j] show ?thesis by (meson subset_iff)
  qed
  ultimately have "set (startIDs st) = runningIDs (sp_a st) \<inter> U \<inter> workIDs g" using A by auto
  moreover have "tokAt g (sp_a st) (Region i)" using assms(2-) by (auto simp: atJoin_def)
  then have "\<exists>p. tokAt g (sp_a st) p" ..
  ultimately show ?thesis unfolding settled_def using A by (elim conjE) (intro conjI)
qed

lemma blockJoin_settled:
  assumes "sound g" "atJoin g U V i j st" "au_activeCursors (sp_a st) = []" "mb_id j' = i"
  shows "settled g U V (blockJoin j' rule failed reason st)"
proof -
  note A = assms(2) [unfolded atJoin_def waiting_def]
  have i: "memStatus (sp_a st) i \<noteq> None" using A memStatus_None [of g "sp_a st" i] by (auto simp: isJoin_def)
  have mem: "memStatus (sp_a (blockJoin j' rule failed reason st)) = memStatus (sp_a (endMember i MemberBlocked ''not-satisfied'' [] st))"
    using assms(4) by (simp add: blockJoin_def)
  have cur: "au_activeCursors (sp_a (blockJoin j' rule failed reason st)) = []" using assms(3) by (simp add: blockJoin_def)
  have rest: "sameShape g (sp_a (blockJoin j' rule failed reason st))" "\<not> live (sp_a (blockJoin j' rule failed reason st))"
    "startIDs (blockJoin j' rule failed reason st) = []" "\<not> budgetBlocked (sp_a (blockJoin j' rule failed reason st))"
    using A assms(3) by (simp_all add: blockJoin_def)
  have sets: "runningIDs (sp_a (blockJoin j' rule failed reason st)) = {}" "unstarted (sp_a (blockJoin j' rule failed reason st)) \<subseteq> U"
    unfolding sets_cong [OF mem] endMember_sets(1,2) [OF i, of MemberBlocked "''not-satisfied''" "[]", simplified] using A assms(3) by auto
  show ?thesis using cur rest sets by (intro over_settled) (simp_all add: noCursor_def)
qed

lemma classify_waiting:
  assumes "sound g" "sameShape g a" "waiting g a i j"
  obtains j' won pending failed where "automationMember a i = Some j'" "bare j' = bare j" "mb_status j' = MemberRunning" "mb_id j' = i"
    "classifyBranches a j' = (won, pending, failed)" "set pending = set (au_activeCursors a)" "won = [] \<longleftrightarrow> noneWon a j"
proof -
  note W = assms(3) [unfolded waiting_def]
  have J: "isJoin g i j" "memberByID g i = Some j" using W by (auto simp: isJoin_def)
  obtain j' where j': "memberByID a i = Some j'" "bare j' = bare j" "memStatus a i = Some (mb_status j')"
    using look' [OF assms(2) J(2)] by blast
  have "i \<in> runningIDs a" using W by simp
  then have run: "mb_status j' = MemberRunning" using j'(3) by (simp add: runningIDs_def)
  have id': "mb_id j' = i" using memberByID_SomeD [OF j'(1)] by simp
  have am: "automationMember a b = memberByID a b" for b using automationMember_eq [OF assms(1,2)] .
  let ?bs = "sort (mb_joinMembers j)"
  define won where "won = filter (\<lambda>b. memStatus a b = Some MemberCompleted) ?bs"
  define pending where "pending = filter (\<lambda>b. memStatus a b = Some MemberRunning \<or> memStatus a b = Some MemberPending) ?bs"
  define failed where "failed = filter (\<lambda>b. memStatus a b \<notin> {Some MemberCompleted, Some MemberRunning, Some MemberPending}) ?bs"
  have cl: "classifyBranches a j' = (won, pending, failed)"
    using classifyLoop_filter [OF am, of ?bs "[]" "[]" "[]"] bare_eqD(5) [OF j'(2)]
    by (simp add: classifyBranches_def won_def pending_def failed_def)
  have "b \<in> set (au_activeCursors a)" if "b \<in> set pending" for b
  proof -
    have b: "b \<in> set (mb_joinMembers j)" using that by (simp add: pending_def)
    have "b \<notin> unstarted a" using W b by blast
    with that have "b \<in> runningIDs a" by (auto simp: pending_def runningIDs_def unstarted_def)
    with W branch_not_below [OF assms(1) J(1) b] show ?thesis by simp
  qed
  moreover have "b \<in> set pending" if "b \<in> set (au_activeCursors a)" for b
  proof -
    have "b \<in> runningIDs a" "b \<in> set (mb_joinMembers j)" using that W by auto
    then show ?thesis by (simp add: pending_def runningIDs_def)
  qed
  ultimately have "set pending = set (au_activeCursors a)" by blast
  moreover have "won = [] \<longleftrightarrow> noneWon a j" by (auto simp: won_def noneWon_def filter_empty_conv)
  ultimately show ?thesis using that [of j' won pending failed] j' run id' cl by (simp add: am)
qed

lemma evalJoin_undecided:
  assumes "sound g" "sameShape g (sp_a st)" "waiting g (sp_a st) i j" "au_activeCursors (sp_a st) \<noteq> []"
    and "joinRule j = BranchAnyOneIsEnough \<longrightarrow> noneWon (sp_a st) j"
  shows "evalJoin k i st = Some st"
proof -
  obtain j' won pending failed where C: "automationMember (sp_a st) i = Some j'" "bare j' = bare j" "mb_status j' = MemberRunning"
    "classifyBranches (sp_a st) j' = (won, pending, failed)" "set pending = set (au_activeCursors (sp_a st))" "won = [] \<longleftrightarrow> noneWon (sp_a st) j"
    using classify_waiting [OF assms(1-3)] by metis
  have "pending \<noteq> []" using C(5) assms(4) by auto
  then show ?thesis using C assms(5) bare_eqD(7) [OF C(2)] by (auto simp: evalJoin_def Let_def)
qed

lemma evalJoin_settled:
  assumes "sound g" "follows g U V n k" "atJoin g U V i j st" "depth g i \<le> n"
  shows "\<exists>st'. evalJoin k i st = Some st' \<and> settled g U V st'"
proof (cases "au_activeCursors (sp_a st) \<noteq> [] \<and> (joinRule j = BranchAnyOneIsEnough \<longrightarrow> noneWon (sp_a st) j)")
  case True
  have "sameShape g (sp_a st)" "waiting g (sp_a st) i j" using assms(3) by (simp_all add: atJoin_def)
  with evalJoin_undecided [OF assms(1)] region_settled [OF assms(1,3)] True show ?thesis by blast
next
  case False
  note A = assms(3) [unfolded atJoin_def]
  have W: "sameShape g (sp_a st)" "waiting g (sp_a st) i j" "unstarted (sp_a st) \<subseteq> U" "U \<subseteq> V"
    using A by simp_all
  obtain j' won pending failed where C: "automationMember (sp_a st) i = Some j'" "bare j' = bare j" "mb_status j' = MemberRunning" "mb_id j' = i"
    "classifyBranches (sp_a st) j' = (won, pending, failed)" "set pending = set (au_activeCursors (sp_a st))" "won = [] \<longleftrightarrow> noneWon (sp_a st) j"
    using classify_waiting [OF assms(1) W(1,2)] by metis
  have pe: "pending = [] \<longleftrightarrow> au_activeCursors (sp_a st) = []" using C(6) by (metis set_empty)
  have none: "startIDs st = []" using A False C(7) pe by auto
  have sub: "set pending \<subseteq> set (mb_joinMembers j)" using C(6) W(2) by (simp add: waiting_def)
  have fire: "\<exists>st'. fireJoin k j' rule w f pending st = Some st' \<and> settled g U V st'" for rule w f
    using fireJoin_settled [OF assms(1,2) W(2,1,3) none C(2) sub _ assms(4) W(4)] C(6) by simp
  have bl: "settled g U V (blockJoin j' rule f reason st)" if "pending = []" for rule f reason
    using blockJoin_settled [OF assms(1,3) _ C(4)] that pe by simp
  have rule': "joinRule j' = joinRule j" using C(2) by (rule bare_eqD)
  show ?thesis
    using fire bl False pe C(7) by (auto simp: evalJoin_def C(1,3,5) Let_def rule')
qed

section \<open>Firing a fork\<close>

definition startable :: "Automation \<Rightarrow> snapshot \<Rightarrow> string \<Rightarrow> bool" where
  "startable g snap b \<longleftrightarrow>
     (\<exists>m. memberByID g b = Some m \<and> memberKind m = MemberKindAutomation) \<or> gateMode (mi_prdStatus (snapOf snap b)) \<noteq> []"

lemma startBranch_facts:
  assumes "sameShape g (sp_a st)" "memberByID (sp_a st) b = Some m" "\<not> automationIsLinear g"
  obtains st' r where "startBranch m st = (st', r)" "sameShape g (sp_a st')" "au_status (sp_a st') = au_status (sp_a st)" "sp_snap st' = sp_snap st"
    "au_budgetState (sp_a st') = au_budgetState (sp_a st)" "au_activeCursors (sp_a st') = au_activeCursors (sp_a st) @ (if startable g (sp_snap st) b then [b] else [])"
    "startIDs st' = startIDs st @ (if startable g (sp_snap st) b then [b] else [])"
    "\<And>x. memStatus (sp_a st') x = (if x = b then Some (if startable g (sp_snap st) b then MemberRunning else MemberFailed) else memStatus (sp_a st) x)"
proof -
  have b: "mb_id m = b" "memStatus (sp_a st) b \<noteq> None" using memberByID_SomeD [OF assms(2)] assms(2) by (auto simp: memStatus_def)
  obtain m0 where m0: "memberByID g b = Some m0" "bare m = bare m0" using look [OF assms(1,2)] .
  have kind: "memberKind m = memberKind m0" using m0(2) by (rule bare_eqD)
  note cur = startMember_cursors(1) [OF assms(1,3), of m]
  show ?thesis
  proof (cases "startable g (sp_snap st) b")
    case True
    let ?st = "if memberKind m = MemberKindAutomation then startNested m True st
               else startPRD m (gateMode (mi_prdStatus (snapOf (sp_snap st) b)) = ''resume'') True st"
    show ?thesis
      by (rule that [of ?st "''started''"])
         (use True b m0(1) kind cur assms(1) in \<open>auto simp: startBranch_def startable_def Let_def\<close>)
  next
    case False
    let ?st = "decision ''branch'' (''branch '' @ mb_id m @ '' not started: '' @ mi_name (snapOf (sp_snap st) (mb_id m)) @ '' is ''
      @ mi_prdStatus (snapOf (sp_snap st) (mb_id m))) (endMember (mb_id m) MemberFailed ''gate-denied'' [] st)"
    show ?thesis
      by (rule that [of ?st "''gate-denied''"])
         (use False b m0(1) kind assms(1) in \<open>auto simp: startBranch_def startable_def Let_def\<close>)
  qed
qed

lemma forkLoop_facts:
  assumes "sound g" "\<not> automationIsLinear g" "sameShape g (sp_a st)" "set bs \<subseteq> workIDs g" "distinct bs"
  shows "\<exists>rs st'. forkLoop f bs results st = (True, rs, st') \<and> sameShape g (sp_a st') \<and> au_status (sp_a st') = au_status (sp_a st)
    \<and> au_budgetState (sp_a st') = au_budgetState (sp_a st)
    \<and> au_activeCursors (sp_a st') = au_activeCursors (sp_a st) @ filter (startable g (sp_snap st)) bs
    \<and> startIDs st' = startIDs st @ filter (startable g (sp_snap st)) bs
    \<and> (\<forall>x. memStatus (sp_a st') x = (if x \<in> set bs then Some (if startable g (sp_snap st) x then MemberRunning else MemberFailed) else memStatus (sp_a st) x))"
  using assms(3-)
proof (induction bs arbitrary: st results)
  case (Cons b bs)
  obtain m0 where "memberByID g b = Some m0" using Cons.prems(2) by (auto simp: workIDs_def)
  then obtain m where m: "memberByID (sp_a st) b = Some m" using look' [OF Cons.prems(1)] by metis
  obtain st1 r where S: "startBranch m st = (st1, r)" "sameShape g (sp_a st1)" "au_status (sp_a st1) = au_status (sp_a st)" "sp_snap st1 = sp_snap st"
    "au_budgetState (sp_a st1) = au_budgetState (sp_a st)"
    "au_activeCursors (sp_a st1) = au_activeCursors (sp_a st) @ (if startable g (sp_snap st) b then [b] else [])"
    "startIDs st1 = startIDs st @ (if startable g (sp_snap st) b then [b] else [])"
    "\<And>x. memStatus (sp_a st1) x = (if x = b then Some (if startable g (sp_snap st) b then MemberRunning else MemberFailed) else memStatus (sp_a st) x)"
    using startBranch_facts [OF Cons.prems(1) m assms(2)] by metis
  have loop: "forkLoop f (b # bs) results st = forkLoop f bs (mapSet results b r) st1"
    using m S(1) automationMember_eq [OF assms(1) Cons.prems(1), of b] by simp
  from Cons.IH [OF S(2), of "mapSet results b r"] Cons.prems(2,3) obtain rs st' where IH:
    "forkLoop f bs (mapSet results b r) st1 = (True, rs, st')" "sameShape g (sp_a st')" "au_status (sp_a st') = au_status (sp_a st1)"
    "au_budgetState (sp_a st') = au_budgetState (sp_a st1)"
    "au_activeCursors (sp_a st') = au_activeCursors (sp_a st1) @ filter (startable g (sp_snap st)) bs"
    "startIDs st' = startIDs st1 @ filter (startable g (sp_snap st)) bs"
    "\<forall>x. memStatus (sp_a st') x = (if x \<in> set bs then Some (if startable g (sp_snap st) x then MemberRunning else MemberFailed) else memStatus (sp_a st1) x)"
    using S(4) by auto
  have "memStatus (sp_a st') x = (if x \<in> set (b # bs) then Some (if startable g (sp_snap st) x then MemberRunning else MemberFailed) else memStatus (sp_a st) x)" for x
    using IH(7) S(8) by simp
  with loop IH(1-6) S(3,5,6,7) show ?case by simp
qed simp

lemma fireFork_settled:
  assumes "sound g" "follows g U V n k" "ready g U V c st" "memberByID (sp_a st) c = Some f" "memberKind f = MemberKindFork" "depth g c \<le> n"
  shows "\<exists>st'. fireFork k f st = Some st' \<and> settled g U V st'"
proof -
  note R = assms(3) [unfolded ready_def]
  obtain f0 where f0: "memberByID g c = Some f0" "bare f = bare f0" using look [OF _ assms(4)] R by blast
  have kind: "memberKind f0 = MemberKindFork" using bare_eqD(3) [OF f0(2)] assms(5) by simp
  have c: "mb_id f = c" "c \<noteq> []" "memStatus (sp_a st) c \<noteq> None"
    using memberByID_SomeD [OF assms(4)] sound_not_Nil [OF assms(1) f0(1)] assms(4) by (auto simp: memStatus_def)
  obtain j where j: "joinFor g f0 = Some j" "isJoin g (mb_id j) j" "set (mb_joinMembers j) = set (mb_forkMembers f0)"
      "distinct (mb_forkMembers f0)" "set (mb_forkMembers f0) \<subseteq> below g c" "mb_id j \<in> below g c"
    using sound_fork [OF assms(1) f0(1) kind] .
  let ?i = "mb_id j" and ?bs = "sort (mb_forkMembers f)"
  have bs: "set ?bs = set (mb_joinMembers j)" "distinct ?bs" using j(3,4) bare_eqD(4) [OF f0(2)] by simp_all
  have nl: "\<not> automationIsLinear g" using join_not_linear [OF j(2)] .
  have cb: "c \<notin> below g ?i" "?i \<noteq> c" "c \<notin> set (mb_joinMembers j)"
    using below_irrefl [OF assms(1), of c] j(3,5,6) below_trans [OF j(6)] by auto
  let ?st1 = "endMember c MemberCompleted ''forked'' [] st"
  have sh1: "sameShape g (sp_a ?st1)" using R by simp
  obtain join where jn: "joinFor (sp_a ?st1) f = Some join" "bare join = bare j"
    using shape_joinFor [OF sh1 f0(2)] j(1) by (cases "joinFor (sp_a ?st1) f") auto
  have ij: "mb_id join = ?i" using jn(2) by (rule bare_eqD)
  let ?st2 = "onA (setMember ?i (\<lambda>m. m\<lparr>mb_status := MemberRunning, mb_startedAt := Some (sp_now st)\<rparr>)) ?st1"
  have sh2: "sameShape g (sp_a ?st2)" using R by (simp add: bare_def)
  have i: "memStatus (sp_a ?st1) ?i \<noteq> None" using memStatus_None [OF sh1, of ?i] j(2) by (auto simp: isJoin_def)
  have m2: "memStatus (sp_a ?st2) x = (if x = ?i then Some MemberRunning else if x = c then Some MemberCompleted else memStatus (sp_a st) x)" for x
    using i c(3) cb(2) by (simp add: memStatus_setMember)
  have work: "set ?bs \<subseteq> workIDs g" using bs(1) sound_join(3) [OF assms(1) j(2)] by blast
  obtain rs st3 where L: "forkLoop f ?bs [] ?st2 = (True, rs, st3)" "sameShape g (sp_a st3)" "au_status (sp_a st3) = au_status (sp_a ?st2)"
    "au_budgetState (sp_a st3) = au_budgetState (sp_a ?st2)"
    "au_activeCursors (sp_a st3) = au_activeCursors (sp_a ?st2) @ filter (startable g (sp_snap ?st2)) ?bs"
    "startIDs st3 = startIDs ?st2 @ filter (startable g (sp_snap ?st2)) ?bs"
    "\<forall>x. memStatus (sp_a st3) x = (if x \<in> set ?bs then Some (if startable g (sp_snap ?st2) x then MemberRunning else MemberFailed) else memStatus (sp_a ?st2) x)"
    using forkLoop_facts [OF assms(1) nl sh2 work bs(2)] by blast
  let ?cs = "filter (startable g (sp_snap st)) ?bs"
  have cur: "au_activeCursors (sp_a st3) = ?cs" "startIDs st3 = ?cs" using L(5,6) R nl by (simp_all add: noCursor_def)
  have m3: "memStatus (sp_a st3) x = (if x \<in> set (mb_joinMembers j) then Some (if x \<in> set ?cs then MemberRunning else MemberFailed)
      else if x = ?i then Some MemberRunning else if x = c then Some MemberCompleted else memStatus (sp_a st) x)" for x
    using L(7) m2 bs(1) by auto
  have br: "b \<noteq> ?i \<and> b \<notin> below g ?i" if "b \<in> set (mb_joinMembers j)" for b using branch_not_below [OF assms(1) j(2) that] .
  have cs: "set ?cs \<subseteq> set (mb_joinMembers j)" using bs(1) by auto
  have run: "runningIDs (sp_a st3) = insert ?i (set ?cs)"
    using R m3 br cs by (auto simp: runningIDs_def split: if_splits)
  have uns: "unstarted (sp_a st3) = unstarted (sp_a st) - set (mb_joinMembers j) - {?i, c}"
    by (auto simp: unstarted_def m3)
  have fresh: "below g c \<subseteq> unstarted (sp_a st)" and UV: "unstarted (sp_a st) \<subseteq> U" "U \<subseteq> V" and lv: "live (sp_a st)"
    using R c(2) by simp_all
  have bel: "below g ?i \<subseteq> unstarted (sp_a st3)"
    unfolding uns using br cb(1) below_irrefl [OF assms(1), of ?i] below_trans [OF j(6)] fresh by auto
  have "waiting g (sp_a st3) ?i j"
    unfolding waiting_def cur(1)
  proof (intro conjI j(2) run bel)
    show "live (sp_a st3)" using lv L(3) by (simp add: live_def)
    show "\<not> budgetBlocked (sp_a st3)" using R L(4) budgetBlocked_cong [of "sp_a st3" "sp_a st"] by simp
    show "distinct ?cs" using bs(2) by (rule distinct_filter)
    show "set (mb_joinMembers j) \<inter> unstarted (sp_a st3) = {}" unfolding uns by blast
  qed (rule cs)
  moreover have "noneWon (sp_a st3) j" by (auto simp: noneWon_def m3)
  moreover have "?i \<in> U" using fresh UV(1) j(6) by blast
  moreover have "set ?cs \<subseteq> U"
  proof -
    have "set ?cs \<subseteq> below g c" using cs j(5) unfolding j(3) by (rule order_trans)
    also note fresh
    also note UV(1)
    finally show ?thesis .
  qed
  ultimately have at3: "atJoin g U V ?i j st3"
    unfolding atJoin_def cur run using L(2) UV uns bs(2) by auto
  have "atJoin g U V ?i j (decision d x (audit y st3))" for d x y
    using at3 sets_cong [of "sp_a (decision d x (audit y st3))" "sp_a st3", simplified] by (auto simp: atJoin_def waiting_def live_def)
  moreover have "depth g ?i \<le> n" using depth_below [OF assms(1) j(6) c(2)] assms(6) by simp
  ultimately have "\<exists>st'. evalJoin k ?i (decision d x (audit y st3)) = Some st' \<and> settled g U V st'" for d x y
    using evalJoin_settled [OF assms(1,2)] by blast
  then show ?thesis using jn(1) L(1) by (simp add: fireFork_def Let_def c(1) ij)
qed

section \<open>Entering a member and following edges\<close>

definition gateCursor :: "AutomationMember \<Rightarrow> Automation \<Rightarrow> Automation" where
  "gateCursor m a = (if isLiveCursor a (mb_id m) then a else addCursor (mb_id m) a)"

lemma applyBudgetGate_fields:
  "au_members (fst (applyBudgetGate (Some m) v now w a)) = au_members a"
  "au_activeCursors (fst (applyBudgetGate (Some m) v now w a)) = au_activeCursors (gateCursor m a)"
  "au_currentMemberID (fst (applyBudgetGate (Some m) v now w a)) = au_currentMemberID (gateCursor m a)"
  unfolding applyBudgetGate_def Let_def by (auto simp: gateCursor_def split: prod.split option.split)

lemma gateCursor_status [simp]: "au_status (gateCursor m a) = au_status a"
  by (simp add: gateCursor_def)

lemma applyBudgetGate_status:
  "au_status (fst (applyBudgetGate (Some m) v now w a)) \<in> {au_status a, AutomationPaused, AutomationBlocked}"
  unfolding applyBudgetGate_def Let_def by (auto split: prod.split option.split)

lemma budget_actions [simp]:
  "BudgetActionHeld \<noteq> BudgetActionBlocked" "BudgetActionPaused \<noteq> BudgetActionBlocked" "BudgetActionBlocked \<noteq> BudgetActionPaused"
  "BudgetActionBlocked \<noteq> BudgetActionHeld"
  by (simp_all add: BudgetActionHeld_def BudgetActionBlocked_def BudgetActionPaused_def)

lemma breachAction_action: "breachAction v w = (act, reason) \<Longrightarrow> act = BudgetActionPaused \<or> act = BudgetActionBlocked"
  by (auto simp: breachAction_def split: if_splits)

lemma applyBudgetGate_budget:
  "live (fst (applyBudgetGate m v now w a)) \<Longrightarrow> \<not> budgetBlocked (fst (applyBudgetGate m v now w a))"
proof -
  obtain act reason where B: "breachAction v w = (act, reason)" by (metis surj_pair)
  show "live (fst (applyBudgetGate m v now w a)) \<Longrightarrow> ?thesis"
    using breachAction_action [OF B] unfolding applyBudgetGate_def Let_def B prod.case
    by (auto simp: live_def budgetBlocked_def budgetEpisodeOpen_def newBudgetState_def split: option.splits if_splits)
qed

lemma gateCursor_at:
  assumes "sameShape g a" "noCursor g a"
  shows "automationIsLinear g \<Longrightarrow> au_currentMemberID (gateCursor m a) = mb_id m"
    and "\<not> automationIsLinear g \<Longrightarrow> au_activeCursors (gateCursor m a) = [mb_id m]"
  using assms shape_linear [OF assms(1)] by (auto simp: gateCursor_def isLiveCursor_def addCursor_def noCursor_def)

lemma budgetGate_facts:
  assumes "sameShape g (sp_a st)" "noCursor g (sp_a st)"
  shows "sameShape g (sp_a (budgetGate m v st))" "memStatus (sp_a (budgetGate m v st)) = memStatus (sp_a st)"
    "cursorAt g (sp_a (budgetGate m v st)) (mb_id m)" "startIDs (budgetGate m v st) = startIDs st"
    "live (sp_a st) \<Longrightarrow> au_status (sp_a (budgetGate m v st)) \<noteq> AutomationCompleted"
    "live (sp_a (budgetGate m v st)) \<longrightarrow> \<not> budgetBlocked (sp_a (budgetGate m v st))"
proof -
  let ?r = "applyBudgetGate (Some m) (v\<lparr>bv_assistantOnBreach := sp_breachChoice st\<rparr>) (sp_now st) False (sp_a st)"
  have a: "sp_a (budgetGate m v st) = fst ?r" by (simp add: budgetGate_def split: prod.split)
  have mem: "au_members (sp_a (budgetGate m v st)) = au_members (sp_a st)" by (simp add: a applyBudgetGate_fields)
  then show "sameShape g (sp_a (budgetGate m v st))" "memStatus (sp_a (budgetGate m v st)) = memStatus (sp_a st)"
    using assms(1) same_members [OF mem] by simp_all
  show "cursorAt g (sp_a (budgetGate m v st)) (mb_id m)"
    using gateCursor_at [OF assms, of m] by (simp add: a applyBudgetGate_fields cursorAt_def)
  show "startIDs (budgetGate m v st) = startIDs st" by (simp add: budgetGate_def split: prod.split)
  show "live (sp_a st) \<Longrightarrow> au_status (sp_a (budgetGate m v st)) \<noteq> AutomationCompleted"
    unfolding a using applyBudgetGate_status [of m "v\<lparr>bv_assistantOnBreach := sp_breachChoice st\<rparr>" "sp_now st" False "sp_a st"]
    by (auto simp: live_def)
  show "live (sp_a (budgetGate m v st)) \<longrightarrow> \<not> budgetBlocked (sp_a (budgetGate m v st))"
    unfolding a using applyBudgetGate_budget by blast
qed

lemma at_unstarted_settled:
  assumes "ready g U V c st" "c \<noteq> []" "sameShape g (sp_a st')" "memStatus (sp_a st') = memStatus (sp_a st)" "cursorAt g (sp_a st') c"
    and "startIDs st' = startIDs st" "au_status (sp_a st') \<noteq> AutomationCompleted" "live (sp_a st') \<longrightarrow> \<not> budgetBlocked (sp_a st')"
  shows "settled g U V st'"
proof -
  note R = assms(1) [unfolded ready_def]
  have "tokAt g (sp_a st') (At c)" using R assms(2,5,7,8) sets_cong [OF assms(4)] by simp
  then have "\<exists>p. tokAt g (sp_a st') p" ..
  with R assms(3,6) sets_cong [OF assms(4)] show ?thesis unfolding settled_def by simp
qed

lemma addCursor_at: "sameShape g a \<Longrightarrow> noCursor g a \<Longrightarrow> cursorAt g (addCursor c a) c"
  using shape_linear [of g a] by (auto simp: cursorAt_def addCursor_def noCursor_def)

lemma start_settled:
  assumes "sound g" "ready g U V c st" "c \<noteq> []" "mb_id m = c" "c \<in> workIDs g" "sp_a st' = sp_a (startMember m st)"
    and "startIDs st' = startIDs st @ [c]"
  shows "settled g U V st'"
proof -
  note R = assms(2) [unfolded ready_def]
  have c: "memStatus (sp_a st) c \<noteq> None" using assms(5) memStatus_None [of g "sp_a st" c] R by (auto simp: workIDs_def)
  have run: "runningIDs (sp_a st') = {c}" using R c assms(4,6) by (auto simp: runningIDs_def)
  have uns: "unstarted (sp_a st') = unstarted (sp_a st) - {c}" using c assms(4,6) by (auto simp: unstarted_def)
  have ns: "au_status (sp_a st') \<noteq> AutomationCompleted" "\<not> budgetBlocked (sp_a st')" using R assms(6) by (auto simp: live_def)
  have "cursorAt g (sp_a st') c"
    using startMember_cursors [of g st m] R assms(4,6) by (auto simp: cursorAt_def noCursor_def)
  moreover have RR: "c \<in> entrants g" "c \<in> unstarted (sp_a st)" "below g c \<subseteq> unstarted (sp_a st)" "unstarted (sp_a st) \<subseteq> U" "U \<subseteq> V"
      "startIDs st = []" "sameShape g (sp_a st)"
    using R assms(3) by simp_all
  moreover have "below g c \<subseteq> unstarted (sp_a st')" using RR(3) uns below_irrefl [OF assms(1), of c] by blast
  ultimately have "tokAt g (sp_a st') (At c)" using assms(5) run ns by simp
  then have "\<exists>p. tokAt g (sp_a st') p" ..
  then show ?thesis
    unfolding settled_def run uns assms(7) using RR assms(5,6) by auto
qed

lemma clearHold_simps [simp]:
  "au_members (clearHold a) = au_members a" "au_activeCursors (clearHold a) = au_activeCursors a" "au_currentMemberID (clearHold a) = au_currentMemberID a"
  "au_status (clearHold a) = au_status a" "memStatus (clearHold a) = memStatus a" "sameShape g (clearHold a) = sameShape g a" "memberByID (clearHold a) = memberByID a"
  by (simp_all add: clearHold_def memberByID_def fun_eq_iff)

lemma clearHold_budget [simp]: "\<not> budgetBlocked (clearHold a)"
  by (simp add: clearHold_def budgetBlocked_def)

lemma ready_cong:
  assumes "ready g U V t st" "sameShape g (sp_a st')" "memStatus (sp_a st') = memStatus (sp_a st)" "au_activeCursors (sp_a st') = au_activeCursors (sp_a st)"
    and "au_status (sp_a st') = au_status (sp_a st)" "startIDs st' = startIDs st" "\<not> budgetBlocked (sp_a st')"
  shows "ready g U V t st'"
  using assms(1,2,4-) sets_cong [OF assms(3)] by (simp add: ready_def noCursor_def live_def)

lemma enterKind_settled:
  assumes "sound g" "follows g U V n k" "ready g U V c st" "c \<noteq> []" "memberByID (sp_a st) c = Some m" "depth g c \<le> n"
  shows "\<exists>st'. enterKind k m st = Some st' \<and> settled g U V st'"
proof -
  note R = assms(3) [unfolded ready_def]
  obtain m0 where m0: "memberByID g c = Some m0" "bare m = bare m0" using look [OF _ assms(5)] R by blast
  have m: "mb_id m = c" "memberKind m = memberKind m0" using memberByID_SomeD [OF assms(5)] bare_eqD(3) [OF m0(2)] by auto
  have "m0 \<in> set (au_members g)" "mb_id m0 = c" using memberByID_SomeD [OF m0(1)] by auto
  then have "memberKind m0 \<in> {MemberKindPRD, MemberKindAutomation, MemberKindFork, MemberKindJoin}"
    using assms(1) unfolding sound_def by blast
  moreover have "memberKind m0 \<noteq> MemberKindJoin"
  proof
    assume "memberKind m0 = MemberKindJoin"
    have "c \<in> entrants g" using R assms(4) by simp
    then obtain x where x: "x \<in> set (au_members g)" "mb_id x = c" "memberKind x \<noteq> MemberKindJoin" by (auto simp: entrants_def)
    with sound_byID [OF assms(1) x(1)] m0(1) \<open>memberKind m0 = MemberKindJoin\<close> show False by simp
  qed
  ultimately consider "memberKind m = MemberKindPRD" | "memberKind m = MemberKindAutomation" | "memberKind m = MemberKindFork"
    using m(2) by auto
  then show ?thesis
  proof cases
    case 1
    then have w: "c \<in> workIDs g" using m0(1) m(2) by (auto simp: workIDs_def)
    let ?mode = "gateMode (mi_prdStatus (snapOf (sp_snap st) c))"
    have "settled g U V (startPRD m (?mode = ''resume'') False st)"
      by (rule start_settled [OF assms(1,3,4) m(1) w]) (simp_all add: m(1))
    moreover have "settled g U V (block r (onA (addCursor c) st))" for r
      using R addCursor_at [of g "sp_a st" c] by (intro at_unstarted_settled [OF assms(3,4)]) (auto simp: cursorAt_def)
    ultimately show ?thesis using 1 by (simp add: enterKind_def Let_def m(1))
  next
    case 2
    then have w: "c \<in> workIDs g" using m0(1) m(2) by (auto simp: workIDs_def)
    have "settled g U V (startNested m False st)"
      by (rule start_settled [OF assms(1,3,4) m(1) w]) (simp_all add: m(1))
    with 2 show ?thesis by (simp add: enterKind_def)
  next
    case 3
    with fireFork_settled [OF assms(1-3,5) 3 assms(6)] show ?thesis by (simp add: enterKind_def)
  qed
qed

lemma enter_settled:
  assumes "sound g" "follows g U V n k" "ready g U V c st" "c \<noteq> []" "memberByID (sp_a st) c = Some m" "depth g c \<le> n"
  shows "\<exists>st'. enter k m st = Some st' \<and> settled g U V st'"
proof -
  note R = assms(3) [unfolded ready_def]
  have m: "mb_id m = c" using memberByID_SomeD [OF assms(5)] by simp
  have "settled g U V ((onA (addCursor c) st)\<lparr>sp_idle := True\<rparr>)"
    using R addCursor_at [of g "sp_a st" c] by (intro at_unstarted_settled [OF assms(3,4)]) (auto simp: live_def)
  moreover have "settled g U V (budgetGate m v st)" for v
    using R budgetGate_facts [of g st m v] m by (intro at_unstarted_settled [OF assms(3,4)]) auto
  moreover have "\<exists>st'. enterKind k m (onA clearHold st) = Some st' \<and> settled g U V st'"
    using assms(5) R by (intro enterKind_settled [OF assms(1,2) ready_cong [OF assms(3)] assms(4) _ assms(6)]) simp_all
  moreover have "\<exists>st'. enterKind k m st = Some st' \<and> settled g U V st'" by (rule enterKind_settled [OF assms])
  ultimately show ?thesis by (auto simp: enter_def Let_def m)
qed

lemma follow_follows: "sound g \<Longrightarrow> follows g U V n (follow n)"
proof (induction n)
  case 0
  then show ?case by (simp add: follows_def)
next
  case (Suc n)
  have "\<exists>st'. followWith (follow n) m t e nm rs st = Some st' \<and> settled g U V st'"
    if R: "ready g U V t st" and d: "depth g t < Suc n" for m t e nm rs st
  proof (cases "t = []")
    case True
    then show ?thesis using pathEnded_settled [OF Suc.prems] R by (simp add: followWith_def)
  next
    case False
    have shp: "sameShape g (sp_a st)" and "t \<in> entrants g" using R False by (auto simp: ready_def)
    then obtain m0 where "memberByID g t = Some m0" using sound_byID [OF Suc.prems] by (auto simp: entrants_def)
    then obtain nx where nx: "memberByID (sp_a st) t = Some nx" using look' [OF shp] by metis
    have "ready g U V t (moved (mb_id m) nm nx e st)" using shp R by (intro ready_cong [OF R]) (simp_all add: ready_def)
    from enter_settled [OF Suc.prems Suc.IH [OF Suc.prems] this False, of nx] nx d
    show ?thesis using False automationMember_eq [OF Suc.prems shp, of t] by (simp add: followWith_def)
  qed
  then show ?case by (simp add: follows_def)
qed

end
