(* ===== verification/Automation_Run.thy ===== *)
theory Automation_Run
  imports Automation_Token
begin

text \<open>
  One step on a state that carries the token: with fuel above the number of members it returns, the token is in one of its
  phases again, and the starts it asks for are the members that were unstarted and run now. Then the operations around
  the step and the runs they make.
\<close>

section \<open>A step\<close>

definition terminalEnd :: "endOutcome \<Rightarrow> bool" where
  "terminalEnd e \<longleftrightarrow> eo_memStatus e \<notin> {MemberRunning, MemberPending, MemberOther []}"

lemma finalize_facts:
  assumes "sameShape g (sp_a st)"
  shows "sameShape g (sp_a (finalize st))" "memStatus (sp_a (finalize st)) = memStatus (sp_a st)"
    "au_activeCursors (sp_a (finalize st)) = au_activeCursors (sp_a st)" "au_status (sp_a (finalize st)) = au_status (sp_a st)"
    "automationIsLinear g \<Longrightarrow> au_currentMemberID (sp_a (finalize st)) = au_currentMemberID (sp_a st)"
    "sp_eff (finalize st) = sp_eff st" "au_budgetState (sp_a (finalize st)) = au_budgetState (sp_a st)"
  using assms shape_linear [OF assms] by (simp_all add: finalize_def Let_def)

lemma tokAt_cong:
  assumes "tokAt g a p" "memStatus b = memStatus a" "au_activeCursors b = au_activeCursors a" "au_status b = au_status a"
    and "automationIsLinear g \<Longrightarrow> au_currentMemberID b = au_currentMemberID a" "au_budgetState b = au_budgetState a"
  shows "tokAt g b p"
  using assms(1,3-5) sets_cong [OF assms(2)] budgetBlocked_cong [OF assms(6)]
  by (cases p) (auto simp: cursorAt_def noCursor_def waiting_def live_def)

lemma settled_cong:
  assumes "settled g U V st" "sameShape g (sp_a st')" "memStatus (sp_a st') = memStatus (sp_a st)" "au_activeCursors (sp_a st') = au_activeCursors (sp_a st)"
    and "au_status (sp_a st') = au_status (sp_a st)" "startIDs st' = startIDs st"
    and "automationIsLinear g \<Longrightarrow> au_currentMemberID (sp_a st') = au_currentMemberID (sp_a st)" "au_budgetState (sp_a st') = au_budgetState (sp_a st)"
  shows "settled g U V st'"
proof -
  obtain p where "tokAt g (sp_a st) p" using assms(1) by (auto simp: settled_def)
  then have "tokAt g (sp_a st') p" by (rule tokAt_cong) (use assms in \<open>auto simp: live_def\<close>)
  then have "\<exists>p. tokAt g (sp_a st') p" ..
  with assms(1,2,6) sets_cong [OF assms(3)] show ?thesis unfolding settled_def by simp
qed

lemma settled_finalize: "settled g U V st \<Longrightarrow> settled g U V (finalize st)"
proof -
  assume S: "settled g U V st"
  then have shp: "sameShape g (sp_a st)" by (simp add: settled_def)
  show ?thesis by (rule settled_cong [OF S]) (simp_all add: finalize_facts [OF shp])
qed

lemma newStepper_simps [simp]:
  "sp_a (newStepper a snap now c) = a" "ef_starts (sp_eff (newStepper a snap now c)) = []"
  by (simp_all add: newStepper_def noEffects_def)

lemma noteMerged_simps [simp]:
  "memStatus (sp_a (noteMerged m e st)) = memStatus (sp_a st)" "sameShape g (sp_a (noteMerged m e st)) = sameShape g (sp_a st)"
  "au_status (sp_a (noteMerged m e st)) = au_status (sp_a st)" "au_activeCursors (sp_a (noteMerged m e st)) = au_activeCursors (sp_a st)"
  "ef_starts (sp_eff (noteMerged m e st)) = ef_starts (sp_eff st)" "au_currentMemberID (sp_a (noteMerged m e st)) = au_currentMemberID (sp_a st)"
  "au_budgetState (sp_a (noteMerged m e st)) = au_budgetState (sp_a st)"
  by (auto simp: noteMerged_def Let_def decisionMergedMember_def split: option.split)

lemma finish_facts:
  assumes "sameShape g (sp_a st)"
  shows "sameShape g (sp_a (finish m e st))" "au_status (sp_a (finish m e st)) = au_status (sp_a st)" "ef_starts (sp_eff (finish m e st)) = ef_starts (sp_eff st)"
    "au_budgetState (sp_a (finish m e st)) = au_budgetState (sp_a st)"
    "memStatus (sp_a (finish m e st)) x = (if x = mb_id m \<and> memStatus (sp_a st) x \<noteq> None then Some (eo_memStatus e) else memStatus (sp_a st) x)"
    "\<not> automationIsLinear g \<Longrightarrow> au_activeCursors (sp_a (finish m e st)) = filter (\<lambda>c. c \<noteq> mb_id m) (au_activeCursors (sp_a st))"
proof -
  let ?f = "\<lambda>x. x\<lparr>mb_status := eo_memStatus e, mb_finishedAt := Some (sp_now st), mb_outcome := eo_outcome e, mb_edgeTaken := eo_edge e\<rparr>"
  have a: "sp_a (finish m e st) = (dropCursor (mb_id m) (setMember (mb_id m) ?f (sp_a st)))\<lparr>au_idleSince := None\<rparr>"
    by (simp add: finish_def Let_def)
  have shp: "sameShape g (setMember (mb_id m) ?f (sp_a st))" using assms by (simp add: bare_def)
  show "sameShape g (sp_a (finish m e st))" "au_status (sp_a (finish m e st)) = au_status (sp_a st)"
    "au_budgetState (sp_a (finish m e st)) = au_budgetState (sp_a st)"
    using shp by (simp_all add: a)
  show "ef_starts (sp_eff (finish m e st)) = ef_starts (sp_eff st)" by (simp add: finish_def Let_def)
  show "memStatus (sp_a (finish m e st)) x = (if x = mb_id m \<and> memStatus (sp_a st) x \<noteq> None then Some (eo_memStatus e) else memStatus (sp_a st) x)"
    by (simp add: a memStatus_setMember)
  show "\<not> automationIsLinear g \<Longrightarrow> au_activeCursors (sp_a (finish m e st)) = filter (\<lambda>c. c \<noteq> mb_id m) (au_activeCursors (sp_a st))"
    using shape_linear [OF shp] by (simp add: a dropCursor_def)
qed

lemma finish_sets:
  assumes "sameShape g (sp_a st)" "memStatus (sp_a st) (mb_id m) \<noteq> None" "terminalEnd e"
  shows "runningIDs (sp_a (finish m e st)) = runningIDs (sp_a st) - {mb_id m}" "unstarted (sp_a (finish m e st)) = unstarted (sp_a st) - {mb_id m}"
  using finish_facts(5) [OF assms(1), of m e] assms(2,3) by (auto simp: runningIDs_def unstarted_def terminalEnd_def)

text \<open>What a step may leave behind, and the members whose work is not over.\<close>

definition openWork :: "Automation \<Rightarrow> string set" where
  "openWork a = runningIDs a \<union> unstarted a"

definition stepLeaves :: "Automation \<Rightarrow> Automation \<Rightarrow> string set \<Rightarrow> Automation \<Rightarrow> string list \<Rightarrow> bool" where
  "stepLeaves g a D a' starts \<longleftrightarrow> sameShape g a' \<and> (\<exists>p. tokAt g a' p) \<and> unstarted a' \<subseteq> unstarted a \<and> openWork a' \<subseteq> openWork a - D
     \<and> distinct starts \<and> set starts = runningIDs a' \<inter> unstarted a \<inter> workIDs g"

lemma settled_leaves:
  assumes "settled g (unstarted a - D) (openWork a - D) st"
  shows "stepLeaves g a D (sp_a (finalize st)) (map ms_memberID (ef_starts (sp_eff (finalize st))))"
  using settled_finalize [OF assms] unfolding settled_def stepLeaves_def openWork_def by auto

lemma running_started: "runningIDs a \<inter> unstarted a = {}"
  by (auto simp: runningIDs_def unstarted_def)

lemma edgeTarget_edge: "edgeTarget m e = [] \<or> edgeTarget m e \<in> set (outcomeEdges m)"
  by (auto simp: edgeTarget_def outcomeEdges_def)

lemma live_cong: "au_status a = au_status b \<Longrightarrow> live a = live b"
  by (simp add: live_def)

text \<open>The end of the member the token is at.\<close>

lemma ready_after_end:
  assumes "sound g" "sameShape g (sp_a st)" "tokAt g (sp_a st) (At c)" "live (sp_a st)" "terminalEnd e" "startIDs st = []"
    and "memberByID g c = Some m0" "mb_id m = c" "t = [] \<or> t \<in> set (outcomeEdges m0)"
  shows "ready g (unstarted (sp_a st) - {c}) (openWork (sp_a st) - {c}) t (finish m e st)"
proof -
  have c: "memStatus (sp_a st) (mb_id m) \<noteq> None" using memStatus_None [OF assms(2), of c] assms(7,8) by simp
  note F = finish_facts [OF assms(2), of m e] and S = finish_sets [OF assms(2) c assms(5)]
  have fresh: "below g c \<subseteq> unstarted (sp_a (finish m e st))"
    using assms(3,8) S(2) below_irrefl [OF assms(1), of c] by auto
  have "t = [] \<or> t \<in> entrants g \<and> insert t (below g t) \<subseteq> unstarted (sp_a (finish m e st))"
    using assms(9) sound_edge [OF assms(1,7), of t] below_trans [of t g c] fresh by auto
  moreover have "runningIDs (sp_a (finish m e st)) = {}" using assms(3,8) S(1) by auto
  moreover have "noCursor g (sp_a (finish m e st))"
    using assms(3,8) F(6) by (auto simp: noCursor_def cursorAt_def)
  moreover have "live (sp_a (finish m e st))" "\<not> budgetBlocked (sp_a (finish m e st))"
    using assms(3,4) live_cong [OF F(2)] budgetBlocked_cong [OF F(4)] by simp_all
  ultimately show ?thesis using F(1,3) S(2) assms(6,8) by (auto simp: ready_def openWork_def)
qed

text \<open>The end of a branch of the join the token waits at.\<close>

lemma atJoin_after_end:
  assumes "sound g" "sameShape g (sp_a st)" "waiting g (sp_a st) i j" "terminalEnd e" "startIDs st = []"
    and "b \<in> set (au_activeCursors (sp_a st))" "mb_id m = b"
  shows "atJoin g (unstarted (sp_a st) - {b}) (openWork (sp_a st) - {b}) i j (decision k nt (finish m e st))"
proof -
  note W = assms(3) [unfolded waiting_def]
  have J: "isJoin g i j" and bj: "b \<in> set (mb_joinMembers j)" using W assms(6) by auto
  have "b \<in> workIDs g" using sound_join(3) [OF assms(1) J bj] by blast
  then have b: "memStatus (sp_a st) (mb_id m) \<noteq> None" using memStatus_None [OF assms(2), of b] assms(7) by (auto simp: workIDs_def)
  note F = finish_facts [OF assms(2), of m e] and S = finish_sets [OF assms(2) b assms(4)]
  have nb: "b \<noteq> i" "b \<notin> below g i" using branch_not_below [OF assms(1) J bj] by auto
  let ?st = "decision k nt (finish m e st)"
  have cur: "au_activeCursors (sp_a ?st) = filter (\<lambda>c. c \<noteq> b) (au_activeCursors (sp_a st))"
    using F(6) join_not_linear [OF J] assms(7) by simp
  have sets: "runningIDs (sp_a ?st) = runningIDs (sp_a st) - {b}" "unstarted (sp_a ?st) = unstarted (sp_a st) - {b}"
    using S sets_cong [of "sp_a ?st" "sp_a (finish m e st)"] assms(7) by simp_all
  have "live (sp_a ?st)" "\<not> budgetBlocked (sp_a ?st)"
    using W F(2,4) live_cong [of "sp_a ?st" "sp_a st"] budgetBlocked_cong [of "sp_a ?st" "sp_a st"] by simp_all
  then have "waiting g (sp_a ?st) i j"
    unfolding waiting_def cur sets using W nb by auto
  moreover have "set (filter (\<lambda>c. c \<noteq> b) (au_activeCursors (sp_a st))) \<inter> (unstarted (sp_a st) - {b}) = {}"
    using W running_started [of "sp_a st"] by auto
  ultimately show ?thesis
    unfolding atJoin_def cur sets using F(1,3) assms(5) by (auto simp: openWork_def)
qed

lemma joinOf_None: "sameShape g a \<Longrightarrow> c \<notin> branchIDs g \<Longrightarrow> joinOf a c = None"
proof -
  assume shp: "sameShape g a" and c: "c \<notin> branchIDs g"
  have "joinOf g c = None" using c by (auto simp: joinOf_def find_None_iff branchIDs_def)
  with shape_joinOf [OF shp, of c] show ?thesis by simp
qed

lemma depth_target:
  assumes "sound g" "memberByID g i = Some m0" "t = [] \<or> t \<in> set (outcomeEdges m0)" "length (au_members g) < n"
  shows "depth g t < n"
proof -
  have "t = [] \<or> t \<in> mb_id ` set (au_members g)" using assms(3) sound_edge(1) [OF assms(1,2)] by (auto simp: entrants_def)
  from depth_le [OF assms(1) this] assms(4) show ?thesis by simp
qed

abbreviation effStarts :: "stepEffects \<Rightarrow> string list" where
  "effStarts eff \<equiv> map ms_memberID (ef_starts eff)"

lemma stepEnd_leaves:
  assumes "sound g" "sameShape g a" "tokAt g a p" "live a" "terminalEnd (si_end inp)" "length (au_members g) < n"
    and "automationMember a (si_memberID inp) = Some mem" "isLiveCursor a (mb_id mem)" "\<not> (eo_revert (si_end inp) \<and> mb_status mem \<noteq> MemberRunning)"
  shows "\<exists>a' eff. stepEnd n a inp snap = Some (Stepped a' eff) \<and> stepLeaves g a {si_memberID inp} a' (effStarts eff)"
proof -
  let ?i = "si_memberID inp" and ?e = "si_end inp"
  let ?U = "unstarted a - {?i}" and ?V = "openWork a - {?i}"
  have byid: "memberByID a ?i = Some mem" using automationMember_eq [OF assms(1,2)] assms(7) by simp
  have idm: "mb_id mem = ?i" using memberByID_SomeD [OF byid] by simp
  obtain m0 where m0: "memberByID g ?i = Some m0" "bare mem = bare m0" using look [OF assms(2) byid] .
  define st where "st = noteMerged mem ?e (newStepper a snap (si_now inp) (si_breachChoice inp))"
  have st: "memStatus (sp_a st) = memStatus a" "sameShape g (sp_a st)" "au_status (sp_a st) = au_status a"
      "au_activeCursors (sp_a st) = au_activeCursors a" "startIDs st = []" "au_budgetState (sp_a st) = au_budgetState a"
    using assms(2) by (simp_all add: st_def)
  have sets: "unstarted (sp_a st) = unstarted a" "openWork (sp_a st) = openWork a"
    using sets_cong [OF st(1)] by (simp_all add: openWork_def)
  have "\<exists>st'. (case joinOf a ?i of
      Some join \<Rightarrow> let e' = ?e\<lparr>eo_edge := []\<rparr>;
                     note = (if eo_note e' = [] then ''branch '' @ memberName st mem @ '' ended '' @ eo_outcome e' else eo_note e')
                 in evalJoin (follow n) (mb_id join) (decision ''branch'' note (finish mem e' st))
    | None \<Rightarrow> if eo_direct ?e \<noteq> [] then Some (block (eo_direct ?e) (finish mem ?e st)) else followEdge n mem ?e (finish mem ?e st)) = Some st'
    \<and> settled g ?U ?V st'"
  proof (cases p)
    case (At c)
    have ci: "c = ?i" using assms(3,8) At shape_linear [OF assms(2)] idm by (auto simp: isLiveCursor_def cursorAt_def split: if_splits)
    have none: "joinOf a ?i = None" using assms(3) At ci joinOf_None [OF assms(2)] by (auto simp: entrants_def)
    have tok: "tokAt g (sp_a st) (At ?i)"
      by (rule tokAt_cong [OF assms(3) [unfolded At ci] st(1,4,3) _ st(6)]) (simp add: st_def)
    have rd: "ready g ?U ?V t (finish mem ?e st)" if "t = [] \<or> t \<in> set (outcomeEdges m0)" for t
      using ready_after_end [OF assms(1) st(2) tok _ assms(5) st(5) m0(1) idm that] live_cong [OF st(3)] assms(4) sets by simp
    have tgt: "edgeTarget mem (eo_edge ?e) = [] \<or> edgeTarget mem (eo_edge ?e) \<in> set (outcomeEdges m0)"
      using edgeTarget_edge [of mem "eo_edge ?e"] bare_eqD(6) [OF m0(2)] by simp
    have bl: "settled g ?U ?V (block (eo_direct ?e) (finish mem ?e st))"
      using rd [of "[]"] sets_cong [of "sp_a (block (eo_direct ?e) (finish mem ?e st))" "sp_a (finish mem ?e st)"]
      by (intro over_settled) (auto simp: ready_def noCursor_def)
    have "\<exists>st'. followEdge n mem ?e (finish mem ?e st) = Some st' \<and> settled g ?U ?V st'"
      using follow_follows [OF assms(1), of ?U ?V n] rd [OF tgt] depth_target [OF assms(1) m0(1) tgt assms(6)]
      unfolding followEdge_def Let_def follows_def by blast
    with none bl show ?thesis by simp
  next
    case (Region ji)
    then obtain j where W: "waiting g a ji j" using assms(3) by auto
    then have J: "isJoin g ji j" by (simp add: waiting_def)
    have cur: "?i \<in> set (au_activeCursors a)"
      using assms(8) idm join_not_linear [OF J] shape_linear [OF assms(2)] by (simp add: isLiveCursor_def)
    have "joinOf g ?i = Some j" using sound_join(3) [OF assms(1) J] W cur by (auto simp: waiting_def)
    with shape_joinOf [OF assms(2), of ?i] obtain j' where j': "joinOf a ?i = Some j'" "bare j' = bare j" by auto
    have idj: "mb_id j' = ji" using bare_eqD(1) [OF j'(2)] memberByID_SomeD [of g ji j] J by (simp add: isJoin_def)
    have W': "waiting g (sp_a st) ji j" using W sets_cong [OF st(1)] st(4) live_cong [OF st(3)] budgetBlocked_cong [OF st(6)] by (simp add: waiting_def)
    have "terminalEnd (?e\<lparr>eo_edge := []\<rparr>)" using assms(5) by (simp add: terminalEnd_def)
    note at = atJoin_after_end [OF assms(1) st(2) W' this st(5) _ idm]
    have "ji \<in> mb_id ` set (au_members g)" using J memberByID_SomeD by (force simp: isJoin_def)
    then have dep: "depth g ji \<le> n" using depth_le [OF assms(1), of ji] assms(6) by simp
    have at': "atJoin g ?U ?V ji j (decision ''branch'' nt (finish mem (?e\<lparr>eo_edge := []\<rparr>) st))" for nt
      using at cur st(4) sets by simp
    have "\<exists>st'. evalJoin (follow n) ji (decision ''branch'' nt (finish mem (?e\<lparr>eo_edge := []\<rparr>) st)) = Some st' \<and> settled g ?U ?V st'" for nt
      by (rule evalJoin_settled [OF assms(1) follow_follows [OF assms(1)] at' dep])
    then show ?thesis using j'(1) idj by (simp add: Let_def)
  next
    case Over
    then show ?thesis using assms(3,4) by simp
  next
    case Gone
    then show ?thesis using assms(3,4) by (simp add: live_def)
  qed
  then obtain st' where run: "stepEnd n a inp snap = Some (stepDone st')" and st': "settled g ?U ?V st'"
    using assms(7-9) idm unfolding stepEnd_def st_def Let_def by (auto simp: Let_def)
  from run show ?thesis using settled_leaves [OF st'] by (auto simp: stepDone_def Let_def)
qed

text \<open>Starting a cursor member that was held back, and the re-evaluation of a waiting join, which finds nothing to do.\<close>

lemma drop_ended:
  assumes "settled g U V st" "memStatus (sp_a st) c = Some MemberCompleted"
  shows "settled g U V (onA (dropCursor c) st)"
proof -
  obtain p where p: "tokAt g (sp_a st) p" and S: "sameShape g (sp_a st)" using assms(1) by (auto simp: settled_def)
  have out: "c \<notin> runningIDs (sp_a st)" "c \<notin> unstarted (sp_a st)" using assms(2) by (auto simp: runningIDs_def unstarted_def)
  show ?thesis
  proof (cases "p = Gone")
    case True
    then have "\<exists>p. tokAt g (sp_a (onA (dropCursor c) st)) p" using p by (intro exI [of _ Gone]) simp
    with assms(1) sets_cong [of "sp_a (onA (dropCursor c) st)" "sp_a st"] show ?thesis unfolding settled_def by simp
  next
    case False
    have "\<not> automationIsLinear g \<Longrightarrow> c \<notin> set (au_activeCursors (sp_a st))"
      using p False out by (cases p) (auto simp: cursorAt_def waiting_def noCursor_def)
    then have "\<not> automationIsLinear g \<Longrightarrow> filter (\<lambda>x. x \<noteq> c) (au_activeCursors (sp_a st)) = au_activeCursors (sp_a st)"
      by (intro filter_True) auto
    then have "dropCursor c (sp_a st) = sp_a st" using shape_linear [OF S] by (simp add: dropCursor_def)
    then have "onA (dropCursor c) st = st" by (simp add: onA_def)
    with assms(1) show ?thesis by simp
  qed
qed

lemma live_cursor_At: "sameShape g a \<Longrightarrow> tokAt g a (At c) \<Longrightarrow> isLiveCursor a i \<Longrightarrow> i = c"
  using shape_linear [of g a] by (auto simp: isLiveCursor_def cursorAt_def split: if_splits)

lemma live_cursor_Region: "sameShape g a \<Longrightarrow> tokAt g a (Region j) \<Longrightarrow> isLiveCursor a i \<Longrightarrow> i \<in> runningIDs a"
  using shape_linear [of g a] join_not_linear [of g j] by (auto simp: isLiveCursor_def waiting_def)

lemma unstarted_member: "memberByID a i = Some m \<Longrightarrow> i \<in> unstarted a \<longleftrightarrow> memberUnstarted m"
  by (simp add: unstarted_def memStatus_def memberUnstarted_def)

lemma unstarted_cursor:
  assumes "sameShape g a" "tokAt g a p" "live a" "isLiveCursor a i" "i \<in> unstarted a"
  shows "tokAt g a (At i)" "runningIDs a = {}"
proof -
  have "i \<notin> runningIDs a" using assms(5) running_started by blast
  with assms live_cursor_Region [OF assms(1)] obtain c where "p = At c" by (cases p) (auto simp: live_def)
  with assms(1,2,4) show "tokAt g a (At i)" using live_cursor_At by blast
  with \<open>i \<notin> runningIDs a\<close> show "runningIDs a = {}" by auto
qed

lemma stepStartPending_leaves:
  assumes "sound g" "sameShape g a" "tokAt g a p" "live a" "length (au_members g) < n"
  shows "\<exists>r. stepStartPending n a inp snap = Some r \<and> (\<forall>a' eff. r = Stepped a' eff \<longrightarrow> stepLeaves g a {} a' (effStarts eff))"
proof (cases "\<exists>mem. automationMember a (si_memberID inp) = Some mem \<and> isLiveCursor a (mb_id mem) \<and> memberUnstarted mem")
  case True
  let ?i = "si_memberID inp"
  obtain mem where mem: "automationMember a ?i = Some mem" "isLiveCursor a (mb_id mem)" "memberUnstarted mem" using True by blast
  have byid: "memberByID a ?i = Some mem" using automationMember_eq [OF assms(1,2)] mem(1) by simp
  have idm: "mb_id mem = ?i" using memberByID_SomeD [OF byid] by simp
  have ui: "?i \<in> unstarted a" using unstarted_member [OF byid] mem(3) by simp
  note A = unstarted_cursor [OF assms(2-4) mem(2) [unfolded idm] ui]
  define st where "st = onA (dropCursor ?i) (newStepper a snap (si_now inp) [])"
  define st1 where "st1 = st\<lparr>sp_advNote := NoteText (''started '' @ memberName st mem)\<rparr>"
  have a1: "sp_a st1 = dropCursor ?i a" "startIDs st1 = []" by (simp_all add: st1_def st_def)
  have "noCursor g (dropCursor ?i a)"
    using A(1) shape_linear [OF assms(2)] by (auto simp: noCursor_def cursorAt_def dropCursor_def)
  then have rd: "ready g (unstarted a) (openWork a) ?i st1"
    using A assms(2,4) ui sets_cong [of "dropCursor ?i a" a] by (auto simp: ready_def a1 openWork_def live_def)
  have ne: "?i \<noteq> []" using A(1) sound_not_Nil [OF assms(1)] look [OF assms(2) byid] by metis
  have "?i \<in> mb_id ` set (au_members g)" using A(1) by (auto simp: entrants_def)
  then have dep: "depth g ?i \<le> n" using depth_le [OF assms(1), of ?i] assms(5) by simp
  have "memberByID (sp_a st1) ?i = Some mem" using byid same_members(2) [of "dropCursor ?i a" a] by (simp add: a1)
  from enter_settled [OF assms(1) follow_follows [OF assms(1)] rd ne this dep] obtain st2 where
    st2: "enter (follow n) mem st1 = Some st2" "settled g (unstarted a) (openWork a) st2" by blast
  define st3 where "st3 = (if memberKind mem = MemberKindFork \<and> map_option mb_status (automationMember (sp_a st2) ?i) = Some MemberCompleted
      then onA (dropCursor ?i) st2 else st2)"
  have shp2: "sameShape g (sp_a st2)" using st2(2) by (simp add: settled_def)
  have "memStatus (sp_a st2) ?i = map_option mb_status (automationMember (sp_a st2) ?i)"
    using automationMember_eq [OF assms(1) shp2, of ?i] by (simp add: memStatus_def)
  then have S3: "settled g (unstarted a - {}) (openWork a - {}) st3" using st2(2) drop_ended [OF st2(2), of ?i] by (simp add: st3_def)
  have "stepStartPending n a inp snap \<in> {Some StaleStep, Some (stepDone st3)}"
    unfolding stepStartPending_def mem(1) option.case st3_def idm Let_def st_def [symmetric] st1_def [symmetric] st2(1) by auto
  with settled_leaves [OF S3] show ?thesis by (auto simp: stepDone_def Let_def)
next
  case False
  then show ?thesis by (auto simp: stepStartPending_def split: option.split)
qed

lemma stepJoinReeval_stale:
  assumes "sound g" "sameShape g a" "tokAt g a p" "live a"
  shows "stepJoinReeval n a inp snap = Some StaleStep"
proof (cases "automationMember a (si_memberID inp)")
  case (Some m)
  let ?i = "si_memberID inp"
  have byid: "memberByID a ?i = Some m" using automationMember_eq [OF assms(1,2)] Some by simp
  have idm: "mb_id m = ?i" using memberByID_SomeD [OF byid] by simp
  show ?thesis
  proof (cases "memberKind m = MemberKindJoin \<and> mb_status m = MemberRunning")
    case True
    obtain m0 where m0: "memberByID g ?i = Some m0" "bare m = bare m0" using look [OF assms(2) byid] .
    have nw: "?i \<notin> workIDs g" using m0 True bare_eqD(3) [OF m0(2)] by (auto simp: workIDs_def)
    have run: "?i \<in> runningIDs a" using True byid by (simp add: runningIDs_def memStatus_def)
    obtain i j where p: "p = Region i" "waiting g a i j" "au_activeCursors a \<noteq> []" "joinRule j = BranchAnyOneIsEnough \<longrightarrow> noneWon a j"
      using assms(3,4) nw run by (cases p) (auto simp: live_def)
    have "?i = i"
    proof (rule ccontr)
      assume "?i \<noteq> i"
      then have "?i \<in> set (mb_joinMembers j)" "isJoin g i j" using p(2) run by (auto simp: waiting_def)
      with sound_join(3) [OF assms(1)] nw show False by blast
    qed
    then have "evalJoin (follow n) ?i (newStepper a snap (si_now inp) []) = Some (newStepper a snap (si_now inp) [])"
      using evalJoin_undecided [OF assms(1), of "newStepper a snap (si_now inp) []"] assms(2) p by simp
    with True Some idm show ?thesis by (simp add: stepJoinReeval_def)
  qed (use Some in \<open>auto simp: stepJoinReeval_def\<close>)
qed (simp add: stepJoinReeval_def)

lemma stepLeaves_weaken: "stepLeaves g a D a' ss \<Longrightarrow> stepLeaves g a {} a' ss"
  by (auto simp: stepLeaves_def)

lemma step_leaves:
  assumes "sound g" "sameShape g a" "tokAt g a p" "live a" "terminalEnd (si_end inp)" "length (au_members g) < n"
  shows "\<exists>r. step n a inp snap = Some r \<and> (\<forall>a' eff. r = Stepped a' eff \<longrightarrow> stepLeaves g a {} a' (effStarts eff))"
proof -
  have "\<exists>r. stepEnd n a inp snap = Some r \<and> (\<forall>a' eff. r = Stepped a' eff \<longrightarrow> stepLeaves g a {} a' (effStarts eff))"
  proof (cases "\<exists>mem. automationMember a (si_memberID inp) = Some mem \<and> isLiveCursor a (mb_id mem)
      \<and> \<not> (eo_revert (si_end inp) \<and> mb_status mem \<noteq> MemberRunning)")
    case True
    with stepEnd_leaves [OF assms, of _ snap] stepLeaves_weaken show ?thesis by fastforce
  next
    case False
    then show ?thesis by (auto simp: stepEnd_def split: option.split)
  qed
  then show ?thesis
    using stepStartPending_leaves [OF assms(1-4,6)] stepJoinReeval_stale [OF assms(1-4)] by (simp add: step_def)
qed

end
