(* ===== verification/Automation_Lifecycle.thy ===== *)
theory Automation_Lifecycle
  imports Automation_Run Automation_Control
begin

text \<open>
  The life of an Automation: a fresh draft is activated, then steps, retried starts, pauses, resumes, cancels and skips follow
  in any order (\<open>lifeOf\<close>). Each keeps the token in one of its phases and asks only for starts of members that were never
  started.
\<close>

section \<open>The store's normalisation\<close>

lemma normalize_simps [simp]:
  "memStatus (normalizeActiveCursors a) = memStatus a" "sameShape g (normalizeActiveCursors a) = sameShape g a"
  "au_status (normalizeActiveCursors a) = au_status a" "au_currentMemberID (normalizeActiveCursors a) = au_currentMemberID a"
  "au_budgetState (normalizeActiveCursors a) = au_budgetState a" "au_members (normalizeActiveCursors a) = au_members a"
  by (simp_all add: normalizeActiveCursors_def)

lemma sortedUnique_distinct: "distinct xs \<Longrightarrow> sortedUniqueStrings xs = sort xs"
  by (simp add: sortedUniqueStrings_def remdups_adj_distinct)

lemma normalize_cursors:
  assumes "sameShape g a" "\<not> automationIsLinear g"
  shows "au_activeCursors (normalizeActiveCursors a) = sortedUniqueStrings (au_activeCursors a)"
  using shape_linear [OF assms(1)] assms(2) by (simp add: normalizeActiveCursors_def)

lemma tokAt_normalize:
  assumes "sameShape g a" "tokAt g a p"
  shows "tokAt g (normalizeActiveCursors a) p"
proof -
  let ?b = "normalizeActiveCursors a"
  note S = sets_cong [of ?b a, OF normalize_simps(1)] and B = budgetBlocked_cong [of ?b a, OF normalize_simps(5)]
  have L: "live ?b = live a" by (simp add: live_def)
  note N = normalize_cursors [OF assms(1)]
  show ?thesis
  proof (cases p)
    case (At c)
    then show ?thesis using assms(2) N by (auto simp: S B L cursorAt_def sortedUniqueStrings_def)
  next
    case (Region i)
    then obtain j where j: "waiting g a i j" "au_activeCursors a \<noteq> []" "joinRule j = BranchAnyOneIsEnough \<longrightarrow> noneWon a j" using assms(2) by auto
    then have "\<not> automationIsLinear g" "distinct (au_activeCursors a)" using join_not_linear by (auto simp: waiting_def)
    with N have "au_activeCursors ?b = sort (au_activeCursors a)" by (simp add: sortedUnique_distinct)
    with j have "waiting g ?b i j" "au_activeCursors ?b \<noteq> []"
      by (auto simp: waiting_def S B L sort_Nil_iff)
    with j(3) Region show ?thesis by (auto simp: S)
  next
    case Over
    then show ?thesis using assms(2) N by (cases "automationIsLinear g") (auto simp: S B L noCursor_def sortedUniqueStrings_def)
  qed (use assms(2) in simp)
qed

lemma stepLeaves_normalize: "stepLeaves g a D b ss \<Longrightarrow> stepLeaves g a D (normalizeActiveCursors b) ss"
  unfolding stepLeaves_def openWork_def using tokAt_normalize [of g b] sets_cong [of "normalizeActiveCursors b" b, OF normalize_simps(1)] by auto

section \<open>What each operation leaves\<close>

lemma controlNote_simps [simp]:
  "memStatus (controlNote k act t nt a) = memStatus a" "sameShape g (controlNote k act t nt a) = sameShape g a"
  "au_status (controlNote k act t nt a) = au_status a" "au_currentMemberID (controlNote k act t nt a) = au_currentMemberID a"
  "au_budgetState (controlNote k act t nt a) = au_budgetState a" "au_members (controlNote k act t nt a) = au_members a"
  "au_activeCursors (controlNote k act t nt a) = au_activeCursors a" "au_entryMemberID (controlNote k act t nt a) = au_entryMemberID a"
  using same_members [of "controlNote k act t nt a" a] by (simp_all add: controlNote_def)

lemma quiet_leaves:
  assumes "sameShape g b" "memStatus b = memStatus a" "tokAt g b p"
  shows "stepLeaves g a {} b []"
  using assms(1,3) sets_cong [OF assms(2)] running_started [of a] by (auto simp: stepLeaves_def openWork_def)

lemma pause_leaves:
  assumes "sameShape g a" "tokAt g a p" "PauseAutomation actor now a = Inr b"
  shows "stepLeaves g a {} b []"
proof -
  have act: "au_status a = AutomationActive" and mem: "memStatus b = memStatus a" and rest: "sameShape g b" "au_status b = AutomationPaused"
      "au_activeCursors b = au_activeCursors a" "au_currentMemberID b = au_currentMemberID a" "au_budgetState b = au_budgetState a"
    using assms(1,3) by (auto simp: PauseAutomation_def guarded_def checkControlStatus_def Let_def split: option.splits if_splits)
  have "tokAt g b p"
    using assms(2) act rest sets_cong [OF mem] budgetBlocked_cong [OF rest(5)]
    by (cases p) (auto simp: live_def cursorAt_def waiting_def)
  with rest(1) mem show ?thesis by (intro quiet_leaves)
qed

lemma resume_leaves:
  assumes "sameShape g a" "tokAt g a p" "ResumeAutomation vf actor now a = Inr b"
  shows "stepLeaves g a {} b []"
proof -
  have st: "au_status a = AutomationPaused \<or> au_status a = AutomationBlocked \<and> budgetEpisodeOpen a" and mem: "memStatus b = memStatus a"
      and rest: "sameShape g b" "au_status b = AutomationActive"
      "au_activeCursors b = au_activeCursors a" "au_currentMemberID b = au_currentMemberID a" "au_budgetState b = None"
    using assms(1,3) by (auto simp: ResumeAutomation_def checkControlStatus_def resumableStatuses_def Let_def split: option.splits if_splits)
  have "budgetEpisodeOpen a \<Longrightarrow> au_status a = AutomationBlocked \<Longrightarrow> budgetBlocked a"
    by (auto simp: budgetEpisodeOpen_def budgetBlocked_def split: option.splits)
  moreover have "\<not> budgetBlocked b" using rest(5) by (simp add: budgetBlocked_def)
  ultimately have "tokAt g b p"
    using assms(2) st rest sets_cong [OF mem] by (cases p) (auto simp: live_def cursorAt_def waiting_def)
  with rest(1) mem show ?thesis by (intro quiet_leaves)
qed

lemma memberByID_map:
  assumes "\<And>m. mb_id (f m) = mb_id m"
  shows "memberByID (a\<lparr>au_members := map f (au_members a)\<rparr>) i = map_option f (memberByID a i)"
  by (simp add: memberByID_def find_map assms)

lemma cancel_leaves:
  assumes "sameShape g a" "cancelAutomation can actor req inFlight now a = Inr (b, ends)"
  shows "stepLeaves g a {} b []"
proof -
  let ?a1 = "a\<lparr>au_members := map (cancelMember inFlight now) (au_members a)\<rparr>"
  have mem: "memStatus b = memStatus ?a1" and shp: "sameShape g b = sameShape g ?a1" and st: "au_status b = AutomationCancelled"
    using assms(2) by (auto simp: cancelAutomation_def Let_def split: option.splits if_splits)
  have "bare (cancelMember inFlight now m) = bare m" for m by (simp add: cancelMember_def bare_def)
  then have "sameShape g ?a1" using assms(1) by (simp add: sameShape_def comp_def)
  moreover have id: "mb_id (cancelMember inFlight now m) = mb_id m" for m by (simp add: cancelMember_def)
  have stat: "memStatus b x = map_option (\<lambda>m. mb_status (cancelMember inFlight now m)) (memberByID a x)" for x
    unfolding mem by (simp add: memStatus_def memberByID_map [OF id] comp_def option.map_comp)
  have "unstarted b = {}"
    by (auto simp: unstarted_def stat cancelMember_def memberUnstarted_def split: if_splits)
  moreover have "runningIDs b \<subseteq> runningIDs a"
  proof
    fix x assume "x \<in> runningIDs b"
    then obtain m where "memberByID a x = Some m" "mb_status (cancelMember inFlight now m) = MemberRunning"
      by (auto simp: runningIDs_def stat)
    then show "x \<in> runningIDs a" by (auto simp: runningIDs_def memStatus_def cancelMember_def split: if_splits)
  qed
  moreover have "tokAt g b Gone" using st by simp
  then have "\<exists>p. tokAt g b p" ..
  ultimately show ?thesis using shp running_started [of a] by (auto simp: stepLeaves_def openWork_def)
qed

lemma skip_leaves:
  assumes "sound g" "sameShape g a" "tokAt g a p" "length (au_members g) < n" "SkipMember n i edge actor snap now a = Some (Inr (b, eff))"
  shows "stepLeaves g a {} b (effStarts eff)"
proof -
  obtain tgt e a1 nt where S: "live a" "step n a (skipInput tgt e now) snap = Some (Stepped a1 eff)"
    and b: "b = controlNote ''automation_skip_member'' (orActor actor) now nt (setMember tgt (\<lambda>m. m\<lparr>mb_edgeTaken := e\<rparr>) a1)"
  proof -
    define e where "e = (if edge = [] then edgeOnComplete else edge)"
    have ok: "checkControlStatus a [AutomationActive, AutomationPaused] = None"
      using assms(5) by (auto simp: SkipMember_def Let_def split: option.splits if_splits)
    obtain tgt where tgt: "resolveBranch a i = Inr tgt"
      using assms(5) ok by (cases "resolveBranch a i") (auto simp: SkipMember_def Let_def split: if_splits)
    define nt where "nt = NoteText (''skipped member '' @ tgt @ '' via '' @ e)"
    have R: "map_option (\<lambda>r. case r of
                      StaleStep \<Rightarrow> Inl (StaleBranch tgt)
                    | Stepped a1 eff \<Rightarrow>
                        Inr (controlNote ''automation_skip_member'' (orActor actor) now nt (setMember tgt (\<lambda>m. m\<lparr>mb_edgeTaken := e\<rparr>) a1), eff))
                   (step n a (skipInput tgt e now) snap) = Some (Inr (b, eff))"
      using assms(5) ok tgt unfolding SkipMember_def Let_def e_def [symmetric] nt_def
      by (simp only: option.case sum.case option.inject sum.distinct split: if_split_asm)
    then obtain r where r: "step n a (skipInput tgt e now) snap = Some r" by (cases "step n a (skipInput tgt e now) snap") simp_all
    with R obtain a1 where "step n a (skipInput tgt e now) snap = Some (Stepped a1 eff)"
      "b = controlNote ''automation_skip_member'' (orActor actor) now nt (setMember tgt (\<lambda>m. m\<lparr>mb_edgeTaken := e\<rparr>) a1)"
      by (cases r) auto
    moreover have "live a" using ok by (auto simp: live_def checkControlStatus_def split: if_splits)
    ultimately show ?thesis using that by blast
  qed
  have "terminalEnd (si_end (skipInput tgt e now))" by (simp add: terminalEnd_def skipInput_def skipEnd_def plainEnd_def)
  from step_leaves [OF assms(1-3) S(1) this assms(4), of snap] S(2) have L: "stepLeaves g a {} a1 (effStarts eff)" by auto
  have mem: "memStatus b = memStatus a1"
  proof
    fix x show "memStatus b x = memStatus a1 x"
      unfolding b controlNote_simps by (cases "memberByID a1 tgt") (auto simp: memStatus_def memberByID_setMember)
  qed
  have shp: "sameShape g b = sameShape g a1" by (simp add: b bare_def)
  obtain q where "tokAt g a1 q" using L by (auto simp: stepLeaves_def)
  then have "tokAt g b q" by (rule tokAt_cong [OF _ mem]) (simp_all add: b)
  then have "\<exists>q. tokAt g b q" ..
  with L shp sets_cong [OF mem] show ?thesis by (simp add: stepLeaves_def openWork_def)
qed

lemma retry_guard:
  assumes "retryPendingStart i name status v now a = Some r"
  obtains cur where "automationMember a i = Some cur" "au_status a = AutomationActive" "isLiveCursor a i" "memberUnstarted cur"
  using assms by (auto simp: retryPendingStart_def Let_def split: option.splits if_splits)

lemma retry_token:
  assumes "sound g" "sameShape g a" "tokAt g a p" "retryPendingStart i name status v now a = Some r"
  shows "tokAt g a (At i)" "runningIDs a = {}" "i \<in> unstarted a" "live a"
proof -
  obtain cur where G: "automationMember a i = Some cur" "au_status a = AutomationActive" "isLiveCursor a i" "memberUnstarted cur"
    using retry_guard [OF assms(4)] .
  have "memberByID a i = Some cur" using automationMember_eq [OF assms(1,2)] G(1) by simp
  then show u: "i \<in> unstarted a" using unstarted_member G(4) by blast
  show l: "live a" using G(2) by (simp add: live_def)
  show "tokAt g a (At i)" "runningIDs a = {}" using unstarted_cursor [OF assms(2,3) l G(3) u] by simp_all
qed

lemma retryStart_leaves:
  assumes "sound g" "sameShape g a" "tokAt g a p" "retryPendingStart i name status v now a = Some (RetryStart b s)"
    and "automationMember a i = Some mem" "memberKind mem = MemberKindPRD"
  shows "stepLeaves g a {} b [ms_memberID s]"
proof -
  note T = retry_token [OF assms(1-4)]
  let ?c = "setMember i (\<lambda>m. m\<lparr>mb_status := MemberRunning, mb_startedAt := Some now\<rparr>) a"
  have b: "memStatus b = memStatus ?c" "sameShape g b = sameShape g ?c" "au_status b = au_status a" "au_activeCursors b = au_activeCursors a"
    "au_currentMemberID b = au_currentMemberID a" "au_budgetState b = None" "ms_memberID s = i"
    using assms(4) by (auto simp: retryPendingStart_def Let_def split: option.splits if_splits prod.splits)
  have byid: "memberByID a i = Some mem" using automationMember_eq [OF assms(1,2)] assms(5) by simp
  obtain m0 where m0: "memberByID g i = Some m0" "bare mem = bare m0" using look [OF assms(2) byid] .
  then have w: "i \<in> workIDs g" using bare_eqD(3) [OF m0(2)] assms(6) by (simp add: workIDs_def)
  have stat: "memStatus b x = (if x = i then Some MemberRunning else memStatus a x)" for x
    using byid by (simp add: b(1) memStatus_setMember) (simp add: memStatus_def)
  have run: "runningIDs b = {i}" using T(2) by (auto simp: runningIDs_def stat)
  have uns: "unstarted b = unstarted a - {i}" by (auto simp: unstarted_def stat)
  have "tokAt g b (At i)"
    using T(1) b(3-6) run uns w below_irrefl [OF assms(1), of i] by (auto simp: cursorAt_def budgetBlocked_def)
  then have "\<exists>p. tokAt g b p" ..
  moreover have "sameShape g b" using b(2) assms(2) by (simp add: bare_def)
  ultimately show ?thesis using run uns b(7) w T(3) by (auto simp: stepLeaves_def openWork_def)
qed

lemma retryGated_leaves:
  assumes "sound g" "sameShape g a" "tokAt g a p" "retryPendingStart i name status v now a = Some (RetryGated b be)"
  shows "stepLeaves g a {} b []"
proof -
  note T = retry_token [OF assms(1-4)]
  obtain cur where cur: "automationMember a i = Some cur" "isLiveCursor a i" using retry_guard [OF assms(4)] by metis
  have idc: "mb_id cur = i" using cur(1) memberByID_SomeD by (auto simp: automationMember_def split: if_splits)
  let ?c = "fst (applyBudgetGate (Some cur) v now False a)"
  have b: "memStatus b = memStatus ?c" "sameShape g b = sameShape g ?c" "au_status b = au_status ?c" "au_activeCursors b = au_activeCursors ?c"
    "au_currentMemberID b = au_currentMemberID ?c" "au_budgetState b = au_budgetState ?c"
    using assms(4) cur(1) by (auto simp: retryPendingStart_def Let_def zeroVerdict_def split: option.splits if_splits prod.splits)
  have mem: "au_members ?c = au_members a" by (rule applyBudgetGate_fields)
  have gc: "gateCursor cur a = a" using cur(2) idc by (simp add: gateCursor_def)
  have stat: "memStatus b = memStatus a" using b(1) same_members(1) [OF mem] by simp
  have "au_status b \<noteq> AutomationCompleted"
    using applyBudgetGate_status [of cur v now False a] T(4) b(3) by (auto simp: live_def)
  moreover have "live b \<longrightarrow> \<not> budgetBlocked b"
    using applyBudgetGate_budget [of "Some cur" v now False a] live_cong [OF b(3)] budgetBlocked_cong [OF b(6)] by simp
  ultimately have "tokAt g b (At i)"
    using T(1,2,3) sets_cong [OF stat] b(4,5) applyBudgetGate_fields(2,3) [of cur v now False a] gc by (auto simp: cursorAt_def)
  moreover have "sameShape g b" using b(2) assms(2) same_members(4) [OF mem] by simp
  ultimately show ?thesis using stat by (intro quiet_leaves)
qed

lemma retryBlocked_leaves:
  assumes "sound g" "sameShape g a" "tokAt g a p" "retryPendingStart i name status v now a = Some (RetryBlocked b reason)"
  shows "stepLeaves g a {} b []"
proof -
  note T = retry_token [OF assms(1-4)]
  have b: "memStatus b = memStatus a" "sameShape g b = sameShape g a" "au_status b = AutomationBlocked" "au_activeCursors b = au_activeCursors a"
    "au_currentMemberID b = au_currentMemberID a"
    using assms(4) by (auto simp: retryPendingStart_def Let_def split: option.splits if_splits prod.splits)
  have "tokAt g b (At i)" using T sets_cong [OF b(1)] b(3-5) by (auto simp: cursorAt_def live_def)
  with b(1,2) assms(2) show ?thesis by (intro quiet_leaves [of g b a "At i"]) simp_all
qed

section \<open>Lives\<close>

text \<open>One write of the store, with the members it starts.\<close>

inductive autoStep :: "nat \<Rightarrow> Automation \<Rightarrow> string list \<Rightarrow> Automation \<Rightarrow> bool" for n where
  as_step: "au_status a = AutomationActive \<or> au_status a = AutomationPaused \<Longrightarrow> terminalEnd (si_end inp) \<Longrightarrow>
    step n a inp snap = Some (Stepped b eff) \<Longrightarrow> autoStep n a (effStarts eff) (normalizeActiveCursors b)"
| as_start: "automationMember a i = Some mem \<Longrightarrow> startPending a mem = PendingRetry \<Longrightarrow>
    retryPendingStart i name status v now a = Some (RetryStart b s) \<Longrightarrow> autoStep n a [ms_memberID s] (normalizeActiveCursors b)"
| as_gated: "retryPendingStart i name status v now a = Some (RetryGated b be) \<Longrightarrow> autoStep n a [] (normalizeActiveCursors b)"
| as_blocked: "retryPendingStart i name status v now a = Some (RetryBlocked b reason) \<Longrightarrow> autoStep n a [] (normalizeActiveCursors b)"
| as_pause: "PauseAutomation actor now a = Inr b \<Longrightarrow> autoStep n a [] (normalizeActiveCursors b)"
| as_resume: "ResumeAutomation verdictFor actor now a = Inr b \<Longrightarrow> autoStep n a [] (normalizeActiveCursors b)"
| as_cancel: "cancelAutomation can actor req inFlight now a = Inr (b, ends) \<Longrightarrow> autoStep n a [] (normalizeActiveCursors b)"
| as_skip: "SkipMember n i edge actor snap now a = Some (Inr (b, eff)) \<Longrightarrow> autoStep n a (effStarts eff) (normalizeActiveCursors b)"

inductive lifeOf :: "nat \<Rightarrow> Automation \<Rightarrow> string list \<Rightarrow> Automation \<Rightarrow> bool" for n d where
  life_start: "activate n actor snap now d = Some (Inr (b, eff)) \<Longrightarrow> lifeOf n d (effStarts eff) (normalizeActiveCursors b)"
| life_step: "lifeOf n d ss a \<Longrightarrow> autoStep n a s b \<Longrightarrow> lifeOf n d (ss @ s) b"

lemma autoStep_leaves:
  assumes "autoStep n a ss b" "sound g" "sameShape g a" "tokAt g a p" "length (au_members g) < n"
  shows "stepLeaves g a {} b ss"
  using assms(1)
proof cases
  case (as_step inp snap b' eff)
  then have "live a" by (simp add: live_def)
  from step_leaves [OF assms(2-4) this as_step(4) assms(5), of snap] as_step show ?thesis by (auto intro: stepLeaves_normalize)
next
  case (as_start i mem name status v now b' s)
  then have "memberKind mem = MemberKindPRD" by (auto simp: startPending_def split: if_splits)
  with as_start show ?thesis using retryStart_leaves [OF assms(2-4)] by (auto intro!: stepLeaves_normalize)
next
  case as_gated
  then show ?thesis using retryGated_leaves [OF assms(2-4)] by (auto intro!: stepLeaves_normalize)
next
  case as_blocked
  then show ?thesis using retryBlocked_leaves [OF assms(2-4)] by (auto intro!: stepLeaves_normalize)
next
  case as_pause
  then show ?thesis using pause_leaves [OF assms(3,4)] by (auto intro!: stepLeaves_normalize)
next
  case as_resume
  then show ?thesis using resume_leaves [OF assms(3,4)] by (auto intro!: stepLeaves_normalize)
next
  case as_cancel
  then show ?thesis using cancel_leaves [OF assms(3)] by (auto intro!: stepLeaves_normalize)
next
  case as_skip
  then show ?thesis using skip_leaves [OF assms(2-5)] by (auto intro!: stepLeaves_normalize)
qed

section \<open>From a fresh draft\<close>

definition freshDraft :: "Automation \<Rightarrow> bool" where
  "freshDraft d \<longleftrightarrow> au_status d = AutomationDraft \<and> list_all memberUnstarted (au_members d) \<and> au_activeCursors d = [] \<and> au_budgetState d = None"

definition runnable :: "(Automation \<Rightarrow> string option) \<Rightarrow> Automation \<Rightarrow> bool" where
  "runnable settings d \<longleftrightarrow> freshDraft d \<and> validateAutomation settings (d\<lparr>au_status := AutomationActive\<rparr>) = None \<and> edgesAvoidBranches d"

lemma runnable_sound: "runnable settings d \<Longrightarrow> sound (d\<lparr>au_status := AutomationActive\<rparr>)"
  by (rule validated_sound) (auto simp: runnable_def edgesAvoidBranches_def branchIDs_def)

lemma validated_entry:
  assumes "validateAutomation settings g = None" "au_status g \<noteq> AutomationDraft" "sound g" "memberByID g (au_entryMemberID g) = Some m"
  shows "au_entryMemberID g \<in> entrants g"
proof -
  let ?e = "au_entryMemberID g"
  have mem: "m \<in> set (au_members g)" "mb_id m = ?e" "?e \<noteq> []"
    using memberByID_SomeD [OF assms(4)] sound_not_Nil [OF assms(3,4)] by auto
  have v: "validateEntry g = None" "validateShape g = None"
    using assms(1) by (auto simp: validateAutomation_def split: if_splits AutomationStatus.splits)
  have p: "validateForkJoinPairing g = None" and unr: "automationUnreachable g = []"
    using v(2) assms(2) mem(1) by (auto simp: validateShape_def Let_def split: option.splits if_splits)
  have "memberKind m \<noteq> MemberKindJoin" using v(1) assms(4) mem(3) by (auto simp: validateEntry_def split: if_splits)
  moreover have "?e \<notin> branchIDs g"
  proof
    assume "?e \<in> branchIDs g"
    then obtain j where j: "j \<in> set (au_members g)" "memberKind j = MemberKindJoin" "?e \<in> set (mb_joinMembers j)" by (auto simp: branchIDs_def)
    have "length (forksOf g j) = 1" using p j by (auto simp: validateForkJoinPairing_def split: if_splits)
    then obtain f where f: "f \<in> set (au_members g)" "memberKind f = MemberKindFork" "sameMemberSet (mb_forkMembers f) (mb_joinMembers j)"
      using find_filter unfolding forksOf_def by blast
    have byf: "memberByID g (mb_id f) = Some f" using sound_byID [OF assms(3) f(1)] .
    obtain j' where "distinct (mb_forkMembers f)" "set (mb_forkMembers f) \<subseteq> below g (mb_id f)"
      using sound_fork [OF assms(3) byf f(2)] by metis
    with sameMemberSet_set [OF f(3)] j(3) have eb: "?e \<in> below g (mb_id f)" by auto
    have "sort (filter (\<lambda>i. (?e, i) \<notin> (succRel g)\<^sup>*) (map mb_id (au_members g))) = []"
      using unr mem(3) by (simp add: automationUnreachable_def Let_def reachLoop_exact del: reachLoop.simps)
    then have "(?e, mb_id f) \<in> (succRel g)\<^sup>*" using f(1) by (auto simp: sort_Nil_iff filter_empty_conv)
    with eb have "?e \<in> below g ?e" by (auto simp: below_def)
    with below_irrefl [OF assms(3)] show False by blast
  qed
  ultimately show ?thesis using mem by (auto simp: entrants_def intro!: image_eqI [of _ mb_id m])
qed

lemma fresh_unstarted: "freshDraft d \<Longrightarrow> memberByID d i = Some m \<Longrightarrow> i \<in> unstarted d"
  using memberByID_SomeD [of d i m] unstarted_member [of d i m] by (auto simp: freshDraft_def list_all_iff)

lemma fresh_running: "freshDraft d \<Longrightarrow> runningIDs d = {}"
  using memberByID_SomeD [of d] by (fastforce simp: freshDraft_def list_all_iff runningIDs_def memStatus_def memberUnstarted_def)

lemma activate_leaves:
  assumes "runnable settings d" "length (au_members d) < n"
  shows "\<exists>r. activate n actor snap now d = Some r \<and>
    (\<forall>b eff. r = Inr (b, eff) \<longrightarrow> stepLeaves (d\<lparr>au_status := AutomationActive\<rparr>) d {} b (effStarts eff))"
proof (cases "automationMember d (au_entryMemberID d)")
  case None
  then show ?thesis by (simp add: activate_def)
next
  case (Some m)
  let ?g = "d\<lparr>au_status := AutomationActive\<rparr>" and ?e = "au_entryMemberID d"
  let ?a = "controlNote ''activate'' (orActor actor) now (NoteText (''activated by '' @ orActor actor)) (d\<lparr>au_status := AutomationActive, au_startedAt := Some now\<rparr>)"
  note S = runnable_sound [OF assms(1)]
  have F: "freshDraft d" and V: "validateAutomation settings ?g = None" using assms(1) by (auto simp: runnable_def)
  have mem: "memberByID d ?e = Some m" "?e \<noteq> []" using Some by (auto simp: automationMember_def split: if_splits)
  have same: "memberByID ?g = memberByID d" "memberByID ?a = memberByID d" "memStatus ?a = memStatus d" "sameShape ?g ?a" "automationMember ?a = automationMember d"
    by (simp_all add: fun_eq_iff memberByID_def memStatus_def sameShape_def automationMember_def)
  have en: "?e \<in> entrants ?g" using validated_entry [OF V _ S, of m] mem(1) same(1) by simp
  have fresh: "insert ?e (below ?g ?e) \<subseteq> unstarted d"
  proof
    fix x assume "x \<in> insert ?e (below ?g ?e)"
    then have "x \<in> mb_id ` set (au_members ?g)"
      using sound_target [OF S] en by (auto simp: below_def entrants_def elim: tranclE)
    then obtain y where "memberByID d x = Some y" using sound_byID [OF S] same(1) by auto
    then show "x \<in> unstarted d" by (rule fresh_unstarted [OF F])
  qed
  let ?st = "newStepper ?a snap now []"
  have rd: "ready ?g (unstarted d - {}) (openWork d - {}) ?e ?st"
    using en fresh F fresh_running [OF F] sets_cong [OF same(3)] same(4)
    by (auto simp: ready_def noCursor_def live_def budgetBlocked_def freshDraft_def openWork_def)
  have "?e \<in> mb_id ` set (au_members ?g)" using en by (auto simp: entrants_def)
  then have dep: "depth ?g ?e \<le> n" using depth_le [OF S, of ?e] assms(2) by simp
  have "memberByID (sp_a ?st) ?e = Some m" using mem(1) same(2) by simp
  from enter_settled [OF S follow_follows [OF S] rd mem(2) this dep] obtain st where
    st: "enter (follow n) m ?st = Some st" "settled ?g (unstarted d - {}) (openWork d - {}) st" by blast
  have "activate n actor snap now d = Some (Inr (sp_a (finalize st), sp_eff (finalize st)))"
    using F Some st(1) same(5) by (simp add: activate_def Let_def freshDraft_def)
  with settled_leaves [OF st(2)] show ?thesis by simp
qed

section \<open>Nothing is started twice\<close>

text \<open>A store whose writes start only what is fresh, and after which that is no longer fresh, starts nothing twice.\<close>

locale start_once =
  fixes inv :: "'s \<Rightarrow> bool" and fresh :: "'s \<Rightarrow> 'i set" and wr :: "'s \<Rightarrow> 'i list \<Rightarrow> 's \<Rightarrow> bool"
  assumes starts_fresh: "inv s \<Longrightarrow> wr s xs t \<Longrightarrow> inv t \<and> distinct xs \<and> set xs \<subseteq> fresh s - fresh t \<and> fresh t \<subseteq> fresh s"
begin

lemma extend:
  assumes "inv s" "wr s xs t" "distinct ys" "set ys \<inter> fresh s = {}"
  shows "inv t \<and> distinct (ys @ xs) \<and> set (ys @ xs) \<inter> fresh t = {}"
  using starts_fresh [OF assms(1,2)] assms(3,4) by auto

end

definition carriesToken :: "Automation \<times> nat \<times> Automation \<Rightarrow> bool" where
  "carriesToken = (\<lambda>(g, n, a). sound g \<and> length (au_members g) < n \<and> sameShape g a \<and> (\<exists>p. tokAt g a p))"

definition storeWrite :: "Automation \<times> nat \<times> Automation \<Rightarrow> string list \<Rightarrow> Automation \<times> nat \<times> Automation \<Rightarrow> bool" where
  "storeWrite = (\<lambda>(g, n, a) ss (g', n', b). g' = g \<and> n' = n \<and> autoStep n a ss b)"

interpretation au: start_once carriesToken "\<lambda>(g, n, a). unstarted a" storeWrite
proof
  fix s xs t assume "carriesToken s" "storeWrite s xs t"
  then obtain g n a b p where st: "s = (g, n, a)" "t = (g, n, b)" and C: "sound g" "length (au_members g) < n" "sameShape g a" "tokAt g a p"
      and W: "autoStep n a xs b"
    by (auto simp: carriesToken_def storeWrite_def)
  have "stepLeaves g a {} b xs" using autoStep_leaves [OF W C(1,3,4,2)] .
  then show "carriesToken t \<and> distinct xs \<and> set xs \<subseteq> (case s of (g, n, a) \<Rightarrow> unstarted a) - (case t of (g, n, a) \<Rightarrow> unstarted a)
      \<and> (case t of (g, n, a) \<Rightarrow> unstarted a) \<subseteq> (case s of (g, n, a) \<Rightarrow> unstarted a)"
    using C(1,2) running_started [of b] by (auto simp: st stepLeaves_def carriesToken_def)
qed

lemma life_facts:
  assumes "lifeOf n d ss a" "runnable settings d" "length (au_members d) < n"
  shows "sameShape (d\<lparr>au_status := AutomationActive\<rparr>) a \<and> (\<exists>p. tokAt (d\<lparr>au_status := AutomationActive\<rparr>) a p) \<and> distinct ss \<and> set ss \<inter> unstarted a = {}
    \<and> set ss \<subseteq> workIDs d"
  using assms(1)
proof induction
  case (life_start actor snap now b eff)
  let ?g = "d\<lparr>au_status := AutomationActive\<rparr>"
  from activate_leaves [OF assms(2,3), of actor snap now] life_start
  have "stepLeaves ?g d {} (normalizeActiveCursors b) (effStarts eff)" by (auto intro: stepLeaves_normalize)
  then show ?case using running_started [of "normalizeActiveCursors b"] by (auto simp: stepLeaves_def workIDs_def memberByID_def)
next
  case (life_step ss a s b)
  let ?g = "d\<lparr>au_status := AutomationActive\<rparr>"
  have C: "carriesToken (?g, n, a)" and W: "storeWrite (?g, n, a) s (?g, n, b)"
    using life_step runnable_sound [OF assms(2)] assms(3) by (auto simp: carriesToken_def storeWrite_def)
  obtain p where p: "tokAt ?g a p" and shp: "sameShape ?g a" using life_step.IH by blast
  have "stepLeaves ?g a {} b s"
    using autoStep_leaves [OF life_step.hyps(2) runnable_sound [OF assms(2)] shp p] assms(3) by simp
  then have "set s \<subseteq> workIDs d" by (auto simp: stepLeaves_def workIDs_def memberByID_def)
  with au.extend [OF C W] life_step.IH show ?case by (auto simp: carriesToken_def)
qed

end
