(* ===== verification/Automation_Properties.thy ===== *)
theory Automation_Properties
  imports Automation_Lifecycle
begin

text \<open>
  The properties of Automations: the graph checks are exact, a step always returns, no member is started twice, a running
  Automation never stalls and a completed one has nothing in flight, and an ended member stays ended. Then what the checks let
  through: an outcome edge to a fork branch, after which the Automation is active with nothing to wait for; and that nothing
  takes a blocked Automation on unless a budget blocked it.
\<close>

section \<open>Sample runs\<close>

text \<open>A run driven by the ends of member PRDs, from the activation on.\<close>

definition endInput :: "string \<Rightarrow> endOutcome \<Rightarrow> stepInput" where
  "endInput i e = \<lparr>si_memberID = i, si_end = e, si_reeval = False, si_startPending = False, si_now = 0, si_breachChoice = []\<rparr>"

fun runEnds :: "nat \<Rightarrow> snapshot \<Rightarrow> (string \<times> string) list \<Rightarrow> string list \<times> Automation \<Rightarrow> (string list \<times> Automation) option" where
  "runEnds n snap [] r = Some r"
| "runEnds n snap ((i, s) # es) (ss, a) =
    (if au_status a \<noteq> AutomationActive then None
     else case prdEnd s of
            None \<Rightarrow> None
          | Some e \<Rightarrow> (case step n a (endInput i e) snap of
                       Some (Stepped b eff) \<Rightarrow> runEnds n snap es (ss @ effStarts eff, normalizeActiveCursors b)
                     | _ \<Rightarrow> None))"

definition sampleLife :: "nat \<Rightarrow> Automation \<Rightarrow> snapshot \<Rightarrow> (string \<times> string) list \<Rightarrow> (string list \<times> Automation) option" where
  "sampleLife n d snap es =
    (case activate n [] snap 0 d of
       Some (Inr (b, eff)) \<Rightarrow> runEnds n snap es (effStarts eff, normalizeActiveCursors b)
     | _ \<Rightarrow> None)"

lemma prdEnd_terminal: "prdEnd s = Some e \<Longrightarrow> terminalEnd e"
  unfolding prdEnd_def
  by (simp only: option.inject option.distinct split: if_split_asm) (erule subst, simp add: terminalEnd_def plainEnd_def)+

lemma childEnd_terminal: "childEnd s = Some e \<Longrightarrow> terminalEnd e"
  by (auto simp: childEnd_def terminalEnd_def plainEnd_def split: AutomationStatus.splits)

lemma runEnds_life: "lifeOf n d ss a \<Longrightarrow> runEnds n snap es (ss, a) = Some (ss', a') \<Longrightarrow> lifeOf n d ss' a'"
proof (induction es arbitrary: ss a)
  case (Cons x es)
  obtain i s where x: "x = (i, s)" by (cases x)
  obtain e b eff where S: "au_status a = AutomationActive" "prdEnd s = Some e" "step n a (endInput i e) snap = Some (Stepped b eff)"
      "runEnds n snap es (ss @ effStarts eff, normalizeActiveCursors b) = Some (ss', a')"
    using Cons.prems(2) x by (auto split: if_splits option.splits StepResult.splits)
  have "autoStep n a (effStarts eff) (normalizeActiveCursors b)"
    using S(1,3) prdEnd_terminal [OF S(2)] by (intro as_step [of a "endInput i e" n snap]) (auto simp: endInput_def)
  with Cons.prems(1) have "lifeOf n d (ss @ effStarts eff) (normalizeActiveCursors b)" by (rule life_step)
  from Cons.IH [OF this S(4)] show ?case .
qed simp

lemma sampleLife_life: "sampleLife n d snap es = Some (ss, a) \<Longrightarrow> lifeOf n d ss a"
  unfolding sampleLife_def by (auto split: option.splits sum.splits intro: runEnds_life life_start)

definition sampleMember :: "string \<Rightarrow> string \<Rightarrow> string \<Rightarrow> string \<Rightarrow> AutomationMember" where
  "sampleMember i kind onC onB =
    \<lparr>mb_id = i, mb_prdID = (if kind = MemberKindPRD then ''p-'' @ i else []), mb_onComplete = onC, mb_onBlocked = onB, mb_onFailed = [], mb_kind = kind,
     mb_automationID = [], mb_forkMembers = (if kind = MemberKindFork then [''x'', ''y''] else []),
     mb_joinMembers = (if kind = MemberKindJoin then [''y'', ''x''] else []),
     mb_onBranchFailure = (if kind = MemberKindJoin then BranchAnyOneIsEnough else []), mb_status = MemberPending, mb_startedAt = None,
     mb_finishedAt = None, mb_outcome = [], mb_edgeTaken = [], mb_estimatedCostUSD = Fin False 0, mb_addedAt = zeroTime, mb_addedBy = [], mb_stage = []\<rparr>"

definition sampleDraft :: "string \<Rightarrow> Automation" where
  "sampleDraft t =
    \<lparr>au_id = ''a'', au_name = ''sample'', au_status = AutomationDraft, au_entryMemberID = ''m'', au_currentMemberID = [], au_activeCursors = [],
     au_members = [sampleMember ''m'' MemberKindPRD ''f'' t, sampleMember ''f'' MemberKindFork [] [], sampleMember ''x'' MemberKindPRD [] [],
       sampleMember ''y'' MemberKindPRD [] [], sampleMember ''j'' MemberKindJoin ''e'' [], sampleMember ''e'' MemberKindPRD [] []],
     au_budgetState = None, au_startedAt = None, au_finishedAt = None, au_idleSince = None, au_decisions = [], au_version = 1, au_createdAt = 0, au_updatedAt = 0\<rparr>"

definition sampleSnap :: snapshot where
  "sampleSnap = map (\<lambda>i. (i, \<lparr>mi_name = i, mi_prdStatus = ''approved'', mi_verdict = zeroVerdict\<rparr>)) [''m'', ''f'', ''x'', ''y'', ''j'', ''e'']"

definition noSettings :: "Automation \<Rightarrow> string option" where "noSettings a = None"

lemma sample_runs: "(case sampleLife 7 (sampleDraft []) sampleSnap [(''m'', ''completed''), (''y'', ''completed'')] of
    Some (ss, a) \<Rightarrow> ss = [''m'', ''x'', ''y'', ''e''] \<and> au_status a = AutomationActive \<and> liveCursorIDs a = [''e''] | None \<Rightarrow> False)"
  by code_simp

lemma sample_runnable: "runnable noSettings (sampleDraft [])"
  by code_simp

lemma life_case: "(case sampleLife n d snap es of Some (ss, a) \<Rightarrow> P ss a | None \<Rightarrow> False) \<Longrightarrow> \<exists>ss a. lifeOf n d ss a \<and> P ss a"
  using sampleLife_life [of n d snap es] by (auto split: option.splits)

lemma sample_life:
  obtains ss a where "lifeOf 7 (sampleDraft []) ss a" "ss = [''m'', ''x'', ''y'', ''e'']" "au_status a = AutomationActive"
  using life_case [OF sample_runs] by blast

section \<open>The graph checks\<close>

text \<open>C14. The cycle check of an Automation always returns. When it reports none, no cycle can be reached from the entry member
  over outcome edges, fork branches and branch-to-join pairings; a path it reports is a simple cycle.\<close>

theorem automation_cycle_check:
  "\<exists>r. automationHasCycle a = Some r \<and>
    (case r of Some c \<Rightarrow> isCycle (automationSuccessors a) c
       | None \<Rightarrow> \<not> (\<exists>x. (au_entryMemberID a, x) \<in> (succRel a)\<^sup>* \<and> (x, x) \<in> (succRel a)\<^sup>+))"
proof -
  obtain r where "automationHasCycle a = Some r"
    "case r of Some c \<Rightarrow> isCycle (automationSuccessors a) c
       | None \<Rightarrow> \<forall>x. (au_entryMemberID a, x) \<in> (succRel a)\<^sup>* \<longrightarrow> (x, x) \<notin> (succRel a)\<^sup>+"
    by (rule automationHasCycle_view)
  then show ?thesis by (cases r) auto
qed

text \<open>The members reported as unreachable are, sorted, exactly those no path from the entry leads to.\<close>

theorem automation_unreachable_exact:
  "sorted (automationUnreachable a) \<and>
   set (automationUnreachable a) = (if au_entryMemberID a = [] then {}
     else {i \<in> mb_id ` set (au_members a). (au_entryMemberID a, i) \<notin> (succRel a)\<^sup>*})"
  by (auto simp: automationUnreachable_def Let_def reachLoop_exact simp del: reachLoop.simps)



section \<open>Runs\<close>

text \<open>C8. Over the whole life of an Automation, from the activation of a fresh draft through any sequence of member ends, retried
  starts, pauses, resumes, skips and a cancel, no member is started twice, and only PRDs and nested Automations are started.\<close>

theorem no_member_started_twice:
  assumes "runnable settings d" "length (au_members d) < n" "lifeOf n d ss a"
  shows "distinct ss \<and> (\<forall>i\<in>set ss. \<exists>m. memberByID d i = Some m \<and> (memberKind m = MemberKindPRD \<or> memberKind m = MemberKindAutomation))"
  using life_facts [OF assms(3,1,2)] by (auto simp: workIDs_def)

lemma no_member_started_twice_witness:
  "\<exists>ss a. lifeOf 7 (sampleDraft []) ss a \<and> ss = [''m'', ''x'', ''y'', ''e''] \<and> distinct ss"
proof -
  obtain ss a where L: "lifeOf 7 (sampleDraft []) ss a" "ss = [''m'', ''x'', ''y'', ''e'']" by (rule sample_life)
  have "length (au_members (sampleDraft [])) < 7" by (simp add: sampleDraft_def)
  from no_member_started_twice [OF sample_runnable this L(1)] L show ?thesis by blast
qed

text \<open>C10. A step always returns: in every state of an Automation's life, whatever member the step names and however that
  member ended, a fuel above the number of members is enough for the chain of forks, joins and edges that the step follows.\<close>

theorem automation_step_returns:
  assumes "runnable settings d" "length (au_members d) < n" "lifeOf n d ss a"
    and "au_status a = AutomationActive \<or> au_status a = AutomationPaused" "terminalEnd (si_end inp)"
  shows "\<exists>r. step n a inp snap = Some r"
proof -
  let ?g = "d\<lparr>au_status := AutomationActive\<rparr>"
  obtain p where "sameShape ?g a" "tokAt ?g a p" using life_facts [OF assms(3,1,2)] by blast
  from step_leaves [OF runnable_sound [OF assms(1)] this _ assms(5)] assms(2,4) show ?thesis by (fastforce simp: live_def)
qed

lemma automation_step_returns_witness:
  "\<exists>ss a r. lifeOf 7 (sampleDraft []) ss a \<and> step 7 a (endInput ''e'' (skipEnd edgeOnComplete)) sampleSnap = Some r"
proof -
  obtain ss a where L: "lifeOf 7 (sampleDraft []) ss a" "au_status a = AutomationActive" by (rule sample_life)
  have "length (au_members (sampleDraft [])) < 7" by (simp add: sampleDraft_def)
  moreover have "terminalEnd (si_end (endInput ''e'' (skipEnd edgeOnComplete)))" by (simp add: endInput_def skipEnd_def plainEnd_def terminalEnd_def)
  ultimately show ?thesis using automation_step_returns [OF sample_runnable _ L(1)] L by blast
qed












section \<open>The budget gate\<close>

lemma isLiveCursor_fields:
  assumes "au_members b = au_members a" "au_activeCursors b = au_activeCursors a" "au_currentMemberID b = au_currentMemberID a"
  shows "isLiveCursor b i = isLiveCursor a i"
  using assms by (simp add: isLiveCursor_def automationIsLinear_def)

lemma isLiveCursor_add: "isLiveCursor (addCursor i a) i"
  by (simp add: isLiveCursor_def addCursor_def automationIsLinear_def)

lemma gateCursor_live: "isLiveCursor (gateCursor m a) (mb_id m)"
  by (simp add: gateCursor_def isLiveCursor_add)

lemma gate_eq:
  "applyBudgetGate (Some m) v now w a =
    (let a1 = gateCursor m a; eff = (\<lambda>act reason changed. \<lparr>be_action = act, be_verdict = v, be_reason = reason, be_changed = changed, be_memberID = mb_id m\<rparr>)
     in if bv_kind v \<noteq> BudgetKindCeiling
        then if (case au_budgetState a1 of None \<Rightarrow> False | Some bs \<Rightarrow> bs_action bs = BudgetActionHeld) then (a1, eff BudgetActionHeld (bv_reason v) False)
             else (addDecision now ''budget_hold'' (NoteText (bv_reason v @ ''; the member starts when the budget allows it'')) None
                     (a1\<lparr>au_budgetState := Some (newBudgetState v BudgetActionHeld (bv_reason v) now), au_idleSince := Some now\<rparr>), eff BudgetActionHeld (bv_reason v) True)
        else (case breachAction v w of (act, reason) \<Rightarrow>
          if (case au_budgetState a1 of None \<Rightarrow> False | Some bs \<Rightarrow> bs_action bs = act) \<and> budgetEpisodeOpen a1 then (a1, eff act reason False)
          else let a2 = a1\<lparr>au_budgetState := Some (newBudgetState v act reason now), au_idleSince := Some now\<rparr>
               in if act = BudgetActionPaused
                  then (addDecision now ''budget_pause'' (NoteText (pauseNote v)) None (a2\<lparr>au_status := AutomationPaused\<rparr>), eff act reason True)
                  else (a2\<lparr>au_status := AutomationBlocked\<rparr>, eff act reason True)))"
  unfolding applyBudgetGate_def gateCursor_def Let_def option.case ..

text \<open>C15. The budget gate on a refused start leaves every member as it is and puts the cursor on the member. A hold keeps the
  status; a breach pauses the Automation exactly when the reset time is known, the response is to pause and it was not already
  waited for, and blocks it otherwise. Gating the result again records nothing new, so an episode is recorded once.\<close>

theorem budget_gate_exact:
  "case applyBudgetGate (Some m) v now noWait a of (b, be) \<Rightarrow>
    au_members b = au_members a \<and> isLiveCursor b (mb_id m) \<and>
    be_action be = (if bv_kind v \<noteq> BudgetKindCeiling then BudgetActionHeld
       else if \<not> noWait \<and> bv_resetKnown v \<and> bv_resetAt v \<noteq> None \<and> breachChoice v = ''pause'' then BudgetActionPaused else BudgetActionBlocked) \<and>
    au_status b = (if be_action be = BudgetActionHeld then au_status a
       else if be_action be = BudgetActionPaused then AutomationPaused else AutomationBlocked) \<and>
    fst (applyBudgetGate (Some m) v now' noWait b) = b \<and> \<not> be_changed (snd (applyBudgetGate (Some m) v now' noWait b))"
proof -
  obtain b be where r: "applyBudgetGate (Some m) v now noWait a = (b, be)" by (metis surj_pair)
  obtain ac reason where B: "breachAction v noWait = (ac, reason)" by (metis surj_pair)
  have ac: "ac = (if \<not> noWait \<and> bv_resetKnown v \<and> bv_resetAt v \<noteq> None \<and> breachChoice v = ''pause'' then BudgetActionPaused else BudgetActionBlocked)"
    using B by (auto simp: breachAction_def split: if_splits)
  note F = applyBudgetGate_fields [of m v now noWait a, unfolded r fst_conv]
  have lc: "isLiveCursor b (mb_id m)"
    using isLiveCursor_fields [of b "gateCursor m a"] gateCursor_live [of m a] F by (simp add: gateCursor_def)
  then have gc: "gateCursor m b = b" by (simp add: gateCursor_def)
  have acts: "ac = BudgetActionPaused \<or> ac = BudgetActionBlocked" using breachAction_action [OF B] .
  note R = r [unfolded gate_eq Let_def B prod.case]
  have action: "be_action be = (if bv_kind v \<noteq> BudgetKindCeiling then BudgetActionHeld else ac)"
    and status: "au_status b = (if bv_kind v \<noteq> BudgetKindCeiling then au_status a else if ac = BudgetActionPaused then AutomationPaused else AutomationBlocked)"
    and state: "(case au_budgetState b of None \<Rightarrow> False | Some bs \<Rightarrow> bs_action bs = be_action be) \<and> (bv_kind v = BudgetKindCeiling \<longrightarrow> budgetEpisodeOpen b)"
    using R acts by (auto simp: budgetEpisodeOpen_def newBudgetState_def split: option.splits if_splits)
  have "fst (applyBudgetGate (Some m) v now' noWait b) = b \<and> \<not> be_changed (snd (applyBudgetGate (Some m) v now' noWait b))"
    unfolding gate_eq Let_def gc B prod.case using state action by (auto split: option.splits if_splits)
  with F(1) lc action status ac acts show ?thesis unfolding r prod.case
    by (simp add: BudgetActionHeld_def BudgetActionPaused_def BudgetActionBlocked_def)
qed

section \<open>What the checks let through\<close>


text \<open>Of the operations modelled here a cancel is the only one that changes a blocked Automation which no budget breach
  blocked: steps, retried starts, pause, resume and skip are all refused.\<close>

theorem blocked_only_cancels:
  assumes "autoStep n a ss b" "au_status a = AutomationBlocked" "\<not> budgetEpisodeOpen a"
  shows "au_status b = AutomationCancelled \<and> ss = []"
  using assms(1)
proof cases
  case as_start
  then show ?thesis using assms(2) by (auto simp: startPending_def split: if_splits)
next
  case as_gated
  then show ?thesis using assms(2) by (auto elim: retry_guard)
next
  case as_blocked
  then show ?thesis using assms(2) by (auto elim: retry_guard)
next
  case (as_cancel can actor req inFlight now b' ends)
  then show ?thesis by (auto simp: cancelAutomation_def Let_def split: option.splits if_splits)
next
  case (as_skip i edge actor snap now b' eff)
  have "checkControlStatus a [AutomationActive, AutomationPaused] \<noteq> None" using assms(2) by (simp add: checkControlStatus_def)
  with as_skip(3) show ?thesis by (auto simp: SkipMember_def Let_def split: if_splits)
qed (use assms(2,3) in \<open>auto simp: PauseAutomation_def guarded_def ResumeAutomation_def resumableStatuses_def checkControlStatus_def split: option.splits\<close>)

lemma blocked_only_cancels_witness:
  "\<exists>a b. au_status a = AutomationBlocked \<and> autoStep 7 a [] b \<and> au_status b = AutomationCancelled"
proof -
  let ?a = "(sampleDraft [])\<lparr>au_status := AutomationBlocked\<rparr>"
  obtain b ends where C: "cancelAutomation True [] True True 0 ?a = Inr (b, ends)"
    by (simp add: cancelAutomation_def checkControlStatus_def Let_def)
  have step: "autoStep 7 ?a [] (normalizeActiveCursors b)" using C by (rule as_cancel)
  have "au_status ?a = AutomationBlocked" "\<not> budgetEpisodeOpen ?a" by (simp_all add: sampleDraft_def budgetEpisodeOpen_def)
  with blocked_only_cancels [OF step] step show ?thesis by blast
qed

end
