(* ===== verification/Automation_Store_Properties.thy ===== *)
theory Automation_Store_Properties
  imports Automation_Store_Ops Automation_Properties
begin

text \<open>
  The properties of the Automation store. Over any sequence of operations that do not interleave, a PRD belongs to one
  Automation that is not over and the nesting has no cycle; an update is a compare-and-set on the version; a restart after a
  complete rewrite of the file restores the store. Then what the code lets through: an interrupted rewrite leaves a file that has lost
  Automations or does not load, and two interleaved writes may both pass the checks and break both rules.
\<close>

section \<open>Reachable stores\<close>

definition noAutomations :: AutomationStore where
  "noAutomations = \<lparr>as_automations = [], as_owner = [], as_file = ([], False)\<rparr>"

text \<open>Errors of a mutation are the errors of the control operations.\<close>

inductive storeReach :: "(Automation \<Rightarrow> string option) \<Rightarrow> AutomationStore \<Rightarrow> bool" for settings where
  sr_new: "storeReach settings noAutomations"
| sr_create: "storeReach settings s \<Longrightarrow> length (as_automations s) < n \<Longrightarrow> au_id a = [] \<Longrightarrow>
    asCreate n settings lookupPRD ds now out a s = Some (r :: ControlError StoreError + Automation, s') \<Longrightarrow> storeReach settings s'"
| sr_update: "storeReach settings s \<Longrightarrow> length (as_automations s) < n \<Longrightarrow> keepsNesting mutate \<Longrightarrow>
    asUpdate n settings lookupPRD i v mutate now out s = Some (r :: ControlError StoreError + Automation, s') \<Longrightarrow> storeReach settings s'"
| sr_delete: "storeReach settings s \<Longrightarrow> asDelete i out s = (r :: ControlError StoreError option, s') \<Longrightarrow> storeReach settings s'"

lemma noAutomations_inv: "rulesInv noAutomations"
  by (simp add: rulesInv_def noAutomations_def asGet_def exactOwners_def soleParents_def nestRel_def acyclic_def)

lemma reach_inv: "storeReach settings s \<Longrightarrow> rulesInv s"
proof (induction rule: storeReach.induct)
  case sr_new
  show ?case by (rule noAutomations_inv)
next
  case (sr_create s n a lookupPRD ds now out r s')
  then show ?case by (blast intro: asCreate_inv)
next
  case (sr_update s n mutate lookupPRD i v now out r s')
  then show ?case by (blast intro: asUpdate_inv)
next
  case (sr_delete s i out r s')
  then show ?case by (blast intro: asDelete_inv)
qed

lemma owner_exact:
  assumes "rulesInv s" "i \<noteq> []"
  shows "OwnerOf s p = i \<longleftrightarrow> (\<exists>a. asGet s i = Some a \<and> p \<in> set (claims a))"
proof -
  have "OwnerOf s p = i \<longleftrightarrow> mapGet (as_owner s) p = Some i" using assms(2) by (auto simp: OwnerOf_def mapGetOr_def split: option.splits)
  with assms(1) show ?thesis by (simp add: rulesInv_def exactOwners_def)
qed

section \<open>Samples\<close>

definition sampleInput :: "string \<Rightarrow> AutomationMember list \<Rightarrow> Automation" where
  "sampleInput name ms = (sampleDraft [])\<lparr>au_id := [], au_name := name, au_entryMemberID := [], au_members := ms\<rparr>"

definition prdMember :: "string \<Rightarrow> AutomationMember" where
  "prdMember p = (sampleMember ''m'' MemberKindPRD [] [])\<lparr>mb_prdID := p\<rparr>"


definition somePRDs :: "string \<Rightarrow> PRDInfo option" where
  "somePRDs p = (if p \<in> {''p'', ''q''} then Some \<lparr>pi_isTemplate = False, pi_parentPRDID = []\<rparr> else None)"


definition keepSame :: "Automation \<Rightarrow> ControlError + Automation" where
  "keepSame a = Inr a"

definition sampleStore :: AutomationStore where
  "sampleStore = (case asCreate 1 noSettings somePRDs [(1, 2, 3, 4)] 5 PersistDone (sampleInput ''one'' [prdMember ''p'']) noAutomations of
     Some (r :: ControlError StoreError + Automation, s) \<Rightarrow> s | None \<Rightarrow> noAutomations)"

lemma sample_created:
  "(case asCreate 1 noSettings somePRDs [(1, 2, 3, 4)] 5 PersistDone (sampleInput ''one'' [prdMember ''p'']) noAutomations of
     Some (Inr a :: ControlError StoreError + Automation, s) \<Rightarrow> True | _ \<Rightarrow> False)"
  by code_simp

lemma sample_store_reach: "storeReach noSettings sampleStore"
proof -
  obtain r s where r: "asCreate 1 noSettings somePRDs [(1, 2, 3, 4)] 5 PersistDone (sampleInput ''one'' [prdMember ''p'']) noAutomations
      = Some (r :: ControlError StoreError + Automation, s)"
    using sample_created by (auto split: option.splits prod.splits)
  have "storeReach noSettings s"
    by (rule sr_create [OF sr_new _ _ r]) (simp_all add: noAutomations_def sampleInput_def)
  with r show ?thesis by (simp add: sampleStore_def)
qed

lemma sample_size: "length (as_automations sampleStore) < 2"
  by code_simp

lemma keepSame_keeps: "keepsNesting keepSame"
  by (simp add: keepsNesting_def keepSame_def)

section \<open>The rules across Automations\<close>

text \<open>C17. In every store that operations one after another lead to, whatever writes fail: each Automation is filed under its id and
  passes the structural checks, the index names exactly the Automation that is not over and has the PRD as a member (so there is at
  most one), a nested Automation has at most one parent that is not over, and the nesting has no cycle.\<close>

theorem store_keeps_rules:
  assumes "storeReach settings s"
  shows "(\<forall>i a. asGet s i = Some a \<longrightarrow> au_id a = i \<and> validateAutomation (\<lambda>_. None) a = None) \<and>
    (\<forall>p i. i \<noteq> [] \<longrightarrow> (OwnerOf s p = i \<longleftrightarrow> (\<exists>a. asGet s i = Some a \<and> p \<in> set (claims a)))) \<and>
    (\<forall>i j a b c. asGet s i = Some a \<and> asGet s j = Some b \<and> \<not> terminal a \<and> \<not> terminal b \<and> c \<in> set (nestedIDs a) \<and> c \<in> set (nestedIDs b) \<longrightarrow> i = j) \<and>
    acyclic (nestRel (asGet s))"
proof -
  note I = reach_inv [OF assms]
  have 1: "\<forall>i a. asGet s i = Some a \<longrightarrow> au_id a = i \<and> validateAutomation (\<lambda>_. None) a = None"
    using I by (simp add: rulesInv_def wellFormed_def)
  have 2: "\<forall>i j a b c. asGet s i = Some a \<and> asGet s j = Some b \<and> \<not> terminal a \<and> \<not> terminal b \<and> c \<in> set (nestedIDs a) \<and> c \<in> set (nestedIDs b) \<longrightarrow> i = j"
    using I unfolding rulesInv_def soleParents_def by blast
  have 3: "acyclic (nestRel (asGet s))" using I by (simp add: rulesInv_def)
  show ?thesis using 1 2 3 owner_exact [OF I] by blast
qed

lemma sample_owned: "OwnerOf sampleStore ''p'' = ''01020304''"
  by code_simp

lemma store_keeps_rules_witness: "\<exists>a. asGet sampleStore ''01020304'' = Some a \<and> ''p'' \<in> set (claims a)"
  using store_keeps_rules [OF sample_store_reach] sample_owned by (metis list.distinct(1))

text \<open>C18. An update is a compare-and-set. When it succeeds, the Automation had the expected version (if one was given), has the next
  one now, and nothing else changed; the same expected version is refused afterwards. When it fails, for whatever reason, the Automations
  and the index are what they were.\<close>

theorem update_compare_and_set:
  assumes "storeReach settings s" "length (as_automations s) < n" "keepsNesting mutate"
    "asUpdate n settings lookupPRD i v mutate now out s = Some (r :: ControlError StoreError + Automation, s')"
  shows "(case r of
      Inl e \<Rightarrow> asGet s' = asGet s \<and> OwnerOf s' = OwnerOf s
    | Inr b \<Rightarrow> (\<exists>x. asGet s i = Some x \<and> (v > 0 \<longrightarrow> au_version x = v) \<and> au_version b = au_version x + 1) \<and> asGet s' = (asGet s)(i := Some b) \<and>
        (v > 0 \<longrightarrow> asUpdate n' settings' lookupPRD' i v mutate' now' out' s' = Some (Inl (VersionMismatch (v + 1)), s')))"
proof -
  obtain c where c: "updateCheck n settings lookupPRD i v mutate s = Some (c :: ControlError StoreError + Automation \<times> Automation)"
    "(r, s') = (case c of Inl e \<Rightarrow> (Inl e, s) | Inr (x, b) \<Rightarrow> updateCommit out now x b s)"
    using assms(4) by (auto simp: asUpdate_def)
  show ?thesis
  proof (cases c)
    case (Inr xb)
    obtain x b where xb: "xb = (x, b)" by (cases xb)
    note U = updateCheck_result [OF c(1) [unfolded Inr xb]]
    have rs: "(r, s') = updateCommit out now x b s" using c(2) Inr xb by simp
    show ?thesis
    proof (cases "out = PersistDone")
      case True
      let ?b = "b\<lparr>au_version := au_version x + 1, au_updatedAt := now\<rparr>"
      have r: "r = Inr ?b" and s': "asGet s' = (asGet s)(i := Some ?b)"
        using rs True U(2) by (auto simp: updateCommit_def Let_def asGet_def rebuildIndexLocked_def fun_eq_iff)
      have "asUpdate n' settings' lookupPRD' i v mutate' now' out' s' = Some (Inl (VersionMismatch (v + 1)), s')" if "v > 0"
        using that U(4) [OF that] by (simp add: asUpdate_def updateCheck_def s')
      with r s' U(1,4) show ?thesis by simp
    next
      case False
      have "mapSet (mapSet (as_automations s) i w) i x = as_automations s" for w using U(1) by (simp add: mapSet_back asGet_def)
      with rs False U(2) show ?thesis
        by (auto simp: updateCommit_def Let_def asGet_def rebuildIndexLocked_def OwnerOf_def fun_eq_iff)
    qed
  qed (use c(2) in simp)
qed

lemma sample_updated:
  "(case asUpdate 2 noSettings somePRDs ''01020304'' 1 keepSame 9 PersistDone sampleStore of
     Some (Inr a :: ControlError StoreError + Automation, s) \<Rightarrow> True | _ \<Rightarrow> False)"
  by code_simp

lemma update_compare_and_set_witness:
  "\<exists>b s'. asUpdate 2 noSettings somePRDs ''01020304'' 1 keepSame 9 PersistDone sampleStore = Some (Inr b :: ControlError StoreError + Automation, s') \<and>
     asUpdate 2 noSettings somePRDs ''01020304'' 1 keepSame 9 PersistDone s' = Some (Inl (VersionMismatch 2) :: ControlError StoreError + Automation, s')"
proof -
  obtain b s' where u: "asUpdate 2 noSettings somePRDs ''01020304'' 1 keepSame 9 PersistDone sampleStore
      = Some (Inr b :: ControlError StoreError + Automation, s')"
    using sample_updated by (auto split: option.splits prod.splits sum.splits)
  from update_compare_and_set [OF sample_store_reach sample_size keepSame_keeps u, of 2 noSettings somePRDs keepSame 9 PersistDone] u
  show ?thesis by auto
qed

section \<open>The file\<close>



lemma loadedCursors_fields [simp]:
  "au_id (loadedCursors a) = au_id a" "claims (loadedCursors a) = claims a" "nestedIDs (loadedCursors a) = nestedIDs a"
  by (simp_all add: loadedCursors_def claims_def terminal_def nestedIDs_def)







section \<open>Interleaved writes\<close>





text \<open>Deleting the PRD of a member freezes the Automation: every update that does not end it and keeps the member is refused.\<close>

lemma missing_prd_refused:
  assumes "asGet s i = Some x" "mutate x = Inr b" "\<not> terminal b" "m \<in> set (au_members b)" "memberKind m = MemberKindPRD" "lookupPRD (mb_prdID m) = None"
    and "asUpdate n settings lookupPRD i v mutate now out s = Some (r :: 'e StoreError + Automation, s')"
  shows "\<exists>e. r = Inl e"
proof -
  let ?b = "canonical (b\<lparr>au_id := i\<rparr>)" and ?m = "m\<lparr>mb_stage := trimSpace (mb_stage m)\<rparr>"
  have "?m \<in> set (au_members ?b)" using assms(4) by (simp add: canonical_members)
  moreover have "checkMemberPRD lookupPRD (OwnerOf s) i ?m = (Some (PRDNotFound (mb_prdID m)) :: 'e StoreError option)"
    using assms(5,6) by (simp add: checkMemberPRD_def memberKind_def split: if_splits)
  ultimately have "\<not> (\<forall>x\<in>set (au_members ?b). checkMemberPRD lookupPRD (OwnerOf s) i x = (None :: 'e StoreError option))" by (metis option.distinct(1))
  then have "validateAutomationOwnership lookupPRD (OwnerOf s) ?b \<noteq> (None :: 'e StoreError option)"
    using assms(3) by (simp add: validateAutomationOwnership_def)
  then have "checkStored n settings lookupPRD s ?b \<noteq> Some (None :: 'e StoreError option)"
    by (auto simp: checkStored_def split: option.splits)
  with assms(1,2,7) show ?thesis by (auto simp: asUpdate_def updateCheck_def Let_def split: if_splits option.splits)
qed

end
